(* ===== verification/Prelude.thy ===== *)
theory Prelude
  imports Main "HOL-Library.Word"
begin

section \<open>Prelude\<close>

text \<open>
  What the components share: the collections of simplification rules the
  component theories declare their facts into, the result codes of
  \<^verbatim>\<open>openML/src/include/ErrorCode.h\<close>, and generic lemmas on lists that are used by
  more than one component.
\<close>

named_theorems field_frames \<open>an operation leaves a field of the state alone\<close>
named_theorems inv_intros \<open>an operation keeps an invariant\<close>

type_synonym oid = nat

definition NULL_OID :: oid where "NULL_OID = 0"

subsection \<open>Result codes\<close>

text \<open>
  The C functions return an \<open>int\<close>: negative is an error.  \<^verbatim>\<open>DB_FAIL\<close> is the macro
  \<^verbatim>\<open>(E_LINE_BASE - __LINE__)\<close>, so its value depends on the line it is used at; the
  model takes that line as an argument.
\<close>

definition DB_SUCCESS :: int where "DB_SUCCESS = 0"
definition DB_FAIL :: "int \<Rightarrow> int" where "DB_FAIL line = - 90000000 - line"
definition DB_E_INVALIDPARAM :: int where "DB_E_INVALIDPARAM = - 3"
definition DB_E_TERMINATED :: int where "DB_E_TERMINATED = - 8"
definition DB_E_UNKNOWNTABLE :: int where "DB_E_UNKNOWNTABLE = - 103"
definition DB_E_OIDPOINTER :: int where "DB_E_OIDPOINTER = - 124"
definition DB_E_DEADLOCKABORT :: int where "DB_E_DEADLOCKABORT = - 200"
definition DB_E_OUTOFLOCKMEMORY :: int where "DB_E_OUTOFLOCKMEMORY = - 205"
definition DB_E_LOCKTIMEOUT :: int where "DB_E_LOCKTIMEOUT = - 206"
definition DB_E_DEADLOCKOPER :: int where "DB_E_DEADLOCKOPER = - 208"
definition DB_E_INVALIDLIKESYNTAX :: int where "DB_E_INVALIDLIKESYNTAX = - 292"
definition DB_E_UNKNOWNTRANSID :: int where "DB_E_UNKNOWNTRANSID = - 402"
definition DB_E_NOMORETRANS :: int where "DB_E_NOMORETRANS = - 404"

lemmas result_codes =
  DB_SUCCESS_def DB_FAIL_def DB_E_INVALIDPARAM_def DB_E_TERMINATED_def
  DB_E_UNKNOWNTABLE_def DB_E_OIDPOINTER_def DB_E_DEADLOCKABORT_def
  DB_E_OUTOFLOCKMEMORY_def DB_E_LOCKTIMEOUT_def DB_E_DEADLOCKOPER_def
  DB_E_INVALIDLIKESYNTAX_def DB_E_UNKNOWNTRANSID_def DB_E_NOMORETRANS_def

subsection \<open>Lists whose elements carry a key\<close>

text \<open>
  The linked lists of the program are walked with a \<^verbatim>\<open>pPrev\<close>/\<^verbatim>\<open>pCurr\<close> pair and
  edited at the first element that matches.  \<open>remove_first\<close>, \<open>update_first\<close> and
  \<open>List.find\<close> are the three walks.
\<close>

fun remove_first :: "('a \<Rightarrow> bool) \<Rightarrow> 'a list \<Rightarrow> 'a list" where
  "remove_first P [] = []"
| "remove_first P (x # xs) = (if P x then xs else x # remove_first P xs)"

fun update_first :: "('a \<Rightarrow> bool) \<Rightarrow> ('a \<Rightarrow> 'a) \<Rightarrow> 'a list \<Rightarrow> 'a list" where
  "update_first P f [] = []"
| "update_first P f (x # xs) = (if P x then f x # xs else x # update_first P f xs)"

lemma set_remove_first_subset: "set (remove_first P xs) \<subseteq> set xs"
  by (induction xs) auto

lemma remove_first_id: "\<forall>x \<in> set xs. \<not> P x \<Longrightarrow> remove_first P xs = xs"
  by (induction xs) auto

lemma length_remove_first:
  "length (remove_first P xs) = (if \<exists>x \<in> set xs. P x then length xs - 1 else length xs)"
  by (induction xs) (auto simp: neq_Nil_conv dest: split_list)

lemma distinct_remove_first:
  "distinct (map k xs) \<Longrightarrow> distinct (map k (remove_first P xs))"
  using set_remove_first_subset by (induction xs) (fastforce split: if_splits)+

lemma set_remove_first_key:
  "distinct (map k xs) \<Longrightarrow> set (remove_first (\<lambda>x. k x = v) xs) = {x \<in> set xs. k x \<noteq> v}"
  by (induction xs) (auto simp: image_iff)

lemma sorted_wrt_remove_first: "sorted_wrt R xs \<Longrightarrow> sorted_wrt R (remove_first P xs)"
  using set_remove_first_subset by (induction xs) (fastforce split: if_splits)+

lemma length_update_first [simp]: "length (update_first P f xs) = length xs"
  by (induction xs) auto

lemma map_key_update_first:
  "(\<And>x. k (f x) = k x) \<Longrightarrow> map k (update_first P f xs) = map k xs"
  by (induction xs) auto

lemma set_update_first_cases:
  "x \<in> set (update_first P f xs) \<Longrightarrow> x \<in> set xs \<or> (\<exists>y \<in> set xs. P y \<and> x = f y)"
  by (induction xs) (auto split: if_splits)

lemma update_first_id: "\<forall>x \<in> set xs. \<not> P x \<Longrightarrow> update_first P f xs = xs"
  by (induction xs) auto

lemma set_update_first_key:
  "distinct (map k xs) \<Longrightarrow>
   set (update_first (\<lambda>x. k x = v) f xs) =
     {x \<in> set xs. k x \<noteq> v} \<union> f ` {x \<in> set xs. k x = v}"
  by (induction xs) (auto simp: image_iff)

lemma find_key_Some:
  "distinct (map k xs) \<Longrightarrow> find (\<lambda>x. k x = v) xs = Some x \<longleftrightarrow> x \<in> set xs \<and> k x = v"
  by (induction xs) (auto simp: image_iff)

lemma find_SomeD: "find P xs = Some x \<Longrightarrow> x \<in> set xs \<and> P x"
  by (induction xs) (auto split: if_splits)

lemma find_key_update_first:
  assumes "\<And>x. k (f x) = k x"
  shows "find (\<lambda>x. k x = w) (update_first (\<lambda>x. k x = v) f xs) =
     (if v = w then map_option f (find (\<lambda>x. k x = v) xs) else find (\<lambda>x. k x = w) xs)"
  using assms by (induction xs) auto

lemma find_key_remove_first:
  "distinct (map k xs) \<Longrightarrow> find (\<lambda>x. k x = w) (remove_first (\<lambda>x. k x = v) xs) =
     (if v = w then None else find (\<lambda>x. k x = w) xs)"
  by (induction xs) (auto simp: find_None_iff image_iff)

subsection \<open>Arithmetic\<close>

lemma mod_pred:
  fixes a m :: int
  assumes "a mod m \<noteq> 0" and "0 < m"
  shows "(a - 1) mod m = a mod m - 1"
proof -
  have "0 \<le> a mod m" "a mod m < m" using assms(2) by simp_all
  with assms(1) have "(a mod m - 1) mod m = a mod m - 1" by simp
  then show ?thesis by (simp add: mod_diff_left_eq)
qed

end
