(* ===== verification/LockModes.thy ===== *)
theory LockModes
  imports Prelude
begin

section \<open>Lock modes (\<^verbatim>\<open>openML/src/server/lock/mdb_LockMgr.c\<close>, lines 31 to 76)\<close>

text \<open>
  The five table lock modes of \<^verbatim>\<open>mdb_define.h\<close> and the two matrices \<^verbatim>\<open>LK_COMP\<close>
  (may a request be granted beside a granted lock?) and \<^verbatim>\<open>LK_CONV\<close> (the mode that
  results when a request meets a mode already held).  The matrices are written out as
  the C tables and read by index; the laws the rest of the lock manager relies on are the
  assumptions of the locale \<open>lock_modes\<close>, which the matrices are shown to satisfy.
\<close>

datatype lockmode = LK_MODE_NO | LK_MODE_SS | LK_MODE_DS | LK_MODE_DX | LK_MODE_SX

abbreviation "LK_NOLOCK \<equiv> LK_MODE_NO"
abbreviation "LK_SCHEMA_SHARED \<equiv> LK_MODE_SS"
abbreviation "LK_SHARED \<equiv> LK_MODE_DS"
abbreviation "LK_EXCLUSIVE \<equiv> LK_MODE_DX"
abbreviation "LK_SCHEMA_EXCLUSIVE \<equiv> LK_MODE_SX"

fun lk_num :: "lockmode \<Rightarrow> nat" where
  "lk_num LK_MODE_NO = 0"
| "lk_num LK_MODE_SS = 1"
| "lk_num LK_MODE_DS = 2"
| "lk_num LK_MODE_DX = 3"
| "lk_num LK_MODE_SX = 4"

definition LK_COMP_table :: "nat list list" where
  "LK_COMP_table = [
    [1, 1, 1, 1, 1],
    [1, 1, 1, 1, 0],
    [1, 1, 1, 0, 0],
    [1, 1, 0, 0, 0],
    [1, 0, 0, 0, 0]]"

definition LK_CONV_table :: "lockmode list list" where
  "LK_CONV_table = [
    [LK_MODE_NO, LK_MODE_SS, LK_MODE_DS, LK_MODE_DX, LK_MODE_SX],
    [LK_MODE_SS, LK_MODE_SS, LK_MODE_DS, LK_MODE_DX, LK_MODE_SX],
    [LK_MODE_DS, LK_MODE_DS, LK_MODE_DS, LK_MODE_DX, LK_MODE_SX],
    [LK_MODE_DX, LK_MODE_DX, LK_MODE_DX, LK_MODE_DX, LK_MODE_SX],
    [LK_MODE_SX, LK_MODE_SX, LK_MODE_SX, LK_MODE_SX, LK_MODE_SX]]"

definition LK_COMP :: "lockmode \<Rightarrow> lockmode \<Rightarrow> bool" where
  "LK_COMP req cur \<longleftrightarrow> LK_COMP_table ! lk_num req ! lk_num cur \<noteq> 0"

definition LK_CONV :: "lockmode \<Rightarrow> lockmode \<Rightarrow> lockmode" where
  "LK_CONV req cur = LK_CONV_table ! lk_num req ! lk_num cur"

subsection \<open>The modes are a chain\<close>

instantiation lockmode :: linorder
begin

definition less_eq_lockmode :: "lockmode \<Rightarrow> lockmode \<Rightarrow> bool" where
  "less_eq_lockmode a b \<longleftrightarrow> lk_num a \<le> lk_num b"

definition less_lockmode :: "lockmode \<Rightarrow> lockmode \<Rightarrow> bool" where
  "less_lockmode a b \<longleftrightarrow> lk_num a < lk_num b"

lemma lk_num_inj: "lk_num a = lk_num b \<longleftrightarrow> a = b"
  by (cases a; cases b) simp_all

instance
  by standard (auto simp: less_eq_lockmode_def less_lockmode_def lk_num_inj)

end

lemma LK_CONV_max: "LK_CONV a b = max a b"
  by (cases a; cases b) (simp_all add: LK_CONV_def LK_CONV_table_def max_def less_eq_lockmode_def)

lemma LK_COMP_num: "LK_COMP a b \<longleftrightarrow> a = LK_MODE_NO \<or> b = LK_MODE_NO \<or> lk_num a + lk_num b \<le> 4"
  by (cases a; cases b) (simp_all add: LK_COMP_def LK_COMP_table_def)

lemma LK_MODE_NO_least [simp]: "LK_MODE_NO \<le> (m :: lockmode)"
  by (simp add: less_eq_lockmode_def)

subsection \<open>The contract of the two matrices\<close>

locale lock_modes =
  fixes comp :: "'m \<Rightarrow> 'm \<Rightarrow> bool"
    and conv :: "'m \<Rightarrow> 'm \<Rightarrow> 'm"
    and no :: 'm
  assumes comp_sym: "comp a b \<Longrightarrow> comp b a"
    and comp_no: "comp a no"
    and comp_conv: "comp a (conv b c) \<longleftrightarrow> comp a b \<and> comp a c"
    and conv_no: "conv a no = a"
begin

lemma comp_commute: "comp a b \<longleftrightarrow> comp b a"
  using comp_sym by blast

text \<open>A request is compatible with the mode a loop of conversions computed iff it is
  compatible with every mode that went into it.\<close>

lemma comp_fold:
  "comp a (foldl (\<lambda>g m. conv m g) g ms) \<longleftrightarrow> comp a g \<and> (\<forall>m \<in> set ms. comp a m)"
  by (induction ms arbitrary: g) (auto simp: comp_conv)

lemma comp_group: "comp a (foldl (\<lambda>g m. conv m g) no ms) \<longleftrightarrow> (\<forall>m \<in> set ms. comp a m)"
  by (simp add: comp_fold comp_no)

lemma comp_conv_left: "comp (conv a b) c \<longleftrightarrow> comp a c \<and> comp b c"
  using comp_commute comp_conv by blast

end

interpretation lk: lock_modes LK_COMP LK_CONV LK_MODE_NO
proof
  fix a b c :: lockmode
  show "LK_COMP a b \<Longrightarrow> LK_COMP b a"
    by (auto simp: LK_COMP_num)
  show "LK_COMP a LK_MODE_NO"
    by (simp add: LK_COMP_num)
  show "LK_COMP a (LK_CONV b c) \<longleftrightarrow> LK_COMP a b \<and> LK_COMP a c"
    by (cases a; cases b; cases c) (simp_all add: LK_COMP_num LK_CONV_max max_def less_eq_lockmode_def)
  show "LK_CONV a LK_MODE_NO = a"
    by (simp add: LK_CONV_max max_def less_eq_lockmode_def) (cases a; simp)
qed

end
