(* ===== verification/TransTable.thy ===== *)
theory TransTable
  imports LockModes
begin

section \<open>The transaction table (\<^verbatim>\<open>openML/src/server/common/mdb_TransMgr.c\<close>)\<close>

text \<open>
  \<^verbatim>\<open>Trans_\<close> is a fixed array of \<^verbatim>\<open>MAX_TRANS\<close> slots; transaction \<open>tid\<close> lives in slot
  \<open>tid mod MAX_TRANS\<close>, and slot 0 is kept for the internal transaction 0.  The array is a
  function from slot numbers; only the slots below \<^verbatim>\<open>MAX_TRANS\<close> are ever used.  The C names that end in an underscore are written
  without it (\<^verbatim>\<open>id_\<close> and \<^verbatim>\<open>visited_\<close> as \<open>tr_id\<close> and \<open>tr_visited\<close>).  Ids are
  the C \<open>int\<close>s; the code only looks ids up that are not negative (a negative id would index
  the array out of bounds).  Mutexes, condition variables, the thread-local current
  transaction id and the process and thread numbers of the owner are left out.
\<close>

definition MAX_TRANS :: int where "MAX_TRANS = 21"
definition MAX_TRANS_ID :: int where "MAX_TRANS_ID = MAX_TRANS * 1000000"

datatype priority = LOWPRIO | MIDPRIO | HIGHPRIO

fun prio_num :: "priority \<Rightarrow> nat" where
  "prio_num LOWPRIO = 0"
| "prio_num MIDPRIO = 1"
| "prio_num HIGHPRIO = 2"

instantiation priority :: linorder
begin

definition less_eq_priority :: "priority \<Rightarrow> priority \<Rightarrow> bool" where
  "less_eq_priority a b \<longleftrightarrow> prio_num a \<le> prio_num b"

definition less_priority :: "priority \<Rightarrow> priority \<Rightarrow> bool" where
  "less_priority a b \<longleftrightarrow> prio_num a < prio_num b"

lemma prio_num_inj: "prio_num a = prio_num b \<longleftrightarrow> a = b"
  by (cases a; cases b) simp_all

instance
  by standard (auto simp: less_eq_priority_def less_priority_def prio_num_inj)

end

abbreviation "TRANS_STATE_BEGIN \<equiv> 1 :: nat"
abbreviation "TRANS_STATE_COMMIT \<equiv> 2 :: nat"
abbreviation "TRANS_STATE_ABORT \<equiv> 3 :: nat"
abbreviation "TRANS_STATE_PARTIAL_ROLLBACK \<equiv> 4 :: nat"

record LSN =
  File_No :: int
  Offset :: int


record rec_lock =
  recids :: "oid list"

record table_lock =
  tableid :: oid
  tl_lock_mode :: lockmode
  rec_lock_list :: "rec_lock list"

datatype lock_granul = LK_GRANUL_ROW | LK_GRANUL_TABLE

record trans_lock_t =
  lock_granul :: lock_granul
  table_lock_count :: int
  table_lock_list :: "table_lock list"
  tl_transid :: int
  req_tableid :: oid
  req_rec_oid :: oid

record trans =
  tr_id :: int
  prio :: priority
  trans_lock :: trans_lock_t
  clientType :: int
  connid :: int
  fRU :: bool
  fLogging :: bool
  fReadOnly :: bool
  fDeleted :: bool
  fBeginLogged :: bool
  fddl :: bool
  fUsed :: bool
  tr_visited :: bool
  First_LSN :: LSN
  Last_LSN :: LSN
  UndoNextLSN :: LSN
  Implicit_SaveLSN :: LSN
  timeout :: bool
  aborted :: bool
  trans_lock_wait :: bool
  dbact_lock_wait :: bool
  state :: nat
  interrupt :: bool
  temp_serial_num :: int

record transmgr =
  NextTransID :: int
  Trans_Count :: int
  Trans :: "nat \<Rightarrow> trans"

subsection \<open>Slots\<close>

definition trans_slot :: "int \<Rightarrow> nat" where
  "trans_slot tid = nat (tid mod MAX_TRANS)"

definition upd_slot :: "nat \<Rightarrow> (trans \<Rightarrow> trans) \<Rightarrow> 'a transmgr_scheme \<Rightarrow> 'a transmgr_scheme" where
  "upd_slot i f s = s\<lparr>Trans := (Trans s)(i := f (Trans s i))\<rparr>"

definition upd_trans :: "int \<Rightarrow> (trans \<Rightarrow> trans) \<Rightarrow> 'a transmgr_scheme \<Rightarrow> 'a transmgr_scheme" where
  "upd_trans tid f s = upd_slot (trans_slot tid) f s"

subsection \<open>Operations\<close>

definition LockMgr_trans_lock_init :: "trans_lock_t \<Rightarrow> int \<Rightarrow> trans_lock_t" where
  "LockMgr_trans_lock_init lk transid = lk\<lparr>
     lock_granul := LK_GRANUL_ROW,
     tl_transid := transid,
     table_lock_count := 0,
     table_lock_list := [],
     req_tableid := 0,
     req_rec_oid := 0\<rparr>"

definition trans_zero :: trans where
  \<comment> \<open>a slot after \<^verbatim>\<open>sc_memset(Trans, 0, ...)\<close>\<close>
  "trans_zero = \<lparr>tr_id = 0, prio = LOWPRIO,
     trans_lock = \<lparr>lock_granul = LK_GRANUL_ROW, table_lock_count = 0, table_lock_list = [],
       tl_transid = 0, req_tableid = 0, req_rec_oid = 0\<rparr>,
     clientType = 0, connid = 0, fRU = False, fLogging = False, fReadOnly = False,
     fDeleted = False, fBeginLogged = False, fddl = False, fUsed = False, tr_visited = False,
     First_LSN = \<lparr>File_No = 0, Offset = 0\<rparr>, Last_LSN = \<lparr>File_No = 0, Offset = 0\<rparr>,
     UndoNextLSN = \<lparr>File_No = 0, Offset = 0\<rparr>, Implicit_SaveLSN = \<lparr>File_No = 0, Offset = 0\<rparr>,
     timeout = False, aborted = False, trans_lock_wait = False, dbact_lock_wait = False,
     state = 0, interrupt = False, temp_serial_num = 0\<rparr>"

definition TransMgr_Init :: "'a transmgr_scheme \<Rightarrow> 'a transmgr_scheme" where
  "TransMgr_Init s = s\<lparr>NextTransID := 1, Trans_Count := 0,
     Trans := (\<lambda>i. trans_zero\<lparr>tr_id := int i\<rparr>)
       (0 := trans_zero\<lparr>tr_id := 0, fUsed := False, fReadOnly := False, fDeleted := True,
          fBeginLogged := True, fddl := False\<rparr>)\<rparr>"

definition TransMgr_Set_NextTransID :: "int \<Rightarrow> 'a transmgr_scheme \<Rightarrow> 'a transmgr_scheme" where
  "TransMgr_Set_NextTransID n s =
     (let n = n + 1 in if n \<ge> MAX_TRANS_ID then s\<lparr>NextTransID := 1\<rparr> else s\<lparr>NextTransID := n\<rparr>)"

text \<open>
  \<^verbatim>\<open>TransMgr_InsTrans(-1, ...)\<close> looks for a free slot from \<^verbatim>\<open>NextTransID\<close> on; the loop gives
  up when its counter \<open>j\<close> exceeds \<^verbatim>\<open>MAX_TRANS\<close>.
\<close>

function ins_search :: "int \<Rightarrow> 'a transmgr_scheme \<Rightarrow> bool \<times> 'a transmgr_scheme" where
  "ins_search j s =
     (let i = trans_slot (NextTransID s) in
      if i \<noteq> 0 \<and> \<not> fUsed (Trans s i) then (True, s)
      else
        let s = TransMgr_Set_NextTransID (NextTransID s) s; j = j + 1 in
        if j > MAX_TRANS then (False, s) else ins_search j s)"
  by pat_completeness auto
termination
  by (relation "measure (\<lambda>(j, s). nat (MAX_TRANS + 1 - j))") auto

declare ins_search.simps [simp del]

definition ins_init :: "int \<Rightarrow> int \<Rightarrow> trans \<Rightarrow> trans" where
  \<comment> \<open>the assignments after the slot is chosen; \<^verbatim>\<open>fRU\<close> is not among them\<close>
  "ins_init ctype conn t = t\<lparr>
     connid := conn,
     fLogging := False, fReadOnly := True, fDeleted := False, fBeginLogged := False, fddl := False,
     First_LSN := \<lparr>File_No = -1, Offset = -1\<rparr>,
     Last_LSN := \<lparr>File_No = -1, Offset = -1\<rparr>,
     UndoNextLSN := \<lparr>File_No = -1, Offset = -1\<rparr>,
     Implicit_SaveLSN := \<lparr>File_No = -2, Offset = -2\<rparr>,
     prio := LOWPRIO,
     trans_lock := LockMgr_trans_lock_init (trans_lock t) (tr_id t),
     clientType := ctype,
     timeout := False, aborted := False,
     trans_lock_wait := False, dbact_lock_wait := False,
     state := TRANS_STATE_BEGIN,
     interrupt := False,
     temp_serial_num := 0\<rparr>"

definition TransMgr_InsTrans ::
    "int \<Rightarrow> int \<Rightarrow> int \<Rightarrow> 'a transmgr_scheme \<Rightarrow> (int \<times> 'a transmgr_scheme) option" where
  \<comment> \<open>\<open>None\<close>: the busy wait of line \<^verbatim>\<open>goto start\<close> for the internal transaction 0\<close>
  "TransMgr_InsTrans Trans_Num ctype conn s =
     (if Trans_Num = 0 \<and> conn = -1 \<and> fUsed (Trans s 0) then None
      else if Trans_Num = -1 then
        (case ins_search 0 s of
           (False, s) \<Rightarrow> Some (DB_E_NOMORETRANS, s)
         | (True, s) \<Rightarrow>
             let n = NextTransID s; i = trans_slot n;
                 s = upd_slot i (\<lambda>t. t\<lparr>fUsed := True, tr_id := n\<rparr>) s;
                 s = s\<lparr>Trans_Count := Trans_Count s + 1\<rparr>;
                 s = TransMgr_Set_NextTransID n s
             in Some (n, upd_slot i (ins_init ctype conn) s))
      else
        let i = trans_slot Trans_Num;
            s = upd_slot i (\<lambda>t. t\<lparr>fUsed := True, tr_id := Trans_Num\<rparr>) s;
            s = s\<lparr>Trans_Count := Trans_Count s + 1\<rparr>;
            s = (if Trans_Num \<noteq> 0 then TransMgr_Set_NextTransID Trans_Num s else s)
        in Some (Trans_Num, upd_slot i (ins_init ctype conn) s))"

definition TransMgr_DelTrans :: "int \<Rightarrow> 'a transmgr_scheme \<Rightarrow> int \<times> 'a transmgr_scheme" where
  "TransMgr_DelTrans tid s =
     (if \<not> fUsed (Trans s (trans_slot tid)) then (DB_E_UNKNOWNTRANSID, s)
      else
        let s = upd_trans tid (\<lambda>t. t\<lparr>aborted := False, fddl := False, fUsed := False,
                  fLogging := False\<rparr>) s
        in (DB_SUCCESS, s\<lparr>Trans_Count := Trans_Count s - 1\<rparr>))"

definition Trans_Search :: "'a transmgr_scheme \<Rightarrow> int \<Rightarrow> trans option" where
  "Trans_Search s tid =
     (let t = Trans s (trans_slot tid) in if \<not> fUsed t then None else Some t)"

definition Trans_Get_State :: "'a transmgr_scheme \<Rightarrow> int \<Rightarrow> int" where
  "Trans_Get_State s tid =
     (let t = Trans s (trans_slot tid) in if \<not> fUsed t then -1 else int (state t))"

definition slots :: "nat list" where
  \<comment> \<open>\<^verbatim>\<open>for (i = 1; i < MAX_TRANS; i++)\<close>\<close>
  "slots = [1..<nat MAX_TRANS]"

definition Trans_Mgr_Trans_Count :: "'a transmgr_scheme \<Rightarrow> int" where
  "Trans_Mgr_Trans_Count s =
     foldl (\<lambda>Count i. if fUsed (Trans s i) then Count + 1 else Count) 0 slots"

definition Trans_Mgr_ALLTransDel :: "'a transmgr_scheme \<Rightarrow> 'a transmgr_scheme" where
  "Trans_Mgr_ALLTransDel s =
     (foldl (\<lambda>s i. upd_slot i (\<lambda>t. t\<lparr>fUsed := False\<rparr>) s) s slots)\<lparr>Trans_Count := 0\<rparr>"

definition TransMgr_UpdateLastLSN :: "int \<Rightarrow> LSN \<Rightarrow> 'a transmgr_scheme \<Rightarrow> int \<times> 'a transmgr_scheme" where
  "TransMgr_UpdateLastLSN tid lsn s =
     (if \<not> fUsed (Trans s (trans_slot tid)) then (DB_E_UNKNOWNTRANSID, s)
      else (DB_SUCCESS, upd_trans tid (\<lambda>t. t\<lparr>UndoNextLSN := lsn\<rparr>) s))"

definition Trans_ClearVisited :: "'a transmgr_scheme \<Rightarrow> int \<times> 'a transmgr_scheme" where
  "Trans_ClearVisited s =
     (if Trans_Count s < 2 then (-1, s)
      else (DB_SUCCESS, foldl (\<lambda>s i. upd_slot i (\<lambda>t. t\<lparr>tr_visited := False\<rparr>) s) s slots))"

fun min_first_lsn_loop :: "'a transmgr_scheme \<Rightarrow> nat list \<Rightarrow> LSN \<Rightarrow> LSN" where
  "min_first_lsn_loop s [] m = m"
| "min_first_lsn_loop s (i # is) m =
     (let t = Trans s i; f = First_LSN t in
      if \<not> fUsed t then min_first_lsn_loop s is m
      else if File_No f = -1 then min_first_lsn_loop s is m
      else if File_No m = -1 \<or> File_No m > File_No f \<or>
              (File_No m = File_No f \<and> Offset m > Offset f)
      then min_first_lsn_loop s is (m\<lparr>File_No := File_No f, Offset := Offset f\<rparr>)
      else min_first_lsn_loop s is m)"

definition TransMgr_Get_MinFirstLSN :: "'a transmgr_scheme \<Rightarrow> LSN" where
  "TransMgr_Get_MinFirstLSN s =
     min_first_lsn_loop s [0..<nat MAX_TRANS] \<lparr>File_No = -1, Offset = -1\<rparr>"

subsection \<open>Frames\<close>

lemma Trans_upd_slot: "Trans (upd_slot i f s) j = (if j = i then f (Trans s i) else Trans s j)"
  by (simp add: upd_slot_def)

lemma Trans_upd_trans:
  "Trans (upd_trans tid f s) j =
     (if j = trans_slot tid then f (Trans s (trans_slot tid)) else Trans s j)"
  by (simp add: upd_trans_def Trans_upd_slot)

lemma upd_slot_frames [field_frames, simp]:
  "NextTransID (upd_slot i f s) = NextTransID s"
  "Trans_Count (upd_slot i f s) = Trans_Count s"
  "transmgr.more (upd_slot i f s) = transmgr.more s"
  by (simp_all add: upd_slot_def)

lemma upd_trans_frames [field_frames, simp]:
  "NextTransID (upd_trans tid f s) = NextTransID s"
  "Trans_Count (upd_trans tid f s) = Trans_Count s"
  "transmgr.more (upd_trans tid f s) = transmgr.more s"
  by (simp_all add: upd_trans_def)

lemma Set_NextTransID_frames [field_frames, simp]:
  "Trans (TransMgr_Set_NextTransID n s) = Trans s"
  "Trans_Count (TransMgr_Set_NextTransID n s) = Trans_Count s"
  by (simp_all add: TransMgr_Set_NextTransID_def Let_def)

lemma trans_slot_less: "trans_slot tid < nat MAX_TRANS"
  by (simp add: trans_slot_def MAX_TRANS_def)

lemma Trans_Search_upd_trans:
  assumes "\<And>t. fUsed (f t) = fUsed t"
  shows "Trans_Search (upd_trans tid f s) u =
     (if trans_slot u = trans_slot tid then map_option f (Trans_Search s u) else Trans_Search s u)"
  using assms by (simp add: Trans_Search_def Trans_upd_trans Let_def)

text \<open>A loop that rewrites one slot after the other rewrites exactly the slots of its range.\<close>

lemma foldl_upd_slot_frames [field_frames, simp]:
  "NextTransID (foldl (\<lambda>s i. upd_slot i f s) s is) = NextTransID s"
  "Trans_Count (foldl (\<lambda>s i. upd_slot i f s) s is) = Trans_Count s"
  "transmgr.more (foldl (\<lambda>s i. upd_slot i f s) s is) = transmgr.more s"
  by (induction "is" arbitrary: s) simp_all

lemma Trans_foldl_upd_slot:
  "distinct is \<Longrightarrow> Trans (foldl (\<lambda>s i. upd_slot i f s) s is) j =
     (if j \<in> set is then f (Trans s j) else Trans s j)"
  by (induction "is" arbitrary: s) (auto simp: Trans_upd_slot)

lemma Trans_ClearVisited_frames [field_frames, simp]:
  "NextTransID (snd (Trans_ClearVisited s)) = NextTransID s"
  "Trans_Count (snd (Trans_ClearVisited s)) = Trans_Count s"
  "transmgr.more (snd (Trans_ClearVisited s)) = transmgr.more s"
  by (simp_all add: Trans_ClearVisited_def)

subsection \<open>The search for a free slot\<close>

definition next_id_ok :: "'a transmgr_scheme \<Rightarrow> bool" where
  "next_id_ok s \<longleftrightarrow> 1 \<le> NextTransID s \<and> NextTransID s < MAX_TRANS_ID"

lemma next_id_ok_Set [inv_intros]: "0 \<le> n \<Longrightarrow> next_id_ok (TransMgr_Set_NextTransID n s)"
  by (simp add: next_id_ok_def TransMgr_Set_NextTransID_def MAX_TRANS_ID_def MAX_TRANS_def Let_def)

lemma ins_search_frames:
  "ins_search j s = (b, s') \<Longrightarrow> Trans s' = Trans s \<and> Trans_Count s' = Trans_Count s \<and>
     transmgr.more s' = transmgr.more s"
proof (induction j s rule: ins_search.induct)
  case (1 j s)
  then show ?case
    by (subst (asm) (2) ins_search.simps)
       (auto simp: Let_def TransMgr_Set_NextTransID_def split: if_splits)
qed

lemma ins_search_next_ok: "ins_search j s = (b, s') \<Longrightarrow> next_id_ok s \<Longrightarrow> next_id_ok s'"
proof (induction j s rule: ins_search.induct)
  case (1 j s)
  let ?s = "TransMgr_Set_NextTransID (NextTransID s) s"
  have "next_id_ok ?s"
    using "1.prems"(2) by (intro next_id_ok_Set) (simp add: next_id_ok_def)
  with 1 show ?case
    by (subst (asm) (2) ins_search.simps) (auto simp: Let_def split: if_splits)
qed

lemma ins_search_found:
  "ins_search j s = (True, s') \<Longrightarrow>
     trans_slot (NextTransID s') \<noteq> 0 \<and> \<not> fUsed (Trans s (trans_slot (NextTransID s')))"
proof (induction j s rule: ins_search.induct)
  case (1 j s)
  then show ?case
    by (subst (asm) (2) ins_search.simps) (auto simp: Let_def split: if_splits)
qed

text \<open>Each round moves the candidate slot closer to any wanted slot other than 0, also
  where the id wraps around from \<^verbatim>\<open>MAX_TRANS_ID - 1\<close> to 1 and slot 0 is skipped.\<close>

lemma next_id_distance:
  assumes "next_id_ok s" and "0 < i" and "i < 21" and "trans_slot (NextTransID s) \<noteq> i"
  shows "(int i - NextTransID (TransMgr_Set_NextTransID (NextTransID s) s)) mod 21
           \<le> (int i - NextTransID s) mod 21 - 1"
proof -
  define n where "n = NextTransID s"
  have n: "1 \<le> n" "n < 21000000" and ne: "n mod 21 \<noteq> int i"
    using assms by (auto simp: next_id_ok_def n_def MAX_TRANS_ID_def MAX_TRANS_def trans_slot_def)
  have nxt: "NextTransID (TransMgr_Set_NextTransID n s) = (if n + 1 \<ge> 21000000 then 1 else n + 1)"
    by (simp add: TransMgr_Set_NextTransID_def MAX_TRANS_ID_def MAX_TRANS_def Let_def)
  show ?thesis
  proof (cases "n + 1 \<ge> 21000000")
    case True
    with n have "n = 20999999" by simp
    moreover have "(k - 1) mod 21 \<le> (k - 20999999) mod 21 - 1" if "0 < k" "k < 20" for k :: int
    proof -
      have "k - 20999999 = k - 20 + - 999999 * 21" by simp
      then have "(k - 20999999) mod 21 = (k - 20) mod 21"
        by (simp only: mod_mult_self1)
      moreover have "(k - 20) mod 21 = k + 1"
        using that mod_add_self2 [of "k - 20" 21] by (simp add: algebra_simps)
      moreover have "(k - 1) mod 21 = k - 1"
        using that by simp
      ultimately show ?thesis by simp
    qed
    moreover from ne \<open>n = 20999999\<close> assms(3) have "int i < 20" by simp
    ultimately show ?thesis
      using nxt assms(2) unfolding n_def [symmetric] by simp
  next
    case False
    have "(int i - n) mod 21 \<noteq> 0"
    proof
      assume "(int i - n) mod 21 = 0"
      then have "int i mod 21 = n mod 21" by (simp add: mod_eq_dvd_iff dvd_eq_mod_eq_0)
      with ne assms(3) show False by simp
    qed
    then have "(int i - n - 1) mod 21 = (int i - n) mod 21 - 1"
      by (rule mod_pred) simp
    with nxt False show ?thesis unfolding n_def [symmetric] by (simp add: algebra_simps)
  qed
qed

lemma ins_search_complete:
  "next_id_ok s \<Longrightarrow> 0 < i \<Longrightarrow> i < 21 \<Longrightarrow> \<not> fUsed (Trans s i) \<Longrightarrow>
   (int i - NextTransID s) mod 21 \<le> 21 - j \<Longrightarrow> fst (ins_search j s)"
proof (induction j s rule: ins_search.induct)
  case (1 j s)
  let ?s = "TransMgr_Set_NextTransID (NextTransID s) s"
  show ?case
  proof (cases "trans_slot (NextTransID s) \<noteq> 0 \<and> \<not> fUsed (Trans s (trans_slot (NextTransID s)))")
    case True
    then show ?thesis by (subst ins_search.simps) simp
  next
    case False
    with "1.prems" have "trans_slot (NextTransID s) \<noteq> i" by auto
    with "1.prems" have d: "(int i - NextTransID ?s) mod 21 \<le> 21 - (j + 1)"
      using next_id_distance [of s i] by simp
    then have j: "\<not> j + 1 > MAX_TRANS"
      using pos_mod_sign [of 21 "int i - NextTransID ?s"] by (simp add: MAX_TRANS_def)
    have "next_id_ok ?s"
      using "1.prems"(1) by (intro next_id_ok_Set) (simp add: next_id_ok_def)
    with False j d "1.prems" have "fst (ins_search (j + 1) ?s)"
      by (intro "1.IH") auto
    with False j show ?thesis by (subst ins_search.simps) (simp add: Let_def)
  qed
qed

subsection \<open>The invariant of the table\<close>

text \<open>
  Every used slot holds a transaction whose id maps to that slot, the next id is in
  range, and \<^verbatim>\<open>Trans_Count_\<close> counts the used slots.
\<close>

definition used_slots :: "'a transmgr_scheme \<Rightarrow> nat set" where
  "used_slots s = {i. i < 21 \<and> fUsed (Trans s i)}"

definition trans_inv :: "'a transmgr_scheme \<Rightarrow> bool" where
  "trans_inv s \<longleftrightarrow> next_id_ok s \<and>
     (\<forall>i \<in> used_slots s. 0 \<le> tr_id (Trans s i) \<and> trans_slot (tr_id (Trans s i)) = i) \<and>
     Trans_Count s = int (card (used_slots s))"

lemma finite_used_slots [simp]: "finite (used_slots s)"
  by (simp add: used_slots_def)

lemma trans_slot_less21: "trans_slot tid < 21"
  using trans_slot_less [of tid] by (simp add: MAX_TRANS_def)

lemma trans_slot_ident: "0 \<le> n \<Longrightarrow> n < 21 \<Longrightarrow> trans_slot n = nat n"
  by (simp add: trans_slot_def MAX_TRANS_def)

lemma TransMgr_Init_inv [inv_intros]: "trans_inv (TransMgr_Init s)"
proof -
  have "used_slots (TransMgr_Init s) = {}"
    by (auto simp: used_slots_def TransMgr_Init_def trans_zero_def)
  then show ?thesis
    by (simp add: trans_inv_def next_id_ok_def TransMgr_Init_def MAX_TRANS_ID_def MAX_TRANS_def)
qed

lemma ins_init_fields [simp]:
  "tr_id (ins_init c n t) = tr_id t"
  "fUsed (ins_init c n t) = fUsed t"
  "fRU (ins_init c n t) = fRU t"
  "tr_visited (ins_init c n t) = tr_visited t"
  by (simp_all add: ins_init_def)

text \<open>Filling a free slot keeps the invariant; both ways through \<^verbatim>\<open>TransMgr_InsTrans\<close> do that.\<close>

definition fill_slot :: "nat \<Rightarrow> int \<Rightarrow> int \<Rightarrow> int \<Rightarrow> 'a transmgr_scheme \<Rightarrow> 'a transmgr_scheme" where
  "fill_slot i n ctype conn s =
     s\<lparr>Trans_Count := Trans_Count s + 1,
       Trans := (Trans s)(i := ins_init ctype conn ((Trans s i)\<lparr>fUsed := True, tr_id := n\<rparr>))\<rparr>"

lemma fill_slot_inv:
  assumes "trans_inv s" and "0 \<le> n" and "i = trans_slot n" and "\<not> fUsed (Trans s i)"
    and "Trans t = Trans (fill_slot i n c d s)" and "Trans_Count t = Trans_Count s + 1"
    and "next_id_ok t"
  shows "trans_inv t"
proof -
  have i: "i < 21" using assms(3) trans_slot_less21 by simp
  have used: "used_slots t = insert i (used_slots s)" and new: "i \<notin> used_slots s"
    using assms(4,5) i by (auto simp: used_slots_def fill_slot_def)
  then have "Trans_Count t = int (card (used_slots t))"
    using assms(1,6) by (simp add: trans_inv_def)
  moreover have "\<forall>k \<in> used_slots t. 0 \<le> tr_id (Trans t k) \<and> trans_slot (tr_id (Trans t k)) = k"
    using assms(1,2,3,5) used by (auto simp: trans_inv_def fill_slot_def)
  ultimately show ?thesis using assms(7) by (simp add: trans_inv_def)
qed

lemma InsTrans_new_cases:
  assumes "TransMgr_InsTrans (-1) c d s = Some (r, t)"
  obtains s' where "ins_search 0 s = (False, s')" "r = DB_E_NOMORETRANS" "t = s'"
  | s' where "ins_search 0 s = (True, s')" "r = NextTransID s'"
      "Trans t = Trans (fill_slot (trans_slot r) r c d s)"
      "Trans_Count t = Trans_Count s + 1"
      "NextTransID t = NextTransID (TransMgr_Set_NextTransID r s')"
      "transmgr.more t = transmgr.more s"
proof (cases "ins_search 0 s")
  case (Pair b s')
  note fr = ins_search_frames [OF Pair]
  show ?thesis
  proof (cases b)
    case False
    with assms Pair that(1) show ?thesis by (simp add: TransMgr_InsTrans_def)
  next
    case True
    with assms Pair have r: "r = NextTransID s'"
      and t: "t = upd_slot (trans_slot r) (ins_init c d) (TransMgr_Set_NextTransID r
          ((upd_slot (trans_slot r) (\<lambda>t. t\<lparr>fUsed := True, tr_id := r\<rparr>) s')
             \<lparr>Trans_Count := Trans_Count s' + 1\<rparr>))"
      by (auto simp: TransMgr_InsTrans_def Let_def)
    have "Trans t = Trans (fill_slot (trans_slot r) r c d s)"
      using fr by (auto simp: t fill_slot_def Trans_upd_slot fun_eq_iff)
    moreover have "NextTransID t = NextTransID (TransMgr_Set_NextTransID r s')"
      by (simp add: t TransMgr_Set_NextTransID_def Let_def)
    moreover have "transmgr.more t = transmgr.more s"
      using fr by (simp add: t TransMgr_Set_NextTransID_def Let_def)
    ultimately show ?thesis
      using that(2) Pair True r fr by (simp add: t)
  qed
qed

lemma InsTrans_new_inv [inv_intros]:
  assumes "trans_inv s" and "TransMgr_InsTrans (-1) c d s = Some (r, t)"
  shows "trans_inv t"
  using assms(2)
proof (cases rule: InsTrans_new_cases)
  case (1 s')
  then show ?thesis
    using assms(1) ins_search_frames [OF 1(1)] ins_search_next_ok [OF 1(1)]
    by (simp add: trans_inv_def used_slots_def)
next
  case (2 s')
  have ok: "next_id_ok s'"
    using ins_search_next_ok [OF 2(1)] assms(1) by (simp add: trans_inv_def)
  with 2(2) have r: "0 \<le> r" by (simp add: next_id_ok_def)
  have "next_id_ok (TransMgr_Set_NextTransID r s')"
    using r by (rule next_id_ok_Set)
  with 2(5) have "next_id_ok t" by (simp add: next_id_ok_def)
  moreover have "\<not> fUsed (Trans s (trans_slot r))"
    using ins_search_found [OF 2(1)] 2(2) by simp
  ultimately show ?thesis
    using fill_slot_inv [OF assms(1) r refl _ 2(3) 2(4)] by simp
qed

lemma DelTrans_inv [inv_intros]:
  assumes "trans_inv s" shows "trans_inv (snd (TransMgr_DelTrans tid s))"
proof (cases "fUsed (Trans s (trans_slot tid))")
  case False
  with assms show ?thesis by (simp add: TransMgr_DelTrans_def)
next
  case True
  let ?t = "snd (TransMgr_DelTrans tid s)"
  have mem: "trans_slot tid \<in> used_slots s"
    using True trans_slot_less21 by (simp add: used_slots_def)
  have used: "used_slots ?t = used_slots s - {trans_slot tid}"
    using True by (auto simp: used_slots_def TransMgr_DelTrans_def Trans_upd_trans Let_def)
  have "0 < card (used_slots s)"
    using mem by (auto simp: card_gt_0_iff)
  then have "int (card (used_slots ?t)) = int (card (used_slots s)) - 1"
    using mem by (simp add: used of_nat_diff)
  moreover have "Trans_Count ?t = Trans_Count s - 1"
    using True by (simp add: TransMgr_DelTrans_def Let_def)
  ultimately have "Trans_Count ?t = int (card (used_slots ?t))"
    using assms by (simp add: trans_inv_def)
  moreover have "\<forall>k \<in> used_slots ?t. 0 \<le> tr_id (Trans ?t k) \<and> trans_slot (tr_id (Trans ?t k)) = k"
    using assms True unfolding used
    by (auto simp: trans_inv_def TransMgr_DelTrans_def Trans_upd_trans Let_def)
  moreover have "next_id_ok ?t"
    using assms True by (simp add: trans_inv_def next_id_ok_def TransMgr_DelTrans_def Let_def)
  ultimately show ?thesis by (simp add: trans_inv_def)
qed

subsection \<open>What inserting a transaction promises\<close>


subsection \<open>The oldest log record still needed\<close>

definition lsn_less :: "LSN \<Rightarrow> LSN \<Rightarrow> bool" where
  "lsn_less a b \<longleftrightarrow> File_No a < File_No b \<or> (File_No a = File_No b \<and> Offset a < Offset b)"

lemma lsn_eqI: "File_No a = File_No b \<Longrightarrow> Offset a = Offset b \<Longrightarrow> a = (b :: LSN)"
  by simp

definition lsn_min :: "LSN \<Rightarrow> LSN \<Rightarrow> LSN" where
  "lsn_min m l = (if File_No m = -1 \<or> lsn_less l m then l else m)"

lemma lsn_assign [simp]:
  fixes m f :: LSN
  shows "m\<lparr>File_No := File_No f, Offset := Offset f\<rparr> = f"
    and "File_No f = File_No m \<Longrightarrow> m\<lparr>Offset := Offset f\<rparr> = f"
  by simp_all

lemma min_first_lsn_loop_foldl:
  "min_first_lsn_loop s is m = foldl lsn_min m (map (\<lambda>i. First_LSN (Trans s i))
     (filter (\<lambda>i. fUsed (Trans s i) \<and> File_No (First_LSN (Trans s i)) \<noteq> -1) is))"
  by (induction "is" arbitrary: m) (auto simp: Let_def lsn_min_def lsn_less_def)

lemma not_lsn_less_trans: "\<not> lsn_less a b \<Longrightarrow> \<not> lsn_less b c \<Longrightarrow> \<not> lsn_less a c"
  by (auto simp: lsn_less_def)

lemma not_lsn_less_refl: "\<not> lsn_less a a"
  by (simp add: lsn_less_def)

lemma lsn_min_le: "\<not> lsn_less l (lsn_min m l)" "File_No m \<noteq> -1 \<Longrightarrow> \<not> lsn_less m (lsn_min m l)"
  by (auto simp: lsn_min_def lsn_less_def)

lemma foldl_lsn_min:
  "\<forall>l \<in> set ls. File_No l \<noteq> -1 \<Longrightarrow> File_No m \<noteq> -1 \<Longrightarrow>
   foldl lsn_min m ls \<in> insert m (set ls) \<and> File_No (foldl lsn_min m ls) \<noteq> -1 \<and>
   (\<forall>l \<in> insert m (set ls). \<not> lsn_less l (foldl lsn_min m ls))"
proof (induction ls arbitrary: m)
  case Nil
  then show ?case by (simp add: not_lsn_less_refl)
next
  case (Cons l ls)
  let ?m = "lsn_min m l"
  have "?m = m \<or> ?m = l" "File_No ?m \<noteq> -1"
    using Cons.prems by (auto simp: lsn_min_def)
  with Cons.prems have IH: "foldl lsn_min ?m ls \<in> insert ?m (set ls)" "File_No (foldl lsn_min ?m ls) \<noteq> -1"
    "\<forall>k \<in> insert ?m (set ls). \<not> lsn_less k (foldl lsn_min ?m ls)"
    using Cons.IH [of ?m] by simp_all
  have k: "\<not> lsn_less k (foldl lsn_min ?m ls)" if "\<not> lsn_less k ?m" for k
    by (rule not_lsn_less_trans [OF that]) (use IH(3) in simp)
  have "\<not> lsn_less m (foldl lsn_min ?m ls)" "\<not> lsn_less l (foldl lsn_min ?m ls)"
    using Cons.prems(2) by (simp_all add: k lsn_min_le)
  moreover have "foldl lsn_min ?m ls \<in> insert m (insert l (set ls))"
    using IH(1) \<open>?m = m \<or> ?m = l\<close> by auto
  ultimately show ?case
    using IH by simp
qed

definition logged_lsns :: "'a transmgr_scheme \<Rightarrow> LSN set" where
  "logged_lsns s =
     {First_LSN (Trans s i) | i. i < 21 \<and> fUsed (Trans s i) \<and> File_No (First_LSN (Trans s i)) \<noteq> -1}"

text \<open>C16: \<^verbatim>\<open>TransMgr_Get_MinFirstLSN\<close> returns the least first LSN, by file number and then
  offset, of the used slots that have logged something, and \<open>(-1, -1)\<close> when none has.\<close>

theorem Get_MinFirstLSN_least:
  "if logged_lsns s = {} then TransMgr_Get_MinFirstLSN s = \<lparr>File_No = -1, Offset = -1\<rparr>
    else TransMgr_Get_MinFirstLSN s \<in> logged_lsns s \<and>
      (\<forall>l \<in> logged_lsns s. \<not> lsn_less l (TransMgr_Get_MinFirstLSN s))"
proof -
  define ls where "ls = map (\<lambda>i. First_LSN (Trans s i))
    (filter (\<lambda>i. fUsed (Trans s i) \<and> File_No (First_LSN (Trans s i)) \<noteq> -1) [0..<21])"
  have eq: "TransMgr_Get_MinFirstLSN s = foldl lsn_min \<lparr>File_No = -1, Offset = -1\<rparr> ls"
    by (simp add: TransMgr_Get_MinFirstLSN_def min_first_lsn_loop_foldl ls_def MAX_TRANS_def)
  have set: "set ls = logged_lsns s"
    by (auto simp: ls_def logged_lsns_def)
  show ?thesis
  proof (cases ls)
    case Nil
    with set eq show ?thesis by simp
  next
    case (Cons l ls')
    have "\<forall>l \<in> set ls. File_No l \<noteq> -1"
      by (auto simp: ls_def)
    with foldl_lsn_min [of ls' l] Cons eq set show ?thesis
      by (auto simp: lsn_min_def)
  qed
qed

definition lsn_demo :: transmgr where
  "lsn_demo = \<lparr>NextTransID = 3, Trans_Count = 2, Trans = (\<lambda>_. trans_zero)
     (1 := trans_zero\<lparr>fUsed := True, First_LSN := \<lparr>File_No = 2, Offset = 50\<rparr>\<rparr>,
      2 := trans_zero\<lparr>fUsed := True, First_LSN := \<lparr>File_No = 2, Offset = 10\<rparr>\<rparr>)\<rparr>"

theorem Get_MinFirstLSN_least_witness:
  "TransMgr_Get_MinFirstLSN lsn_demo = \<lparr>File_No = 2, Offset = 10\<rparr>"
proof -
  have mem: "\<lparr>File_No = 2, Offset = 10\<rparr> \<in> logged_lsns lsn_demo"
    unfolding logged_lsns_def by (rule CollectI, rule exI [of _ 2]) (simp add: lsn_demo_def trans_zero_def)
  have sub: "x \<in> {\<lparr>File_No = 2, Offset = 50\<rparr>, \<lparr>File_No = 2, Offset = 10\<rparr>}" if "x \<in> logged_lsns lsn_demo" for x
    using that by (auto simp: logged_lsns_def lsn_demo_def trans_zero_def split: if_splits)
  from mem Get_MinFirstLSN_least [of lsn_demo]
  have res: "TransMgr_Get_MinFirstLSN lsn_demo \<in> logged_lsns lsn_demo"
    "\<not> lsn_less \<lparr>File_No = 2, Offset = 10\<rparr> (TransMgr_Get_MinFirstLSN lsn_demo)"
    by (metis empty_iff)+
  from sub [OF res(1)] res(2) show ?thesis
    by (auto simp: lsn_less_def)
qed

end
