(* ===== verification/LockTable.thy ===== *)
theory LockTable
  imports TransTable
begin

section \<open>The lock table (\<^verbatim>\<open>openML/src/server/lock/mdb_LockMgr.c\<close>: items, holders, requestors)\<close>

text \<open>
  A lock item stands for one table and carries two priority queues: the transactions that
  hold the table and the ones that wait for it.  The items hang in a hash table of linked
  lists; items, holders, requestors and the per-transaction table locks are allocated from
  free lists with a fallback to the shared memory allocator.  A linked list is a HOL list,
  the hash table is a function from bucket numbers to lists, and a free list is its length,
  because the blocks in it carry no data.  \<^verbatim>\<open>DBMem_Alloc\<close> asks the environment: whether
  the \<open>n\<close>-th call succeeds is \<open>malloc_ok n\<close>, which no operation changes.  The container
  catalogue (\<^verbatim>\<open>mdb_ContCat.c\<close>) appears as the two lookups the lock manager does.
\<close>

definition DEFAULT_HASHSIZE :: nat where "DEFAULT_HASHSIZE = 1"

record lock_holder =
  lh_trans_id :: int
  lh_trans_prio :: priority
  hld_lock_mode :: lockmode
  lock_count :: int

record lock_requestor =
  lr_trans_id :: int
  lr_trans_prio :: priority
  req_lock_mode :: lockmode
  lock_upgraded :: bool

record lock_item =
  li_oid :: oid
  granted_lock :: lockmode
  wait_trans_count :: int
  holder_count :: int
  li_visited :: bool
  requestor_list :: "lock_requestor list"
  holder_list :: "lock_holder list"

record pool =
  max_free :: int
  num_free :: int
  free_list :: nat

record container =
  cont_id :: oid
  cont_nolocking :: bool

record lockmgr = transmgr +
  lockitem_List :: "nat \<Rightarrow> lock_item list"
  item_pool :: pool
  hold_pool :: pool
  rqst_pool :: pool
  table_pool :: pool
  malloc_ok :: "nat \<Rightarrow> bool"
  malloc_calls :: nat
  cont_by_name :: "string \<Rightarrow> container option"
  cont_by_id :: "oid \<Rightarrow> container option"
  rec_headers :: "oid \<Rightarrow> (nat \<times> int) option"

subsection \<open>Allocation\<close>

definition DBMem_Alloc :: "lockmgr \<Rightarrow> bool \<times> lockmgr" where
  "DBMem_Alloc s = (malloc_ok s (malloc_calls s), s\<lparr>malloc_calls := Suc (malloc_calls s)\<rparr>)"

definition pool_alloc ::
    "(lockmgr \<Rightarrow> pool) \<Rightarrow> ((pool \<Rightarrow> pool) \<Rightarrow> lockmgr \<Rightarrow> lockmgr) \<Rightarrow> lockmgr \<Rightarrow> bool \<times> lockmgr" where
  "pool_alloc get upd s =
     (if num_free (get s) > 0 \<and> free_list (get s) \<noteq> 0
      then (True, upd (\<lambda>p. p\<lparr>free_list := free_list p - 1, num_free := num_free p - 1\<rparr>) s)
      else DBMem_Alloc s)"

definition pool_free ::
    "(lockmgr \<Rightarrow> pool) \<Rightarrow> ((pool \<Rightarrow> pool) \<Rightarrow> lockmgr \<Rightarrow> lockmgr) \<Rightarrow> lockmgr \<Rightarrow> lockmgr" where
  "pool_free get upd s =
     (if num_free (get s) < max_free (get s)
      then upd (\<lambda>p. p\<lparr>free_list := Suc (free_list p), num_free := num_free p + 1\<rparr>) s
      else s)"

definition LockMgr_alloc_lock_item :: "lockmgr \<Rightarrow> bool \<times> lockmgr" where
  "LockMgr_alloc_lock_item s = pool_alloc item_pool item_pool_update s"

definition LockMgr_free_lock_item :: "lockmgr \<Rightarrow> lockmgr" where
  "LockMgr_free_lock_item s = pool_free item_pool item_pool_update s"

definition LockMgr_alloc_lock_hold :: "lockmgr \<Rightarrow> bool \<times> lockmgr" where
  "LockMgr_alloc_lock_hold s = pool_alloc hold_pool hold_pool_update s"

definition LockMgr_free_lock_hold :: "lockmgr \<Rightarrow> lockmgr" where
  "LockMgr_free_lock_hold s = pool_free hold_pool hold_pool_update s"

definition LockMgr_alloc_lock_rqst :: "lockmgr \<Rightarrow> bool \<times> lockmgr" where
  "LockMgr_alloc_lock_rqst s = pool_alloc rqst_pool rqst_pool_update s"

definition LockMgr_free_lock_rqst :: "lockmgr \<Rightarrow> lockmgr" where
  "LockMgr_free_lock_rqst s = pool_free rqst_pool rqst_pool_update s"

definition LockMgr_alloc_table_lock :: "lockmgr \<Rightarrow> bool \<times> lockmgr" where
  "LockMgr_alloc_table_lock s = pool_alloc table_pool table_pool_update s"

definition LockMgr_free_table_lock :: "lockmgr \<Rightarrow> lockmgr" where
  "LockMgr_free_table_lock s = pool_free table_pool table_pool_update s"

subsection \<open>Initialisation and shutdown\<close>

definition LockMgr_Free :: "lockmgr \<Rightarrow> lockmgr" where
  \<comment> \<open>every block of every list goes back to the allocator\<close>
  "LockMgr_Free s =
     s\<lparr>lockitem_List := (\<lambda>i. if i < DEFAULT_HASHSIZE then [] else lockitem_List s i),
       item_pool := (item_pool s)\<lparr>free_list := 0\<rparr>,
       hold_pool := (hold_pool s)\<lparr>free_list := 0\<rparr>,
       rqst_pool := (rqst_pool s)\<lparr>free_list := 0\<rparr>,
       table_pool := (table_pool s)\<lparr>free_list := 0\<rparr>\<rparr>"

fun pool_fill :: "((pool \<Rightarrow> pool) \<Rightarrow> lockmgr \<Rightarrow> lockmgr) \<Rightarrow> nat \<Rightarrow> lockmgr \<Rightarrow> bool \<times> lockmgr" where
  "pool_fill upd 0 s = (True, s)"
| "pool_fill upd (Suc n) s =
     (case DBMem_Alloc s of
        (False, s) \<Rightarrow> (False, s)
      | (True, s) \<Rightarrow> pool_fill upd n (upd (\<lambda>p. p\<lparr>free_list := Suc (free_list p)\<rparr>) s))"

definition pool_init :: "((pool \<Rightarrow> pool) \<Rightarrow> lockmgr \<Rightarrow> lockmgr) \<Rightarrow> int \<Rightarrow> lockmgr \<Rightarrow> bool \<times> lockmgr" where
  "pool_init upd m s =
     pool_fill upd (nat m) (upd (\<lambda>p. p\<lparr>max_free := m, num_free := m\<rparr>) s)"

definition LockMgr_Init :: "lockmgr \<Rightarrow> int \<times> lockmgr" where
  "LockMgr_Init s =
     (let s = s\<lparr>lockitem_List := (\<lambda>i. if i < DEFAULT_HASHSIZE then [] else lockitem_List s i),
               item_pool := (item_pool s)\<lparr>free_list := 0\<rparr>,
               hold_pool := (hold_pool s)\<lparr>free_list := 0\<rparr>,
               rqst_pool := (rqst_pool s)\<lparr>free_list := 0\<rparr>,
               table_pool := (table_pool s)\<lparr>free_list := 0\<rparr>\<rparr> in
      case pool_init item_pool_update MAX_TRANS s of
        (False, s) \<Rightarrow> (DB_FAIL 230, LockMgr_Free s)
      | (True, s) \<Rightarrow>
      (case pool_init hold_pool_update (MAX_TRANS * 3) s of
        (False, s) \<Rightarrow> (DB_FAIL 230, LockMgr_Free s)
      | (True, s) \<Rightarrow>
      (case pool_init rqst_pool_update MAX_TRANS s of
        (False, s) \<Rightarrow> (DB_FAIL 230, LockMgr_Free s)
      | (True, s) \<Rightarrow>
      (case pool_init table_pool_update MAX_TRANS s of
        (False, s) \<Rightarrow> (DB_FAIL 230, LockMgr_Free s)
      | (True, s) \<Rightarrow> (DB_SUCCESS, s)))))"

subsection \<open>Holders of one item\<close>

fun insert_holder :: "lock_holder \<Rightarrow> lock_holder list \<Rightarrow> lock_holder list" where
  "insert_holder h [] = [h]"
| "insert_holder h (c # cs) =
     (if lh_trans_prio h > lh_trans_prio c then h # c # cs else c # insert_holder h cs)"

definition LockMgr_Insert_LockHolder ::
    "lock_item \<Rightarrow> int \<Rightarrow> priority \<Rightarrow> lockmode \<Rightarrow> lockmgr \<Rightarrow> int \<times> lock_item \<times> lockmgr" where
  "LockMgr_Insert_LockHolder it tid p m s =
     (case LockMgr_alloc_lock_hold s of
        (False, s) \<Rightarrow> (DB_FAIL 1276, it, s)
      | (True, s) \<Rightarrow>
          let h = \<lparr>lh_trans_id = tid, lh_trans_prio = p, hld_lock_mode = m, lock_count = 1\<rparr> in
          (DB_SUCCESS,
           it\<lparr>granted_lock := LK_CONV m (granted_lock it),
              holder_count := holder_count it + 1,
              holder_list := insert_holder h (holder_list it)\<rparr>, s))"

definition group_mode :: "lock_holder list \<Rightarrow> lockmode" where
  "group_mode hs = foldl (\<lambda>g m. LK_CONV m g) LK_NOLOCK (map hld_lock_mode hs)"

definition LockMgr_Delete_LockHolder :: "lock_item \<Rightarrow> int \<Rightarrow> lockmgr \<Rightarrow> int \<times> lock_item \<times> lockmgr" where
  "LockMgr_Delete_LockHolder it tid s =
     (if \<not> (\<exists>h \<in> set (holder_list it). lh_trans_id h = tid) then (DB_SUCCESS, it, s)
      else
        let hs = remove_first (\<lambda>h. lh_trans_id h = tid) (holder_list it);
            s = LockMgr_free_lock_hold s;
            n = holder_count it - 1 in
        (DB_SUCCESS,
         it\<lparr>holder_list := hs, holder_count := n,
            granted_lock := (if n = 0 then LK_NOLOCK else group_mode hs)\<rparr>, s))"

definition LockMgr_Get_LockHolder :: "lock_item \<Rightarrow> int \<Rightarrow> lock_holder option" where
  "LockMgr_Get_LockHolder it tid = find (\<lambda>h. lh_trans_id h = tid) (holder_list it)"

definition upd_holder :: "int \<Rightarrow> (lock_holder \<Rightarrow> lock_holder) \<Rightarrow> lock_item \<Rightarrow> lock_item" where
  \<comment> \<open>a write through the pointer that \<^verbatim>\<open>LockMgr_Get_LockHolder\<close> returned\<close>
  "upd_holder tid f it =
     it\<lparr>holder_list := update_first (\<lambda>h. lh_trans_id h = tid) f (holder_list it)\<rparr>"

subsection \<open>Requestors of one item\<close>

fun insert_requestor :: "lock_requestor \<Rightarrow> lock_requestor list \<Rightarrow> lock_requestor list" where
  "insert_requestor r [] = [r]"
| "insert_requestor r (c # cs) =
     (if (lock_upgraded r \<and> \<not> lock_upgraded c) \<or> lr_trans_prio r > lr_trans_prio c
      then r # c # cs else c # insert_requestor r cs)"

definition LockMgr_Insert_LockRequestor ::
    "lock_item \<Rightarrow> int \<Rightarrow> priority \<Rightarrow> lockmode \<Rightarrow> bool \<Rightarrow> lockmgr \<Rightarrow> int \<times> lock_item \<times> lockmgr" where
  "LockMgr_Insert_LockRequestor it tid p m upgrade s =
     (case LockMgr_alloc_lock_rqst s of
        (False, s) \<Rightarrow> (DB_FAIL 1411, it, s)
      | (True, s) \<Rightarrow>
          let r = \<lparr>lr_trans_id = tid, lr_trans_prio = p, req_lock_mode = m,
                   lock_upgraded = upgrade\<rparr> in
          (DB_SUCCESS,
           it\<lparr>wait_trans_count := wait_trans_count it + 1,
              requestor_list := insert_requestor r (requestor_list it)\<rparr>, s))"

definition LockMgr_Delete_LockRequestor :: "lock_item \<Rightarrow> int \<Rightarrow> lockmgr \<Rightarrow> int \<times> lock_item \<times> lockmgr" where
  "LockMgr_Delete_LockRequestor it tid s =
     (if \<not> (\<exists>r \<in> set (requestor_list it). lr_trans_id r = tid) then (DB_SUCCESS, it, s)
      else
        (DB_SUCCESS,
         it\<lparr>requestor_list := remove_first (\<lambda>r. lr_trans_id r = tid) (requestor_list it),
            wait_trans_count := wait_trans_count it - 1\<rparr>,
         LockMgr_free_lock_rqst s))"

definition NOCONFLICT :: int where "NOCONFLICT = 0"
definition CONFLICT :: int where "CONFLICT = -1"

fun conflict_with_requestors :: "priority \<Rightarrow> lockmode \<Rightarrow> lock_requestor list \<Rightarrow> int" where
  "conflict_with_requestors p m [] = NOCONFLICT"
| "conflict_with_requestors p m (r # rs) =
     (if \<not> LK_COMP m (req_lock_mode r) then CONFLICT
      else if m \<noteq> LK_MODE_SS \<and> lr_trans_prio r > p then CONFLICT
      else conflict_with_requestors p m rs)"

fun conflict_with_holders :: "int \<Rightarrow> lockmode \<Rightarrow> lock_holder list \<Rightarrow> int" where
  "conflict_with_holders tid m [] = NOCONFLICT"
| "conflict_with_holders tid m (h # hs) =
     (if lh_trans_id h \<noteq> tid \<and> \<not> LK_COMP m (hld_lock_mode h) then CONFLICT
      else conflict_with_holders tid m hs)"

definition LockMgr_CheckConflict :: "lock_item \<Rightarrow> int \<Rightarrow> priority \<Rightarrow> lockmode \<Rightarrow> int" where
  "LockMgr_CheckConflict it tid p m =
     (if tid \<noteq> -1 then conflict_with_holders tid m (holder_list it)
      else if \<not> LK_COMP m (granted_lock it) then CONFLICT
      else conflict_with_requestors p m (requestor_list it))"

subsection \<open>The hash table\<close>

definition LockMgr_Hash_Value :: "oid \<Rightarrow> nat" where
  "LockMgr_Hash_Value oid = oid mod DEFAULT_HASHSIZE"

definition LockMgr_GetLockItem :: "lockmgr \<Rightarrow> oid \<Rightarrow> lock_item option" where
  "LockMgr_GetLockItem s oid = find (\<lambda>it. li_oid it = oid) (lockitem_List s (LockMgr_Hash_Value oid))"

definition put_item :: "oid \<Rightarrow> lock_item \<Rightarrow> lockmgr \<Rightarrow> lockmgr" where
  \<comment> \<open>the writes through the pointer that \<^verbatim>\<open>LockMgr_GetLockItem(oid)\<close> returned\<close>
  "put_item oid it s =
     (let h = LockMgr_Hash_Value oid in
      s\<lparr>lockitem_List := (lockitem_List s)
         (h := update_first (\<lambda>i. li_oid i = oid) (\<lambda>_. it) (lockitem_List s h))\<rparr>)"

definition link_item :: "oid \<Rightarrow> lock_item \<Rightarrow> lockmgr \<Rightarrow> lockmgr" where
  "link_item oid it s =
     (let h = LockMgr_Hash_Value oid in
      s\<lparr>lockitem_List := (lockitem_List s)(h := it # lockitem_List s h)\<rparr>)"

definition unlink_item :: "oid \<Rightarrow> lockmgr \<Rightarrow> lockmgr" where
  "unlink_item oid s =
     (let h = LockMgr_Hash_Value oid in
      s\<lparr>lockitem_List := (lockitem_List s)
         (h := remove_first (\<lambda>i. li_oid i = oid) (lockitem_List s h))\<rparr>)"

definition item_zero :: lock_item where
  "item_zero = \<lparr>li_oid = 0, granted_lock = LK_NOLOCK, wait_trans_count = 0, holder_count = 0,
     li_visited = False, requestor_list = [], holder_list = []\<rparr>"

definition LockMgr_Insert_LockItem ::
    "oid \<Rightarrow> int \<Rightarrow> priority \<Rightarrow> lockmode \<Rightarrow> lockmgr \<Rightarrow> int \<times> lockmgr" where
  "LockMgr_Insert_LockItem oid tid p m s =
     (case LockMgr_alloc_lock_item s of
        (False, s) \<Rightarrow> (DB_E_OUTOFLOCKMEMORY, s)
      | (True, s) \<Rightarrow>
          (case LockMgr_Insert_LockHolder (item_zero\<lparr>granted_lock := LK_NOLOCK\<rparr>) tid p m s of
             (r, it, s) \<Rightarrow>
               if r < 0 then (DB_FAIL 1173, s)
               else (DB_SUCCESS, link_item oid (it\<lparr>li_oid := oid\<rparr>) s)))"

definition LockMgr_Delete_LockItem :: "oid \<Rightarrow> lockmgr \<Rightarrow> int \<times> lockmgr" where
  "LockMgr_Delete_LockItem oid s =
     (case LockMgr_GetLockItem s oid of
        None \<Rightarrow> (DB_FAIL 1249, s)
      | Some it \<Rightarrow>
          let s = unlink_item oid s;
              s = (LockMgr_free_lock_rqst ^^ length (requestor_list it)) s;
              s = (LockMgr_free_lock_hold ^^ length (holder_list it)) s
          in (DB_SUCCESS, LockMgr_free_lock_item s))"

subsection \<open>The table locks of a transaction\<close>

definition LockMgr_trans_insert_table_lock :: "int \<Rightarrow> oid \<Rightarrow> lockmode \<Rightarrow> lockmgr \<Rightarrow> int \<times> lockmgr" where
  \<comment> \<open>the C function gets \<^verbatim>\<open>&trans->trans_lock\<close>; the model gets the transaction's id\<close>
  "LockMgr_trans_insert_table_lock tid oid m s =
     (case LockMgr_alloc_table_lock s of
        (False, s) \<Rightarrow> (DB_E_OUTOFLOCKMEMORY, s)
      | (True, s) \<Rightarrow>
          (DB_SUCCESS,
           upd_trans tid (\<lambda>t. t\<lparr>trans_lock := (trans_lock t)\<lparr>
             table_lock_list := \<lparr>tableid = oid, tl_lock_mode = m, rec_lock_list = []\<rparr>
                                  # table_lock_list (trans_lock t),
             table_lock_count := table_lock_count (trans_lock t) + 1\<rparr>\<rparr>) s))"

definition LockMgr_trans_delete_table_lock :: "int \<Rightarrow> oid \<Rightarrow> lockmgr \<Rightarrow> int \<times> lockmgr" where
  "LockMgr_trans_delete_table_lock tid oid s =
     (let tls = table_lock_list (trans_lock (Trans s (trans_slot tid))) in
      if \<exists>l \<in> set tls. tableid l = oid then
        (DB_SUCCESS,
         LockMgr_free_table_lock (upd_trans tid (\<lambda>t. t\<lparr>trans_lock := (trans_lock t)\<lparr>
           table_lock_list := remove_first (\<lambda>l. tableid l = oid) tls,
           table_lock_count := table_lock_count (trans_lock t) - 1\<rparr>\<rparr>) s))
      else (DB_SUCCESS, s))"

definition LK_ROW_NONE :: nat where "LK_ROW_NONE = 0"

fun LockMgr_delete_row_lock :: "oid list \<Rightarrow> lockmgr \<Rightarrow> int \<times> lockmgr" where
  \<comment> \<open>\<open>rec_headers\<close> is what \<^verbatim>\<open>OID_Point\<close> resolves: the lock mode and owner in a record header\<close>
  "LockMgr_delete_row_lock [] s = (DB_SUCCESS, s)"
| "LockMgr_delete_row_lock (r # rs) s =
     (case rec_headers s r of
        None \<Rightarrow> (DB_E_OIDPOINTER, s)
      | Some _ \<Rightarrow> LockMgr_delete_row_lock rs
                   (s\<lparr>rec_headers := (rec_headers s)(r \<mapsto> (LK_ROW_NONE, -1))\<rparr>))"

end
