(* ===== verification/LockMgr.thy ===== *)
theory LockMgr
  imports LockTable
begin

section \<open>Locking and unlocking (\<^verbatim>\<open>openML/src/server/lock/mdb_LockMgr.c\<close>)\<close>

text \<open>
  \<^verbatim>\<open>LockMgr_Lock\<close> may put the calling thread to sleep on a condition variable, with the
  global database lock released.  Everything between two such points runs under the global
  lock, so the function is cut there: \<open>LockMgr_Lock\<close> runs up to the first wait,
  \<open>LockMgr_Lock_resume\<close> is one turn of the \<^verbatim>\<open>while (1)\<close> loop after a wake-up.  What the
  sleeping thread keeps on its stack is a \<open>wait_frame\<close>.
\<close>

datatype LCRP = WAIT | TIMEWAIT | NOWAIT

record wait_frame =
  wf_oid :: oid
  wf_trans_id :: int
  wf_mode :: lockmode
  lock_wait_time :: int

datatype lock_result =
  Returns int
| Sleeps wait_frame
| Null_dereference
| Out_of_fuel

subsection \<open>Waking the requestors of an item\<close>

fun grantable :: "lock_item \<Rightarrow> lock_requestor \<Rightarrow> bool" where
  "grantable it r =
     (LK_COMP (req_lock_mode r) (granted_lock it) \<or>
      (lock_upgraded r \<and>
       LockMgr_CheckConflict it (lr_trans_id r) (lr_trans_prio r) (req_lock_mode r) \<noteq> CONFLICT))"

definition signal_trans :: "int \<Rightarrow> lockmgr \<Rightarrow> lockmgr" where
  \<comment> \<open>\<^verbatim>\<open>req_tableid = 0\<close>, \<^verbatim>\<open>timeout_ = TRUE\<close>; the condition variable itself is not modelled\<close>
  "signal_trans tid s = upd_trans tid (\<lambda>t. t\<lparr>
     trans_lock := (trans_lock t)\<lparr>req_tableid := 0\<rparr>, timeout := True\<rparr>) s"

definition grant_requestor ::
    "lock_item \<Rightarrow> lock_requestor \<Rightarrow> lockmgr \<Rightarrow> int \<times> lock_item \<times> lockmgr" where
  "grant_requestor it r s =
     (let tid = lr_trans_id r in
      case LockMgr_Get_LockHolder it tid of
        Some _ \<Rightarrow>
          (DB_SUCCESS,
           (upd_holder tid (\<lambda>h. h\<lparr>hld_lock_mode := req_lock_mode r,
              lock_count := lock_count h + 1\<rparr>) it)
             \<lparr>granted_lock := LK_CONV (req_lock_mode r) (granted_lock it)\<rparr>, s)
      | None \<Rightarrow>
          (case LockMgr_Insert_LockHolder it tid (lr_trans_prio r) (req_lock_mode r) s of
             (e, it, s) \<Rightarrow>
               if e < 0 then (DB_FAIL 902, it, s)
               else (DB_SUCCESS, it,
                     snd (LockMgr_trans_insert_table_lock tid (li_oid it) (req_lock_mode r) s))))"

lemma requestor_list_grant_requestor:
  "grant_requestor it r s = (e, it', s') \<Longrightarrow> requestor_list it' = requestor_list it"
  by (auto simp: grant_requestor_def LockMgr_Insert_LockHolder_def upd_holder_def Let_def
      split: option.splits prod.splits bool.splits if_splits)

lemma requestor_list_Delete_LockRequestor:
  "LockMgr_Delete_LockRequestor it tid s = (e, it', s') \<Longrightarrow>
     requestor_list it' = remove_first (\<lambda>r. lr_trans_id r = tid) (requestor_list it)"
  by (auto simp: LockMgr_Delete_LockRequestor_def remove_first_id split: if_splits)

function wakeup_loop :: "lock_item \<Rightarrow> lockmgr \<Rightarrow> int \<times> lock_item \<times> lockmgr" where
  "wakeup_loop it s =
     (case requestor_list it of
        [] \<Rightarrow> (DB_SUCCESS, it, s)
      | r # rs \<Rightarrow>
          if \<not> grantable it r then (DB_SUCCESS, it, s)
          else
            (case Trans_Search s (lr_trans_id r) of
               None \<Rightarrow> (DB_E_UNKNOWNTRANSID, it, s)
             | Some _ \<Rightarrow>
                 (case grant_requestor it r s of (e, it, s) \<Rightarrow>
                    if e < 0 then (e, it, s)
                    else
                      (case LockMgr_Delete_LockRequestor it (lr_trans_id r) s of (e, it, s) \<Rightarrow>
                         if e < 0 then (DB_FAIL 912, it, s)
                         else wakeup_loop it (signal_trans (lr_trans_id r) s)))))"
  by pat_completeness auto
termination
  by (relation "measure (\<lambda>(it, s). length (requestor_list it))")
     (auto dest!: requestor_list_grant_requestor [OF sym] requestor_list_Delete_LockRequestor [OF sym])

declare wakeup_loop.simps [simp del]

definition WakeupRequestores :: "lock_item \<Rightarrow> lockmgr \<Rightarrow> int \<times> lock_item \<times> lockmgr" where
  "WakeupRequestores it s =
     (if wait_trans_count it = 0 then (DB_SUCCESS, it, s) else wakeup_loop it s)"

subsection \<open>Deadlock detection\<close>

text \<open>
  \<open>FindCycle2\<close> is a depth-first search along "waits for a table held by"; the flag
  \<^verbatim>\<open>visited_\<close> of an item is set while the item is on the search path.  Each level of
  recursion sets one more flag, so the number of items bounds the depth; the model spends
  one unit of fuel per level and \<open>None\<close> is running out of it, which
  \<open>FindCycle2_total\<close> excludes.  The loop over the holders threads the state through.
\<close>

definition set_item_visited :: "oid \<Rightarrow> bool \<Rightarrow> lockmgr \<Rightarrow> lockmgr" where
  "set_item_visited oid b s =
     (case LockMgr_GetLockItem s oid of
        None \<Rightarrow> s
      | Some it \<Rightarrow> put_item oid (it\<lparr>li_visited := b\<rparr>) s)"

fun FindCycle2 :: "nat \<Rightarrow> int \<Rightarrow> int \<Rightarrow> lockmgr \<Rightarrow> (bool \<times> lockmgr) option"
and find_cycle_holders ::
    "nat \<Rightarrow> oid \<Rightarrow> lock_holder list \<Rightarrow> int \<Rightarrow> int \<Rightarrow> lockmgr \<Rightarrow> (bool \<times> lockmgr) option" where
  "FindCycle2 0 start target s = None"
| "FindCycle2 (Suc fuel) start target s =
     (case Trans_Search s start of
        None \<Rightarrow> Some (False, s)
      | Some tr \<Rightarrow>
          if req_tableid (trans_lock tr) = 0 then Some (False, s)
          else
            (case cont_by_id s (req_tableid (trans_lock tr)) of
               None \<Rightarrow> Some (False, s)
             | Some rel \<Rightarrow>
                 (case LockMgr_GetLockItem s (cont_id rel) of
                    None \<Rightarrow> Some (False, s)
                  | Some it \<Rightarrow>
                      if li_visited it then Some (False, s)
                      else find_cycle_holders fuel (cont_id rel) (holder_list it) start target
                             (set_item_visited (cont_id rel) True s))))"
| "find_cycle_holders fuel oid [] start target s =
     Some (False, set_item_visited oid False s)"
| "find_cycle_holders fuel oid (h # hs) start target s =
     (if lh_trans_id h = start then find_cycle_holders fuel oid hs start target s
      else if lh_trans_id h = target then Some (True, set_item_visited oid False s)
      else
        (case Trans_Search s (lh_trans_id h) of
           None \<Rightarrow> find_cycle_holders fuel oid hs start target s
         | Some _ \<Rightarrow>
             (case FindCycle2 fuel (lh_trans_id h) target s of
                None \<Rightarrow> None
              | Some (True, s) \<Rightarrow> Some (True, set_item_visited oid False s)
              | Some (False, s) \<Rightarrow>
                  find_cycle_holders fuel oid hs start target
                    (upd_trans (lh_trans_id h) (\<lambda>t. t\<lparr>tr_visited := True\<rparr>) s))))"

definition item_count :: "lockmgr \<Rightarrow> nat" where
  "item_count s = sum_list (map (\<lambda>h. length (lockitem_List s h)) [0..<DEFAULT_HASHSIZE])"

fun check_deadlock_loop :: "lock_holder list \<Rightarrow> int \<Rightarrow> lockmgr \<Rightarrow> (bool \<times> lockmgr) option" where
  "check_deadlock_loop [] req s = Some (False, s)"
| "check_deadlock_loop (h # hs) req s =
     (let tid = lh_trans_id h in
      if tid = req then check_deadlock_loop hs req s
      else
        (case Trans_Search s tid of
           None \<Rightarrow> check_deadlock_loop hs req s
         | Some tr \<Rightarrow>
             if req_tableid (trans_lock tr) \<noteq> 0 \<and> \<not> tr_visited tr \<and> \<not> aborted tr then
               (case FindCycle2 (Suc (item_count s)) tid req s of
                  None \<Rightarrow> None
                | Some (True, s) \<Rightarrow> Some (True, s)
                | Some (False, s) \<Rightarrow> check_deadlock_loop hs req s)
             else check_deadlock_loop hs req (upd_trans tid (\<lambda>t. t\<lparr>tr_visited := True\<rparr>) s)))"

definition LockMgr_Check_DeadLock :: "lock_item \<Rightarrow> int \<Rightarrow> lockmgr \<Rightarrow> (bool \<times> lockmgr) option" where
  "LockMgr_Check_DeadLock it req s =
     (case Trans_ClearVisited s of (r, s) \<Rightarrow>
        if r < 0 then Some (False, s) else check_deadlock_loop (holder_list it) req s)"

subsection \<open>Releasing\<close>

definition pop_table_lock :: "int \<Rightarrow> lockmgr \<Rightarrow> lockmgr" where
  "pop_table_lock tid s = upd_trans tid (\<lambda>t. t\<lparr>trans_lock := (trans_lock t)\<lparr>
     table_lock_list := tl (table_lock_list (trans_lock t))\<rparr>\<rparr>) s"

definition release_item :: "oid \<Rightarrow> int \<Rightarrow> lockmgr \<Rightarrow> int \<times> lockmgr" where
  \<comment> \<open>the part of an unlock on one item, with the holder of \<open>tid\<close>\<close>
  "release_item oid tid s =
     (case LockMgr_GetLockItem s oid of
        None \<Rightarrow> (DB_SUCCESS, s)
      | Some it \<Rightarrow>
          (case LockMgr_Delete_LockHolder it tid s of (e, it, s) \<Rightarrow>
             let s = put_item oid it s in
             if e < 0 then (e, s)
             else if wait_trans_count it = 0 then
               if holder_count it = 0 then (DB_SUCCESS, snd (LockMgr_Delete_LockItem oid s))
               else (DB_SUCCESS, s)
             else
               (case WakeupRequestores it s of (e, it, s) \<Rightarrow> (e, put_item oid it s))))"

definition delete_row_locks :: "rec_lock list \<Rightarrow> lockmgr \<Rightarrow> lockmgr" where
  "delete_row_locks rls s = fold (\<lambda>rl s. snd (LockMgr_delete_row_lock (recids rl) s)) rls s"

fun unlock_loop :: "nat \<Rightarrow> int \<Rightarrow> int \<Rightarrow> lockmgr \<Rightarrow> lock_result \<times> lockmgr" where
  "unlock_loop fuel tid result s =
     (case table_lock_list (trans_lock (Trans s (trans_slot tid))) of
        [] \<Rightarrow>
          (Returns result, upd_trans tid (\<lambda>t. t\<lparr>trans_lock := (trans_lock t)\<lparr>table_lock_count := 0\<rparr>\<rparr>) s)
      | l # ls \<Rightarrow>
          (case fuel of
             0 \<Rightarrow> (Out_of_fuel, s)
           | Suc fuel \<Rightarrow>
               (case release_item (tableid l) (tr_id (Trans s (trans_slot tid))) (pop_table_lock tid s) of
                  (e, s) \<Rightarrow>
                  if e < 0 then (Returns e, s)
                  else unlock_loop fuel tid e
                         (LockMgr_free_table_lock (delete_row_locks (rec_lock_list l) s)))))"

declare unlock_loop.simps [simp del]

definition LockMgr_Unlock :: "int \<Rightarrow> lockmgr \<Rightarrow> lock_result \<times> lockmgr" where
  "LockMgr_Unlock tid s =
     (case Trans_Search s tid of
        None \<Rightarrow> (Returns DB_E_UNKNOWNTRANSID, s)
      | Some tr \<Rightarrow>
          let req = req_tableid (trans_lock tr);
              fuel = length (table_lock_list (trans_lock tr)) in
          if req \<noteq> 0 then
            (case LockMgr_GetLockItem s req of
               None \<Rightarrow> (Null_dereference, s)
             | Some it \<Rightarrow>
                 (case LockMgr_Delete_LockRequestor it tid s of (_, it, s) \<Rightarrow>
                    unlock_loop fuel tid DB_SUCCESS
                      (upd_trans tid (\<lambda>t. t\<lparr>trans_lock := (trans_lock t)\<lparr>req_tableid := 0\<rparr>\<rparr>)
                        (put_item req it s))))
          else unlock_loop fuel tid DB_SUCCESS s)"

definition USER_TABLEID_BASE :: oid where "USER_TABLEID_BASE = 200"

definition LockMgr_Table_Unlock :: "int \<Rightarrow> oid \<Rightarrow> lockmgr \<Rightarrow> int \<times> lockmgr" where
  "LockMgr_Table_Unlock tid oid s =
     (case LockMgr_GetLockItem s oid of
        None \<Rightarrow> (if oid < USER_TABLEID_BASE then DB_SUCCESS else DB_FAIL 781, s)
      | Some it \<Rightarrow>
          (case LockMgr_Get_LockHolder it tid of
             None \<Rightarrow> (DB_FAIL 790, s)
           | Some h \<Rightarrow>
               let s = put_item oid (upd_holder tid (\<lambda>h. h\<lparr>lock_count := lock_count h - 1\<rparr>) it) s in
               if lock_count h - 1 \<noteq> 0 then (DB_SUCCESS, s)
               else
                 (case Trans_Search s tid of
                    None \<Rightarrow> (DB_FAIL 805, s)
                  | Some _ \<Rightarrow>
                      (case release_item oid tid s of (e, s) \<Rightarrow>
                         if e < 0 then (e, s)
                         else (e, snd (LockMgr_trans_delete_table_lock tid oid s))))))"

definition TransMgr_trans_abort :: "int \<Rightarrow> lockmgr \<Rightarrow> lock_result \<times> lockmgr" where
  \<comment> \<open>closing the cursors and undoing the log do not touch the lock table\<close>
  "TransMgr_trans_abort tid s =
     (case LockMgr_Unlock tid s of
        (Returns _, s) \<Rightarrow> (Returns DB_SUCCESS, snd (TransMgr_DelTrans tid s))
      | (r, s) \<Rightarrow> (r, s))"

subsection \<open>Locking\<close>

definition set_req_tableid :: "int \<Rightarrow> oid \<Rightarrow> lockmgr \<Rightarrow> lockmgr" where
  "set_req_tableid tid oid s =
     upd_trans tid (\<lambda>t. t\<lparr>trans_lock := (trans_lock t)\<lparr>req_tableid := oid\<rparr>\<rparr>) s"

definition drop_request :: "oid \<Rightarrow> int \<Rightarrow> lockmgr \<Rightarrow> lockmgr" where
  \<comment> \<open>\<^verbatim>\<open>LockMgr_Delete_LockRequestor(lockitem, trans_id); req_tableid = 0\<close>\<close>
  "drop_request oid tid s =
     (case LockMgr_GetLockItem s oid of
        None \<Rightarrow> s
      | Some it \<Rightarrow>
          (case LockMgr_Delete_LockRequestor it tid s of (_, it, s) \<Rightarrow>
             set_req_tableid tid 0 (put_item oid it s)))"

definition End_Processing :: "oid option \<Rightarrow> int \<Rightarrow> int \<Rightarrow> int \<Rightarrow> lockmgr \<Rightarrow> lock_result \<times> lockmgr" where
  \<comment> \<open>\<open>lockitem\<close> is the local variable of that name, \<open>cur\<close> the caller's current transaction\<close>
  "End_Processing lockitem tid cur result s =
     (let s = upd_trans tid (\<lambda>t. t\<lparr>dbact_lock_wait := False, timeout := False\<rparr>) s;
          tr = Trans s (trans_slot tid) in
      if aborted tr \<and> state tr \<noteq> TRANS_STATE_ABORT then
        (case Trans_Search s cur of
           None \<Rightarrow> (Returns DB_E_UNKNOWNTRANSID, s)
         | Some my \<Rightarrow>
             (case Option.bind lockitem (LockMgr_GetLockItem s) of
                None \<Rightarrow> (Null_dereference, s)
              | Some it \<Rightarrow>
                  (case LockMgr_Delete_LockRequestor it tid s of (_, it, s) \<Rightarrow>
                     let s = set_req_tableid cur 0 (put_item (the lockitem) it s);
                         s = upd_trans cur (\<lambda>t. t\<lparr>state := TRANS_STATE_ABORT\<rparr>) s in
                     (case TransMgr_trans_abort (tr_id my) s of
                        (Returns _, s) \<Rightarrow> (Returns DB_E_DEADLOCKABORT, s)
                      | (r, s) \<Rightarrow> (r, s)))))
      else (Returns result, s))"

definition wait_for_lock :: "oid \<Rightarrow> int \<Rightarrow> int \<Rightarrow> lockmode \<Rightarrow> lockmgr \<Rightarrow> lock_result \<times> lockmgr" where
  \<comment> \<open>from line 506 to the first \<^verbatim>\<open>ppthread_cond_timedwait\<close>; the requestor is queued\<close>
  "wait_for_lock oid tid cur m s =
     (let s = set_req_tableid tid oid s;
          s = upd_trans tid (\<lambda>t. t\<lparr>timeout := False, aborted := False, dbact_lock_wait := True\<rparr>) s in
      case Option.bind (LockMgr_GetLockItem s oid) (\<lambda>it. LockMgr_Check_DeadLock it tid s) of
        None \<Rightarrow> (Out_of_fuel, s)
      | Some (True, s) \<Rightarrow> End_Processing (Some oid) tid cur DB_E_DEADLOCKOPER (drop_request oid tid s)
      | Some (False, s) \<Rightarrow>
          (Sleeps \<lparr>wf_oid = oid, wf_trans_id = tid, wf_mode = m, lock_wait_time = 0\<rparr>,
           upd_trans tid (\<lambda>t. t\<lparr>trans_lock_wait := True\<rparr>) s))"

definition queue_request ::
    "oid \<Rightarrow> int \<Rightarrow> int \<Rightarrow> lockmode \<Rightarrow> bool \<Rightarrow> LCRP \<Rightarrow> lockmgr \<Rightarrow> lock_result \<times> lockmgr" where
  \<comment> \<open>the label \<^verbatim>\<open>insert_requestor\<close>\<close>
  "queue_request oid tid cur m upgrade flag s =
     (if flag = NOWAIT then End_Processing (Some oid) tid cur (DB_FAIL 342) s
      else
        (case LockMgr_GetLockItem s oid of
           None \<Rightarrow> (Null_dereference, s)
         | Some it \<Rightarrow>
             (case LockMgr_Insert_LockRequestor it tid (prio (Trans s (trans_slot tid))) m upgrade s of
                (e, it, s) \<Rightarrow>
                  let s = put_item oid it s in
                  if e < 0 then End_Processing (Some oid) tid cur (DB_FAIL 342) s
                  else wait_for_lock oid tid cur m s)))"

definition lock_new_item ::
    "oid \<Rightarrow> int \<Rightarrow> int \<Rightarrow> priority \<Rightarrow> lockmode \<Rightarrow> lockmgr \<Rightarrow> lock_result \<times> lockmgr" where
  \<comment> \<open>lines 393 to 416: no lock on this table yet\<close>
  "lock_new_item oid tid cur p m s =
     (case LockMgr_Insert_LockItem oid tid p m s of (e, s) \<Rightarrow>
        if e < 0 then End_Processing None tid cur e s
        else
          (case LockMgr_trans_insert_table_lock tid oid m s of (e, s) \<Rightarrow>
             if e < 0 then End_Processing None tid cur e (snd (LockMgr_Delete_LockItem oid s))
             else End_Processing None tid cur (int (lk_num m)) s))"

definition lock_as_holder ::
    "lock_item \<Rightarrow> lock_holder \<Rightarrow> oid \<Rightarrow> int \<Rightarrow> int \<Rightarrow> priority \<Rightarrow> lockmode \<Rightarrow> LCRP \<Rightarrow> lockmgr \<Rightarrow>
      lock_result \<times> lockmgr" where
  \<comment> \<open>lines 423 to 453: the transaction already holds a lock on this table\<close>
  "lock_as_holder it h oid tid cur p m flag s =
     (let m = LK_CONV m (hld_lock_mode h) in
      if m = hld_lock_mode h then
        End_Processing (Some oid) tid cur (int (lk_num m))
          (put_item oid (upd_holder tid (\<lambda>h. h\<lparr>lock_count := lock_count h + 1\<rparr>) it) s)
      else if holder_count it = 1 \<or> LockMgr_CheckConflict it tid p m = NOCONFLICT then
        End_Processing (Some oid) tid cur (int (lk_num m))
          (put_item oid
             ((upd_holder tid (\<lambda>h. h\<lparr>hld_lock_mode := m, lock_count := lock_count h + 1\<rparr>) it)
                \<lparr>granted_lock := LK_CONV m (granted_lock it)\<rparr>) s)
      else queue_request oid tid cur m True flag s)"

definition lock_as_newcomer ::
    "lock_item \<Rightarrow> oid \<Rightarrow> int \<Rightarrow> int \<Rightarrow> priority \<Rightarrow> lockmode \<Rightarrow> LCRP \<Rightarrow> lockmgr \<Rightarrow>
      lock_result \<times> lockmgr" where
  \<comment> \<open>lines 465 to 486: the table is locked, but not by this transaction\<close>
  "lock_as_newcomer it oid tid cur p m flag s =
     (if LockMgr_CheckConflict it (-1) p m = NOCONFLICT then
        (case LockMgr_Insert_LockHolder it tid p m s of (e, it, s) \<Rightarrow>
           let s = put_item oid it s in
           if e < 0 then End_Processing (Some oid) tid cur e s
           else
             (case LockMgr_trans_insert_table_lock tid oid m s of (e, s) \<Rightarrow>
                if e < 0 then End_Processing (Some oid) tid cur e s
                else End_Processing (Some oid) tid cur (int (lk_num m)) s))
      else queue_request oid tid cur m False flag s)"

definition LockMgr_Lock ::
    "string \<Rightarrow> int \<Rightarrow> int \<Rightarrow> priority \<Rightarrow> lockmode \<Rightarrow> LCRP \<Rightarrow> lockmgr \<Rightarrow> lock_result \<times> lockmgr" where
  "LockMgr_Lock relation_name tid cur p m flag s =
     (if relation_name = [] then (Returns DB_E_INVALIDPARAM, s)
      else
        (case cont_by_name s relation_name of
           None \<Rightarrow> (Returns DB_E_UNKNOWNTABLE, s)
         | Some rel \<Rightarrow>
             if cont_nolocking rel then (Returns DB_SUCCESS, s)
             else
               (case Trans_Search s tid of
                  None \<Rightarrow> (Returns DB_E_UNKNOWNTRANSID, s)
                | Some tr \<Rightarrow>
                    let oid = cont_id rel;
                        m = (if fRU tr \<and> m = LK_SHARED then LK_SCHEMA_SHARED else m) in
                    (case LockMgr_GetLockItem s oid of
                       None \<Rightarrow> lock_new_item oid tid cur p m s
                     | Some it \<Rightarrow>
                         (case LockMgr_Get_LockHolder it tid of
                            Some h \<Rightarrow> lock_as_holder it h oid tid cur p m flag s
                          | None \<Rightarrow> lock_as_newcomer it oid tid cur p m flag s)))))"

definition LockMgr_Lock_resume ::
    "wait_frame \<Rightarrow> int \<Rightarrow> bool \<Rightarrow> int \<Rightarrow> lockmgr \<Rightarrow> lock_result \<times> lockmgr" where
  \<comment> \<open>the loop body after \<^verbatim>\<open>ppthread_cond_timedwait\<close> returned and the database lock is back;
    \<open>fTerminated\<close> and \<open>lock_timeout\<close> are fields of the shared server block\<close>
  "LockMgr_Lock_resume fr cur fTerminated lock_timeout s =
     (let tid = wf_trans_id fr;
          oid = wf_oid fr;
          s = upd_trans tid (\<lambda>t. t\<lparr>trans_lock_wait := False\<rparr>) s;
          waited = lock_wait_time fr + 5;
          tr = Trans s (trans_slot tid) in
      if timeout tr \<or> aborted tr then
        End_Processing (Some oid) tid cur (int (lk_num (wf_mode fr))) s
      else if interrupt tr then
        End_Processing (Some oid) tid cur DB_E_DEADLOCKOPER
          (upd_trans tid (\<lambda>t. t\<lparr>interrupt := False\<rparr>) (drop_request oid tid s))
      else if fTerminated then End_Processing (Some oid) tid cur DB_E_TERMINATED s
      else if lock_timeout > 0 \<and> waited \<ge> lock_timeout then
        End_Processing (Some oid) tid cur DB_E_LOCKTIMEOUT (drop_request oid tid s)
      else
        (Sleeps (fr\<lparr>lock_wait_time := waited\<rparr>),
         upd_trans tid (\<lambda>t. t\<lparr>trans_lock_wait := True\<rparr>) s))"

end
