(* ===== verification/LockInv.thy ===== *)
theory LockInv
  imports LockMgr
begin

section \<open>The lock table invariant\<close>

text \<open>
  The invariant of a single lock item (\<open>item_ok\<close>: its holders are compatible with each
  other and covered by the group mode, its counters count its lists, it is not left marked
  by the deadlock search) and the proof that
  every operation of the lock manager keeps it for all items, whatever the callers do and
  whichever allocations fail.  How an operation changes the hash table is described once,
  by the contract \<open>item_table\<close>.
\<close>

subsection \<open>What an operation leaves alone\<close>

definition same_core :: "lockmgr \<Rightarrow> lockmgr \<Rightarrow> bool" where
  "same_core s t \<longleftrightarrow> Trans t = Trans s \<and> NextTransID t = NextTransID s \<and>
     Trans_Count t = Trans_Count s \<and> lockitem_List t = lockitem_List s \<and>
     malloc_ok t = malloc_ok s \<and> cont_by_name t = cont_by_name s \<and>
     cont_by_id t = cont_by_id s \<and> rec_headers t = rec_headers s"

lemma same_core_refl [simp]: "same_core s s"
  by (simp add: same_core_def)

lemma same_core_trans: "same_core s t \<Longrightarrow> same_core t u \<Longrightarrow> same_core s u"
  by (simp add: same_core_def)

lemmas pool_defs =
  pool_alloc_def pool_free_def DBMem_Alloc_def
  LockMgr_alloc_lock_item_def LockMgr_free_lock_item_def
  LockMgr_alloc_lock_hold_def LockMgr_free_lock_hold_def
  LockMgr_alloc_lock_rqst_def LockMgr_free_lock_rqst_def
  LockMgr_alloc_table_lock_def LockMgr_free_table_lock_def

lemma alloc_same_core:
  "LockMgr_alloc_lock_item s = (b, t) \<Longrightarrow> same_core s t"
  "LockMgr_alloc_lock_hold s = (b, t) \<Longrightarrow> same_core s t"
  "LockMgr_alloc_lock_rqst s = (b, t) \<Longrightarrow> same_core s t"
  "LockMgr_alloc_table_lock s = (b, t) \<Longrightarrow> same_core s t"
  by (auto simp: pool_defs same_core_def split: if_splits)

lemma free_same_core [simp]:
  "same_core s (LockMgr_free_lock_item s)"
  "same_core s (LockMgr_free_lock_hold s)"
  "same_core s (LockMgr_free_lock_rqst s)"
  "same_core s (LockMgr_free_table_lock s)"
  by (auto simp: pool_defs same_core_def)

lemma free_funpow_same_core:
  "same_core s ((LockMgr_free_lock_rqst ^^ n) s)"
  "same_core s ((LockMgr_free_lock_hold ^^ n) s)"
  by (induction n) (auto intro: same_core_trans)

lemma alloc_True:
  assumes "\<forall>n. malloc_ok s n"
  shows "fst (LockMgr_alloc_lock_item s)" "fst (LockMgr_alloc_lock_hold s)"
    "fst (LockMgr_alloc_lock_rqst s)" "fst (LockMgr_alloc_table_lock s)"
  using assms by (auto simp: pool_defs)

subsection \<open>The hash table as a map\<close>

definition bucket_ok :: "nat \<Rightarrow> lock_item list \<Rightarrow> bool" where
  "bucket_ok h xs \<longleftrightarrow> distinct (map li_oid xs) \<and> li_oid ` set xs \<subseteq> {k. LockMgr_Hash_Value k = h}"

definition store_ok :: "lockmgr \<Rightarrow> bool" where
  "store_ok s \<longleftrightarrow> (\<forall>h < DEFAULT_HASHSIZE. bucket_ok h (lockitem_List s h))"

lemma Hash_Value_less [simp]: "LockMgr_Hash_Value k < DEFAULT_HASHSIZE"
  by (simp add: LockMgr_Hash_Value_def DEFAULT_HASHSIZE_def)

lemma bucket_ok_update:
  assumes "bucket_ok h xs" and "li_oid it = k"
  shows "bucket_ok h (update_first (\<lambda>i. li_oid i = k) (\<lambda>_. it) xs)"
proof -
  have m: "map li_oid (update_first (\<lambda>i. li_oid i = k) (\<lambda>_. it) xs) = map li_oid xs"
    using assms(2) by (induction xs) auto
  then have "li_oid ` set (update_first (\<lambda>i. li_oid i = k) (\<lambda>_. it) xs) = li_oid ` set xs"
    by (metis list.set_map)
  with assms(1) m show ?thesis by (simp add: bucket_ok_def)
qed

lemma bucket_ok_Cons:
  "bucket_ok h xs \<Longrightarrow> LockMgr_Hash_Value (li_oid it) = h \<Longrightarrow>
   find (\<lambda>i. li_oid i = li_oid it) xs = None \<Longrightarrow> bucket_ok h (it # xs)"
  unfolding bucket_ok_def find_None_iff by auto

lemma bucket_ok_remove:
  assumes "bucket_ok h xs" shows "bucket_ok h (remove_first P xs)"
proof -
  have "li_oid ` set (remove_first P xs) \<subseteq> li_oid ` set xs"
    by (intro image_mono set_remove_first_subset)
  with assms show ?thesis by (auto simp: bucket_ok_def distinct_remove_first)
qed

locale item_table =
  fixes ok :: "'s \<Rightarrow> bool"
    and get :: "'s \<Rightarrow> oid \<Rightarrow> 'i option"
    and key :: "'i \<Rightarrow> oid"
    and put :: "oid \<Rightarrow> 'i \<Rightarrow> 's \<Rightarrow> 's"
    and ins :: "oid \<Rightarrow> 'i \<Rightarrow> 's \<Rightarrow> 's"
    and del :: "oid \<Rightarrow> 's \<Rightarrow> 's"
  assumes get_key: "get s o' = Some it \<Longrightarrow> key it = o'"
    and put_ok: "ok s \<Longrightarrow> key it = o' \<Longrightarrow> ok (put o' it s)"
    and ins_ok: "ok s \<Longrightarrow> key it = o' \<Longrightarrow> get s o' = None \<Longrightarrow> ok (ins o' it s)"
    and del_ok: "ok s \<Longrightarrow> ok (del o' s)"
    and get_put: "ok s \<Longrightarrow> key it = o' \<Longrightarrow>
      get (put o' it s) = (if get s o' = None then get s else (get s)(o' := Some it))"
    and get_ins: "ok s \<Longrightarrow> key it = o' \<Longrightarrow> get s o' = None \<Longrightarrow>
      get (ins o' it s) = (get s)(o' := Some it)"
    and get_del: "ok s \<Longrightarrow> get (del o' s) = (get s)(o' := None)"
begin

text \<open>A property of all items survives a change of one item, an insertion, a deletion.\<close>

lemma all_put:
  "ok s \<Longrightarrow> key it = o' \<Longrightarrow> \<forall>k i. get s k = Some i \<longrightarrow> P i \<Longrightarrow> P it \<Longrightarrow>
   \<forall>k i. get (put o' it s) k = Some i \<longrightarrow> P i"
  by (simp add: get_put)

lemma all_ins:
  "ok s \<Longrightarrow> key it = o' \<Longrightarrow> get s o' = None \<Longrightarrow> \<forall>k i. get s k = Some i \<longrightarrow> P i \<Longrightarrow> P it \<Longrightarrow>
   \<forall>k i. get (ins o' it s) k = Some i \<longrightarrow> P i"
  by (simp add: get_ins)

lemma all_del:
  "ok s \<Longrightarrow> \<forall>k i. get s k = Some i \<longrightarrow> P i \<Longrightarrow> \<forall>k i. get (del o' s) k = Some i \<longrightarrow> P i"
  by (simp add: get_del)

lemma put_put:
  "ok s \<Longrightarrow> key it = o' \<Longrightarrow> key it' = o' \<Longrightarrow>
   get (put o' it' (put o' it s)) = get (put o' it' s)"
  using put_ok by (auto simp: get_put)

end

interpretation lt: item_table store_ok LockMgr_GetLockItem li_oid put_item link_item unlink_item
proof
  fix s :: lockmgr and o' :: oid and it :: lock_item
  show "LockMgr_GetLockItem s o' = Some it \<Longrightarrow> li_oid it = o'"
    by (auto simp: LockMgr_GetLockItem_def dest: find_SomeD)
  let ?h = "LockMgr_Hash_Value o'"
  show "store_ok (put_item o' it s)" if "store_ok s" "li_oid it = o'"
    using that by (simp add: store_ok_def put_item_def Let_def bucket_ok_update)
  show "store_ok (link_item o' it s)"
    if "store_ok s" "li_oid it = o'" "LockMgr_GetLockItem s o' = None"
    using that by (simp add: store_ok_def link_item_def Let_def LockMgr_GetLockItem_def bucket_ok_Cons)
  show "store_ok (unlink_item o' s)" if "store_ok s"
    using that by (simp add: store_ok_def unlink_item_def Let_def bucket_ok_remove)
  show "LockMgr_GetLockItem (put_item o' it s) =
     (if LockMgr_GetLockItem s o' = None then LockMgr_GetLockItem s
      else (LockMgr_GetLockItem s)(o' := Some it))" if "store_ok s" "li_oid it = o'"
  proof -
    have f: "find (\<lambda>i. li_oid i = w) (update_first (\<lambda>i. li_oid i = o') (\<lambda>_. it) xs) =
      (if o' = w then map_option (\<lambda>_. it) (find (\<lambda>i. li_oid i = o') xs) else find (\<lambda>i. li_oid i = w) xs)"
      for w xs
      using that(2) by (induction xs) auto
    show ?thesis
      by (auto simp: fun_eq_iff LockMgr_GetLockItem_def put_item_def Let_def f)
  qed
  show "LockMgr_GetLockItem (link_item o' it s) = (LockMgr_GetLockItem s)(o' := Some it)"
    if "store_ok s" "li_oid it = o'" "LockMgr_GetLockItem s o' = None"
    using that by (auto simp: fun_eq_iff LockMgr_GetLockItem_def link_item_def Let_def)
  show "LockMgr_GetLockItem (unlink_item o' s) = (LockMgr_GetLockItem s)(o' := None)"
    if "store_ok s"
    using that by (auto simp: fun_eq_iff LockMgr_GetLockItem_def unlink_item_def Let_def
        find_key_remove_first store_ok_def bucket_ok_def)
qed

subsection \<open>One item\<close>

definition holders_compatible :: "lock_holder list \<Rightarrow> bool" where
  "holders_compatible hs \<longleftrightarrow> (\<forall>h \<in> set hs. \<forall>h' \<in> set hs.
     lh_trans_id h \<noteq> lh_trans_id h' \<longrightarrow> LK_COMP (hld_lock_mode h) (hld_lock_mode h'))"

definition by_priority :: "lock_holder list \<Rightarrow> bool" where
  "by_priority hs \<longleftrightarrow> sorted_wrt (\<ge>) (map lh_trans_prio hs)"

definition item_ok :: "lock_item \<Rightarrow> bool" where
  "item_ok it \<longleftrightarrow>
     distinct (map lh_trans_id (holder_list it)) \<and>
     (\<forall>h \<in> set (holder_list it). hld_lock_mode h \<le> granted_lock it) \<and>
     holders_compatible (holder_list it) \<and>
     by_priority (holder_list it) \<and>
     holder_count it = int (length (holder_list it)) \<and>
     wait_trans_count it = int (length (requestor_list it)) \<and>
     \<not> li_visited it"

definition lk_inv :: "lockmgr \<Rightarrow> bool" where
  "lk_inv s \<longleftrightarrow> store_ok s \<and> (\<forall>k it. LockMgr_GetLockItem s k = Some it \<longrightarrow> item_ok it)"

lemma LK_COMP_antimono: "m \<le> m' \<Longrightarrow> LK_COMP a m' \<Longrightarrow> LK_COMP a m"
  using lk.comp_conv [of a m m'] by (simp add: LK_CONV_max max_def)

lemma set_insert_holder [simp]: "set (insert_holder h hs) = insert h (set hs)"
  by (induction hs) auto

lemma length_insert_holder [simp]: "length (insert_holder h hs) = Suc (length hs)"
  by (induction hs) auto

lemma distinct_insert_holder:
  "distinct (map lh_trans_id hs) \<Longrightarrow> lh_trans_id h \<notin> lh_trans_id ` set hs \<Longrightarrow>
   distinct (map lh_trans_id (insert_holder h hs))"
  by (induction hs) auto

lemma by_priority_insert_holder: "by_priority hs \<Longrightarrow> by_priority (insert_holder h hs)"
  unfolding by_priority_def by (induction hs) auto

lemma set_insert_requestor [simp]: "set (insert_requestor r rs) = insert r (set rs)"
  by (induction rs) auto

lemma length_insert_requestor [simp]: "length (insert_requestor r rs) = Suc (length rs)"
  by (induction rs) auto

lemma conflict_with_holders_iff:
  "conflict_with_holders tid m hs = NOCONFLICT \<longleftrightarrow>
     (\<forall>h \<in> set hs. lh_trans_id h \<noteq> tid \<longrightarrow> LK_COMP m (hld_lock_mode h))"
  by (induction hs) (auto simp: NOCONFLICT_def CONFLICT_def)

lemma conflict_with_requestors_iff:
  "conflict_with_requestors p m rs = NOCONFLICT \<longleftrightarrow>
     (\<forall>r \<in> set rs. LK_COMP m (req_lock_mode r) \<and> (m = LK_MODE_SS \<or> lr_trans_prio r \<le> p))"
  by (induction rs) (auto simp: NOCONFLICT_def CONFLICT_def)

lemma CheckConflict_cases:
  "LockMgr_CheckConflict it tid p m = NOCONFLICT \<or> LockMgr_CheckConflict it tid p m = CONFLICT"
proof -
  have "conflict_with_holders tid m hs \<in> {NOCONFLICT, CONFLICT}" for hs
    by (induction hs) auto
  moreover have "conflict_with_requestors p m rs \<in> {NOCONFLICT, CONFLICT}" for rs
    by (induction rs) auto
  ultimately show ?thesis by (auto simp: LockMgr_CheckConflict_def)
qed

lemma NOCONFLICT_neq [simp]: "NOCONFLICT \<noteq> CONFLICT" "CONFLICT \<noteq> NOCONFLICT"
  by (simp_all add: NOCONFLICT_def CONFLICT_def)

definition add_holder :: "int \<Rightarrow> priority \<Rightarrow> lockmode \<Rightarrow> lock_item \<Rightarrow> lock_item" where
  "add_holder tid p m it = it\<lparr>granted_lock := LK_CONV m (granted_lock it),
     holder_count := holder_count it + 1,
     holder_list := insert_holder \<lparr>lh_trans_id = tid, lh_trans_prio = p, hld_lock_mode = m,
                                   lock_count = 1\<rparr> (holder_list it)\<rparr>"

definition raise_holder :: "int \<Rightarrow> lockmode \<Rightarrow> lock_item \<Rightarrow> lock_item" where
  "raise_holder tid m it =
     (upd_holder tid (\<lambda>h. h\<lparr>hld_lock_mode := m, lock_count := lock_count h + 1\<rparr>) it)
       \<lparr>granted_lock := LK_CONV m (granted_lock it)\<rparr>"

lemma Get_LockHolder_None:
  "LockMgr_Get_LockHolder it tid = None \<longleftrightarrow> tid \<notin> lh_trans_id ` set (holder_list it)"
  by (auto simp: LockMgr_Get_LockHolder_def find_None_iff)

lemma item_ok_add_holder:
  assumes "item_ok it" and "LockMgr_Get_LockHolder it tid = None"
    and "\<forall>h \<in> set (holder_list it). LK_COMP m (hld_lock_mode h)"
  shows "item_ok (add_holder tid p m it)"
proof -
  have c: "LK_COMP m (hld_lock_mode h)" "LK_COMP (hld_lock_mode h) m"
    if "h \<in> set (holder_list it)" for h
    using that assms(3) lk.comp_sym by auto
  then have "holders_compatible (holder_list (add_holder tid p m it))"
    using assms(1) by (auto simp: item_ok_def holders_compatible_def add_holder_def)
  with assms show ?thesis
    by (auto simp: item_ok_def add_holder_def Get_LockHolder_None distinct_insert_holder
        by_priority_insert_holder LK_CONV_max le_max_iff_disj)
qed

lemma holder_list_upd_holder:
  "holder_list (upd_holder tid f it) =
     update_first (\<lambda>h. lh_trans_id h = tid) f (holder_list it)"
  by (simp add: upd_holder_def)

lemma upd_holder_fields [simp]:
  "li_oid (upd_holder tid f it) = li_oid it"
  "granted_lock (upd_holder tid f it) = granted_lock it"
  "holder_count (upd_holder tid f it) = holder_count it"
  "wait_trans_count (upd_holder tid f it) = wait_trans_count it"
  "requestor_list (upd_holder tid f it) = requestor_list it"
  "li_visited (upd_holder tid f it) = li_visited it"
  by (simp_all add: upd_holder_def)

lemma item_ok_raise_holder:
  assumes "item_ok it"
    and "\<forall>h \<in> set (holder_list it). lh_trans_id h \<noteq> tid \<longrightarrow> LK_COMP m (hld_lock_mode h)"
  shows "item_ok (raise_holder tid m it)"
proof -
  let ?f = "\<lambda>h. h\<lparr>hld_lock_mode := m, lock_count := lock_count h + 1\<rparr>"
  let ?hs = "update_first (\<lambda>h. lh_trans_id h = tid) ?f (holder_list it)"
  have ids: "map lh_trans_id ?hs = map lh_trans_id (holder_list it)"
    and prios: "map lh_trans_prio ?hs = map lh_trans_prio (holder_list it)"
    by (rule map_key_update_first, simp)+
  have dist: "distinct (map lh_trans_id (holder_list it))"
    using assms(1) by (simp add: item_ok_def)
  have set: "set ?hs = {h \<in> set (holder_list it). lh_trans_id h \<noteq> tid} \<union>
      ?f ` {h \<in> set (holder_list it). lh_trans_id h = tid}"
    using dist by (rule set_update_first_key)
  have "holders_compatible ?hs"
    using assms lk.comp_sym unfolding holders_compatible_def set
    by (auto simp: item_ok_def holders_compatible_def)
  moreover have "\<forall>h \<in> set ?hs. hld_lock_mode h \<le> LK_CONV m (granted_lock it)"
    using assms(1) unfolding set by (auto simp: item_ok_def LK_CONV_max le_max_iff_disj)
  moreover have "by_priority ?hs"
    using assms(1) by (simp add: item_ok_def by_priority_def prios)
  ultimately show ?thesis
    using assms(1) dist ids
    by (simp add: item_ok_def raise_holder_def holder_list_upd_holder)
qed

definition drop_holder :: "int \<Rightarrow> lock_item \<Rightarrow> lock_item" where
  "drop_holder tid it =
     (if tid \<notin> lh_trans_id ` set (holder_list it) then it
      else
        let hs = remove_first (\<lambda>h. lh_trans_id h = tid) (holder_list it) in
        it\<lparr>holder_list := hs, holder_count := holder_count it - 1,
           granted_lock := (if holder_count it - 1 = 0 then LK_NOLOCK else group_mode hs)\<rparr>)"

definition drop_requestor :: "int \<Rightarrow> lock_item \<Rightarrow> lock_item" where
  "drop_requestor tid it =
     (if tid \<notin> lr_trans_id ` set (requestor_list it) then it
      else it\<lparr>requestor_list := remove_first (\<lambda>r. lr_trans_id r = tid) (requestor_list it),
              wait_trans_count := wait_trans_count it - 1\<rparr>)"

definition add_requestor :: "int \<Rightarrow> priority \<Rightarrow> lockmode \<Rightarrow> bool \<Rightarrow> lock_item \<Rightarrow> lock_item" where
  "add_requestor tid p m upgrade it =
     it\<lparr>wait_trans_count := wait_trans_count it + 1,
        requestor_list := insert_requestor \<lparr>lr_trans_id = tid, lr_trans_prio = p,
          req_lock_mode = m, lock_upgraded = upgrade\<rparr> (requestor_list it)\<rparr>"

lemma item_edit_oid [simp]:
  "li_oid (add_holder tid p m it) = li_oid it"
  "li_oid (raise_holder tid m it) = li_oid it"
  "li_oid (drop_holder tid it) = li_oid it"
  "li_oid (drop_requestor tid it) = li_oid it"
  "li_oid (add_requestor tid p m u it) = li_oid it"
  by (simp_all add: add_holder_def raise_holder_def drop_holder_def drop_requestor_def
      add_requestor_def Let_def)

lemma group_mode_Cons: "group_mode hs = Max (insert LK_NOLOCK (hld_lock_mode ` set hs))"
proof -
  have "foldl (\<lambda>g m. LK_CONV m g) g ms = Max (insert g (set ms))" for g ms
  proof (induction ms arbitrary: g)
    case (Cons m ms)
    have "Max (insert (max m g) (set ms)) = Max (insert g (insert m (set ms)))"
      by (cases "ms = []") (simp_all add: max.commute max.left_commute max.assoc)
    with Cons show ?case by (simp add: LK_CONV_max)
  qed simp
  then show ?thesis by (simp add: group_mode_def)
qed

lemma group_mode_upper: "h \<in> set hs \<Longrightarrow> hld_lock_mode h \<le> group_mode hs"
  by (simp add: group_mode_Cons)

lemma item_ok_drop_holder:
  assumes "item_ok it" shows "item_ok (drop_holder tid it)"
proof (cases "tid \<in> lh_trans_id ` set (holder_list it)")
  case False
  with assms show ?thesis by (simp add: drop_holder_def)
next
  case True
  let ?hs = "remove_first (\<lambda>h. lh_trans_id h = tid) (holder_list it)"
  have len: "length ?hs = length (holder_list it) - 1" "holder_list it \<noteq> []"
    using True by (auto simp: length_remove_first)
  have sub: "set ?hs \<subseteq> set (holder_list it)"
    by (rule set_remove_first_subset)
  have "by_priority ?hs"
  proof -
    have "sorted_wrt (\<lambda>x y. lh_trans_prio x \<ge> lh_trans_prio y) (holder_list it)"
      using assms by (simp add: item_ok_def by_priority_def sorted_wrt_map)
    then show ?thesis
      by (simp add: by_priority_def sorted_wrt_map sorted_wrt_remove_first)
  qed
  moreover have "holders_compatible ?hs"
    using assms sub unfolding item_ok_def holders_compatible_def by blast
  moreover have "int (length ?hs) = int (length (holder_list it)) - 1"
    using len by (simp add: of_nat_diff Suc_leI)
  moreover have "length (holder_list it) = 1 \<Longrightarrow> ?hs = []"
    using len by simp
  ultimately show ?thesis
    using assms True group_mode_upper
    by (auto simp: item_ok_def drop_holder_def Let_def distinct_remove_first)
qed

lemma item_ok_drop_requestor:
  assumes "item_ok it" shows "item_ok (drop_requestor tid it)"
proof (cases "tid \<in> lr_trans_id ` set (requestor_list it)")
  case True
  then have "length (remove_first (\<lambda>r. lr_trans_id r = tid) (requestor_list it)) =
      length (requestor_list it) - 1" "requestor_list it \<noteq> []"
    by (auto simp: length_remove_first)
  with assms show ?thesis
    by (simp add: item_ok_def drop_requestor_def of_nat_diff Suc_leI)
qed (use assms in \<open>simp add: drop_requestor_def\<close>)

lemma item_ok_add_requestor: "item_ok it \<Longrightarrow> item_ok (add_requestor tid p m u it)"
  by (simp add: item_ok_def add_requestor_def)

lemma item_ok_upd_count:
  assumes "item_ok it"
  shows "item_ok (upd_holder tid (\<lambda>h. h\<lparr>lock_count := f h\<rparr>) it)"
proof -
  let ?f = "\<lambda>h. h\<lparr>lock_count := f h\<rparr>"
  let ?hs = "update_first (\<lambda>h. lh_trans_id h = tid) ?f (holder_list it)"
  have m: "map lh_trans_id ?hs = map lh_trans_id (holder_list it)"
    "map lh_trans_prio ?hs = map lh_trans_prio (holder_list it)"
    "map hld_lock_mode ?hs = map hld_lock_mode (holder_list it)"
    by (rule map_key_update_first, simp)+
  have z: "(\<lambda>h. (lh_trans_id h, hld_lock_mode h)) ` set ?hs =
      (\<lambda>h. (lh_trans_id h, hld_lock_mode h)) ` set (holder_list it)"
    by (subst (1 2) list.set_map [symmetric]) (rule arg_cong [where f = set], rule map_key_update_first, simp)
  have e: "holders_compatible hs \<longleftrightarrow> (\<forall>(i, a) \<in> (\<lambda>h. (lh_trans_id h, hld_lock_mode h)) ` set hs.
      \<forall>(j, b) \<in> (\<lambda>h. (lh_trans_id h, hld_lock_mode h)) ` set hs. i \<noteq> j \<longrightarrow> LK_COMP a b)" for hs
    by (simp add: holders_compatible_def)
  have "holders_compatible ?hs = holders_compatible (holder_list it)"
    by (simp only: e z)
  moreover have "\<forall>h \<in> set ?hs. hld_lock_mode h \<le> granted_lock it"
  proof
    fix h assume "h \<in> set ?hs"
    then have "hld_lock_mode h \<in> set (map hld_lock_mode ?hs)" by simp
    then show "hld_lock_mode h \<le> granted_lock it"
      using assms unfolding m(3) by (auto simp: item_ok_def)
  qed
  ultimately show ?thesis
    using assms m(1,2) by (simp add: item_ok_def holder_list_upd_holder by_priority_def)
qed

subsection \<open>Outcomes of the operations on one item\<close>

lemma Insert_LockHolder_outcome:
  "LockMgr_Insert_LockHolder it tid p m s = (e, it', t) \<Longrightarrow>
   same_core s t \<and> ((e = DB_SUCCESS \<and> it' = add_holder tid p m it) \<or> (e < 0 \<and> it' = it))"
  by (auto simp: LockMgr_Insert_LockHolder_def add_holder_def Let_def DB_FAIL_def
      split: prod.splits bool.splits dest: alloc_same_core)

lemma Delete_LockHolder_outcome:
  "LockMgr_Delete_LockHolder it tid s = (e, it', t) \<Longrightarrow>
   same_core s t \<and> e = DB_SUCCESS \<and> it' = drop_holder tid it"
  by (auto simp: LockMgr_Delete_LockHolder_def drop_holder_def Let_def image_iff split: if_splits)

lemma Insert_LockRequestor_outcome:
  "LockMgr_Insert_LockRequestor it tid p m u s = (e, it', t) \<Longrightarrow>
   same_core s t \<and> ((e = DB_SUCCESS \<and> it' = add_requestor tid p m u it) \<or> (e < 0 \<and> it' = it))"
  by (auto simp: LockMgr_Insert_LockRequestor_def add_requestor_def Let_def DB_FAIL_def
      split: prod.splits bool.splits dest: alloc_same_core)

lemma Delete_LockRequestor_outcome:
  "LockMgr_Delete_LockRequestor it tid s = (e, it', t) \<Longrightarrow>
   same_core s t \<and> e = DB_SUCCESS \<and> it' = drop_requestor tid it"
  by (auto simp: LockMgr_Delete_LockRequestor_def drop_requestor_def image_iff split: if_splits)

lemma same_core_items: "same_core s t \<Longrightarrow> lockitem_List t = lockitem_List s"
  by (simp add: same_core_def)

lemma items_upd [simp]:
  "lockitem_List (upd_slot i f s) = lockitem_List s"
  "lockitem_List (upd_trans tid f s) = lockitem_List s"
  "lockitem_List (set_req_tableid tid k s) = lockitem_List s"
  "lockitem_List (pop_table_lock tid s) = lockitem_List s"
  "lockitem_List (signal_trans tid s) = lockitem_List s"
  by (simp_all add: upd_trans_def upd_slot_def set_req_tableid_def pop_table_lock_def signal_trans_def)

lemma items_insert_table_lock [simp]:
  "lockitem_List (snd (LockMgr_trans_insert_table_lock tid k m s)) = lockitem_List s"
  by (auto simp: LockMgr_trans_insert_table_lock_def split: prod.splits bool.splits
      dest: alloc_same_core(4) same_core_items)

lemma items_delete_table_lock [simp]:
  "lockitem_List (snd (LockMgr_trans_delete_table_lock tid k s)) = lockitem_List s"
  by (simp add: LockMgr_trans_delete_table_lock_def Let_def same_core_items [OF free_same_core(4)])

lemma items_delete_row_lock [simp]:
  "lockitem_List (snd (LockMgr_delete_row_lock rs s)) = lockitem_List s"
  by (induction rs s rule: LockMgr_delete_row_lock.induct) (auto split: option.splits)

lemma items_delete_row_locks [simp]: "lockitem_List (delete_row_locks rls s) = lockitem_List s"
  unfolding delete_row_locks_def by (induction rls arbitrary: s) simp_all

lemma items_free [simp]:
  "lockitem_List (LockMgr_free_lock_item s) = lockitem_List s"
  "lockitem_List (LockMgr_free_lock_hold s) = lockitem_List s"
  "lockitem_List (LockMgr_free_lock_rqst s) = lockitem_List s"
  "lockitem_List (LockMgr_free_table_lock s) = lockitem_List s"
  "lockitem_List ((LockMgr_free_lock_rqst ^^ n) s) = lockitem_List s"
  "lockitem_List ((LockMgr_free_lock_hold ^^ n) s) = lockitem_List s"
  by (rule same_core_items, simp add: free_funpow_same_core)+

lemma GetLockItem_cong: "lockitem_List t = lockitem_List s \<Longrightarrow> LockMgr_GetLockItem t = LockMgr_GetLockItem s"
  by (simp add: LockMgr_GetLockItem_def fun_eq_iff)

lemma store_ok_cong: "lockitem_List t = lockitem_List s \<Longrightarrow> store_ok t = store_ok s"
  by (simp add: store_ok_def)

lemma lk_inv_cong: "lockitem_List t = lockitem_List s \<Longrightarrow> lk_inv t = lk_inv s"
  by (simp add: lk_inv_def GetLockItem_cong [of t s] store_ok_cong [of t s])

lemma GetLockItem_upd [simp]:
  "LockMgr_GetLockItem (upd_trans tid f s) = LockMgr_GetLockItem s"
  "LockMgr_GetLockItem (set_req_tableid tid k s) = LockMgr_GetLockItem s"
  "LockMgr_GetLockItem (pop_table_lock tid s) = LockMgr_GetLockItem s"
  "LockMgr_GetLockItem (signal_trans tid s) = LockMgr_GetLockItem s"
  "LockMgr_GetLockItem (snd (LockMgr_trans_insert_table_lock tid k m s)) = LockMgr_GetLockItem s"
  "LockMgr_GetLockItem (snd (LockMgr_trans_delete_table_lock tid k s)) = LockMgr_GetLockItem s"
  "LockMgr_GetLockItem (delete_row_locks rls s) = LockMgr_GetLockItem s"
  "LockMgr_GetLockItem (LockMgr_free_table_lock s) = LockMgr_GetLockItem s"
  by (rule GetLockItem_cong, simp)+

lemma lk_inv_upd [simp]:
  "lk_inv (upd_trans tid f s) = lk_inv s"
  "lk_inv (set_req_tableid tid k s) = lk_inv s"
  "lk_inv (pop_table_lock tid s) = lk_inv s"
  "lk_inv (signal_trans tid s) = lk_inv s"
  "lk_inv (snd (LockMgr_trans_insert_table_lock tid k m s)) = lk_inv s"
  "lk_inv (snd (LockMgr_trans_delete_table_lock tid k s)) = lk_inv s"
  "lk_inv (delete_row_locks rls s) = lk_inv s"
  "lk_inv (LockMgr_free_table_lock s) = lk_inv s"
  by (rule lk_inv_cong, simp)+

lemma lk_inv_same_core: "same_core s t \<Longrightarrow> lk_inv t = lk_inv s"
  by (rule lk_inv_cong) (rule same_core_items)

lemma lk_inv_item: "lk_inv s \<Longrightarrow> LockMgr_GetLockItem s k = Some it \<Longrightarrow> item_ok it \<and> li_oid it = k"
  by (auto simp: lk_inv_def lt.get_key)

lemma lk_inv_put: "lk_inv s \<Longrightarrow> item_ok it \<Longrightarrow> li_oid it = k \<Longrightarrow> lk_inv (put_item k it s)"
  unfolding lk_inv_def using lt.put_ok lt.all_put [of s it k item_ok] by blast

lemma lk_inv_link:
  "lk_inv s \<Longrightarrow> item_ok it \<Longrightarrow> li_oid it = k \<Longrightarrow> LockMgr_GetLockItem s k = None \<Longrightarrow>
   lk_inv (link_item k it s)"
  unfolding lk_inv_def using lt.ins_ok lt.all_ins [of s it k item_ok] by blast

lemma lk_inv_unlink: "lk_inv s \<Longrightarrow> lk_inv (unlink_item k s)"
  unfolding lk_inv_def using lt.del_ok lt.all_del [of s item_ok k] by blast

subsection \<open>Every operation keeps the invariant\<close>

lemma lk_inv_Insert_LockItem [inv_intros]:
  assumes "lk_inv s" and "LockMgr_GetLockItem s k = None"
    and "LockMgr_Insert_LockItem k tid p m s = (e, t)"
  shows "lk_inv t"
proof -
  obtain b s1 where a: "LockMgr_alloc_lock_item s = (b, s1)" by fastforce
  obtain e2 it s2 where h: "LockMgr_Insert_LockHolder item_zero tid p m s1 = (e2, it, s2)"
    using prod_cases3 by blast
  have core: "same_core s s1" "same_core s1 s2"
    using alloc_same_core(1) [OF a] Insert_LockHolder_outcome [OF h] by simp_all
  have "lk_inv s1" "lk_inv s2" "LockMgr_GetLockItem s2 k = None"
    using assms(1,2) core lk_inv_same_core GetLockItem_cong same_core_items by metis+
  moreover have "item_ok (it\<lparr>li_oid := k\<rparr>)" if "\<not> e2 < 0"
    using that Insert_LockHolder_outcome [OF h]
    by (auto simp: item_ok_def add_holder_def item_zero_def holders_compatible_def by_priority_def
        LK_CONV_max)
  moreover have "item_zero\<lparr>granted_lock := LK_NOLOCK\<rparr> = item_zero"
    by (simp add: item_zero_def)
  ultimately show ?thesis
    using assms(3) a h
    by (cases b) (auto simp: LockMgr_Insert_LockItem_def lk_inv_link split: if_splits)
qed

lemma lk_inv_Delete_LockItem [inv_intros]:
  "lk_inv s \<Longrightarrow> lk_inv (snd (LockMgr_Delete_LockItem k s))"
  by (auto simp: LockMgr_Delete_LockItem_def Let_def split: option.splits
      intro!: lk_inv_unlink cong: lk_inv_cong)

lemma CheckConflict_holders:
  assumes "LockMgr_CheckConflict it tid p m \<noteq> CONFLICT" and "item_ok it"
  shows "\<forall>h \<in> set (holder_list it). lh_trans_id h \<noteq> tid \<longrightarrow> LK_COMP m (hld_lock_mode h)"
proof (cases "tid = -1")
  case True
  with assms have "LK_COMP m (granted_lock it)"
    by (auto simp: LockMgr_CheckConflict_def split: if_splits)
  with assms(2) show ?thesis by (auto simp: item_ok_def intro: LK_COMP_antimono)
next
  case False
  with assms(1) CheckConflict_cases [of it tid p m] show ?thesis
    by (auto simp: LockMgr_CheckConflict_def conflict_with_holders_iff)
qed

lemma grantable_holders:
  assumes "grantable it r" and "item_ok it"
  shows "\<forall>h \<in> set (holder_list it). lh_trans_id h \<noteq> lr_trans_id r \<longrightarrow>
    LK_COMP (req_lock_mode r) (hld_lock_mode h)"
proof (cases "LK_COMP (req_lock_mode r) (granted_lock it)")
  case True
  with assms(2) show ?thesis by (auto simp: item_ok_def intro: LK_COMP_antimono)
next
  case False
  with assms show ?thesis using CheckConflict_holders by auto
qed

lemma grant_requestor_outcome:
  assumes "grant_requestor it r s = (e, it', t)"
  shows "lockitem_List t = lockitem_List s \<and>
    ((e = DB_SUCCESS \<and> LockMgr_Get_LockHolder it (lr_trans_id r) \<noteq> None \<and> t = s \<and>
        it' = raise_holder (lr_trans_id r) (req_lock_mode r) it) \<or>
     (e = DB_SUCCESS \<and> LockMgr_Get_LockHolder it (lr_trans_id r) = None \<and>
        it' = add_holder (lr_trans_id r) (lr_trans_prio r) (req_lock_mode r) it) \<or>
     (e < 0 \<and> it' = it))"
proof (cases "LockMgr_Get_LockHolder it (lr_trans_id r)")
  case (Some h)
  with assms show ?thesis by (simp add: grant_requestor_def raise_holder_def Let_def)
next
  case None
  obtain e1 it1 s1 where ins: "LockMgr_Insert_LockHolder it (lr_trans_id r) (lr_trans_prio r)
      (req_lock_mode r) s = (e1, it1, s1)"
    using prod_cases3 by blast
  with None assms Insert_LockHolder_outcome [OF ins] show ?thesis
    by (auto simp: grant_requestor_def Let_def DB_FAIL_def DB_SUCCESS_def dest: same_core_items split: if_splits)
qed

lemma item_ok_grant:
  assumes "grant_requestor it r s = (e, it', t)" and "item_ok it" and "grantable it r"
  shows "item_ok it' \<and> li_oid it' = li_oid it"
proof -
  note out = grant_requestor_outcome [OF assms(1)]
  show ?thesis
  proof (cases "LockMgr_Get_LockHolder it (lr_trans_id r)")
    case (Some h)
    with out show ?thesis
      using item_ok_raise_holder [OF assms(2) grantable_holders [OF assms(3,2)]] assms(2) by auto
  next
    case None
    have "item_ok (add_holder (lr_trans_id r) (lr_trans_prio r) (req_lock_mode r) it)"
      using assms(2) None grantable_holders [OF assms(3,2)]
      by (intro item_ok_add_holder) (auto simp: Get_LockHolder_None image_iff)
    with None out assms(2) show ?thesis by auto
  qed
qed

lemma item_ok_wakeup_loop:
  "wakeup_loop it s = (e, it', t) \<Longrightarrow> item_ok it \<Longrightarrow>
   item_ok it' \<and> li_oid it' = li_oid it \<and> lockitem_List t = lockitem_List s"
proof (induction it s arbitrary: e it' t rule: wakeup_loop.induct)
  case (1 it s)
  show ?case
  proof (cases "requestor_list it")
    case Nil
    with "1.prems" show ?thesis by (simp add: wakeup_loop.simps [of it s])
  next
    case (Cons r rs)
    show ?thesis
    proof (cases "grantable it r \<and> Trans_Search s (lr_trans_id r) \<noteq> None")
      case False
      with Cons "1.prems" show ?thesis
        by (auto simp: wakeup_loop.simps [of it s] simp del: grantable.simps split: if_splits)
    next
      case True
      then have g: "grantable it r" by simp
      from True obtain tr where tr: "Trans_Search s (lr_trans_id r) = Some tr" by auto
      obtain e1 it1 s1 where gr: "grant_requestor it r s = (e1, it1, s1)"
        using prod_cases3 by blast
      note it1 = item_ok_grant [OF gr "1.prems"(2) g] grant_requestor_outcome [OF gr]
      obtain e2 it2 s2 where dl: "LockMgr_Delete_LockRequestor it1 (lr_trans_id r) s1 = (e2, it2, s2)"
        using prod_cases3 by blast
      note it2 = Delete_LockRequestor_outcome [OF dl]
      show ?thesis
      proof (cases "e1 < 0")
        case True
        with g tr Cons gr it1 "1.prems" show ?thesis
          by (simp add: wakeup_loop.simps [of it s] del: grantable.simps)
      next
        case False
        have step: "wakeup_loop it s = wakeup_loop it2 (signal_trans (lr_trans_id r) s2)"
          using g tr Cons gr dl False it2
          by (simp add: wakeup_loop.simps [of it s] DB_SUCCESS_def del: grantable.simps)
        have e2: "\<not> e2 < 0" using it2 by (simp add: DB_SUCCESS_def)
        have "item_ok it' \<and> li_oid it' = li_oid it2 \<and>
            lockitem_List t = lockitem_List (signal_trans (lr_trans_id r) s2)"
          using "1.prems"(1) it1 it2 unfolding step
          by (intro "1.IH" [OF Cons _ tr gr [symmetric] refl False dl [symmetric] refl e2])
             (simp_all add: g item_ok_drop_requestor del: grantable.simps)
        with it1 it2 same_core_items [of s1 s2] show ?thesis by simp
      qed
    qed
  qed
qed

lemma item_ok_Wakeup:
  "WakeupRequestores it s = (e, it', t) \<Longrightarrow> item_ok it \<Longrightarrow>
   item_ok it' \<and> li_oid it' = li_oid it \<and> lockitem_List t = lockitem_List s"
  using item_ok_wakeup_loop by (auto simp: WakeupRequestores_def split: if_splits)

lemma lk_inv_release_item [inv_intros]:
  assumes "lk_inv s" shows "lk_inv (snd (release_item k tid s))"
proof (cases "LockMgr_GetLockItem s k")
  case None
  with assms show ?thesis by (simp add: release_item_def)
next
  case (Some it)
  note it = lk_inv_item [OF assms Some]
  obtain e it1 s1 where d: "LockMgr_Delete_LockHolder it tid s = (e, it1, s1)"
    using prod_cases3 by blast
  note out = Delete_LockHolder_outcome [OF d]
  let ?s = "put_item k it1 s1"
  have it1: "item_ok it1" "li_oid it1 = k"
    using out it item_ok_drop_holder by simp_all
  have inv: "lk_inv ?s"
    using assms out it1 by (intro lk_inv_put) (simp_all add: lk_inv_same_core [of s s1])
  obtain e2 it2 s2 where w: "WakeupRequestores it1 ?s = (e2, it2, s2)"
    using prod_cases3 by blast
  note wo = item_ok_Wakeup [OF w it1(1)]
  have "lk_inv (put_item k it2 s2)"
    using wo it1 inv by (intro lk_inv_put) (auto simp: lk_inv_cong [of s2 ?s])
  with inv lk_inv_Delete_LockItem [OF inv] show ?thesis
    using Some d w by (simp add: release_item_def Let_def)
qed

lemma lk_inv_unlock_loop:
  "lk_inv s \<Longrightarrow> lk_inv (snd (unlock_loop fuel tid e s))"
proof (induction fuel arbitrary: e s)
  case 0
  then show ?case by (subst unlock_loop.simps) (simp split: list.splits)
next
  case (Suc fuel)
  have "lk_inv (snd (release_item k u (pop_table_lock tid s)))" for k u
    using Suc.prems by (intro lk_inv_release_item) simp
  then show ?case
    using Suc by (subst unlock_loop.simps) (simp add: case_prod_beta split: list.split)
qed

lemma lk_inv_drop_requestor:
  assumes "lk_inv s" and "LockMgr_GetLockItem s k = Some it"
    and "LockMgr_Delete_LockRequestor it tid s = (e, it', t)"
  shows "lk_inv (put_item k it' t)"
  using assms Delete_LockRequestor_outcome [OF assms(3)] lk_inv_item [OF assms(1,2)]
  by (intro lk_inv_put) (auto simp: lk_inv_same_core [of s t] item_ok_drop_requestor)

lemma lk_inv_Unlock [inv_intros]: "lk_inv s \<Longrightarrow> lk_inv (snd (LockMgr_Unlock tid s))"
  by (auto simp: LockMgr_Unlock_def Let_def split: option.splits prod.splits
      intro!: lk_inv_unlock_loop dest: lk_inv_drop_requestor)

lemma lk_inv_Table_Unlock [inv_intros]:
  assumes "lk_inv s" shows "lk_inv (snd (LockMgr_Table_Unlock tid k s))"
proof -
  have "lk_inv (put_item k (upd_holder tid (\<lambda>h. h\<lparr>lock_count := f h\<rparr>) it) s)"
    if "LockMgr_GetLockItem s k = Some it" for it f
    using lk_inv_item [OF assms that] assms by (intro lk_inv_put) (simp_all add: item_ok_upd_count)
  then show ?thesis
    using assms by (auto simp: LockMgr_Table_Unlock_def Let_def case_prod_beta
        intro!: lk_inv_release_item split: option.split)
qed

lemma items_DelTrans [simp]:
  fixes s :: lockmgr
  shows "lockitem_List (snd (TransMgr_DelTrans tid s)) = lockitem_List s"
  by (simp add: TransMgr_DelTrans_def Let_def)

lemma lk_inv_trans_abort [inv_intros]:
  "lk_inv s \<Longrightarrow> lk_inv (snd (TransMgr_trans_abort tid s))"
  using lk_inv_Unlock [of s tid] lk_inv_cong [OF items_DelTrans]
  by (auto simp: TransMgr_trans_abort_def case_prod_beta split: lock_result.split)

lemma lk_inv_drop_request: "lk_inv s \<Longrightarrow> lk_inv (drop_request k tid s)"
  by (auto simp: drop_request_def split: option.splits prod.splits dest: lk_inv_drop_requestor)

end
