(* ===== verification/Deadlock.thy ===== *)
theory Deadlock
  imports LockInv
begin

section \<open>Deadlock detection: what the search leaves behind and what it finds\<close>

text \<open>
  \<open>FindCycle2\<close> (\<^verbatim>\<open>mdb_LockMgr.c\<close>, lines 1013 to 1084) restores every item flag it sets and
  only leaves \<^verbatim>\<open>visited_\<close> flags of transactions behind (\<open>FindCycle2_unvisit\<close>); the fuel of
  the model is enough (\<open>FindCycle2_total\<close>); and it answers yes exactly when there is a
  path of "waits for a lock held by" steps to the target (\<open>FindCycle2_iff\<close>).  That a search
  which avoids the items on its own stack misses no cycle rests on shortest paths:
  a shortest path waits for no item twice.
\<close>

definition unvisit :: "lockmgr \<Rightarrow> lockmgr" where
  "unvisit s = s\<lparr>Trans := (\<lambda>i. (Trans s i)\<lparr>tr_visited := False\<rparr>)\<rparr>"

lemma unvisit_fields [simp]:
  "lockitem_List (unvisit s) = lockitem_List s"
  "cont_by_id (unvisit s) = cont_by_id s"
  "cont_by_name (unvisit s) = cont_by_name s"
  "malloc_ok (unvisit s) = malloc_ok s"
  "NextTransID (unvisit s) = NextTransID s"
  "Trans_Count (unvisit s) = Trans_Count s"
  "Trans (unvisit s) i = (Trans s i)\<lparr>tr_visited := False\<rparr>"
  by (simp_all add: unvisit_def)

lemma unvisit_items: "unvisit t = unvisit s \<Longrightarrow> lockitem_List t = lockitem_List s"
  by (metis unvisit_fields(1))

lemma unvisit_mark [simp]:
  "unvisit (upd_trans tid (\<lambda>t. t\<lparr>tr_visited := b\<rparr>) s) = unvisit s"
proof -
  have "unvisit (upd_trans tid (\<lambda>t. t\<lparr>tr_visited := b\<rparr>) s) =
      s\<lparr>Trans := (\<lambda>i. (Trans s i)\<lparr>tr_visited := False\<rparr>)\<rparr>"
    by (simp add: unvisit_def upd_trans_def upd_slot_def fun_eq_iff)
  then show ?thesis by (simp add: unvisit_def)
qed

lemma unvisit_put: "unvisit (put_item k it s) = put_item k it (unvisit s)"
  by (simp add: put_item_def unvisit_def Let_def)

lemma unvisit_set_item: "unvisit (set_item_visited k b s) = set_item_visited k b (unvisit s)"
  by (simp add: set_item_visited_def LockMgr_GetLockItem_def unvisit_put split: option.split)

lemma update_first_restore:
  "find P xs = Some x \<Longrightarrow> P y \<Longrightarrow>
   update_first P (\<lambda>_. x) (update_first P (\<lambda>_. y) xs) = xs"
  by (induction xs) (auto split: if_splits)

lemma put_item_restore:
  "LockMgr_GetLockItem s k = Some it \<Longrightarrow> li_oid it' = k \<Longrightarrow> put_item k it (put_item k it' s) = s"
  by (simp add: put_item_def LockMgr_GetLockItem_def Let_def update_first_restore)

lemma GetLockItem_put_same:
  "LockMgr_GetLockItem s k = Some it \<Longrightarrow> li_oid it' = k \<Longrightarrow>
   LockMgr_GetLockItem (put_item k it' s) k = Some it'"
proof -
  have "find (\<lambda>i. li_oid i = k) xs = Some it \<Longrightarrow> li_oid it' = k \<Longrightarrow>
      find (\<lambda>i. li_oid i = k) (update_first (\<lambda>i. li_oid i = k) (\<lambda>_. it') xs) = Some it'" for xs
    by (induction xs) (auto split: if_splits)
  then show "LockMgr_GetLockItem s k = Some it \<Longrightarrow> li_oid it' = k \<Longrightarrow> ?thesis"
    by (simp add: LockMgr_GetLockItem_def put_item_def Let_def)
qed

lemma set_item_visited_restore:
  assumes "LockMgr_GetLockItem s k = Some it" and "\<not> li_visited it"
  shows "set_item_visited k False (set_item_visited k True s) = s"
proof -
  have k: "li_oid it = k" using assms(1) by (rule lt.get_key)
  have same: "put_item k (it\<lparr>li_visited := False\<rparr>) = put_item k it"
    using assms(2) by (cases it) simp
  show ?thesis
    using assms(1) k put_item_restore [OF assms(1), of "it\<lparr>li_visited := True\<rparr>"]
      GetLockItem_put_same [OF assms(1), of "it\<lparr>li_visited := True\<rparr>"]
    by (simp add: set_item_visited_def same)
qed

lemma Trans_Search_unvisit:
  "Trans_Search (unvisit s) u = map_option (\<lambda>t. t\<lparr>tr_visited := False\<rparr>) (Trans_Search s u)"
  by (simp add: Trans_Search_def Let_def)

lemma FindCycle2_unvisit:
  "FindCycle2 fuel a tgt s = Some (b, t) \<Longrightarrow> unvisit t = unvisit s"
  "find_cycle_holders fuel k hs a tgt s = Some (b, t) \<Longrightarrow>
     unvisit t = unvisit (set_item_visited k False s)"
proof (induction fuel a tgt s and fuel k hs a tgt s arbitrary: b t and b t
    rule: FindCycle2_find_cycle_holders.induct)
  case (1 start target s)
  then show ?case by simp
next
  case (2 fuel start target s)
  show ?case
  proof (cases "Trans_Search s start")
    case None
    with "2.prems" show ?thesis by simp
  next
    case (Some tr)
    show ?thesis
    proof (cases "req_tableid (trans_lock tr) = 0 \<or> cont_by_id s (req_tableid (trans_lock tr)) = None")
      case True
      with Some "2.prems" show ?thesis by (auto split: if_splits)
    next
      case False
      then obtain rel where rel: "cont_by_id s (req_tableid (trans_lock tr)) = Some rel"
        and nz: "req_tableid (trans_lock tr) \<noteq> 0" by auto
      show ?thesis
      proof (cases "\<exists>it. LockMgr_GetLockItem s (cont_id rel) = Some it \<and> \<not> li_visited it")
        case False
        with Some rel nz "2.prems" show ?thesis by (auto split: option.splits if_splits)
      next
        case True
        then obtain it where it: "LockMgr_GetLockItem s (cont_id rel) = Some it" "\<not> li_visited it"
          by auto
        with Some rel nz "2.prems"
        have "find_cycle_holders fuel (cont_id rel) (holder_list it) start target
            (set_item_visited (cont_id rel) True s) = Some (b, t)" by simp
        with 2(1) [OF Some nz rel it] set_item_visited_restore [OF it] show ?thesis by simp
      qed
    qed
  qed
next
  case (3 fuel oid start target s)
  then show ?case by simp
next
  case (4 fuel oid h hs start target s)
  show ?case
  proof (cases "lh_trans_id h = start \<or> lh_trans_id h = target \<or> Trans_Search s (lh_trans_id h) = None")
    case True
    with 4 show ?thesis by (auto split: if_splits)
  next
    case False
    then obtain tr where tr: "Trans_Search s (lh_trans_id h) = Some tr" by auto
    obtain b1 s1 where f: "FindCycle2 fuel (lh_trans_id h) target s = Some (b1, s1)"
      using False tr "4.prems" by (auto split: option.splits)
    have q: "unvisit s1 = unvisit s"
      using False tr f by (intro 4(3)) auto
    show ?thesis
    proof (cases b1)
      case True
      with False tr f "4.prems" q show ?thesis by (auto simp: unvisit_set_item)
    next
      case b1: False
      with False tr f "4.prems" have
        "find_cycle_holders fuel oid hs start target
           (upd_trans (lh_trans_id h) (\<lambda>t. t\<lparr>tr_visited := True\<rparr>) s1) = Some (b, t)" by simp
      then have "unvisit t = unvisit (set_item_visited oid False
           (upd_trans (lh_trans_id h) (\<lambda>t. t\<lparr>tr_visited := True\<rparr>) s1))"
        using False tr f b1 by (intro 4(4)) auto
      with q show ?thesis by (simp add: unvisit_set_item)
    qed
  qed
qed

subsection \<open>The search always ends\<close>

definition free_items :: "lockmgr \<Rightarrow> oid set" where
  "free_items s = {k. \<exists>it. LockMgr_GetLockItem s k = Some it \<and> \<not> li_visited it}"

definition busy_items :: "lockmgr \<Rightarrow> oid set" where
  "busy_items s = {k. \<exists>it. LockMgr_GetLockItem s k = Some it \<and> li_visited it}"

lemma items_cong:
  assumes "lockitem_List t = lockitem_List s"
  shows "LockMgr_GetLockItem t = LockMgr_GetLockItem s" "free_items t = free_items s"
    "busy_items t = busy_items s" "store_ok t = store_ok s"
proof -
  show g: "LockMgr_GetLockItem t = LockMgr_GetLockItem s"
    using assms by (simp add: LockMgr_GetLockItem_def fun_eq_iff)
  show "free_items t = free_items s" "busy_items t = busy_items s"
    by (simp_all add: free_items_def busy_items_def g)
  show "store_ok t = store_ok s" using assms by (simp add: store_ok_def)
qed

lemma set_visited_items:
  assumes "store_ok s" and "LockMgr_GetLockItem s k = Some it"
  shows "LockMgr_GetLockItem (set_item_visited k b s) =
      (LockMgr_GetLockItem s)(k := Some (it\<lparr>li_visited := b\<rparr>))"
    and "store_ok (set_item_visited k b s)"
  using assms lt.get_key [OF assms(2)] lt.get_put [OF assms(1), of "it\<lparr>li_visited := b\<rparr>" k]
    lt.put_ok [OF assms(1), of "it\<lparr>li_visited := b\<rparr>" k]
  by (simp_all add: set_item_visited_def)

lemma mark_items:
  assumes "store_ok s" and "LockMgr_GetLockItem s k = Some it"
  shows "free_items (set_item_visited k True s) = free_items s - {k}"
    and "busy_items (set_item_visited k True s) = insert k (busy_items s)"
  using set_visited_items [OF assms, of True] by (auto simp: free_items_def busy_items_def)

lemma GetLockItem_in_bucket:
  "LockMgr_GetLockItem s k = Some it \<Longrightarrow> it \<in> set (lockitem_List s 0) \<and> li_oid it = k"
  by (auto simp: LockMgr_GetLockItem_def LockMgr_Hash_Value_def DEFAULT_HASHSIZE_def
      find_Some_iff)

lemma free_items_bound: "finite (free_items s)" "card (free_items s) \<le> item_count s"
proof -
  have sub: "free_items s \<subseteq> li_oid ` set (lockitem_List s 0)"
    by (auto simp: free_items_def dest: GetLockItem_in_bucket)
  then show fin: "finite (free_items s)" by (rule finite_subset) simp
  have "card (free_items s) \<le> card (li_oid ` set (lockitem_List s 0))"
    using sub by (intro card_mono) auto
  also have "\<dots> \<le> length (lockitem_List s 0)"
    using card_image_le card_length le_trans by blast
  finally show "card (free_items s) \<le> item_count s"
    by (simp add: item_count_def DEFAULT_HASHSIZE_def)
qed

lemma unvisit_cong:
  assumes "unvisit t = unvisit s"
  shows "free_items t = free_items s" "busy_items t = busy_items s" "store_ok t = store_ok s"
  using items_cong [OF unvisit_items [OF assms]] by simp_all

lemma lockitem_List_mark [simp]: "lockitem_List (upd_trans u f s) = lockitem_List s"
  by (simp add: upd_trans_def upd_slot_def)

lemma FindCycle2_fuel:
  "store_ok s \<Longrightarrow> card (free_items s) < fuel \<Longrightarrow> FindCycle2 fuel a tgt s \<noteq> None"
  "store_ok s \<Longrightarrow> card (free_items s) < fuel \<Longrightarrow> find_cycle_holders fuel k hs a tgt s \<noteq> None"
proof (induction fuel a tgt s and fuel k hs a tgt s rule: FindCycle2_find_cycle_holders.induct)
  case (2 fuel start target s)
  have step: "find_cycle_holders fuel (cont_id rel) (holder_list it) start target
      (set_item_visited (cont_id rel) True s) \<noteq> None"
    if h: "Trans_Search s start = Some tr" "req_tableid (trans_lock tr) \<noteq> 0"
      "cont_by_id s (req_tableid (trans_lock tr)) = Some rel"
      "LockMgr_GetLockItem s (cont_id rel) = Some it" "\<not> li_visited it" for tr rel it
  proof (rule "2.IH" [OF h])
    show "store_ok (set_item_visited (cont_id rel) True s)"
      using set_visited_items(2) [OF "2.prems"(1) h(4)] .
    have "cont_id rel \<in> free_items s" using h by (auto simp: free_items_def)
    then have "card (free_items s - {cont_id rel}) < card (free_items s)"
      by (rule card_Diff1_less [OF free_items_bound(1)])
    then show "card (free_items (set_item_visited (cont_id rel) True s)) < fuel"
      using "2.prems"(2) mark_items(1) [OF "2.prems"(1) h(4)] by simp
  qed
  then show ?case by (auto split: option.split)
next
  case (4 fuel oid h hs start target s)
  show ?case
  proof (cases "lh_trans_id h = start \<or> lh_trans_id h = target \<or> Trans_Search s (lh_trans_id h) = None")
    case True
    then consider "lh_trans_id h = start" | "lh_trans_id h \<noteq> start" "lh_trans_id h = target"
      | "lh_trans_id h \<noteq> start" "lh_trans_id h \<noteq> target" "Trans_Search s (lh_trans_id h) = None"
      by metis
    then show ?thesis
      using 4 by cases (simp_all del: FindCycle2.simps)
  next
    case False
    then obtain tr where tr: "Trans_Search s (lh_trans_id h) = Some tr" by auto
    have "FindCycle2 fuel (lh_trans_id h) target s \<noteq> None"
      using False tr 4 by (intro "4.IH"(3)) auto
    then obtain b t where f: "FindCycle2 fuel (lh_trans_id h) target s = Some (b, t)" by auto
    let ?t = "upd_trans (lh_trans_id h) (\<lambda>t. t\<lparr>tr_visited := True\<rparr>) t"
    have u: "unvisit ?t = unvisit s" using FindCycle2_unvisit(1) [OF f] by simp
    have "find_cycle_holders fuel oid hs start target ?t \<noteq> None" if "\<not> b"
      using False tr f 4 that unvisit_cong [OF u] by (intro "4.IH"(4)) auto
    with False tr f show ?thesis by (cases b) (simp_all del: FindCycle2.simps)
  qed
qed simp_all

lemma FindCycle2_total: "store_ok s \<Longrightarrow> FindCycle2 (Suc (item_count s)) a tgt s \<noteq> None"
  using FindCycle2_fuel(1) [of s "Suc (item_count s)" a tgt] free_items_bound(2) [of s] by simp

subsection \<open>The search finds a cycle exactly when there is one\<close>

definition waits_on :: "lockmgr \<Rightarrow> int \<Rightarrow> (oid \<times> lock_holder list) option" where
  \<comment> \<open>the item a transaction waits for and its holders\<close>
  "waits_on s u =
     (case Trans_Search s u of
        None \<Rightarrow> None
      | Some tr \<Rightarrow>
          if req_tableid (trans_lock tr) = 0 then None
          else
            (case cont_by_id s (req_tableid (trans_lock tr)) of
               None \<Rightarrow> None
             | Some rel \<Rightarrow>
                 map_option (\<lambda>it. (cont_id rel, holder_list it)) (LockMgr_GetLockItem s (cont_id rel))))"

definition waits_for :: "lockmgr \<Rightarrow> int \<Rightarrow> int \<Rightarrow> bool" where
  "waits_for s a b \<longleftrightarrow>
     (\<exists>k hs. waits_on s a = Some (k, hs) \<and> b \<in> lh_trans_id ` set hs \<and> b \<noteq> a)"

lemma waits_on_unvisit [simp]: "waits_on (unvisit s) = waits_on s"
proof
  fix u show "waits_on (unvisit s) u = waits_on s u"
    by (cases "Trans_Search s u")
       (simp_all add: waits_on_def Trans_Search_unvisit LockMgr_GetLockItem_def split: option.split)
qed

lemma waits_on_cong: "unvisit t = unvisit s \<Longrightarrow> waits_on t = waits_on s"
  by (metis waits_on_unvisit)

lemma set_item_visited_frame:
  "Trans (set_item_visited k b s) = Trans s" "cont_by_id (set_item_visited k b s) = cont_by_id s"
  by (simp_all add: set_item_visited_def put_item_def Let_def split: option.split)

lemma waits_on_mark:
  assumes "store_ok s" and "LockMgr_GetLockItem s k = Some it"
  shows "waits_on (set_item_visited k b s) = waits_on s"
  using assms(2)
  by (auto simp: fun_eq_iff waits_on_def Trans_Search_def Let_def set_item_visited_frame
      set_visited_items [OF assms] split: option.split)

text \<open>A path that waits for no item of \<open>V\<close> and for no item twice.\<close>

inductive dpath :: "(int \<Rightarrow> (oid \<times> lock_holder list) option) \<Rightarrow> oid set \<Rightarrow> int \<Rightarrow> int \<Rightarrow> bool"
  for w where
  last: "w a = Some (k, hs) \<Longrightarrow> k \<notin> V \<Longrightarrow> h \<in> set hs \<Longrightarrow> lh_trans_id h \<noteq> a \<Longrightarrow>
     lh_trans_id h = tgt \<Longrightarrow> dpath w V a tgt"
| more: "w a = Some (k, hs) \<Longrightarrow> k \<notin> V \<Longrightarrow> h \<in> set hs \<Longrightarrow> lh_trans_id h \<noteq> a \<Longrightarrow>
     dpath w (insert k V) (lh_trans_id h) tgt \<Longrightarrow> dpath w V a tgt"

inductive_simps dpath_simps: "dpath w V a tgt"

lemma dpath_None: "w a = None \<Longrightarrow> \<not> dpath w V a tgt"
  by (simp add: dpath_simps [of w V a tgt])

lemma dpath_Some:
  "w a = Some (k, hs) \<Longrightarrow> dpath w V a tgt \<longleftrightarrow> k \<notin> V \<and>
     (\<exists>h \<in> set hs. lh_trans_id h \<noteq> a \<and>
        (lh_trans_id h = tgt \<or> dpath w (insert k V) (lh_trans_id h) tgt))"
  by (subst dpath_simps) auto

lemma FindCycle2_dpath:
  "FindCycle2 fuel a tgt s = Some (b, t) \<Longrightarrow> store_ok s \<Longrightarrow>
     b \<longleftrightarrow> dpath (waits_on s) (busy_items s) a tgt"
  "find_cycle_holders fuel k hs a tgt s = Some (b, t) \<Longrightarrow> store_ok s \<Longrightarrow>
     b \<longleftrightarrow> (\<exists>h \<in> set hs. lh_trans_id h \<noteq> a \<and>
       (lh_trans_id h = tgt \<or> dpath (waits_on s) (busy_items s) (lh_trans_id h) tgt))"
proof (induction fuel a tgt s and fuel k hs a tgt s arbitrary: b t and b t
    rule: FindCycle2_find_cycle_holders.induct)
  case (2 fuel start target s)
  show ?case
  proof (cases "waits_on s start")
    case None
    then have "\<not> b"
      using "2.prems"(1) by (auto simp: waits_on_def split: option.splits if_splits)
    with None show ?thesis by (simp add: dpath_None)
  next
    case (Some w)
    then obtain tr rel it where h: "Trans_Search s start = Some tr" "req_tableid (trans_lock tr) \<noteq> 0"
      "cont_by_id s (req_tableid (trans_lock tr)) = Some rel"
      "LockMgr_GetLockItem s (cont_id rel) = Some it" and w: "w = (cont_id rel, holder_list it)"
      by (auto simp: waits_on_def split: option.splits if_splits)
    show ?thesis
    proof (cases "li_visited it")
      case True
      then have "cont_id rel \<in> busy_items s" using h by (auto simp: busy_items_def)
      with True h "2.prems"(1) Some w show ?thesis by (simp add: dpath_Some)
    next
      case False
      then have nb: "cont_id rel \<notin> busy_items s" using h by (auto simp: busy_items_def)
      have "find_cycle_holders fuel (cont_id rel) (holder_list it) start target
          (set_item_visited (cont_id rel) True s) = Some (b, t)"
        using "2.prems"(1) h False by simp
      from "2.IH" [OF h False this set_visited_items(2) [OF "2.prems"(2) h(4)]] nb
      show ?thesis
        using Some w by (simp add: dpath_Some waits_on_mark [OF "2.prems"(2) h(4)]
            mark_items [OF "2.prems"(2) h(4)])
    qed
  qed
next
  case (4 fuel oid h hs start target s)
  show ?case
  proof (cases "lh_trans_id h = start \<or> lh_trans_id h = target \<or> Trans_Search s (lh_trans_id h) = None")
    case True
    then consider "lh_trans_id h = start" | "lh_trans_id h \<noteq> start" "lh_trans_id h = target"
      | "lh_trans_id h \<noteq> start" "lh_trans_id h \<noteq> target" "Trans_Search s (lh_trans_id h) = None"
      by metis
    then show ?thesis
    proof cases
      case 3
      then have "waits_on s (lh_trans_id h) = None" by (simp add: waits_on_def)
      with 3 4(2) [of b t] "4.prems" show ?thesis by (simp add: dpath_None)
    qed (use 4 in simp_all)
  next
    case False
    then obtain tr where tr: "Trans_Search s (lh_trans_id h) = Some tr" by auto
    obtain b1 s1 where f: "FindCycle2 fuel (lh_trans_id h) target s = Some (b1, s1)"
      using False tr "4.prems" by (auto split: option.splits)
    have b1: "b1 \<longleftrightarrow> dpath (waits_on s) (busy_items s) (lh_trans_id h) target"
      using False tr f "4.prems"(2) by (intro "4.IH"(3)) auto
    let ?t = "upd_trans (lh_trans_id h) (\<lambda>t. t\<lparr>tr_visited := True\<rparr>) s1"
    have u: "unvisit ?t = unvisit s" using FindCycle2_unvisit(1) [OF f] by simp
    show ?thesis
    proof (cases b1)
      case True
      with False tr f "4.prems" b1 show ?thesis by (auto simp del: FindCycle2.simps)
    next
      case nb: False
      with False tr f "4.prems" have "find_cycle_holders fuel oid hs start target ?t = Some (b, t)"
        by (simp del: FindCycle2.simps)
      then have "b \<longleftrightarrow> (\<exists>h \<in> set hs. lh_trans_id h \<noteq> start \<and>
         (lh_trans_id h = target \<or> dpath (waits_on ?t) (busy_items ?t) (lh_trans_id h) target))"
        using False tr f nb "4.prems"(2) unvisit_cong [OF u] by (intro "4.IH"(4)) auto
      with False b1 nb show ?thesis by (simp add: waits_on_cong [OF u] unvisit_cong [OF u])
    qed
  qed
qed simp_all

lemma dpath_reach: "dpath (waits_on s) V a tgt \<Longrightarrow> (waits_for s)\<^sup>+\<^sup>+ a tgt"
proof (induction rule: dpath.induct)
  case (last a k hs V h tgt)
  then show ?case by (intro tranclp.r_into_trancl) (auto simp: waits_for_def)
next
  case (more a k hs V h tgt)
  then have "waits_for s a (lh_trans_id h)" by (auto simp: waits_for_def)
  then show ?case using more.IH by (rule tranclp_into_tranclp2)
qed

text \<open>A shortest path never waits for the same item twice: of two transactions that wait
  for one item, the later one could be reached from no closer than the earlier one.\<close>

lemma shortest_dpath:
  "(waits_for s ^^ Suc n) a tgt \<Longrightarrow> \<forall>m \<le> n. \<not> (waits_for s ^^ m) a tgt \<Longrightarrow>
   \<forall>k \<in> V. \<exists>x hs. waits_on s x = Some (k, hs) \<and> (\<forall>m \<le> Suc n. \<not> (waits_for s ^^ m) x tgt) \<Longrightarrow>
   dpath (waits_on s) V a tgt"
proof (induction n arbitrary: a V)
  case (Suc n)
  then obtain b where b: "waits_for s a b" "(waits_for s ^^ Suc n) b tgt"
    by (blast dest: relpowp_Suc_D2)
  then obtain k hs h where h: "waits_on s a = Some (k, hs)" "h \<in> set hs" "lh_trans_id h = b" "b \<noteq> a"
    by (auto simp: waits_for_def)
  have "k \<notin> V"
  proof
    assume "k \<in> V"
    with Suc.prems(3) obtain x hs' where x: "waits_on s x = Some (k, hs')"
      "\<forall>m \<le> Suc (Suc n). \<not> (waits_for s ^^ m) x tgt" by blast
    have "False" if "waits_on s x = Some (k, hs)"
    proof (cases "b = x")
      case True
      with b(2) x(2) show ?thesis by (metis le_Suc_eq le_refl)
    next
      case False
      with h that have "waits_for s x b" by (auto simp: waits_for_def)
      with b(2) have "(waits_for s ^^ Suc (Suc n)) x tgt" by (blast intro: relpowp_Suc_I2)
      with x(2) show ?thesis by blast
    qed
    moreover have "hs' = hs"
      using x(1) h(1) by (auto simp: waits_on_def split: option.splits if_splits)
    ultimately show False using x(1) by simp
  qed
  moreover have "dpath (waits_on s) (insert k V) b tgt"
  proof (rule Suc.IH [OF b(2)])
    show "\<forall>m \<le> n. \<not> (waits_for s ^^ m) b tgt"
      using Suc.prems(2) b(1) by (meson Suc_le_mono relpowp_Suc_I2)
    show "\<forall>k' \<in> insert k V. \<exists>x hs. waits_on s x = Some (k', hs) \<and>
        (\<forall>m \<le> Suc n. \<not> (waits_for s ^^ m) x tgt)"
      using Suc.prems(2,3) h(1) by (metis insert_iff le_Suc_eq)
  qed
  ultimately show ?case using h by (auto intro: dpath.more)
next
  case 0
  then obtain k hs h where h: "waits_on s a = Some (k, hs)" "h \<in> set hs" "lh_trans_id h = tgt" "tgt \<noteq> a"
    by (auto simp: waits_for_def)
  have "k \<notin> V"
  proof
    assume "k \<in> V"
    with 0(3) obtain x hs' where x: "waits_on s x = Some (k, hs')"
      "\<forall>m \<le> 1. \<not> (waits_for s ^^ m) x tgt" by auto
    then have "x \<noteq> tgt" "\<not> waits_for s x tgt"
      by (metis relpowp_0_I zero_le, metis le_refl relpowp_1)
    moreover have "hs' = hs"
      using x(1) h(1) by (auto simp: waits_on_def split: option.splits if_splits)
    ultimately show False using x(1) h by (auto simp: waits_for_def)
  qed
  with h show ?case by (auto intro: dpath.last)
qed

lemma dpath_iff:
  assumes "a \<noteq> tgt"
  shows "dpath (waits_on s) {} a tgt \<longleftrightarrow> (waits_for s)\<^sup>+\<^sup>+ a tgt"
proof
  assume "(waits_for s)\<^sup>+\<^sup>+ a tgt"
  then obtain n where n: "(waits_for s ^^ n) a tgt" by (metis tranclp_power)
  define d where "d = (LEAST n. (waits_for s ^^ n) a tgt)"
  have d: "(waits_for s ^^ d) a tgt" and least: "m < d \<Longrightarrow> \<not> (waits_for s ^^ m) a tgt" for m
    using LeastI [of "\<lambda>n. (waits_for s ^^ n) a tgt", OF n] not_less_Least by (auto simp: d_def)
  with assms obtain m where "d = Suc m" by (cases d) auto
  with d least show "dpath (waits_on s) {} a tgt"
    by (intro shortest_dpath [of m]) auto
qed (rule dpath_reach)

lemma FindCycle2_iff:
  assumes "store_ok s" and "busy_items s = {}" and "a \<noteq> tgt"
  obtains t where "FindCycle2 (Suc (item_count s)) a tgt s = Some ((waits_for s)\<^sup>+\<^sup>+ a tgt, t)"
    "unvisit t = unvisit s"
proof -
  obtain b t where f: "FindCycle2 (Suc (item_count s)) a tgt s = Some (b, t)"
    using FindCycle2_total [OF assms(1)] by fast
  with FindCycle2_dpath(1) [OF f assms(1)] assms(2) dpath_iff [OF assms(3)]
    FindCycle2_unvisit(1) [OF f] that show ?thesis by simp
qed

subsection \<open>The check before a transaction goes to sleep\<close>

text \<open>\<open>LockMgr_Check_DeadLock\<close> skips the holders an earlier search has marked.  That loses
  nothing, because everything such a search has marked was reached by it.\<close>

lemma FindCycle2_marks:
  "FindCycle2 fuel a tgt s = Some (b, t) \<Longrightarrow> store_ok s \<Longrightarrow> tr_visited (Trans t i) \<Longrightarrow>
     tr_visited (Trans s i) \<or> (\<exists>u. trans_slot u = i \<and> (waits_for s)\<^sup>+\<^sup>+ a u)"
  "find_cycle_holders fuel k hs a tgt s = Some (b, t) \<Longrightarrow> store_ok s \<Longrightarrow> tr_visited (Trans t i) \<Longrightarrow>
     \<forall>h \<in> set hs. lh_trans_id h \<noteq> a \<longrightarrow> waits_for s a (lh_trans_id h) \<Longrightarrow>
     tr_visited (Trans s i) \<or> (\<exists>u. trans_slot u = i \<and> (waits_for s)\<^sup>+\<^sup>+ a u)"
proof (induction fuel a tgt s and fuel k hs a tgt s arbitrary: b t and b t
    rule: FindCycle2_find_cycle_holders.induct)
  case (2 fuel start target s)
  show ?case
  proof (cases "\<exists>k it. waits_on s start = Some (k, holder_list it) \<and> LockMgr_GetLockItem s k = Some it \<and>
      \<not> li_visited it")
    case False
    then have "t = s"
      using "2.prems"(1) by (auto simp: waits_on_def split: option.splits if_splits)
    with "2.prems"(3) show ?thesis by simp
  next
    case True
    then obtain tr rel it where h: "Trans_Search s start = Some tr" "req_tableid (trans_lock tr) \<noteq> 0"
      "cont_by_id s (req_tableid (trans_lock tr)) = Some rel"
      "LockMgr_GetLockItem s (cont_id rel) = Some it" "\<not> li_visited it"
      and w: "waits_on s start = Some (cont_id rel, holder_list it)"
      by (auto simp: waits_on_def split: option.splits if_splits)
    have "find_cycle_holders fuel (cont_id rel) (holder_list it) start target
        (set_item_visited (cont_id rel) True s) = Some (b, t)"
      using "2.prems"(1) h by simp
    moreover have wf: "waits_for (set_item_visited (cont_id rel) True s) = waits_for s"
      by (simp add: waits_for_def fun_eq_iff waits_on_mark [OF "2.prems"(2) h(4)])
    moreover have "\<forall>h \<in> set (holder_list it). lh_trans_id h \<noteq> start \<longrightarrow> waits_for s start (lh_trans_id h)"
      using w by (auto simp: waits_for_def)
    ultimately show ?thesis
      using "2.IH" [OF h _ set_visited_items(2) [OF "2.prems"(2) h(4)] "2.prems"(3)]
      by (simp add: set_item_visited_frame)
  qed
next
  case (3 fuel oid start target s)
  then show ?case by (auto simp: set_item_visited_frame)
next
  case (4 fuel oid h hs start target s)
  show ?case
  proof (cases "lh_trans_id h = start \<or> lh_trans_id h = target \<or> Trans_Search s (lh_trans_id h) = None")
    case True
    then consider "lh_trans_id h = start" | "lh_trans_id h \<noteq> start" "lh_trans_id h = target"
      | "lh_trans_id h \<noteq> start" "lh_trans_id h \<noteq> target" "Trans_Search s (lh_trans_id h) = None"
      by metis
    then show ?thesis
      using 4 by cases (auto simp: set_item_visited_frame simp del: FindCycle2.simps)
  next
    case False
    then obtain tr where tr: "Trans_Search s (lh_trans_id h) = Some tr" by auto
    have wh: "waits_for s start (lh_trans_id h)" using False "4.prems"(4) by simp
    obtain b1 s1 where f: "FindCycle2 fuel (lh_trans_id h) target s = Some (b1, s1)"
      using False tr "4.prems" by (auto split: option.splits)
    have m1: "tr_visited (Trans s i) \<or> (\<exists>u. trans_slot u = i \<and> (waits_for s)\<^sup>+\<^sup>+ start u)"
      if "tr_visited (Trans s1 i)"
    proof -
      have "tr_visited (Trans s i) \<or> (\<exists>u. trans_slot u = i \<and> (waits_for s)\<^sup>+\<^sup>+ (lh_trans_id h) u)"
        using False tr by (intro "4.IH"(3) [OF _ _ _ f "4.prems"(2) that]) auto
      with wh show ?thesis by (blast intro: tranclp_into_tranclp2)
    qed
    let ?t = "upd_trans (lh_trans_id h) (\<lambda>t. t\<lparr>tr_visited := True\<rparr>) s1"
    have u: "unvisit ?t = unvisit s" using FindCycle2_unvisit(1) [OF f] by simp
    have wf: "waits_for ?t = waits_for s"
      by (simp add: waits_for_def fun_eq_iff waits_on_cong [OF u])
    show ?thesis
    proof (cases b1)
      case True
      with False tr f "4.prems"(1,3) have "tr_visited (Trans s1 i)"
        by (auto simp: set_item_visited_frame simp del: FindCycle2.simps)
      then show ?thesis by (rule m1)
    next
      case nb: False
      with False tr f "4.prems" have rest: "find_cycle_holders fuel oid hs start target ?t = Some (b, t)"
        by (simp del: FindCycle2.simps)
      have "tr_visited (Trans ?t i) \<or> (\<exists>u. trans_slot u = i \<and> (waits_for s)\<^sup>+\<^sup>+ start u)"
        using "4.IH"(4) [OF _ _ tr f _ _ rest] False nb "4.prems" wf unvisit_cong(3) [OF u] by simp
      then show ?thesis
        using m1 wh by (auto simp: upd_trans_def upd_slot_def split: if_splits)
    qed
  qed
qed simp_all

definition holders_live :: "lockmgr \<Rightarrow> bool" where
  \<comment> \<open>a transaction that holds a lock still owns its slot\<close>
  "holders_live s \<longleftrightarrow> (\<forall>k it. LockMgr_GetLockItem s k = Some it \<longrightarrow>
     (\<forall>h \<in> set (holder_list it). tr_id (Trans s (trans_slot (lh_trans_id h))) = lh_trans_id h))"

definition blocked_on :: "lockmgr \<Rightarrow> int \<Rightarrow> int \<Rightarrow> bool" where
  \<comment> \<open>\<open>u\<close> is not being aborted and waits, possibly through others, for \<open>tgt\<close>\<close>
  "blocked_on s tgt u \<longleftrightarrow> u \<noteq> tgt \<and> (\<exists>tr. Trans_Search s u = Some tr \<and> \<not> aborted tr) \<and>
     (waits_for s)\<^sup>+\<^sup>+ u tgt"

lemma waits_for_holder:
  "waits_for s a b \<Longrightarrow> \<exists>k it. LockMgr_GetLockItem s k = Some it \<and> b \<in> lh_trans_id ` set (holder_list it)"
  by (auto simp: waits_for_def waits_on_def split: option.splits if_splits)

lemma reached_live:
  assumes "holders_live s" and "(waits_for s)\<^sup>+\<^sup>+ a u"
  shows "tr_id (Trans s (trans_slot u)) = u"
proof -
  obtain x where "waits_for s x u" using assms(2) by (metis tranclp.cases)
  with assms(1) waits_for_holder [of s x u] show ?thesis by (auto simp: holders_live_def)
qed

lemma unvisit_live:
  assumes "unvisit t = unvisit s"
  shows "tr_id (Trans t i) = tr_id (Trans s i)" "aborted (Trans t i) = aborted (Trans s i)"
    "req_tableid (trans_lock (Trans t i)) = req_tableid (trans_lock (Trans s i))"
    "fUsed (Trans t i) = fUsed (Trans s i)"
    "holders_live t = holders_live s" "blocked_on t = blocked_on s" "waits_for t = waits_for s"
proof -
  have tr: "(Trans t i)\<lparr>tr_visited := False\<rparr> = (Trans s i)\<lparr>tr_visited := False\<rparr>" for i
    using assms by (metis unvisit_fields(7))
  show f: "tr_id (Trans t i) = tr_id (Trans s i)" "aborted (Trans t i) = aborted (Trans s i)"
    "req_tableid (trans_lock (Trans t i)) = req_tableid (trans_lock (Trans s i))"
    "fUsed (Trans t i) = fUsed (Trans s i)" for i
    using arg_cong [OF tr [of i], of tr_id] arg_cong [OF tr [of i], of aborted]
      arg_cong [OF tr [of i], of trans_lock] arg_cong [OF tr [of i], of fUsed] by simp_all
  show w: "waits_for t = waits_for s"
    by (simp add: waits_for_def fun_eq_iff waits_on_cong [OF assms])
  show "blocked_on t = blocked_on s"
    by (simp add: blocked_on_def fun_eq_iff Trans_Search_def Let_def f w)
  show "holders_live t = holders_live s"
    by (simp add: holders_live_def items_cong(1) [OF unvisit_items [OF assms]] f)
qed

lemma check_deadlock_loop_iff:
  "store_ok s \<Longrightarrow> busy_items s = {} \<Longrightarrow> holders_live s \<Longrightarrow> distinct (map lh_trans_id hs) \<Longrightarrow>
   \<forall>h \<in> set hs. tr_id (Trans s (trans_slot (lh_trans_id h))) = lh_trans_id h \<Longrightarrow>
   \<forall>h \<in> set hs. tr_visited (Trans s (trans_slot (lh_trans_id h))) \<longrightarrow>
     \<not> (waits_for s)\<^sup>+\<^sup>+ (lh_trans_id h) req \<Longrightarrow>
   \<exists>t. check_deadlock_loop hs req s = Some (\<exists>h \<in> set hs. blocked_on s req (lh_trans_id h), t) \<and>
     unvisit t = unvisit s"
proof (induction hs arbitrary: s)
  case (Cons h hs)
  let ?u = "lh_trans_id h"
  have rest: "\<exists>t. check_deadlock_loop hs req s' = Some (\<exists>h \<in> set hs. blocked_on s req (lh_trans_id h), t) \<and>
      unvisit t = unvisit s"
    if q: "unvisit s' = unvisit s" and v: "\<forall>h \<in> set hs.
      tr_visited (Trans s' (trans_slot (lh_trans_id h))) \<longrightarrow> \<not> (waits_for s)\<^sup>+\<^sup>+ (lh_trans_id h) req" for s'
    using Cons.IH [of s'] Cons.prems v q unvisit_cong [OF q] unvisit_live [OF q] by simp
  show ?case
  proof (cases "?u = req \<or> Trans_Search s ?u = None")
    case True
    then have "\<not> blocked_on s req ?u" by (auto simp: blocked_on_def)
    with True rest [of s] Cons.prems show ?thesis by (auto simp: Let_def)
  next
    case False
    then obtain tr where tr: "Trans_Search s ?u = Some tr" and tr_def: "tr = Trans s (trans_slot ?u)"
      by (auto simp: Trans_Search_def Let_def split: if_splits)
    show ?thesis
    proof (cases "req_tableid (trans_lock tr) \<noteq> 0 \<and> \<not> tr_visited tr \<and> \<not> aborted tr")
      case True
      obtain s1 where f: "FindCycle2 (Suc (item_count s)) ?u req s =
          Some ((waits_for s)\<^sup>+\<^sup>+ ?u req, s1)" and q: "unvisit s1 = unvisit s"
        using FindCycle2_iff [of s ?u req] Cons.prems(1,2) False by metis
      have b: "blocked_on s req ?u \<longleftrightarrow> (waits_for s)\<^sup>+\<^sup>+ ?u req"
        using False tr True by (auto simp: blocked_on_def)
      show ?thesis
      proof (cases "(waits_for s)\<^sup>+\<^sup>+ ?u req")
        case reach: True
        with True False tr f b q show ?thesis by (simp add: Let_def del: FindCycle2.simps)
      next
        case reach: False
        have "\<forall>h \<in> set hs. tr_visited (Trans s1 (trans_slot (lh_trans_id h))) \<longrightarrow>
            \<not> (waits_for s)\<^sup>+\<^sup>+ (lh_trans_id h) req"
        proof (intro ballI impI)
          fix h' assume h': "h' \<in> set hs" "tr_visited (Trans s1 (trans_slot (lh_trans_id h')))"
          from FindCycle2_marks(1) [OF f Cons.prems(1) h'(2)]
          consider "tr_visited (Trans s (trans_slot (lh_trans_id h')))"
            | u where "trans_slot u = trans_slot (lh_trans_id h')" "(waits_for s)\<^sup>+\<^sup>+ ?u u" by blast
          then show "\<not> (waits_for s)\<^sup>+\<^sup>+ (lh_trans_id h') req"
          proof cases
            case 1
            with Cons.prems(6) h'(1) show ?thesis by simp
          next
            case 2
            then have "u = lh_trans_id h'"
              using reached_live [OF Cons.prems(3) 2(2)] Cons.prems(5) h'(1) by simp
            with 2(2) reach show ?thesis by (metis tranclp_trans)
          qed
        qed
        from rest [OF q this] True False tr f reach b show ?thesis
          by (simp add: Let_def del: FindCycle2.simps)
      qed
    next
      case c: False
      have nb: "\<not> blocked_on s req ?u"
      proof
        assume bl: "blocked_on s req ?u"
        then have "\<not> aborted tr" "(waits_for s)\<^sup>+\<^sup>+ ?u req" using tr by (auto simp: blocked_on_def)
        moreover from this obtain x where "waits_for s ?u x" by (metis tranclpD)
        then have "req_tableid (trans_lock tr) \<noteq> 0"
          using tr by (auto simp: waits_for_def waits_on_def split: if_splits)
        ultimately show False
          using c tr_def Cons.prems(6) by simp
      qed
      let ?s = "upd_trans ?u (\<lambda>t. t\<lparr>tr_visited := True\<rparr>) s"
      have "\<forall>h' \<in> set hs. tr_visited (Trans ?s (trans_slot (lh_trans_id h'))) \<longrightarrow>
          \<not> (waits_for s)\<^sup>+\<^sup>+ (lh_trans_id h') req"
      proof (intro ballI impI)
        fix h' assume h': "h' \<in> set hs" "tr_visited (Trans ?s (trans_slot (lh_trans_id h')))"
        have "trans_slot (lh_trans_id h') \<noteq> trans_slot ?u"
        proof
          assume "trans_slot (lh_trans_id h') = trans_slot ?u"
          then have "lh_trans_id h' = ?u" using Cons.prems(5) h'(1) by (metis list.set_intros)
          with Cons.prems(4) h'(1) show False by (auto simp: image_iff)
        qed
        with h' Cons.prems(6) show "\<not> (waits_for s)\<^sup>+\<^sup>+ (lh_trans_id h') req"
          by (auto simp: upd_trans_def upd_slot_def)
      qed
      from rest [OF unvisit_mark this] c False tr nb show ?thesis
        by (auto simp: Let_def)
    qed
  qed
qed simp

lemma clear_slots_unvisit:
  "unvisit (foldl (\<lambda>s i. upd_slot i (\<lambda>t. t\<lparr>tr_visited := False\<rparr>) s) s is) = unvisit s"
proof (induction "is" arbitrary: s)
  case (Cons i "is")
  have "unvisit (upd_slot i (\<lambda>t. t\<lparr>tr_visited := False\<rparr>) s) = unvisit s"
    by (simp add: unvisit_def upd_slot_def fun_eq_iff)
  with Cons show ?case by simp
qed simp

lemma clear_slots_visited:
  "tr_visited (Trans (foldl (\<lambda>s i. upd_slot i (\<lambda>t. t\<lparr>tr_visited := False\<rparr>) s) s is) j) \<longleftrightarrow>
     tr_visited (Trans s j) \<and> j \<notin> set is"
proof (induction "is" arbitrary: s)
  case (Cons i "is")
  show ?case by (auto simp: Cons Trans_upd_slot)
qed simp

text \<open>C2: before a transaction goes to sleep for an item, \<open>LockMgr_Check_DeadLock\<close> answers yes
  exactly when some holder of the item that is not being aborted waits, directly or through
  a chain of waiting transactions, for the requesting transaction itself, and it changes nothing
  but the marks of the transactions.  (It clears the marks of the slots 1 to 20 only, so the
  mark of slot 0 has to be clear.)\<close>

theorem Check_DeadLock_iff:
  assumes "lk_inv s" and "holders_live s" and "LockMgr_GetLockItem s k = Some it"
    and "Trans_Count s \<ge> 2" and "\<not> tr_visited (Trans s 0)"
  shows "\<exists>t. LockMgr_Check_DeadLock it req s =
      Some (\<exists>h \<in> set (holder_list it). blocked_on s req (lh_trans_id h), t) \<and> unvisit t = unvisit s"
proof -
  obtain s' where c: "Trans_ClearVisited s = (DB_SUCCESS, s')" and q: "unvisit s' = unvisit s"
    and v: "\<And>j. tr_visited (Trans s' j) \<longleftrightarrow> tr_visited (Trans s j) \<and> j \<notin> set slots"
    using assms(4) clear_slots_unvisit [of s slots] clear_slots_visited [of s slots]
    by (simp add: Trans_ClearVisited_def)
  have "\<not> tr_visited (Trans s' (trans_slot u))" for u
    using assms(5) trans_slot_less21 [of u] by (cases "trans_slot u") (auto simp: v slots_def MAX_TRANS_def)
  moreover have "busy_items s = {}"
    using assms(1) by (auto simp: busy_items_def lk_inv_def item_ok_def)
  moreover have "distinct (map lh_trans_id (holder_list it))"
    using assms(1,3) by (auto simp: lk_inv_def item_ok_def)
  moreover have "store_ok s" using assms(1) by (simp add: lk_inv_def)
  ultimately have "\<exists>t. check_deadlock_loop (holder_list it) req s' =
      Some (\<exists>h \<in> set (holder_list it). blocked_on s' req (lh_trans_id h), t) \<and> unvisit t = unvisit s'"
    using assms(2,3) unvisit_cong [OF q] unvisit_live [OF q]
    by (intro check_deadlock_loop_iff) (auto simp: holders_live_def)
  with c q show ?thesis
    by (simp add: LockMgr_Check_DeadLock_def unvisit_live [OF q] DB_SUCCESS_def)
qed

text \<open>Transaction 1 holds table 7, transaction 2 holds table 8 and waits for table 7; when
  transaction 1 asks for table 8 the check answers yes.\<close>

definition demo_holder :: "int \<Rightarrow> lock_holder" where
  "demo_holder u = \<lparr>lh_trans_id = u, lh_trans_prio = LOWPRIO, hld_lock_mode = LK_EXCLUSIVE, lock_count = 1\<rparr>"

definition cycle_state :: lockmgr where
  "cycle_state = \<lparr>NextTransID = 3, Trans_Count = 2,
     Trans = (\<lambda>_. trans_zero)
       (1 := trans_zero\<lparr>fUsed := True, tr_id := 1, trans_lock := (trans_lock trans_zero)
              \<lparr>table_lock_list := [\<lparr>tableid = 7, tl_lock_mode = LK_EXCLUSIVE, rec_lock_list = []\<rparr>]\<rparr>\<rparr>,
        2 := trans_zero\<lparr>fUsed := True, tr_id := 2, trans_lock := (trans_lock trans_zero)\<lparr>req_tableid := 7,
              table_lock_list := [\<lparr>tableid = 8, tl_lock_mode = LK_EXCLUSIVE, rec_lock_list = []\<rparr>]\<rparr>\<rparr>),
     lockitem_List = (\<lambda>_.
       [\<lparr>li_oid = 7, granted_lock = LK_EXCLUSIVE, wait_trans_count = 1, holder_count = 1, li_visited = False,
         requestor_list = [\<lparr>lr_trans_id = 2, lr_trans_prio = LOWPRIO, req_lock_mode = LK_SHARED,
           lock_upgraded = False\<rparr>], holder_list = [demo_holder 1]\<rparr>,
        \<lparr>li_oid = 8, granted_lock = LK_EXCLUSIVE, wait_trans_count = 0, holder_count = 1, li_visited = False,
         requestor_list = [], holder_list = [demo_holder 2]\<rparr>]),
     item_pool = \<lparr>max_free = 0, num_free = 0, free_list = 0\<rparr>,
     hold_pool = \<lparr>max_free = 0, num_free = 0, free_list = 0\<rparr>,
     rqst_pool = \<lparr>max_free = 0, num_free = 0, free_list = 0\<rparr>,
     table_pool = \<lparr>max_free = 0, num_free = 0, free_list = 0\<rparr>,
     malloc_ok = (\<lambda>_. True), malloc_calls = 0,
     cont_by_name = (\<lambda>n. Some \<lparr>cont_id = 7, cont_nolocking = False\<rparr>),
     cont_by_id = (\<lambda>k. Some \<lparr>cont_id = k, cont_nolocking = False\<rparr>),
     rec_headers = (\<lambda>_. None)\<rparr>"

lemma cycle_state_items:
  "LockMgr_GetLockItem cycle_state k = Some it \<Longrightarrow>
     (k = 7 \<and> holder_list it = [demo_holder 1] \<or> k = 8 \<and> holder_list it = [demo_holder 2]) \<and> item_ok it"
  by (auto simp: LockMgr_GetLockItem_def cycle_state_def demo_holder_def item_ok_def
      holders_compatible_def by_priority_def split: if_splits)

lemma lk_inv_cycle_state: "lk_inv cycle_state"
  using cycle_state_items
  by (auto simp: lk_inv_def store_ok_def bucket_ok_def DEFAULT_HASHSIZE_def LockMgr_Hash_Value_def
      cycle_state_def)

theorem Check_DeadLock_iff_witness:
  "\<exists>it t. LockMgr_GetLockItem cycle_state 8 = Some it \<and> LockMgr_Check_DeadLock it 1 cycle_state = Some (True, t)"
proof -
  note lk_inv_cycle_state
  moreover have "holders_live cycle_state"
  proof -
    have "tr_id (Trans cycle_state (trans_slot 1)) = 1" "tr_id (Trans cycle_state (trans_slot 2)) = 2"
      by (simp_all add: cycle_state_def trans_slot_def MAX_TRANS_def)
    then have "tr_id (Trans cycle_state (trans_slot (lh_trans_id h))) = lh_trans_id h"
      if "LockMgr_GetLockItem cycle_state k = Some it" "h \<in> set (holder_list it)" for k it h
      using cycle_state_items [OF that(1)] that(2) by (auto simp: demo_holder_def)
    then show ?thesis unfolding holders_live_def by blast
  qed
  moreover obtain it where it: "LockMgr_GetLockItem cycle_state 8 = Some it"
    by (simp add: LockMgr_GetLockItem_def cycle_state_def)
  moreover have "Trans_Count cycle_state \<ge> 2" "\<not> tr_visited (Trans cycle_state 0)"
    by (simp_all add: cycle_state_def trans_zero_def)
  ultimately have "\<exists>t. LockMgr_Check_DeadLock it 1 cycle_state =
      Some (\<exists>h \<in> set (holder_list it). blocked_on cycle_state 1 (lh_trans_id h), t)"
    using Check_DeadLock_iff [of cycle_state 8 it 1] by blast
  moreover have "waits_on cycle_state 2 = Some (7, [demo_holder 1])"
    by (simp add: waits_on_def Trans_Search_def trans_slot_def MAX_TRANS_def cycle_state_def
        LockMgr_GetLockItem_def)
  then have "waits_for cycle_state 2 1" by (simp add: waits_for_def demo_holder_def)
  then have "blocked_on cycle_state 1 2"
    by (auto simp: blocked_on_def Trans_Search_def trans_slot_def MAX_TRANS_def cycle_state_def trans_zero_def)
  with cycle_state_items [OF it] have "\<exists>h \<in> set (holder_list it). blocked_on cycle_state 1 (lh_trans_id h)"
    by (auto simp: demo_holder_def)
  ultimately show ?thesis using it by simp
qed

end
