(* ===== verification/LockSafety.thy ===== *)
theory LockSafety
  imports Deadlock
begin

section \<open>Safety of the lock manager\<close>

text \<open>
  The remaining operations keep the lock table invariant, hence every state the lock manager
  can reach has it: no interleaving of lock requests, wake-ups, time-outs, unlocks, aborts and
  failing allocations leaves two transactions holding one table in incompatible modes.
\<close>

subsection \<open>Deadlock checks change no item\<close>

lemma items_more:
  fixes s t :: lockmgr
  assumes "transmgr.more s = transmgr.more t"
  shows "lockitem_List s = lockitem_List t"
  using assms by (cases s, cases t) simp

lemma FindCycle2_items:
  "FindCycle2 fuel a tgt s = Some (b, t) \<Longrightarrow> lockitem_List t = lockitem_List s"
  by (rule unvisit_items) (rule FindCycle2_unvisit)

lemma check_deadlock_loop_items:
  "check_deadlock_loop hs req s = Some (b, t) \<Longrightarrow> lockitem_List t = lockitem_List s"
proof (induction hs req s arbitrary: b t rule: check_deadlock_loop.induct)
  case (1 req s)
  then show ?case by simp
next
  case (2 h hs req s)
  show ?case
  proof (cases "lh_trans_id h = req \<or> Trans_Search s (lh_trans_id h) = None")
    case True
    with 2 show ?thesis by (auto simp: Let_def split: if_splits)
  next
    case False
    then obtain tr where tr: "Trans_Search s (lh_trans_id h) = Some tr" and ne: "lh_trans_id h \<noteq> req"
      by auto
    show ?thesis
    proof (cases "req_tableid (trans_lock tr) \<noteq> 0 \<and> \<not> tr_visited tr \<and> \<not> aborted tr")
      case False
      with "2.IH"(4) [OF refl ne tr False] "2.prems" tr ne False show ?thesis
        by (auto simp: Let_def split: if_splits)
    next
      case True
      then obtain b1 s1 where f: "FindCycle2 (Suc (item_count s)) (lh_trans_id h) req s = Some (b1, s1)"
        using "2.prems" tr ne by (auto simp: Let_def split: option.splits)
      note FindCycle2_items [OF f]
      with "2.IH"(3) [OF refl ne tr True f refl] "2.prems" tr ne True f show ?thesis
        by (cases b1) (auto simp: Let_def)
    qed
  qed
qed

lemma Trans_ClearVisited_items [simp]:
  fixes s :: lockmgr
  shows "lockitem_List (snd (Trans_ClearVisited s)) = lockitem_List s"
  by (rule items_more) simp

lemma Check_DeadLock_items:
  "LockMgr_Check_DeadLock it req s = Some (b, t) \<Longrightarrow> lockitem_List t = lockitem_List s"
  using Trans_ClearVisited_items [of s]
  by (auto simp: LockMgr_Check_DeadLock_def case_prod_beta dest: check_deadlock_loop_items
      split: if_splits)

subsection \<open>The operations of a lock request\<close>

lemma lk_inv_delete_put [inv_intros]:
  assumes "lk_inv s" and "LockMgr_GetLockItem s k = Some it"
  shows "lk_inv (put_item k (fst (snd (LockMgr_Delete_LockRequestor it tid s)))
    (snd (snd (LockMgr_Delete_LockRequestor it tid s))))"
  using assms by (cases "LockMgr_Delete_LockRequestor it tid s") (simp add: lk_inv_drop_requestor)

lemma lk_inv_End_Processing [inv_intros]:
  assumes "lk_inv s" shows "lk_inv (snd (End_Processing li tid cur r s))"
  using assms
  by (auto simp: End_Processing_def Let_def case_prod_beta bind_eq_Some_conv
      intro!: lk_inv_trans_abort lk_inv_delete_put
      split: option.split lock_result.split)

lemma lk_inv_Check_DeadLock:
  "LockMgr_Check_DeadLock it req s = Some (b, t) \<Longrightarrow> lk_inv t = lk_inv s"
  by (rule lk_inv_cong) (rule Check_DeadLock_items)

lemma lk_inv_wait_for_lock [inv_intros]:
  assumes "lk_inv s" shows "lk_inv (snd (wait_for_lock k tid cur m s))"
  using assms
  by (auto simp: wait_for_lock_def Let_def bind_eq_Some_conv lk_inv_Check_DeadLock
      intro!: lk_inv_End_Processing lk_inv_drop_request split: option.split bool.split)

lemma lk_inv_insert_requestor:
  assumes "lk_inv s" and "LockMgr_GetLockItem s k = Some it"
    and "LockMgr_Insert_LockRequestor it tid p m u s = (e, it', t)"
  shows "lk_inv (put_item k it' t)"
  using assms Insert_LockRequestor_outcome [OF assms(3)] lk_inv_item [OF assms(1,2)]
  by (intro lk_inv_put) (auto simp: lk_inv_same_core [of s t] item_ok_add_requestor)

lemma lk_inv_queue_request [inv_intros]:
  assumes "lk_inv s" shows "lk_inv (snd (queue_request k tid cur m u f s))"
proof (cases "f = NOWAIT \<or> LockMgr_GetLockItem s k = None")
  case True
  with assms show ?thesis by (auto simp: queue_request_def intro: lk_inv_End_Processing)
next
  case False
  then obtain it where it: "LockMgr_GetLockItem s k = Some it" by auto
  obtain e it' t where i: "LockMgr_Insert_LockRequestor it tid (prio (Trans s (trans_slot tid))) m u s
      = (e, it', t)"
    using prod_cases3 by blast
  from lk_inv_insert_requestor [OF assms it i] False it i show ?thesis
    by (simp add: queue_request_def Let_def lk_inv_End_Processing lk_inv_wait_for_lock)
qed

lemma lk_inv_lock_new_item [inv_intros]:
  assumes "lk_inv s" and "LockMgr_GetLockItem s k = None"
  shows "lk_inv (snd (lock_new_item k tid cur p m s))"
proof -
  obtain e t where i: "LockMgr_Insert_LockItem k tid p m s = (e, t)" by fastforce
  have "lk_inv t" using lk_inv_Insert_LockItem [OF assms i] .
  with i show ?thesis
    by (auto simp: lock_new_item_def case_prod_beta intro!: lk_inv_End_Processing lk_inv_Delete_LockItem)
qed

lemma lk_inv_lock_as_holder [inv_intros]:
  assumes "lk_inv s" and "LockMgr_GetLockItem s k = Some it" and "LockMgr_Get_LockHolder it tid = Some h"
  shows "lk_inv (snd (lock_as_holder it h k tid cur p m f s))"
proof -
  note it = lk_inv_item [OF assms(1,2)]
  let ?m = "LK_CONV m (hld_lock_mode h)"
  have count: "lk_inv (put_item k (upd_holder tid (\<lambda>h. h\<lparr>lock_count := lock_count h + 1\<rparr>) it) s)"
    using it assms(1) by (intro lk_inv_put) (simp_all add: item_ok_upd_count)
  have raise: "lk_inv (put_item k (raise_holder tid ?m it) s)"
    if "holder_count it = 1 \<or> LockMgr_CheckConflict it tid p ?m = NOCONFLICT"
  proof -
    have "\<forall>h' \<in> set (holder_list it). lh_trans_id h' \<noteq> tid \<longrightarrow> LK_COMP ?m (hld_lock_mode h')"
    proof (cases "holder_count it = 1")
      case True
      with it obtain h' where "holder_list it = [h']"
        by (auto simp: item_ok_def length_Suc_conv)
      with assms(3) show ?thesis
        by (auto simp: LockMgr_Get_LockHolder_def split: if_splits)
    next
      case False
      with that have "LockMgr_CheckConflict it tid p ?m \<noteq> CONFLICT" by simp
      with it show ?thesis by (intro CheckConflict_holders) simp_all
    qed
    with it assms(1) show ?thesis
      by (intro lk_inv_put) (simp_all add: item_ok_raise_holder)
  qed
  from count raise assms(1) show ?thesis
    by (simp add: lock_as_holder_def Let_def lk_inv_End_Processing lk_inv_queue_request
        raise_holder_def [symmetric])
qed

lemma lk_inv_lock_as_newcomer [inv_intros]:
  assumes "lk_inv s" and "LockMgr_GetLockItem s k = Some it" and "LockMgr_Get_LockHolder it tid = None"
  shows "lk_inv (snd (lock_as_newcomer it k tid cur p m f s))"
proof (cases "LockMgr_CheckConflict it (-1) p m = NOCONFLICT")
  case False
  with assms(1) show ?thesis by (simp add: lock_as_newcomer_def lk_inv_queue_request)
next
  case True
  note it = lk_inv_item [OF assms(1,2)]
  from True have comp: "LK_COMP m (granted_lock it)"
    by (auto simp: LockMgr_CheckConflict_def split: if_splits)
  have "\<forall>h \<in> set (holder_list it). LK_COMP m (hld_lock_mode h)"
    using it comp by (auto simp: item_ok_def intro: LK_COMP_antimono)
  with it assms(3) have ok: "item_ok (add_holder tid p m it)"
    by (intro item_ok_add_holder) simp_all
  obtain e it' t where i: "LockMgr_Insert_LockHolder it tid p m s = (e, it', t)"
    using prod_cases3 by blast
  note out = Insert_LockHolder_outcome [OF i]
  have "lk_inv (put_item k it' t)"
    using out ok it assms(1) by (intro lk_inv_put) (auto simp: lk_inv_same_core [of s t])
  with True i show ?thesis
    by (auto simp: lock_as_newcomer_def Let_def case_prod_beta intro!: lk_inv_End_Processing)
qed

lemma lk_inv_Lock [inv_intros]:
  "lk_inv s \<Longrightarrow> lk_inv (snd (LockMgr_Lock name tid cur p m f s))"
  by (auto simp: LockMgr_Lock_def Let_def intro!: lk_inv_lock_new_item lk_inv_lock_as_holder
      lk_inv_lock_as_newcomer split: option.split)

lemma lk_inv_Lock_resume [inv_intros]:
  "lk_inv s \<Longrightarrow> lk_inv (snd (LockMgr_Lock_resume fr cur b n s))"
  by (auto simp: LockMgr_Lock_resume_def Let_def intro!: lk_inv_End_Processing lk_inv_drop_request)

lemma lk_inv_InsTrans [inv_intros]:
  fixes s :: lockmgr
  assumes "lk_inv s" and "TransMgr_InsTrans n c d s = Some (r, t)"
  shows "lk_inv t"
proof -
  have "lockitem_List t = lockitem_List s"
  proof (cases "n = -1")
    case True
    with assms(2) have "TransMgr_InsTrans (-1) c d s = Some (r, t)" by simp
    then show ?thesis
    proof (cases rule: InsTrans_new_cases)
      case (1 s')
      with ins_search_frames [OF 1(1)] show ?thesis by (intro items_more) simp
    next
      case (2 s')
      then show ?thesis by (intro items_more)
    qed
  next
    case False
    with assms(2) show ?thesis
      by (auto simp: TransMgr_InsTrans_def TransMgr_Set_NextTransID_def upd_slot_def Let_def
          split: if_splits)
  qed
  with assms(1) show ?thesis by (simp add: lk_inv_cong [of t s])
qed

lemma lk_inv_DelTrans [inv_intros]:
  "lk_inv s \<Longrightarrow> lk_inv (snd (TransMgr_DelTrans tid s))"
  by (simp add: lk_inv_cong [OF items_DelTrans])

subsection \<open>Initialisation\<close>

definition no_items :: "lockmgr \<Rightarrow> bool" where
  "no_items s \<longleftrightarrow> (\<forall>h < DEFAULT_HASHSIZE. lockitem_List s h = [])"

lemma no_items_lk_inv: "no_items s \<Longrightarrow> lk_inv s"
  by (auto simp: no_items_def lk_inv_def store_ok_def bucket_ok_def LockMgr_GetLockItem_def)

lemma no_items_cong: "lockitem_List t = lockitem_List s \<Longrightarrow> no_items t = no_items s"
  by (simp add: no_items_def)

lemma pool_fill_items:
  assumes "\<And>f s. lockitem_List (upd f s) = lockitem_List s"
  shows "lockitem_List (snd (pool_fill upd n s)) = lockitem_List s"
proof (induction n arbitrary: s)
  case (Suc n)
  then show ?case
    by (cases "malloc_ok s (malloc_calls s)") (simp_all add: DBMem_Alloc_def assms)
qed simp

lemma pool_init_items [simp]:
  "lockitem_List (snd (pool_init item_pool_update n s)) = lockitem_List s"
  "lockitem_List (snd (pool_init hold_pool_update n s)) = lockitem_List s"
  "lockitem_List (snd (pool_init rqst_pool_update n s)) = lockitem_List s"
  "lockitem_List (snd (pool_init table_pool_update n s)) = lockitem_List s"
  by (simp_all add: pool_init_def pool_fill_items)

lemma no_items_Free: "no_items (LockMgr_Free s)"
  by (simp add: no_items_def LockMgr_Free_def)

lemma LockMgr_Init_no_items: "no_items (snd (LockMgr_Init s))"
proof -
  have "no_items (s\<lparr>lockitem_List := (\<lambda>i. if i < DEFAULT_HASHSIZE then [] else lockitem_List s i),
      item_pool := a, hold_pool := b, rqst_pool := c, table_pool := d\<rparr>)" for a b c d
    by (simp add: no_items_def)
  then show ?thesis
    by (simp add: LockMgr_Init_def Let_def case_prod_beta no_items_Free no_items_cong
        [OF pool_init_items(1)] no_items_cong [OF pool_init_items(2)]
        no_items_cong [OF pool_init_items(3)] no_items_cong [OF pool_init_items(4)]
        split: bool.split)
qed

subsection \<open>The running lock manager\<close>

text \<open>
  A configuration is the shared state and the frames of the threads asleep in
  \<^verbatim>\<open>LockMgr_Lock\<close>.  Each step is one visit of a thread to the lock manager under the global
  lock.  \<open>cur\<close> is the thread's current transaction; nothing relates it to the transaction the
  call names, a caller may pass any arguments, and the other fields of a transaction may be
  written by other components between the steps (\<open>other\<close>).
\<close>

definition trans_commit :: "int \<Rightarrow> lockmgr \<Rightarrow> lock_result \<times> lockmgr" where
  \<comment> \<open>\<^verbatim>\<open>dbi_trans_commit_internal\<close>; the log and the cursors do not touch the lock table\<close>
  "trans_commit tid s =
     (case Trans_Search s tid of
        None \<Rightarrow> (Returns DB_E_UNKNOWNTRANSID, s)
      | Some _ \<Rightarrow>
          (case LockMgr_Unlock tid (upd_trans tid (\<lambda>t. t\<lparr>state := TRANS_STATE_COMMIT\<rparr>) s) of
             (Returns _, s) \<Rightarrow> (Returns DB_SUCCESS, snd (TransMgr_DelTrans tid s))
           | (r, s) \<Rightarrow> (r, s)))"

fun frames :: "lock_result \<Rightarrow> wait_frame set" where
  "frames (Sleeps fr) = {fr}"
| "frames r = {}"

inductive lock_step :: "lockmgr \<times> wait_frame set \<Rightarrow> lockmgr \<times> wait_frame set \<Rightarrow> bool" where
  begin_trans: "TransMgr_InsTrans n c d s = Some (r, t) \<Longrightarrow> lock_step (s, W) (t, W)"
| lock: "LockMgr_Lock name tid cur p m f s = (r, t) \<Longrightarrow> lock_step (s, W) (t, W \<union> frames r)"
| wake: "fr \<in> W \<Longrightarrow> LockMgr_Lock_resume fr cur b n s = (r, t) \<Longrightarrow>
    lock_step (s, W) (t, W - {fr} \<union> frames r)"
| unlock: "LockMgr_Unlock tid s = (r, t) \<Longrightarrow> lock_step (s, W) (t, W)"
| table_unlock: "LockMgr_Table_Unlock tid k s = (r', t) \<Longrightarrow> lock_step (s, W) (t, W)"
| commit: "trans_commit tid s = (r, t) \<Longrightarrow> lock_step (s, W) (t, W)"
| abort: "TransMgr_trans_abort tid s = (r, t) \<Longrightarrow> lock_step (s, W) (t, W)"
| delete: "TransMgr_DelTrans tid s = (r', t) \<Longrightarrow> lock_step (s, W) (t, W)"
| other: "lock_step (s, W) (upd_trans tid g s, W)"

inductive reachable :: "lockmgr \<times> wait_frame set \<Rightarrow> bool" where
  start: "LockMgr_Init (TransMgr_Init s) = (r, t) \<Longrightarrow> reachable (t, {})"
| step: "reachable c \<Longrightarrow> lock_step c c' \<Longrightarrow> reachable c'"

lemma lk_inv_trans_commit [inv_intros]: "lk_inv s \<Longrightarrow> lk_inv (snd (trans_commit tid s))"
  by (auto simp: trans_commit_def case_prod_beta intro!: lk_inv_DelTrans lk_inv_Unlock
      split: option.split lock_result.split)

lemma lk_inv_step:
  assumes "lock_step c c'" and "lk_inv (fst c)" shows "lk_inv (fst c')"
  using assms
proof cases
  case (begin_trans n c d s r t W)
  with assms(2) show ?thesis using lk_inv_InsTrans by simp
next
  case (lock name tid cur p m f s r t W)
  with assms(2) lk_inv_Lock [of s name tid cur p m f] show ?thesis by simp
next
  case (wake fr W cur b n s r t)
  with assms(2) lk_inv_Lock_resume [of s fr cur b n] show ?thesis by simp
next
  case (unlock tid s r t W)
  with assms(2) lk_inv_Unlock [of s tid] show ?thesis by simp
next
  case (table_unlock tid k s r' t W)
  with assms(2) lk_inv_Table_Unlock [of s tid k] show ?thesis by simp
next
  case (commit tid s r t W)
  with assms(2) lk_inv_trans_commit [of s tid] show ?thesis by simp
next
  case (abort tid s r t W)
  with assms(2) lk_inv_trans_abort [of s tid] show ?thesis by simp
next
  case (delete tid s r' t W)
  with assms(2) lk_inv_DelTrans [of s tid] show ?thesis by simp
next
  case (other s W tid g)
  with assms(2) show ?thesis by simp
qed

lemma reachable_lk_inv: "reachable c \<Longrightarrow> lk_inv (fst c)"
proof (induction rule: reachable.induct)
  case (start s r t)
  then show ?case
    using no_items_lk_inv [OF LockMgr_Init_no_items, of "TransMgr_Init s"] by simp
next
  case (step c c')
  then show ?case by (simp add: lk_inv_step)
qed


subsection \<open>A run on concrete input\<close>

definition run0 :: lockmgr where
  \<comment> \<open>table 7 named t in the catalogue, all allocations succeed\<close>
  "run0 = \<lparr>NextTransID = 0, Trans_Count = 0, Trans = (\<lambda>_. trans_zero), lockitem_List = (\<lambda>_. []),
     item_pool = \<lparr>max_free = 0, num_free = 0, free_list = 0\<rparr>,
     hold_pool = \<lparr>max_free = 0, num_free = 0, free_list = 0\<rparr>,
     rqst_pool = \<lparr>max_free = 0, num_free = 0, free_list = 0\<rparr>,
     table_pool = \<lparr>max_free = 0, num_free = 0, free_list = 0\<rparr>,
     malloc_ok = (\<lambda>_. True), malloc_calls = 0,
     cont_by_name = (\<lambda>n. if n = ''t'' then Some \<lparr>cont_id = 7, cont_nolocking = False\<rparr> else None),
     cont_by_id = (\<lambda>k. if k = 7 then Some \<lparr>cont_id = 7, cont_nolocking = False\<rparr> else None),
     rec_headers = (\<lambda>_. None)\<rparr>"

definition run1 :: lockmgr where \<comment> \<open>started\<close>
  "run1 = snd (LockMgr_Init (TransMgr_Init run0))"

definition run_begin :: "lockmgr \<Rightarrow> lockmgr" where
  "run_begin s = snd (the (TransMgr_InsTrans (-1) 0 0 s))"

definition run_lock :: "int \<Rightarrow> lockmode \<Rightarrow> lockmgr \<Rightarrow> lock_result \<times> lockmgr" where
  "run_lock tid m s = LockMgr_Lock ''t'' tid tid LOWPRIO m WAIT s"

lemma reachable_run1: "reachable (run1, {})"
  using reachable.start [OF prod.collapse [symmetric]] by (simp add: run1_def)

lemma reachable_run_begin:
  assumes "reachable (s, W)" shows "reachable (run_begin s, W)"
proof -
  have "TransMgr_InsTrans (-1) 0 0 s \<noteq> None"
    by (simp add: TransMgr_InsTrans_def Let_def split: prod.split bool.split)
  then have "TransMgr_InsTrans (-1) 0 0 s = Some (fst (the (TransMgr_InsTrans (-1) 0 0 s)), run_begin s)"
    by (auto simp: run_begin_def)
  then show ?thesis using reachable.step [OF assms lock_step.begin_trans] by blast
qed

lemma reachable_run_lock:
  assumes "reachable (s, W)" shows "reachable (snd (run_lock tid m s), W \<union> frames (fst (run_lock tid m s)))"
  by (rule reachable.step [OF assms lock_step.lock]) (simp add: run_lock_def)

definition run3 :: lockmgr where \<comment> \<open>transactions 1 and 2 are live\<close>
  "run3 = run_begin (run_begin run1)"

definition run5 :: lockmgr where \<comment> \<open>both hold the table in shared mode\<close>
  "run5 = snd (run_lock 2 LK_SHARED (snd (run_lock 1 LK_SHARED run3)))"

lemma reachable_run3: "reachable (run3, {})"
  unfolding run3_def
  by (intro reachable_run_begin reachable_run1)

lemma reachable_run5: "\<exists>W. reachable (run5, W)"
  using reachable_run_lock [OF reachable_run_lock [OF reachable_run3]] unfolding run5_def by blast

lemma pool_fill_ok:
  assumes "\<forall>n. malloc_ok s n"
  shows "pool_fill item_pool_update n s = (True, s\<lparr>malloc_calls := malloc_calls s + n,
      item_pool := (item_pool s)\<lparr>free_list := free_list (item_pool s) + n\<rparr>\<rparr>)"
    "pool_fill hold_pool_update n s = (True, s\<lparr>malloc_calls := malloc_calls s + n,
      hold_pool := (hold_pool s)\<lparr>free_list := free_list (hold_pool s) + n\<rparr>\<rparr>)"
    "pool_fill rqst_pool_update n s = (True, s\<lparr>malloc_calls := malloc_calls s + n,
      rqst_pool := (rqst_pool s)\<lparr>free_list := free_list (rqst_pool s) + n\<rparr>\<rparr>)"
    "pool_fill table_pool_update n s = (True, s\<lparr>malloc_calls := malloc_calls s + n,
      table_pool := (table_pool s)\<lparr>free_list := free_list (table_pool s) + n\<rparr>\<rparr>)"
  using assms by (induction n arbitrary: s) (simp_all add: DBMem_Alloc_def)

lemma run1_eq: "run1 = run0\<lparr>NextTransID := 1,
     Trans := (\<lambda>i. trans_zero\<lparr>tr_id := int i\<rparr>)(0 := trans_zero\<lparr>fDeleted := True, fBeginLogged := True\<rparr>),
     item_pool := \<lparr>max_free = 21, num_free = 21, free_list = 21\<rparr>,
     hold_pool := \<lparr>max_free = 63, num_free = 63, free_list = 63\<rparr>,
     rqst_pool := \<lparr>max_free = 21, num_free = 21, free_list = 21\<rparr>,
     table_pool := \<lparr>max_free = 21, num_free = 21, free_list = 21\<rparr>, malloc_calls := 126\<rparr>"
  by (simp add: run1_def run0_def LockMgr_Init_def TransMgr_Init_def pool_init_def pool_fill_ok
      MAX_TRANS_def trans_zero_def cong: if_cong)

lemma run_InsTrans:
  assumes "trans_slot (NextTransID s) \<noteq> 0" and "\<not> fUsed (Trans s (trans_slot (NextTransID s)))"
  shows "TransMgr_InsTrans (-1) 0 0 s = Some (NextTransID s, run_begin s)"
  using assms by (simp add: run_begin_def TransMgr_InsTrans_def ins_search.simps [of 0 s] Let_def)

lemma run_begin_eq:
  assumes "trans_slot (NextTransID s) \<noteq> 0" and "\<not> fUsed (Trans s (trans_slot (NextTransID s)))"
    and "NextTransID s < 1000"
  shows "run_begin s = s\<lparr>NextTransID := NextTransID s + 1, Trans_Count := Trans_Count s + 1,
    Trans := (Trans s)(trans_slot (NextTransID s) :=
      ins_init 0 0 ((Trans s (trans_slot (NextTransID s)))\<lparr>fUsed := True, tr_id := NextTransID s\<rparr>))\<rparr>"
  using assms
  by (simp add: run_begin_def TransMgr_InsTrans_def ins_search.simps [of 0 s] upd_slot_def
      TransMgr_Set_NextTransID_def MAX_TRANS_ID_def MAX_TRANS_def Let_def)

lemmas run_lock_defs = run_lock_def LockMgr_Lock_def lock_new_item_def lock_as_newcomer_def
  lock_as_holder_def LockMgr_Insert_LockItem_def LockMgr_Insert_LockHolder_def
  LockMgr_trans_insert_table_lock_def End_Processing_def LockMgr_CheckConflict_def
  LockMgr_GetLockItem_def LockMgr_Get_LockHolder_def LockMgr_Hash_Value_def Trans_Search_def
  item_zero_def link_item_def put_item_def trans_slot_def upd_trans_def upd_slot_def pool_defs

lemma run3_eq: "run3 = run1\<lparr>NextTransID := 3, Trans_Count := 2,
    Trans := (Trans run1)(1 := ins_init 0 0 (trans_zero\<lparr>fUsed := True, tr_id := 1\<rparr>),
      2 := ins_init 0 0 (trans_zero\<lparr>fUsed := True, tr_id := 2\<rparr>))\<rparr>"
  by (simp add: run3_def run_begin_eq run1_eq run0_def trans_slot_def MAX_TRANS_def trans_zero_def)


lemma trans_inv_run1: "trans_inv run1"
proof -
  have "used_slots run1 = {}" by (auto simp: used_slots_def run1_eq trans_zero_def)
  then show ?thesis
    by (simp add: trans_inv_def run1_eq run0_def next_id_ok_def MAX_TRANS_ID_def MAX_TRANS_def)
qed


end
