(* ===== verification/LockGrant.thy ===== *)
theory LockGrant
  imports LockSafety
begin

section \<open>What a request and a release achieve\<close>

text \<open>
  A request that returns a mode holds the table in that mode, which covers the requested one; a
  NOWAIT request that is refused leaves the table of locks as it was.  After a wake-up the head
  of the queue cannot be granted and everything before it holds its mode.  A release gives up
  every table lock of the transaction.
\<close>

subsection \<open>Requests\<close>

definition held_mode :: "lockmgr \<Rightarrow> oid \<Rightarrow> int \<Rightarrow> lockmode option" where
  "held_mode s k tid =
     Option.bind (LockMgr_GetLockItem s k) (\<lambda>it. map_option hld_lock_mode (LockMgr_Get_LockHolder it tid))"

lemma held_mode_cong: "lockitem_List t = lockitem_List s \<Longrightarrow> held_mode t = held_mode s"
  by (simp add: held_mode_def fun_eq_iff GetLockItem_cong [of t s])

lemma End_Processing_result:
  "End_Processing li tid cur r s = (Returns r', t) \<Longrightarrow>
     r' < 0 \<or> (r' = r \<and> lockitem_List t = lockitem_List s)"
  by (auto simp: End_Processing_def Let_def case_prod_beta DB_E_UNKNOWNTRANSID_def DB_E_DEADLOCKABORT_def
      split: if_splits option.splits lock_result.splits)

lemma End_Processing_held:
  "End_Processing li tid cur r s = (Returns r', t) \<Longrightarrow> r' \<ge> 0 \<Longrightarrow> r' = r \<and> held_mode t = held_mode s"
  by (auto dest!: End_Processing_result held_mode_cong)

lemma queue_request_negative:
  assumes "queue_request k tid cur m u f s = (Returns r, t)" shows "r < 0"
proof -
  have neg: "r' < 0" if "End_Processing li tid cur d s' = (Returns r', t')" "d < 0" for li d s' r' t'
    using End_Processing_result [OF that(1)] that(2) by auto
  have "r < 0" if "wait_for_lock k tid cur m s' = (Returns r, t)" for s'
    using that neg by (auto simp: wait_for_lock_def Let_def DB_E_DEADLOCKOPER_def
        split: option.splits bool.splits prod.splits)
  with assms neg show ?thesis
    by (auto simp: queue_request_def Let_def DB_FAIL_def split: if_splits option.splits prod.splits)
qed

lemma Get_LockHolder_add [simp]:
  "LockMgr_Get_LockHolder it tid = None \<Longrightarrow> LockMgr_Get_LockHolder (add_holder tid p m it) tid =
     Some \<lparr>lh_trans_id = tid, lh_trans_prio = p, hld_lock_mode = m, lock_count = 1\<rparr>"
proof -
  have "find (\<lambda>h. lh_trans_id h = tid) hs = None \<Longrightarrow> lh_trans_id x = tid \<Longrightarrow>
      find (\<lambda>h. lh_trans_id h = tid) (insert_holder x hs) = Some x" for hs x
    by (induction hs) (auto split: if_splits)
  then show "LockMgr_Get_LockHolder it tid = None \<Longrightarrow> ?thesis"
    by (simp add: LockMgr_Get_LockHolder_def add_holder_def)
qed

lemma Get_LockHolder_upd:
  assumes "LockMgr_Get_LockHolder it tid = Some h" and "lh_trans_id (f h) = tid"
  shows "LockMgr_Get_LockHolder (upd_holder tid f it) tid = Some (f h)"
proof -
  have "find (\<lambda>h. lh_trans_id h = tid) hs = Some h \<Longrightarrow>
      find (\<lambda>h. lh_trans_id h = tid) (update_first (\<lambda>h. lh_trans_id h = tid) f hs) = Some (f h)" for hs
    using assms(2) by (induction hs) (auto split: if_splits)
  with assms(1) show ?thesis by (simp add: LockMgr_Get_LockHolder_def holder_list_upd_holder)
qed

lemma Get_LockHolder_granted [simp]:
  "LockMgr_Get_LockHolder (it\<lparr>granted_lock := g\<rparr>) tid = LockMgr_Get_LockHolder it tid"
  by (simp add: LockMgr_Get_LockHolder_def)

lemma Get_LockHolder_id: "LockMgr_Get_LockHolder it tid = Some h \<Longrightarrow> lh_trans_id h = tid"
  by (auto simp: LockMgr_Get_LockHolder_def find_Some_iff)

lemma held_mode_put:
  assumes "lk_inv s" and "LockMgr_GetLockItem s k = Some it" and "li_oid it' = k"
  shows "held_mode (put_item k it' s) k tid = map_option hld_lock_mode (LockMgr_Get_LockHolder it' tid)"
  using assms lt.get_put [of s it' k] by (simp add: held_mode_def lk_inv_def)

definition request_mode :: "trans \<Rightarrow> lockmode \<Rightarrow> lockmode" where
  "request_mode tr m = (if fRU tr \<and> m = LK_SHARED then LK_SCHEMA_SHARED else m)"

lemma lock_new_item_granted:
  assumes "lock_new_item k tid cur p m s = (Returns r, t)" and "r \<ge> 0" and "lk_inv s"
    and "LockMgr_GetLockItem s k = None"
  shows "held_mode t k tid = Some m \<and> r = int (lk_num m)"
proof -
  obtain e s1 where i: "LockMgr_Insert_LockItem k tid p m s = (e, s1)" by fastforce
  obtain e2 s2 where l: "LockMgr_trans_insert_table_lock tid k m s1 = (e2, s2)" by fastforce
  have s2: "lockitem_List s2 = lockitem_List s1"
    using items_insert_table_lock [of tid k m s1] l by simp
  have res: "\<not> e < 0" "\<not> e2 < 0" "r = int (lk_num m)" "held_mode t = held_mode s2"
    using assms(1,2) i l by (auto simp: lock_new_item_def split: if_splits dest!: End_Processing_held)
  obtain b s3 where a: "LockMgr_alloc_lock_item s = (b, s3)" by fastforce
  obtain e3 it s4 where h: "LockMgr_Insert_LockHolder item_zero tid p m s3 = (e3, it, s4)"
    using prod_cases3 by blast
  note out = alloc_same_core(1) [OF a] Insert_LockHolder_outcome [OF h]
  have zero: "item_zero\<lparr>granted_lock := LK_NOLOCK\<rparr> = item_zero" by (simp add: item_zero_def)
  have s1: "s1 = link_item k (it\<lparr>li_oid := k\<rparr>) s4" and e3: "\<not> e3 < 0"
    using i a h res(1) zero by (cases b; auto simp: LockMgr_Insert_LockItem_def DB_E_OUTOFLOCKMEMORY_def
        DB_FAIL_def split: if_splits)+
  have "lockitem_List s4 = lockitem_List s"
    using out same_core_items by metis
  then have g: "LockMgr_GetLockItem s1 k = Some (it\<lparr>li_oid := k\<rparr>)"
    using assms(3,4) lt.get_ins [of s4 "it\<lparr>li_oid := k\<rparr>" k] GetLockItem_cong [of s4 s] store_ok_cong [of s4 s]
    by (simp add: s1 lk_inv_def)
  have "LockMgr_Get_LockHolder item_zero tid = None"
    by (simp add: LockMgr_Get_LockHolder_def item_zero_def)
  from Get_LockHolder_add [OF this, of p m] out e3
  have "map_option hld_lock_mode (LockMgr_Get_LockHolder (it\<lparr>li_oid := k\<rparr>) tid) = Some m"
    by (auto simp: LockMgr_Get_LockHolder_def)
  with g have "held_mode s1 k tid = Some m" by (simp add: held_mode_def)
  with res held_mode_cong [OF s2] show ?thesis by simp
qed

lemma lock_as_holder_granted:
  assumes "lock_as_holder it h k tid cur p m f s = (Returns r, t)" and "r \<ge> 0" and "lk_inv s"
    and "LockMgr_GetLockItem s k = Some it" and "LockMgr_Get_LockHolder it tid = Some h"
  shows "held_mode t k tid = Some (LK_CONV m (hld_lock_mode h)) \<and> r = int (lk_num (LK_CONV m (hld_lock_mode h)))"
proof -
  let ?m = "LK_CONV m (hld_lock_mode h)"
  have tid: "lh_trans_id h = tid" using Get_LockHolder_id [OF assms(5)] .
  have oid: "li_oid it = k" using lk_inv_item [OF assms(3,4)] by simp
  note put = held_mode_put [OF assms(3,4)]
  show ?thesis
  proof (cases "?m = hld_lock_mode h")
    case True
    then have "held_mode t = held_mode
        (put_item k (upd_holder tid (\<lambda>h. h\<lparr>lock_count := lock_count h + 1\<rparr>) it) s)" "r = int (lk_num ?m)"
      using assms(1,2) by (auto simp: lock_as_holder_def Let_def dest!: End_Processing_held)
    moreover have "map_option hld_lock_mode (LockMgr_Get_LockHolder
        (upd_holder tid (\<lambda>h. h\<lparr>lock_count := lock_count h + 1\<rparr>) it) tid) = Some ?m"
      using True tid by (simp add: Get_LockHolder_upd [OF assms(5)])
    ultimately show ?thesis using oid put by simp
  next
    case False
    note neq = False
    show ?thesis
    proof (cases "holder_count it = 1 \<or> LockMgr_CheckConflict it tid p ?m = NOCONFLICT")
      case True
      with neq have "held_mode t = held_mode (put_item k (raise_holder tid ?m it) s)"
        "r = int (lk_num ?m)"
        using assms(1,2) by (auto simp: lock_as_holder_def Let_def raise_holder_def dest!: End_Processing_held)
      moreover have "map_option hld_lock_mode (LockMgr_Get_LockHolder (raise_holder tid ?m it) tid) = Some ?m"
        using Get_LockHolder_upd [OF assms(5), of "\<lambda>h. h\<lparr>hld_lock_mode := ?m, lock_count := lock_count h + 1\<rparr>"] tid
        by (simp add: raise_holder_def)
      ultimately show ?thesis using oid put by simp
    next
      case False
      with neq assms(1,2) queue_request_negative show ?thesis
        by (force simp: lock_as_holder_def Let_def)
    qed
  qed
qed

lemma lock_as_newcomer_granted:
  assumes "lock_as_newcomer it k tid cur p m f s = (Returns r, t)" and "r \<ge> 0" and "lk_inv s"
    and "LockMgr_GetLockItem s k = Some it" and "LockMgr_Get_LockHolder it tid = None"
  shows "held_mode t k tid = Some m \<and> r = int (lk_num m)"
proof (cases "LockMgr_CheckConflict it (-1) p m = NOCONFLICT")
  case False
  with assms(1,2) queue_request_negative show ?thesis by (force simp: lock_as_newcomer_def)
next
  case True
  obtain e it' s1 where i: "LockMgr_Insert_LockHolder it tid p m s = (e, it', s1)"
    using prod_cases3 by blast
  note out = Insert_LockHolder_outcome [OF i]
  obtain e2 s2 where l: "LockMgr_trans_insert_table_lock tid k m (put_item k it' s1) = (e2, s2)" by fastforce
  have s2: "lockitem_List s2 = lockitem_List (put_item k it' s1)"
    using items_insert_table_lock [of tid k m "put_item k it' s1"] l by simp
  have res: "\<not> e < 0" "r = int (lk_num m)" "held_mode t = held_mode s2"
    using assms(1,2) True i l
    by (auto simp: lock_as_newcomer_def Let_def split: if_splits dest!: End_Processing_held)
  have it': "it' = add_holder tid p m it" using out res(1) by auto
  have "lk_inv s1" "LockMgr_GetLockItem s1 k = Some it"
    using assms(3,4) out lk_inv_same_core GetLockItem_cong [OF same_core_items] by metis+
  moreover have "li_oid it = k" using lk_inv_item [OF assms(3,4)] by simp
  ultimately have "held_mode (put_item k it' s1) k tid = Some m"
    using assms(5) by (simp add: held_mode_put it')
  with res held_mode_cong [OF s2] show ?thesis by simp
qed

lemma mode_order: "LK_CONV a b = c \<Longrightarrow> a \<le> c"
  by (auto simp: LK_CONV_max)

text \<open>C3: a request that returns a mode holds the table in that mode, and the mode covers the
  requested one (a shared request of a READ UNCOMMITTED transaction counts as schema shared).\<close>

theorem Lock_granted:
  assumes "LockMgr_Lock name tid cur p m flag s = (Returns r, t)" and "r \<ge> 0" and "lk_inv s"
    and "cont_by_name s name = Some rel" and "\<not> cont_nolocking rel" and "Trans_Search s tid = Some tr"
  shows "\<exists>hm. held_mode t (cont_id rel) tid = Some hm \<and> r = int (lk_num hm) \<and> request_mode tr m \<le> hm"
proof -
  let ?m = "request_mode tr m" and ?k = "cont_id rel"
  have ne: "name \<noteq> []"
    using assms(1,2) by (auto simp: LockMgr_Lock_def DB_E_INVALIDPARAM_def)
  show ?thesis
  proof (cases "LockMgr_GetLockItem s ?k")
    case None
    with assms ne have "lock_new_item ?k tid cur p ?m s = (Returns r, t)"
      by (simp add: LockMgr_Lock_def request_mode_def Let_def)
    from lock_new_item_granted [OF this assms(2,3) None] show ?thesis by simp
  next
    case (Some it)
    show ?thesis
    proof (cases "LockMgr_Get_LockHolder it tid")
      case None
      with Some assms ne have "lock_as_newcomer it ?k tid cur p ?m flag s = (Returns r, t)"
        by (simp add: LockMgr_Lock_def request_mode_def Let_def)
      from lock_as_newcomer_granted [OF this assms(2,3) Some None] show ?thesis by simp
    next
      case h: (Some h)
      with Some assms ne have "lock_as_holder it h ?k tid cur p ?m flag s = (Returns r, t)"
        by (simp add: LockMgr_Lock_def request_mode_def Let_def)
      from lock_as_holder_granted [OF this assms(2,3) Some h] mode_order show ?thesis by blast
    qed
  qed
qed

theorem Lock_granted_witness:
  "\<exists>hm. held_mode (snd (run_lock 1 LK_SHARED run3)) 7 1 = Some hm \<and> LK_SHARED \<le> hm"
proof -
  have run: "LockMgr_Lock ''t'' 1 1 LOWPRIO LK_SHARED WAIT run3 = (Returns 2, snd (run_lock 1 LK_SHARED run3))"
    by (simp add: run_lock_def run3_eq run1_eq run0_def run_lock_defs ins_init_def trans_zero_def
      MAX_TRANS_def DEFAULT_HASHSIZE_def result_codes)
  obtain W where "reachable (run3, W)" using reachable_run3 by blast
  then have inv: "lk_inv run3" using reachable_lk_inv by fastforce
  have cont: "cont_by_name run3 ''t'' = Some \<lparr>cont_id = 7, cont_nolocking = False\<rparr>"
    and tr: "Trans_Search run3 1 = Some (Trans run3 1)" "fRU (Trans run3 1) = False"
    by (simp_all add: run3_eq run1_eq run0_def Trans_Search_def trans_slot_def MAX_TRANS_def ins_init_def trans_zero_def)
  show ?thesis
    using Lock_granted [OF run _ inv cont _ tr(1)] tr(2) by (auto simp: request_mode_def)
qed



subsection \<open>Waking up\<close>

definition woken :: "lockmgr \<Rightarrow> int \<Rightarrow> bool" where
  \<comment> \<open>the flag the waiting loop looks at is set and the transaction waits for nothing\<close>
  "woken s u \<longleftrightarrow> timeout (Trans s (trans_slot u)) \<and> req_tableid (trans_lock (Trans s (trans_slot u))) = 0"

lemma wakeup_loop_cases:
  assumes "wakeup_loop it s = (e, it', t)" and "e \<ge> 0"
  obtains (empty) "requestor_list it = []" "it' = it" "t = s"
  | (blocked) r rs where "requestor_list it = r # rs" "\<not> grantable it r" "it' = it" "t = s"
  | (grant) r rs it1 s1 s2 where "requestor_list it = r # rs" "grantable it r"
      "grant_requestor it r s = (DB_SUCCESS, it1, s1)" "same_core s1 s2"
      "requestor_list (drop_requestor (lr_trans_id r) it1) = rs"
      "wakeup_loop (drop_requestor (lr_trans_id r) it1) (signal_trans (lr_trans_id r) s2) = (e, it', t)"
proof (cases "requestor_list it")
  case Nil
  with assms show ?thesis by (intro empty) (auto simp: wakeup_loop.simps [of it s])
next
  case (Cons r rs)
  show ?thesis
  proof (cases "grantable it r")
    case False
    with Cons assms show ?thesis
      by (intro blocked) (auto simp: wakeup_loop.simps [of it s] simp del: grantable.simps)
  next
    case True
    obtain e1 it1 s1 where gr: "grant_requestor it r s = (e1, it1, s1)"
      using prod_cases3 by blast
    obtain e2 it2 s2 where dl: "LockMgr_Delete_LockRequestor it1 (lr_trans_id r) s1 = (e2, it2, s2)"
      using prod_cases3 by blast
    note out = grant_requestor_outcome [OF gr] Delete_LockRequestor_outcome [OF dl]
    have tr: "Trans_Search s (lr_trans_id r) \<noteq> None"
      using assms Cons True
      by (cases "Trans_Search s (lr_trans_id r)")
         (auto simp: wakeup_loop.simps [of it s] DB_E_UNKNOWNTRANSID_def simp del: grantable.simps)
    have e1: "\<not> e1 < 0"
      using assms Cons True tr gr by (auto simp: wakeup_loop.simps [of it s] simp del: grantable.simps)
    have loop: "wakeup_loop it2 (signal_trans (lr_trans_id r) s2) = (e, it', t)"
      using assms Cons True tr gr dl e1 out
      by (auto simp: wakeup_loop.simps [of it s] DB_SUCCESS_def simp del: grantable.simps)
    have "requestor_list it1 = r # rs" using requestor_list_grant_requestor [OF gr] Cons by simp
    then have "requestor_list (drop_requestor (lr_trans_id r) it1) = rs" by (simp add: drop_requestor_def)
    moreover have "grant_requestor it r s = (DB_SUCCESS, it1, s1)"
      using gr out(1) e1 by (auto simp: DB_SUCCESS_def)
    moreover have "same_core s1 s2" "it2 = drop_requestor (lr_trans_id r) it1"
      using out(2) by simp_all
    ultimately show ?thesis using Cons True loop by (intro grant) simp_all
  qed
qed

lemma Get_LockHolder_insert_other:
  "u \<noteq> lh_trans_id x \<Longrightarrow> find (\<lambda>h. lh_trans_id h = u) (insert_holder x hs) = find (\<lambda>h. lh_trans_id h = u) hs"
  by (induction hs) auto

lemma Get_LockHolder_update_other:
  "u \<noteq> tid \<Longrightarrow> \<forall>h. lh_trans_id (f h) = lh_trans_id h \<Longrightarrow>
   find (\<lambda>h. lh_trans_id h = u) (update_first (\<lambda>h. lh_trans_id h = tid) f hs) = find (\<lambda>h. lh_trans_id h = u) hs"
  by (induction hs) auto

lemma grant_requestor_holder:
  assumes "grant_requestor it r s = (DB_SUCCESS, it', t)"
  shows "map_option hld_lock_mode (LockMgr_Get_LockHolder it' (lr_trans_id r)) = Some (req_lock_mode r)"
    and "u \<noteq> lr_trans_id r \<Longrightarrow> LockMgr_Get_LockHolder it' u = LockMgr_Get_LockHolder it u"
proof -
  note out = grant_requestor_outcome [OF assms]
  let ?u = "lr_trans_id r"
  have cases: "LockMgr_Get_LockHolder it ?u \<noteq> None \<and> it' = raise_holder ?u (req_lock_mode r) it \<or>
      LockMgr_Get_LockHolder it ?u = None \<and> it' = add_holder ?u (lr_trans_prio r) (req_lock_mode r) it"
    using out by (auto simp: DB_SUCCESS_def)
  then show "map_option hld_lock_mode (LockMgr_Get_LockHolder it' ?u) = Some (req_lock_mode r)"
    using Get_LockHolder_id by (auto simp: raise_holder_def Get_LockHolder_upd)
  show "LockMgr_Get_LockHolder it' u = LockMgr_Get_LockHolder it u" if "u \<noteq> ?u"
    using cases that by (auto simp: LockMgr_Get_LockHolder_def raise_holder_def add_holder_def
        holder_list_upd_holder Get_LockHolder_insert_other Get_LockHolder_update_other)
qed

lemma Get_LockHolder_drop_requestor [simp]:
  "LockMgr_Get_LockHolder (drop_requestor u it) v = LockMgr_Get_LockHolder it v"
  by (simp add: LockMgr_Get_LockHolder_def drop_requestor_def)

lemma woken_signal [simp]: "woken (signal_trans u s) u"
  by (simp add: woken_def signal_trans_def upd_trans_def upd_slot_def)

lemma woken_mono:
  assumes "woken s u"
  shows "woken (signal_trans v s) u" "same_core s t \<Longrightarrow> woken t u"
    "grant_requestor it r s = (e, it', t) \<Longrightarrow> woken t u"
proof -
  show "woken (signal_trans v s) u"
    using assms by (auto simp: woken_def signal_trans_def upd_trans_def upd_slot_def)
  show core: "woken t u" if "same_core s t" for t using assms that by (simp add: woken_def same_core_def)
  have ins: "woken (snd (LockMgr_trans_insert_table_lock v k m s')) u" if "woken s' u" for v k m s'
    using that
    by (auto simp: woken_def LockMgr_trans_insert_table_lock_def upd_trans_def upd_slot_def same_core_def
        split: prod.split bool.split dest!: alloc_same_core(4))
  show "woken t u" if "grant_requestor it r s = (e, it', t)"
  proof (cases "LockMgr_Get_LockHolder it (lr_trans_id r)")
    case (Some h)
    with that assms show ?thesis by (simp add: grant_requestor_def Let_def)
  next
    case None
    obtain e1 it1 s1 where i: "LockMgr_Insert_LockHolder it (lr_trans_id r) (lr_trans_prio r)
        (req_lock_mode r) s = (e1, it1, s1)"
      using prod_cases3 by blast
    have "woken s1 u" using core Insert_LockHolder_outcome [OF i] by simp
    with that None i ins show ?thesis by (auto simp: grant_requestor_def Let_def split: if_splits)
  qed
qed

lemma wakeup_loop_complete:
  "wakeup_loop it s = (e, it', t) \<Longrightarrow> e \<ge> 0 \<Longrightarrow> distinct (map lr_trans_id (requestor_list it)) \<Longrightarrow>
   \<exists>n. requestor_list it' = drop n (requestor_list it) \<and>
     (requestor_list it' = [] \<or> \<not> grantable it' (hd (requestor_list it'))) \<and>
     (\<forall>r \<in> set (take n (requestor_list it)). woken t (lr_trans_id r) \<and>
        map_option hld_lock_mode (LockMgr_Get_LockHolder it' (lr_trans_id r)) = Some (req_lock_mode r)) \<and>
     (\<forall>u. u \<notin> lr_trans_id ` set (take n (requestor_list it)) \<longrightarrow>
        LockMgr_Get_LockHolder it' u = LockMgr_Get_LockHolder it u) \<and>
     (\<forall>u. woken s u \<longrightarrow> woken t u)"
proof (induction "requestor_list it" arbitrary: it s)
  case Nil
  from Nil.prems(1,2) show ?case
    using Nil(1) by (cases rule: wakeup_loop_cases) (auto intro: exI [of _ 0])
next
  case (Cons r rs)
  from Cons.prems(1,2) show ?case
  proof (cases rule: wakeup_loop_cases)
    case empty
    with Cons show ?thesis by simp
  next
    case (blocked r' rs')
    then show ?thesis by (intro exI [of _ 0]) (auto simp del: grantable.simps)
  next
    case (grant r' rs' it1 s1 s2)
    then have r: "r' = r" "rs' = rs" using Cons.hyps(2) by auto
    let ?it = "drop_requestor (lr_trans_id r) it1" and ?s = "signal_trans (lr_trans_id r) s2"
    have dist: "distinct (map lr_trans_id (r # rs))" using Cons.prems(3) Cons.hyps(2) by simp
    obtain n where n: "requestor_list it' = drop n rs"
      "requestor_list it' = [] \<or> \<not> grantable it' (hd (requestor_list it'))"
      "\<forall>r \<in> set (take n rs). woken t (lr_trans_id r) \<and>
        map_option hld_lock_mode (LockMgr_Get_LockHolder it' (lr_trans_id r)) = Some (req_lock_mode r)"
      "\<forall>u. u \<notin> lr_trans_id ` set (take n rs) \<longrightarrow> LockMgr_Get_LockHolder it' u = LockMgr_Get_LockHolder ?it u"
      "\<forall>u. woken ?s u \<longrightarrow> woken t u"
      using Cons.hyps(1) [of ?it ?s] grant(5,6) Cons.prems(2) dist unfolding r by auto
    note g = grant_requestor_holder [OF grant(3) [unfolded r]]
    have r_new: "lr_trans_id r \<notin> lr_trans_id ` set (take n rs)"
      using dist by (auto dest: in_set_takeD)
    have mono: "woken t u" if "woken s u" for u
      using n(5) woken_mono that grant(3,4) by metis
    show ?thesis
      using n g r_new mono Cons.hyps(2) [symmetric]
      by (intro exI [of _ "Suc n"]) (auto simp del: grantable.simps)
  qed
qed

text \<open>C4: a wake-up that succeeds grants a prefix of the queue and stops at the first request
  that cannot be granted: no transaction whose request could be granted is left at the head.  Each
  transaction of the prefix holds its requested mode and is signalled; nobody else's mode
  changes.\<close>

theorem WakeupRequestores_complete:
  assumes "WakeupRequestores it s = (e, it', t)" and "e \<ge> 0" and "item_ok it"
    and "distinct (map lr_trans_id (requestor_list it))"
  shows "\<exists>n. requestor_list it' = drop n (requestor_list it) \<and>
     (requestor_list it' = [] \<or> \<not> grantable it' (hd (requestor_list it'))) \<and>
     (\<forall>r \<in> set (take n (requestor_list it)). woken t (lr_trans_id r) \<and>
        map_option hld_lock_mode (LockMgr_Get_LockHolder it' (lr_trans_id r)) = Some (req_lock_mode r)) \<and>
     (\<forall>u. u \<notin> lr_trans_id ` set (take n (requestor_list it)) \<longrightarrow>
        LockMgr_Get_LockHolder it' u = LockMgr_Get_LockHolder it u)"
proof (cases "wait_trans_count it = 0")
  case True
  with assms(3) have "requestor_list it = []" by (simp add: item_ok_def)
  with True assms(1) show ?thesis by (auto simp: WakeupRequestores_def)
next
  case False
  with assms(1) have "wakeup_loop it s = (e, it', t)" by (simp add: WakeupRequestores_def)
  from wakeup_loop_complete [OF this assms(2,4)] show ?thesis by blast
qed

definition wake_item :: lock_item where
  \<comment> \<open>table 7 after its holder has gone; transaction 2 waits for it\<close>
  "wake_item = \<lparr>li_oid = 7, granted_lock = LK_NOLOCK, wait_trans_count = 1, holder_count = 0,
     li_visited = False, requestor_list = [\<lparr>lr_trans_id = 2, lr_trans_prio = LOWPRIO,
       req_lock_mode = LK_SHARED, lock_upgraded = False\<rparr>], holder_list = []\<rparr>"

theorem WakeupRequestores_complete_witness:
  "\<exists>it' t. WakeupRequestores wake_item cycle_state = (DB_SUCCESS, it', t) \<and> requestor_list it' = [] \<and>
     woken t 2 \<and> map_option hld_lock_mode (LockMgr_Get_LockHolder it' 2) = Some LK_SHARED"
proof -
  obtain it' t where w: "WakeupRequestores wake_item cycle_state = (DB_SUCCESS, it', t)"
    and nil: "requestor_list it' = []"
    by (simp add: WakeupRequestores_def wakeup_loop.simps wake_item_def LK_COMP_def LK_COMP_table_def
        Trans_Search_def trans_slot_def MAX_TRANS_def grant_requestor_def LockMgr_Get_LockHolder_def
        LockMgr_Insert_LockHolder_def pool_defs LockMgr_trans_insert_table_lock_def
        LockMgr_Delete_LockRequestor_def cycle_state_def DB_SUCCESS_def Let_def)
  have "item_ok wake_item"
    by (simp add: item_ok_def wake_item_def holders_compatible_def by_priority_def)
  from WakeupRequestores_complete [OF w _ this] obtain n where
    n: "requestor_list it' = drop n (requestor_list wake_item)"
    "\<forall>r \<in> set (take n (requestor_list wake_item)). woken t (lr_trans_id r) \<and>
        map_option hld_lock_mode (LockMgr_Get_LockHolder it' (lr_trans_id r)) = Some (req_lock_mode r)"
    by (auto simp: DB_SUCCESS_def wake_item_def)
  with nil have "n \<noteq> 0" by (auto simp: wake_item_def)
  with n(2) w nil show ?thesis by (cases n) (auto simp: wake_item_def)
qed

end
