(* ===== verification/LockRelease.thy ===== *)
theory LockRelease
  imports LockGrant
begin

section \<open>Releasing the locks of a transaction\<close>

text \<open>
  \<open>LockMgr_Unlock\<close> walks down the table locks of the transaction; for each it removes the
  holder from the item, deletes the item or wakes the queue, and drops the entry.  When the
  allocations succeed and the waiting transactions are live, it ends without an error, the
  transaction holds none of its tables, and the items of other tables are untouched.
\<close>

definition frame :: "int \<Rightarrow> lockmgr \<Rightarrow> lockmgr \<Rightarrow> bool" where
  \<comment> \<open>what working for other transactions leaves alone\<close>
  "frame u s t \<longleftrightarrow> malloc_ok t = malloc_ok s \<and> Trans t (trans_slot u) = Trans s (trans_slot u) \<and>
     (\<forall>j. fUsed (Trans t j) = fUsed (Trans s j))"

lemma frame_refl [simp]: "frame u s s"
  by (simp add: frame_def)

lemma frame_trans [trans]: "frame u s t \<Longrightarrow> frame u t v \<Longrightarrow> frame u s v"
  by (simp add: frame_def)

lemma frame_same_core: "same_core s t \<Longrightarrow> frame u s t"
  by (simp add: same_core_def frame_def)

lemma frame_put [simp]: "frame u s (put_item k it s)"
  by (simp add: frame_def put_item_def Let_def)

lemma frame_signal: "trans_slot v \<noteq> trans_slot u \<Longrightarrow> frame u s (signal_trans v s)"
  by (simp add: frame_def signal_trans_def upd_trans_def upd_slot_def)

lemma frame_insert_table_lock:
  assumes "trans_slot v \<noteq> trans_slot u" shows "frame u s (snd (LockMgr_trans_insert_table_lock v k m s))"
proof -
  obtain b t where a: "LockMgr_alloc_table_lock s = (b, t)" by fastforce
  from frame_same_core [OF alloc_same_core(4) [OF a]] assms a show ?thesis
    by (cases b) (simp_all add: LockMgr_trans_insert_table_lock_def frame_def upd_trans_def upd_slot_def)
qed

lemma grant_requestor_ok:
  assumes "\<forall>n. malloc_ok s n" and "trans_slot (lr_trans_id r) \<noteq> trans_slot u"
  obtains it' t where "grant_requestor it r s = (DB_SUCCESS, it', t)" "frame u s t"
proof (cases "LockMgr_Get_LockHolder it (lr_trans_id r)")
  case (Some h)
  with that show ?thesis by (simp add: grant_requestor_def Let_def)
next
  case None
  obtain e1 it1 s1 where i: "LockMgr_Insert_LockHolder it (lr_trans_id r) (lr_trans_prio r)
      (req_lock_mode r) s = (e1, it1, s1)"
    using prod_cases3 by blast
  have "\<not> e1 < 0"
    using i alloc_True(2) [OF assms(1)]
    by (auto simp: LockMgr_Insert_LockHolder_def Let_def DB_SUCCESS_def split: prod.splits bool.splits)
  moreover have "frame u s s1"
    using Insert_LockHolder_outcome [OF i] by (simp add: frame_same_core)
  ultimately have "grant_requestor it r s = (DB_SUCCESS, it1,
      snd (LockMgr_trans_insert_table_lock (lr_trans_id r) (li_oid it1) (req_lock_mode r) s1))"
    using None i by (simp add: grant_requestor_def Let_def)
  then show ?thesis
    using that frame_trans [OF \<open>frame u s s1\<close> frame_insert_table_lock [OF assms(2)]] by blast
qed

definition queue_live :: "int \<Rightarrow> lockmgr \<Rightarrow> lock_requestor list \<Rightarrow> bool" where
  \<comment> \<open>the waiting transactions are live and none of them is \<open>u\<close>\<close>
  "queue_live u s rs \<longleftrightarrow> distinct (map lr_trans_id rs) \<and>
     (\<forall>r \<in> set rs. fUsed (Trans s (trans_slot (lr_trans_id r))) \<and>
        trans_slot (lr_trans_id r) \<noteq> trans_slot u)"

lemma queue_live_frame: "frame u s t \<Longrightarrow> queue_live u t rs = queue_live u s rs"
  by (simp add: queue_live_def frame_def)

lemma wakeup_loop_ok:
  "\<forall>n. malloc_ok s n \<Longrightarrow> queue_live u s (requestor_list it) \<Longrightarrow>
   \<exists>it' t. wakeup_loop it s = (DB_SUCCESS, it', t) \<and> frame u s t \<and>
     (\<exists>n. requestor_list it' = drop n (requestor_list it)) \<and>
     LockMgr_Get_LockHolder it' u = LockMgr_Get_LockHolder it u"
proof (induction "requestor_list it" arbitrary: it s)
  case Nil
  then show ?case by (auto simp: wakeup_loop.simps [of it s])
next
  case (Cons r rs)
  show ?case
  proof (cases "grantable it r")
    case False
    have "wakeup_loop it s = (DB_SUCCESS, it, s)"
      using Cons.hyps(2) [symmetric] False by (simp add: wakeup_loop.simps [of it s] del: grantable.simps)
    then show ?thesis by (auto intro: exI [of _ 0])
  next
    case True
    have live: "fUsed (Trans s (trans_slot (lr_trans_id r)))" "trans_slot (lr_trans_id r) \<noteq> trans_slot u"
      "queue_live u s rs"
      using Cons.prems(2) Cons.hyps(2) [symmetric] by (auto simp: queue_live_def)
    then have ne: "u \<noteq> lr_trans_id r" by auto
    obtain it1 s1 where g: "grant_requestor it r s = (DB_SUCCESS, it1, s1)" "frame u s s1"
      using grant_requestor_ok [OF Cons.prems(1) live(2)] by blast
    obtain e2 it2 s2 where dl: "LockMgr_Delete_LockRequestor it1 (lr_trans_id r) s1 = (e2, it2, s2)"
      using prod_cases3 by blast
    note out = Delete_LockRequestor_outcome [OF dl]
    let ?s = "signal_trans (lr_trans_id r) s2"
    have fr: "frame u s ?s"
      using g(2) out frame_same_core frame_signal [OF live(2)] frame_trans by blast
    have rs: "requestor_list it2 = rs"
      using requestor_list_grant_requestor [OF g(1)] Cons.hyps(2) [symmetric] out
      by (simp add: drop_requestor_def)
    have "wakeup_loop it s = wakeup_loop it2 ?s"
      using Cons.hyps(2) [symmetric] True live(1) g dl out
      by (simp add: wakeup_loop.simps [of it s] Trans_Search_def Let_def DB_SUCCESS_def del: grantable.simps)
    moreover have "\<exists>it' t. wakeup_loop it2 ?s = (DB_SUCCESS, it', t) \<and> frame u ?s t \<and>
       (\<exists>n. requestor_list it' = drop n rs) \<and> LockMgr_Get_LockHolder it' u = LockMgr_Get_LockHolder it2 u"
      using Cons.hyps(1) [of it2 ?s] rs fr Cons.prems(1) live(3) queue_live_frame [OF fr]
      by (simp add: frame_def)
    moreover have "LockMgr_Get_LockHolder it2 u = LockMgr_Get_LockHolder it u"
      using grant_requestor_holder(2) [OF g(1) ne] out by simp
    ultimately show ?thesis
      using fr frame_trans Cons.hyps(2) [symmetric] by (metis drop_Suc_Cons)
  qed
qed

lemma Wakeup_ok:
  assumes "\<forall>n. malloc_ok s n" and "queue_live u s (requestor_list it)"
  obtains it' t where "WakeupRequestores it s = (DB_SUCCESS, it', t)" "frame u s t"
    "\<exists>n. requestor_list it' = drop n (requestor_list it)"
    "LockMgr_Get_LockHolder it' u = LockMgr_Get_LockHolder it u"
proof (cases "wait_trans_count it = 0")
  case True
  then show ?thesis by (intro that) (auto simp: WakeupRequestores_def intro: exI [of _ 0])
next
  case False
  with wakeup_loop_ok [OF assms] that show ?thesis by (auto simp: WakeupRequestores_def)
qed

subsection \<open>One item\<close>

definition live_state :: "int \<Rightarrow> lockmgr \<Rightarrow> bool" where
  "live_state u s \<longleftrightarrow> lk_inv s \<and> (\<forall>n. malloc_ok s n) \<and>
     (\<forall>k it. LockMgr_GetLockItem s k = Some it \<longrightarrow> queue_live u s (requestor_list it))"

lemma live_state_frame:
  assumes "live_state u s" and "frame u s t" and "lk_inv t"
    and "\<And>k it'. LockMgr_GetLockItem t k = Some it' \<Longrightarrow>
      \<exists>it n. LockMgr_GetLockItem s k = Some it \<and> requestor_list it' = drop n (requestor_list it)"
  shows "live_state u t"
proof -
  have "queue_live u t (requestor_list it')" if h: "LockMgr_GetLockItem t k = Some it'" for k it'
  proof -
    obtain it n where it: "LockMgr_GetLockItem s k = Some it" "requestor_list it' = drop n (requestor_list it)"
      using assms(4) [OF h] by blast
    have "queue_live u s (requestor_list it)" using assms(1) it(1) by (simp add: live_state_def)
    then have "queue_live u s (requestor_list it')"
      by (auto simp: queue_live_def it(2) drop_map [symmetric] distinct_drop dest: in_set_dropD)
    with assms(2) show ?thesis by (simp add: queue_live_frame)
  qed
  with assms show ?thesis by (simp add: live_state_def frame_def)
qed

lemma Get_LockHolder_drop_holder:
  assumes "item_ok it" shows "LockMgr_Get_LockHolder (drop_holder u it) u = None"
proof -
  have "distinct (map lh_trans_id hs) \<Longrightarrow>
      u \<notin> lh_trans_id ` set (remove_first (\<lambda>h. lh_trans_id h = u) hs)" for hs
    by (induction hs) auto
  with assms show ?thesis
    by (auto simp: Get_LockHolder_None drop_holder_def Let_def item_ok_def)
qed

lemma Delete_LockItem_ok:
  assumes "lk_inv s" and "LockMgr_GetLockItem s k = Some it"
  shows "LockMgr_GetLockItem (snd (LockMgr_Delete_LockItem k s)) = (LockMgr_GetLockItem s)(k := None)"
    and "frame u s (snd (LockMgr_Delete_LockItem k s))"
proof -
  let ?s = "unlink_item k s"
  have core: "same_core ?s (snd (LockMgr_Delete_LockItem k s))"
    using assms(2) same_core_trans [OF same_core_trans [OF free_funpow_same_core(1) free_funpow_same_core(2)] free_same_core(1)]
    by (simp add: LockMgr_Delete_LockItem_def Let_def)
  have "LockMgr_GetLockItem ?s = (LockMgr_GetLockItem s)(k := None)"
    using assms(1) by (intro lt.get_del) (simp add: lk_inv_def)
  then show "LockMgr_GetLockItem (snd (LockMgr_Delete_LockItem k s)) = (LockMgr_GetLockItem s)(k := None)"
    using GetLockItem_cong [OF same_core_items [OF core]] by simp
  have "frame u s ?s" by (simp add: frame_def unlink_item_def Let_def)
  with frame_same_core [OF core] frame_trans show "frame u s (snd (LockMgr_Delete_LockItem k s))" by blast
qed

lemma release_item_ok:
  assumes "live_state u s"
  obtains t where "release_item k u s = (DB_SUCCESS, t)" "frame u s t" "live_state u t"
    "held_mode t k u = None" "\<And>k'. k' \<noteq> k \<Longrightarrow> LockMgr_GetLockItem t k' = LockMgr_GetLockItem s k'"
proof (cases "LockMgr_GetLockItem s k")
  case None
  with assms that show ?thesis by (simp add: release_item_def held_mode_def)
next
  case (Some it)
  note concl = that
  have inv: "lk_inv s" and mal: "\<forall>n. malloc_ok s n" and live: "queue_live u s (requestor_list it)"
    using assms Some by (auto simp: live_state_def)
  note it = lk_inv_item [OF inv Some]
  obtain e it1 s1 where d: "LockMgr_Delete_LockHolder it u s = (e, it1, s1)"
    using prod_cases3 by blast
  note out = Delete_LockHolder_outcome [OF d]
  let ?s = "put_item k it1 s1"
  have e: "\<not> e < 0" using out by (simp add: DB_SUCCESS_def)
  have it1: "li_oid it1 = k" "requestor_list it1 = requestor_list it" "LockMgr_Get_LockHolder it1 u = None"
    using out it Get_LockHolder_drop_holder by (simp_all add: drop_holder_def Let_def)
  have fr: "frame u s ?s"
    using out frame_same_core frame_put frame_trans by metis
  have inv1: "lk_inv ?s"
    using inv out it it1 item_ok_drop_holder by (intro lk_inv_put) (simp_all add: lk_inv_same_core [of s s1])
  have get: "LockMgr_GetLockItem ?s = (LockMgr_GetLockItem s)(k := Some it1)"
  proof -
    have "lockitem_List s1 = lockitem_List s" using out same_core_items by blast
    then have "LockMgr_GetLockItem s1 = LockMgr_GetLockItem s" "store_ok s1"
      using inv by (simp_all add: lk_inv_def store_ok_cong [of s1 s] GetLockItem_cong [of s1 s])
    with lt.get_put [of s1 it1 k] it1(1) Some show ?thesis by simp
  qed
  have keep: thesis if t: "release_item k u s = (DB_SUCCESS, t)" "frame u s t" "lk_inv t"
    "LockMgr_GetLockItem t = (LockMgr_GetLockItem s)(k := oi)"
    "\<forall>it'. oi = Some it' \<longrightarrow> LockMgr_Get_LockHolder it' u = None \<and>
      (\<exists>n. requestor_list it' = drop n (requestor_list it))" for t oi
  proof (rule concl [OF t(1,2)])
    show "live_state u t"
      by (rule live_state_frame [OF assms t(2,3)]) (use t(4,5) Some in \<open>auto split: if_splits intro: exI [of _ 0]\<close>)
    show "held_mode t k u = None" using t(4,5) by (cases oi) (auto simp: held_mode_def)
    show "LockMgr_GetLockItem t k' = LockMgr_GetLockItem s k'" if k: "k' \<noteq> k" for k'
      using k t(4) by simp
  qed
  show ?thesis
  proof (cases "wait_trans_count it1 = 0")
    case True
    note w0 = True
    show ?thesis
    proof (cases "holder_count it1 = 0")
      case True
      have "LockMgr_GetLockItem ?s k = Some it1" by (simp add: get)
      note del = Delete_LockItem_ok [OF inv1 this] and inv2 = lk_inv_Delete_LockItem [OF inv1, of k]
      have "LockMgr_GetLockItem (snd (LockMgr_Delete_LockItem k ?s)) = (LockMgr_GetLockItem s)(k := None)"
        using del(1) get by simp
      with w0 True Some d e fr inv2 del(2) frame_trans show ?thesis
        by (intro keep [of "snd (LockMgr_Delete_LockItem k ?s)" None]) (auto simp: release_item_def Let_def)
    next
      case False
      with w0 Some d e fr inv1 get it1 show ?thesis
        by (intro keep [of ?s "Some it1"]) (auto simp: release_item_def Let_def intro: exI [of _ 0])
    qed
  next
    case False
    have "\<forall>n. malloc_ok ?s n" "queue_live u ?s (requestor_list it1)"
      using live it1(2) queue_live_frame [OF fr] mal fr by (simp_all add: frame_def)
    then obtain it2 t where w: "WakeupRequestores it1 ?s = (DB_SUCCESS, it2, t)" "frame u ?s t"
      "\<exists>n. requestor_list it2 = drop n (requestor_list it1)"
      "LockMgr_Get_LockHolder it2 u = LockMgr_Get_LockHolder it1 u"
      by (rule Wakeup_ok)
    have ok1: "item_ok it1" using inv1 get lk_inv_item by (metis fun_upd_same)
    note wo = item_ok_Wakeup [OF w(1) ok1]
    have inv2: "lk_inv (put_item k it2 t)"
      using wo it1(1) inv1 by (intro lk_inv_put) (simp_all add: lk_inv_cong [of t ?s])
    have "LockMgr_GetLockItem (put_item k it2 t) = (LockMgr_GetLockItem s)(k := Some it2)"
    proof -
      have "LockMgr_GetLockItem t = LockMgr_GetLockItem ?s" "store_ok t"
        using wo inv1 GetLockItem_cong store_ok_cong by (metis, metis lk_inv_def)
      with lt.get_put [of t it2 k] wo it1(1) get show ?thesis by simp
    qed
    moreover have "frame u s (put_item k it2 t)"
      using fr w(2) frame_put frame_trans by metis
    ultimately show ?thesis
      using False Some d e w inv2 it1(2,3)
      by (intro keep [of "put_item k it2 t" "Some it2"]) (auto simp: release_item_def Let_def)
  qed
qed

subsection \<open>All items\<close>

lemma frame_other:
  "frame u s (LockMgr_free_table_lock s)" "frame u s (delete_row_locks rls s)"
proof -
  show "frame u s (LockMgr_free_table_lock s)" by (rule frame_same_core) simp
  have row: "frame u s' (snd (LockMgr_delete_row_lock rs s'))" for rs s'
    by (induction rs s' rule: LockMgr_delete_row_lock.induct) (auto simp: frame_def split: option.split)
  have "frame u s' (fold (\<lambda>rl s. snd (LockMgr_delete_row_lock (recids rl) s)) rls s')" for s'
    by (induction rls arbitrary: s') (auto intro: frame_trans row)
  then show "frame u s (delete_row_locks rls s)" by (simp add: delete_row_locks_def)
qed

lemma live_state_upd_self:
  assumes "live_state u s" and "\<And>t. fUsed (f t) = fUsed t"
  shows "live_state u (upd_trans u f s)"
proof -
  have "queue_live u (upd_trans u f s) rs = queue_live u s rs" for rs
    using assms(2) by (auto simp: queue_live_def upd_trans_def upd_slot_def)
  moreover have "malloc_ok (upd_trans u f s) = malloc_ok s" by (simp add: upd_trans_def upd_slot_def)
  ultimately show ?thesis using assms(1) by (simp add: live_state_def)
qed

lemma live_state_cong:
  assumes "live_state u s" and "frame u s t" and "lockitem_List t = lockitem_List s"
  shows "live_state u t"
  using assms(1) lk_inv_cong [OF assms(3)] GetLockItem_cong [OF assms(3)] queue_live_frame [OF assms(2)] assms(2)
  by (simp add: live_state_def frame_def)

abbreviation own_locks :: "int \<Rightarrow> lockmgr \<Rightarrow> table_lock list" where
  "own_locks u s \<equiv> table_lock_list (trans_lock (Trans s (trans_slot u)))"

lemma unlock_loop_ok:
  "live_state u s \<Longrightarrow> tr_id (Trans s (trans_slot u)) = u \<Longrightarrow> length (own_locks u s) \<le> fuel \<Longrightarrow> e \<ge> 0 \<Longrightarrow>
   \<exists>r t. unlock_loop fuel u e s = (Returns r, t) \<and> r \<ge> 0 \<and> own_locks u t = [] \<and>
     (\<forall>k \<in> tableid ` set (own_locks u s). held_mode t k u = None) \<and>
     (\<forall>k. k \<notin> tableid ` set (own_locks u s) \<longrightarrow> LockMgr_GetLockItem t k = LockMgr_GetLockItem s k)"
proof (induction fuel arbitrary: s e)
  case 0
  then show ?case by (subst unlock_loop.simps) (simp add: upd_trans_def upd_slot_def LockMgr_GetLockItem_def)
next
  case (Suc fuel)
  show ?case
  proof (cases "own_locks u s")
    case Nil
    with Suc.prems show ?thesis
      by (subst unlock_loop.simps) (simp add: upd_trans_def upd_slot_def LockMgr_GetLockItem_def)
  next
    case (Cons l ls)
    let ?p = "pop_table_lock u s"
    have p: "own_locks u ?p = ls" "tr_id (Trans ?p (trans_slot u)) = u" "live_state u ?p"
      using Cons Suc.prems by (simp_all add: pop_table_lock_def upd_trans_def upd_slot_def
          live_state_upd_self [unfolded upd_trans_def upd_slot_def])
    obtain t1 where r: "release_item (tableid l) u ?p = (DB_SUCCESS, t1)" "frame u ?p t1" "live_state u t1"
      "held_mode t1 (tableid l) u = None"
      "\<And>k'. k' \<noteq> tableid l \<Longrightarrow> LockMgr_GetLockItem t1 k' = LockMgr_GetLockItem ?p k'"
      using release_item_ok [OF p(3)] by blast
    let ?t = "LockMgr_free_table_lock (delete_row_locks (rec_lock_list l) t1)"
    have fr: "frame u t1 ?t" using frame_other frame_trans by blast
    have items: "lockitem_List ?t = lockitem_List t1" by simp
    have t: "live_state u ?t" "own_locks u ?t = ls" "tr_id (Trans ?t (trans_slot u)) = u"
      using live_state_cong [OF r(3) fr items] r(2) fr p by (simp_all add: frame_def)
    have loop: "unlock_loop (Suc fuel) u e s = unlock_loop fuel u DB_SUCCESS ?t"
      using Cons r(1) Suc.prems(2) by (subst unlock_loop.simps) (simp add: DB_SUCCESS_def)
    obtain r' t' where ih: "unlock_loop fuel u DB_SUCCESS ?t = (Returns r', t')" "r' \<ge> 0" "own_locks u t' = []"
      "\<forall>k \<in> tableid ` set ls. held_mode t' k u = None"
      "\<forall>k. k \<notin> tableid ` set ls \<longrightarrow> LockMgr_GetLockItem t' k = LockMgr_GetLockItem ?t k"
      using Suc.IH [OF t(1,3), of DB_SUCCESS] t(2) Cons Suc.prems(3) by (auto simp: DB_SUCCESS_def)
    have get: "LockMgr_GetLockItem ?t = LockMgr_GetLockItem t1" by simp
    have "held_mode t' (tableid l) u = None"
    proof (cases "tableid l \<in> tableid ` set ls")
      case False
      with ih(5) get r(4) show ?thesis by (simp add: held_mode_def)
    qed (use ih(4) in blast)
    moreover have "LockMgr_GetLockItem t' k = LockMgr_GetLockItem s k" if "k \<notin> tableid ` set (own_locks u s)" for k
      using that Cons ih(5) get r(5) by simp
    ultimately show ?thesis
      using loop ih(1-4) Cons by auto
  qed
qed



subsection \<open>A request that is given up\<close>

definition queue_state :: lockmgr where
  \<comment> \<open>table 7 is shared by transaction 1; transaction 2 waits to write it, 3 behind it to read it\<close>
  "queue_state = cycle_state\<lparr>
     lockitem_List := (\<lambda>_.
       [\<lparr>li_oid = 7, granted_lock = LK_SHARED, wait_trans_count = 2, holder_count = 1, li_visited = False,
         requestor_list = [\<lparr>lr_trans_id = 2, lr_trans_prio = LOWPRIO, req_lock_mode = LK_EXCLUSIVE,
             lock_upgraded = False\<rparr>,
           \<lparr>lr_trans_id = 3, lr_trans_prio = LOWPRIO, req_lock_mode = LK_SHARED, lock_upgraded = False\<rparr>],
         holder_list = [(demo_holder 1)\<lparr>hld_lock_mode := LK_SHARED\<rparr>]\<rparr>]),
     Trans := (Trans cycle_state)(3 := trans_zero\<lparr>fUsed := True, tr_id := 3,
       trans_lock := (trans_lock trans_zero)\<lparr>req_tableid := 7\<rparr>\<rparr>)\<rparr>"


end
