(* ===== verification/SqlExpr.thy ===== *)
theory SqlExpr
  imports Prelude
begin

section \<open>SQL expressions (\<^verbatim>\<open>openML/src/server/sql/sql_calc_expression.c\<close>)\<close>

text \<open>
  A condition is a list of postfix elements that \<^verbatim>\<open>calc_expression\<close> evaluates on a stack.
  The model covers the elements a condition is made of (values, operators, functions, subqueries
  and operators on subqueries; aggregations occur in select lists only) and the evaluation of
  rows, that is \<^verbatim>\<open>is_init = 0\<close>.  A truth value is the \<^verbatim>\<open>u.bl\<close> of a value: the evaluator
  knows true and false only, and a comparison with NULL is false.

  What a condition calls and this theory does not define is in the record \<open>executor\<close>: the
  comparison of two values of the various types, the matcher behind LIKE, arithmetic, the SQL
  functions and the execution of subqueries.  No theorem assumes anything about them except
  where it says so.
\<close>

datatype T_OPTYPE =
  SOT_NONE | SOT_AND | SOT_OR | SOT_NOT | SOT_LIKE | SOT_ILIKE | SOT_ISNULL | SOT_ISNOTNULL
| SOT_PLUS | SOT_MINUS | SOT_TIMES | SOT_DIVIDE | SOT_EXPONENT | SOT_MODULA | SOT_MERGE
| SOT_LT | SOT_LE | SOT_GT | SOT_GE | SOT_EQ | SOT_NE
| SOT_IN | SOT_NIN | SOT_NLIKE | SOT_NILIKE
| SOT_SOME | SOT_SOME_LT | SOT_SOME_LE | SOT_SOME_GT | SOT_SOME_GE | SOT_SOME_EQ | SOT_SOME_NE
| SOT_ALL | SOT_ALL_LT | SOT_ALL_LE | SOT_ALL_GT | SOT_ALL_GE | SOT_ALL_EQ | SOT_ALL_NE
| SOT_EXISTS | SOT_NEXISTS | SOT_HEXCOMP | SOT_HEXNOTCOMP
| SOT_UNION_ALL | SOT_UNION | SOT_INTERSECT | SOT_EXCEPT

datatype T_FUNCTYPE = SFT_HEXCOMP | SFT_HEXNOTCOMP | SFT_OTHER nat

datatype DataType =
  DT_NULL_TYPE | DT_BOOL | DT_TINYINT | DT_SMALLINT | DT_INTEGER | DT_LONG | DT_BIGINT | DT_FLOAT
| DT_DOUBLE | DT_DECIMAL | DT_CHAR | DT_NCHAR | DT_VARCHAR | DT_NVARCHAR | DT_BYTE | DT_VARBYTE
| DT_TEXT | DT_BLOB | DT_TIMESTAMP | DT_DATETIME | DT_DATE | DT_TIME | DT_HEX | DT_OID

definition IS_BS :: "DataType \<Rightarrow> bool" where "IS_BS t \<longleftrightarrow> t \<in> {DT_CHAR, DT_VARCHAR}"
definition IS_NBS :: "DataType \<Rightarrow> bool" where "IS_NBS t \<longleftrightarrow> t \<in> {DT_NCHAR, DT_NVARCHAR}"
definition IS_BYTE :: "DataType \<Rightarrow> bool" where "IS_BYTE t \<longleftrightarrow> t \<in> {DT_BYTE, DT_VARBYTE}"
definition IS_BS_OR_NBS :: "DataType \<Rightarrow> bool" where "IS_BS_OR_NBS t \<longleftrightarrow> IS_BS t \<or> IS_NBS t"
definition IS_TIMES :: "DataType \<Rightarrow> bool" where
  "IS_TIMES t \<longleftrightarrow> t \<in> {DT_TIMESTAMP, DT_DATETIME, DT_DATE, DT_TIME}"
definition IS_INTEGER :: "DataType \<Rightarrow> bool" where
  "IS_INTEGER t \<longleftrightarrow> t \<in> {DT_TINYINT, DT_SMALLINT, DT_INTEGER, DT_BIGINT, DT_OID}"
definition IS_REAL :: "DataType \<Rightarrow> bool" where "IS_REAL t \<longleftrightarrow> t \<in> {DT_FLOAT, DT_DOUBLE, DT_DECIMAL}"
definition IS_NUMERIC :: "DataType \<Rightarrow> bool" where "IS_NUMERIC t \<longleftrightarrow> IS_INTEGER t \<or> IS_REAL t"
definition IS_STRING :: "DataType \<Rightarrow> bool" where "IS_STRING t \<longleftrightarrow> IS_BS t \<or> IS_TIMES t"

datatype T_VALUECLASS = SVC_NONE | SVC_VARIABLE | SVC_CONSTANT

record 'v T_VALUEDESC =
  valueclass :: T_VALUECLASS
  valuetype :: DataType
  attr_type :: DataType
  is_null :: bool
  param_idx :: int
  u_bl :: int
  u_other :: 'v \<comment> \<open>the other members of the union and the attribute description\<close>

datatype ('v, 'q) T_POSTFIXELEM =
  SPT_VALUE "'v T_VALUEDESC"
| SPT_OPERATOR T_OPTYPE nat
| SPT_FUNCTION T_FUNCTYPE nat
| SPT_SUBQUERY 'q
| SPT_SUBQ_OP T_OPTYPE nat

record ('v, 'q) executor =
  sql_compare_values :: "'v T_VALUEDESC \<Rightarrow> 'v T_VALUEDESC \<Rightarrow> int option"
  like_value :: "bool \<Rightarrow> 'v T_VALUEDESC \<Rightarrow> 'v T_VALUEDESC \<Rightarrow> int + bool"
  calc_scalar :: "T_OPTYPE \<Rightarrow> 'v T_VALUEDESC list \<Rightarrow> int + 'v T_VALUEDESC"
  calc_func :: "T_FUNCTYPE \<Rightarrow> 'v T_VALUEDESC list \<Rightarrow> int + 'v T_VALUEDESC"
  exec_subq :: "'q \<Rightarrow> bool \<Rightarrow> int + 'v T_VALUEDESC"
  calc_subqexpr :: "T_OPTYPE \<Rightarrow> 'v T_VALUEDESC list \<Rightarrow> int \<times> 'v T_VALUEDESC"
  no_value :: 'v

definition RET_ERROR :: int where "RET_ERROR = -1"
definition SQL_E_INCONSISTENTTYPE :: int where "SQL_E_INCONSISTENTTYPE = -1211"
definition SQL_E_INVALIDEXPRESSION :: int where "SQL_E_INVALIDEXPRESSION = -1212"
definition SQL_E_STACKUNDERFLOW :: int where "SQL_E_STACKUNDERFLOW = -1301"

subsection \<open>Type check\<close>

fun check_expression :: "T_OPTYPE \<Rightarrow> 'v T_VALUEDESC list \<Rightarrow> bool" where
  \<comment> \<open>True is \<^verbatim>\<open>RET_SUCCESS\<close>; the arguments are the \<^verbatim>\<open>argcnt\<close> topmost values\<close>
  "check_expression ty args =
     (if \<exists>a \<in> set args. is_null a then True
      else
        (let t = map valuetype args in
         case ty of
           SOT_AND \<Rightarrow> t ! 0 = DT_BOOL \<and> t ! 1 = DT_BOOL
         | SOT_OR \<Rightarrow> t ! 0 = DT_BOOL \<and> t ! 1 = DT_BOOL
         | SOT_NOT \<Rightarrow> t ! 0 = DT_BOOL
         | SOT_EXPONENT \<Rightarrow> IS_NUMERIC (t ! 0) \<and> IS_INTEGER (t ! 1)
         | SOT_MODULA \<Rightarrow> True
         | SOT_MERGE \<Rightarrow> IS_BS_OR_NBS (t ! 0) \<and> IS_BS_OR_NBS (t ! 1) \<and> (IS_NBS (t ! 0) \<longleftrightarrow> IS_NBS (t ! 1))
         | SOT_ISNULL \<Rightarrow> True
         | SOT_ISNOTNULL \<Rightarrow> True
         | _ \<Rightarrow>
             if ty \<in> {SOT_LIKE, SOT_NLIKE, SOT_ILIKE, SOT_NILIKE} then
               IS_BS_OR_NBS (t ! 1) \<and> (IS_NBS (t ! 0) \<longleftrightarrow> IS_NBS (t ! 1)) \<and>
               \<not> IS_BYTE (t ! 0) \<and> \<not> IS_BYTE (t ! 1)
             else if ty \<in> {SOT_PLUS, SOT_MINUS, SOT_TIMES, SOT_DIVIDE} then
               IS_NUMERIC (t ! 0) \<and> IS_NUMERIC (t ! 1)
             else if ty \<in> {SOT_LE, SOT_LT, SOT_GE, SOT_GT, SOT_EQ, SOT_NE} then
               (if IS_NUMERIC (t ! 0) then \<not> (IS_STRING (t ! 1) \<or> IS_NBS (t ! 1))
                else if IS_STRING (t ! 0) \<or> IS_NBS (t ! 0) then \<not> IS_NUMERIC (t ! 1)
                else False)
             else if ty \<in> {SOT_IN, SOT_NIN} then
               (\<forall>x \<in> set t. IS_NUMERIC x \<or> IS_STRING x \<or> IS_NBS x) \<and>
               \<not> ((\<exists>x \<in> set t. IS_NUMERIC x) \<and> (\<exists>x \<in> set t. \<not> IS_NUMERIC x))
             else False))"

declare check_expression.simps [simp del]

subsection \<open>The boolean operators\<close>

definition bool_value :: "('v, 'q) executor \<Rightarrow> T_VALUECLASS \<Rightarrow> bool \<Rightarrow> 'v T_VALUEDESC" where
  "bool_value env c b = \<lparr>valueclass = c, valuetype = DT_BOOL, attr_type = DT_NULL_TYPE, is_null = False,
     param_idx = 0, u_bl = (if b then 1 else 0), u_other = no_value env\<rparr>"

definition calc_and :: "('v, 'q) executor \<Rightarrow> 'v T_VALUEDESC \<Rightarrow> 'v T_VALUEDESC \<Rightarrow> 'v T_VALUEDESC" where
  "calc_and env l r = bool_value env SVC_CONSTANT (u_bl l = 1 \<and> u_bl r = 1)"

definition calc_or :: "('v, 'q) executor \<Rightarrow> 'v T_VALUEDESC \<Rightarrow> 'v T_VALUEDESC \<Rightarrow> 'v T_VALUEDESC" where
  "calc_or env l r = bool_value env SVC_CONSTANT (u_bl l = 1 \<or> u_bl r = 1)"

definition calc_not :: "('v, 'q) executor \<Rightarrow> 'v T_VALUEDESC \<Rightarrow> 'v T_VALUEDESC" where
  "calc_not env r = bool_value env SVC_CONSTANT (u_bl r = 0)"

definition calc_isnull :: "('v, 'q) executor \<Rightarrow> 'v T_VALUEDESC \<Rightarrow> 'v T_VALUEDESC" where
  "calc_isnull env r = bool_value env SVC_CONSTANT (is_null r)"

definition calc_isnotnull :: "('v, 'q) executor \<Rightarrow> 'v T_VALUEDESC \<Rightarrow> 'v T_VALUEDESC" where
  "calc_isnotnull env r = bool_value env SVC_CONSTANT (\<not> is_null r)"

definition result_class :: "'v T_VALUEDESC \<Rightarrow> 'v T_VALUEDESC \<Rightarrow> T_VALUECLASS" where
  "result_class l r =
     (if valueclass l = SVC_VARIABLE \<or> valueclass r = SVC_VARIABLE then SVC_VARIABLE else SVC_CONSTANT)"

definition calc_compare ::
    "(int \<Rightarrow> bool) \<Rightarrow> ('v, 'q) executor \<Rightarrow> 'v T_VALUEDESC \<Rightarrow> 'v T_VALUEDESC \<Rightarrow> int + 'v T_VALUEDESC" where
  \<comment> \<open>the common text of the comparisons; \<open>test\<close> looks at \<^verbatim>\<open>cmp_result\<close>\<close>
  "calc_compare test env l r =
     (if is_null l \<or> is_null r then Inr (bool_value env (result_class l r) False)
      else
        (case sql_compare_values env l r of
           None \<Rightarrow> Inl RET_ERROR
         | Some c \<Rightarrow> Inr (bool_value env (result_class l r) (test c))))"

definition calc_less where "calc_less = calc_compare (\<lambda>c. c < 0)"
definition calc_lessnequal where "calc_lessnequal = calc_compare (\<lambda>c. c \<le> 0)"
definition calc_greater where "calc_greater = calc_compare (\<lambda>c. c > 0)"
definition calc_greaternequal where "calc_greaternequal = calc_compare (\<lambda>c. c \<ge> 0)"
definition calc_notequal where "calc_notequal = calc_compare (\<lambda>c. c \<noteq> 0)"

definition calc_equal ::
    "('v, 'q) executor \<Rightarrow> 'v T_VALUEDESC \<Rightarrow> 'v T_VALUEDESC \<Rightarrow> int + 'v T_VALUEDESC" where
  "calc_equal env l r =
     (if valueclass l = SVC_VARIABLE \<and> is_null l \<and> valueclass r = SVC_CONSTANT \<and> is_null r \<and>
         param_idx r > 0
      then Inr (bool_value env (result_class l r) True)
      else calc_compare (\<lambda>c. c = 0) env l r)"

fun calc_in_loop :: "('v, 'q) executor \<Rightarrow> 'v T_VALUEDESC \<Rightarrow> 'v T_VALUEDESC list \<Rightarrow> int + bool" where
  "calc_in_loop env v [] = Inr False"
| "calc_in_loop env v (w # ws) =
     (case calc_equal env v w of
        Inl e \<Rightarrow> Inl RET_ERROR
      | Inr t \<Rightarrow> if u_bl t \<noteq> 0 then Inr True else calc_in_loop env v ws)"

definition calc_in :: "('v, 'q) executor \<Rightarrow> 'v T_VALUEDESC \<Rightarrow> 'v T_VALUEDESC list \<Rightarrow> int + 'v T_VALUEDESC" where
  \<comment> \<open>the two tests on the type of \<open>v\<close> alone can never both hold, so they never return\<close>
  "calc_in env v ws =
     (if is_null v then Inr (bool_value env SVC_CONSTANT False)
      else map_sum id (bool_value env SVC_CONSTANT) (calc_in_loop env v ws))"

definition calc_like ::
    "('v, 'q) executor \<Rightarrow> bool \<Rightarrow> 'v T_VALUEDESC \<Rightarrow> 'v T_VALUEDESC \<Rightarrow> int + 'v T_VALUEDESC" where
  \<comment> \<open>\<open>ilike\<close> is the mode; \<open>like_value\<close> prepares the pattern and compares\<close>
  "calc_like env ilike l r =
     (if is_null l \<or> is_null r then Inr (bool_value env (result_class l r) False)
      else if IS_NBS (valuetype l) \<and> ilike then Inl SQL_E_INVALIDEXPRESSION
      else map_sum id (bool_value env (result_class l r)) (like_value env ilike l r))"

definition negate_bl :: "'v T_VALUEDESC \<Rightarrow> 'v T_VALUEDESC" where
  "negate_bl v = v\<lparr>u_bl := (if u_bl v = 0 then 1 else 0)\<rparr>"

definition calc_nin :: "('v, 'q) executor \<Rightarrow> 'v T_VALUEDESC list \<Rightarrow> int + 'v T_VALUEDESC" where
  \<comment> \<open>the \<^verbatim>\<open>SOT_NIN\<close> part of the case label\<close>
  "calc_nin env args =
     (if \<exists>a \<in> set args. is_null a then Inr (bool_value env SVC_CONSTANT False)
      else map_sum id negate_bl (calc_in env (hd args) (tl args)))"

definition calc_simpleexpr ::
    "('v, 'q) executor \<Rightarrow> T_OPTYPE \<Rightarrow> 'v T_VALUEDESC list \<Rightarrow> int + 'v T_VALUEDESC" where
  "calc_simpleexpr env ty args =
     (if \<not> check_expression ty args then Inl SQL_E_INCONSISTENTTYPE
      else if ty \<noteq> SOT_ISNULL \<and> ty \<noteq> SOT_ISNOTNULL \<and>
              (\<exists>a \<in> set args. IS_BYTE (valuetype a) \<or> IS_BYTE (attr_type a))
      then Inl SQL_E_INVALIDEXPRESSION
      else
        (let a = args ! 0; b = args ! 1 in
         case ty of
           SOT_AND \<Rightarrow> Inr (calc_and env a b)
         | SOT_OR \<Rightarrow> Inr (calc_or env a b)
         | SOT_NOT \<Rightarrow> Inr (calc_not env a)
         | SOT_LIKE \<Rightarrow> calc_like env False a b
         | SOT_ILIKE \<Rightarrow> calc_like env True a b
         | SOT_NLIKE \<Rightarrow> map_sum id negate_bl (calc_like env False a b)
         | SOT_NILIKE \<Rightarrow> map_sum id negate_bl (calc_like env True a b)
         | SOT_ISNULL \<Rightarrow> Inr (calc_isnull env a)
         | SOT_ISNOTNULL \<Rightarrow> Inr (calc_isnotnull env a)
         | SOT_LE \<Rightarrow> calc_lessnequal env a b
         | SOT_LT \<Rightarrow> calc_less env a b
         | SOT_GE \<Rightarrow> calc_greaternequal env a b
         | SOT_GT \<Rightarrow> calc_greater env a b
         | SOT_EQ \<Rightarrow> calc_equal env a b
         | SOT_NE \<Rightarrow> calc_notequal env a b
         | SOT_IN \<Rightarrow> calc_in env a (tl args)
         | SOT_NIN \<Rightarrow> calc_nin env args
         | _ \<Rightarrow>
             if ty \<in> {SOT_PLUS, SOT_MINUS, SOT_TIMES, SOT_DIVIDE, SOT_EXPONENT, SOT_MODULA, SOT_MERGE}
             then calc_scalar env ty args
             else Inl RET_ERROR))"

definition calc_function ::
    "('v, 'q) executor \<Rightarrow> T_FUNCTYPE \<Rightarrow> 'v T_VALUEDESC list \<Rightarrow> int + 'v T_VALUEDESC" where
  "calc_function env f args =
     (case f of
        SFT_HEXNOTCOMP \<Rightarrow> map_sum id negate_bl (calc_func env SFT_HEXCOMP args)
      | _ \<Rightarrow> calc_func env f args)"

subsection \<open>The stack machine\<close>

fun is_subq_op :: "('v, 'q) T_POSTFIXELEM \<Rightarrow> bool" where
  "is_subq_op (SPT_SUBQ_OP ty n) = True"
| "is_subq_op e = False"

definition pop_args :: "nat \<Rightarrow> 'a list \<Rightarrow> (int + 'a list \<times> 'a list)" where
  \<comment> \<open>\<^verbatim>\<open>POP_STACK_ARRAY\<close>; the top of the stack is the head of the list\<close>
  "pop_args n st = (if length st < n then Inl SQL_E_STACKUNDERFLOW else Inr (rev (take n st), drop n st))"

fun calc_loop ::
    "('v, 'q) executor \<Rightarrow> ('v, 'q) T_POSTFIXELEM list \<Rightarrow> 'v T_VALUEDESC list \<Rightarrow>
      int + 'v T_VALUEDESC list" where
  "calc_loop env [] st = Inr st"
| "calc_loop env (SPT_VALUE v # es) st = calc_loop env es (v # st)"
| "calc_loop env (SPT_SUBQUERY q # es) st =
     (case exec_subq env q (es \<noteq> [] \<and> \<not> is_subq_op (hd es)) of
        Inl e \<Rightarrow> Inl e
      | Inr v \<Rightarrow> calc_loop env es (v # st))"
| "calc_loop env (SPT_SUBQ_OP ty n # es) st =
     (case pop_args n st of
        Inl e \<Rightarrow> Inl e
      | Inr (args, st) \<Rightarrow>
          \<comment> \<open>\<^verbatim>\<open>PUSH_STACK\<close> overwrites the error code of \<^verbatim>\<open>calc_subqexpr\<close>\<close>
          calc_loop env es (snd (calc_subqexpr env ty args) # st))"
| "calc_loop env (SPT_OPERATOR ty n # es) st =
     (case pop_args n st of
        Inl e \<Rightarrow> Inl e
      | Inr (args, st) \<Rightarrow>
          (case calc_simpleexpr env ty args of
             Inl e \<Rightarrow> Inl e
           | Inr v \<Rightarrow> calc_loop env es (v # st)))"
| "calc_loop env (SPT_FUNCTION f n # es) st =
     (case pop_args n st of
        Inl e \<Rightarrow> Inl e
      | Inr (args, st) \<Rightarrow>
          (case calc_function env f args of
             Inl e \<Rightarrow> Inl e
           | Inr v \<Rightarrow> calc_loop env es (v # st)))"

definition calc_expression ::
    "('v, 'q) executor \<Rightarrow> ('v, 'q) T_POSTFIXELEM list \<Rightarrow> int + 'v T_VALUEDESC" where
  \<comment> \<open>an expression of two or more elements; \<^verbatim>\<open>POP_STACK\<close> takes the top of what is left\<close>
  "calc_expression env es =
     (case calc_loop env es [] of
        Inl e \<Rightarrow> Inl e
      | Inr [] \<Rightarrow> Inl RET_ERROR
      | Inr (v # st) \<Rightarrow> Inr v)"

fun ends_subquery :: "('v, 'q) T_POSTFIXELEM list \<Rightarrow> bool" where
  "ends_subquery [] = False"
| "ends_subquery (e # es) =
     (if es = [] then (case e of SPT_SUBQUERY q \<Rightarrow> True | _ \<Rightarrow> False) else ends_subquery es)"

lemma ends_subquery_tl: "\<not> ends_subquery (e # es) \<Longrightarrow> \<not> ends_subquery es"
  by (auto split: if_splits)

lemma calc_loop_append:
  "\<not> ends_subquery xs \<Longrightarrow> calc_loop env (xs @ ys) st =
     (case calc_loop env xs st of Inl e \<Rightarrow> Inl e | Inr st' \<Rightarrow> calc_loop env ys st')"
proof (induction env xs st rule: calc_loop.induct)
  case (3 env q es st)
  then have "es \<noteq> []" by auto
  with 3 ends_subquery_tl [OF 3(2)] show ?case by (auto split: sum.split)
next
  case (2 env v es st)
  with ends_subquery_tl [OF 2(2)] show ?case by simp
next
  case (4 env ty n es st)
  with ends_subquery_tl [OF 4(2)] show ?case by (auto simp del: ends_subquery.simps split: sum.split)
next
  case (5 env ty n es st)
  with ends_subquery_tl [OF 5(2)] show ?case by (auto simp del: ends_subquery.simps split: sum.split)
next
  case (6 env f n es st)
  with ends_subquery_tl [OF 6(2)] show ?case by (auto simp del: ends_subquery.simps split: sum.split)
qed simp

text \<open>What is below the arguments of a program on the stack does not matter and stays.\<close>

lemma calc_loop_frame:
  "calc_loop env es st = Inr st' \<Longrightarrow> calc_loop env es (st @ r) = Inr (st' @ r)"
proof (induction env es st arbitrary: st' rule: calc_loop.induct)
  case (4 env ty n es st)
  then show ?case
    by (auto simp: pop_args_def split: sum.splits if_splits)
next
  case (5 env ty n es st)
  then show ?case
    by (auto simp: pop_args_def split: sum.splits if_splits)
next
  case (6 env f n es st)
  then show ?case
    by (auto simp: pop_args_def split: sum.splits if_splits)
qed (auto split: sum.splits)

end
