(* ===== verification/SqlNorm.thy ===== *)
theory SqlNorm
  imports SqlExpr
begin

section \<open>Normalisation of conditions (\<^verbatim>\<open>openML/src/server/sql/sql_norm.c\<close>)\<close>

text \<open>
  A WHERE or ON condition is turned from postfix into a tree of AND, OR and NOT over
  predicates, NOT is pushed into the predicates, the tree is rewritten to conjunctive normal
  form and each clause becomes a postfix list of its own.  A pointer to a tree node is a value of
  \<open>T_NODE\<close> with \<open>Null\<close> for NULL; no node is shared when a function is called, so updates in
  place are functional.  A leaf remembers where its operands and operator stand in the original
  list.  Allocation is an oracle: the \<open>n\<close>-th call of \<^verbatim>\<open>PMEM_ALLOC\<close> succeeds iff \<open>pm_ok n\<close>.
  \<open>BAD_POINTER\<close> marks the places where the code would follow a NULL pointer or read outside
  \<^verbatim>\<open>neg_op_tbl\<close>.
\<close>

datatype T_NODE = Null | Node (ntype: T_OPTYPE) (nstart: nat) (nend: nat) (nleft: T_NODE) (nright: T_NODE)

datatype norm_error = OUT_OF_MEMORY | BAD_POINTER

record 'v mem =
  pm_ok :: "nat \<Rightarrow> bool"
  pm_calls :: nat
  pm_bufs :: "'v T_VALUEDESC \<Rightarrow> nat" \<comment> \<open>the strings a copy of the value allocates\<close>

definition PMEM_ALLOC :: "'v mem \<Rightarrow> bool \<times> 'v mem" where
  "PMEM_ALLOC m = (pm_ok m (pm_calls m), m\<lparr>pm_calls := Suc (pm_calls m)\<rparr>)"

fun alloc_all :: "nat \<Rightarrow> 'v mem \<Rightarrow> bool \<times> 'v mem" where
  "alloc_all 0 m = (True, m)"
| "alloc_all (Suc n) m =
     (case PMEM_ALLOC m of (False, m) \<Rightarrow> (False, m) | (True, m) \<Rightarrow> alloc_all n m)"

subsection \<open>Trees\<close>

fun calc_exprlen4tree :: "T_NODE \<Rightarrow> nat" where
  \<comment> \<open>a NULL child adds nothing\<close>
  "calc_exprlen4tree Null = 0"
| "calc_exprlen4tree (Node ty s e l r) =
     calc_exprlen4tree l + calc_exprlen4tree r + (e - s + 1)"

fun copy_tree :: "T_NODE \<Rightarrow> 'v mem \<Rightarrow> T_NODE \<times> 'v mem" where
  \<comment> \<open>a child that could not be copied is NULL, and that is not noticed\<close>
  "copy_tree Null m = (Null, m)"
| "copy_tree (Node ty s e l r) m =
     (case copy_tree l m of (l', m) \<Rightarrow>
      case copy_tree r m of (r', m) \<Rightarrow>
      case PMEM_ALLOC m of
        (False, m) \<Rightarrow> (Null, m)
      | (True, m) \<Rightarrow> (Node ty s e l' r', m))"

fun estimate_cnf_size :: "T_NODE \<Rightarrow> 32 word option" where
  \<comment> \<open>the count is an \<^verbatim>\<open>int\<close>, the arithmetic wraps; \<open>None\<close> is a NULL pointer\<close>
  "estimate_cnf_size Null = None"
| "estimate_cnf_size (Node ty s e l r) =
     (if ty = SOT_AND \<or> ty = SOT_OR then
        (case (estimate_cnf_size l, estimate_cnf_size r) of
           (Some a, Some b) \<Rightarrow> Some (if ty = SOT_AND then a + b else a * b)
         | _ \<Rightarrow> None)
      else Some 1)"

subsection \<open>The stack of trees\<close>

definition push_node_stack :: "T_NODE \<Rightarrow> T_NODE list \<Rightarrow> 'v mem \<Rightarrow> T_NODE list \<times> 'v mem" where
  \<comment> \<open>no caller looks at the error code\<close>
  "push_node_stack v stack m =
     (case PMEM_ALLOC m of (False, m) \<Rightarrow> (stack, m) | (True, m) \<Rightarrow> (v # stack, m))"

definition pop_node_stack :: "T_NODE list \<Rightarrow> norm_error + T_NODE \<times> T_NODE list" where
  "pop_node_stack stack = (case stack of [] \<Rightarrow> Inl BAD_POINTER | v # st \<Rightarrow> Inr (v, st))"

definition predicate_ops :: "T_OPTYPE list" where
  "predicate_ops = [SOT_ISNULL, SOT_ISNOTNULL, SOT_LT, SOT_LE, SOT_GT, SOT_GE, SOT_EQ, SOT_NE,
     SOT_IN, SOT_NIN, SOT_LIKE, SOT_ILIKE,
     SOT_SOME_LT, SOT_SOME_LE, SOT_SOME_GT, SOT_SOME_GE, SOT_SOME_EQ, SOT_SOME_NE,
     SOT_ALL_LT, SOT_ALL_LE, SOT_ALL_GT, SOT_ALL_GE, SOT_ALL_EQ, SOT_ALL_NE, SOT_EXISTS]"

fun elem_op :: "('v, 'q) T_POSTFIXELEM \<Rightarrow> T_OPTYPE" where
  \<comment> \<open>what the element is to \<open>trans_expr2tree\<close>; \<open>SOT_NONE\<close> is the default case\<close>
  "elem_op (SPT_OPERATOR ty n) = ty"
| "elem_op (SPT_SUBQ_OP ty n) = ty"
| "elem_op (SPT_FUNCTION f n) = (if f = SFT_HEXCOMP then SOT_HEXCOMP else SOT_NONE)"
| "elem_op e = SOT_NONE"

fun is_hexcomp :: "('v, 'q) T_POSTFIXELEM \<Rightarrow> bool" where
  "is_hexcomp (SPT_FUNCTION f n) \<longleftrightarrow> f = SFT_HEXCOMP"
| "is_hexcomp e \<longleftrightarrow> False"

lemma is_hexcomp_iff: "is_hexcomp e \<longleftrightarrow> (\<exists>n. e = SPT_FUNCTION SFT_HEXCOMP n)"
  by (cases e) auto

definition make_node ::
    "T_OPTYPE \<Rightarrow> nat \<Rightarrow> nat \<Rightarrow> T_NODE \<Rightarrow> T_NODE \<Rightarrow> T_NODE list \<Rightarrow> 'v mem \<Rightarrow>
      (norm_error + T_NODE list) \<times> 'v mem" where
  "make_node ty s e l r stack m =
     (case PMEM_ALLOC m of
        (False, m) \<Rightarrow> (Inl OUT_OF_MEMORY, m)
      | (True, m) \<Rightarrow> map_prod Inr id (push_node_stack (Node ty s e l r) stack m))"

definition expr2tree_step ::
    "('v, 'q) T_POSTFIXELEM \<Rightarrow> nat \<Rightarrow> nat \<Rightarrow> T_NODE list \<Rightarrow> 'v mem \<Rightarrow>
      (norm_error + bool \<times> T_NODE list) \<times> 'v mem" where
  \<comment> \<open>the loop body; the flag says whether \<^verbatim>\<open>start\<close> becomes -1\<close>
  "expr2tree_step el i start stack m =
     (let ty = elem_op el in
      if ty = SOT_AND \<or> ty = SOT_OR then
        (case pop_node_stack stack of
           Inl er \<Rightarrow> (Inl er, m)
         | Inr (arg2, stack) \<Rightarrow>
             (case pop_node_stack stack of
                Inl er \<Rightarrow> (Inl er, m)
              | Inr (arg1, stack) \<Rightarrow>
                  map_prod (map_sum id (Pair True)) id (make_node ty i i arg1 arg2 stack m)))
      else if ty = SOT_NOT then
        (case pop_node_stack stack of
           Inl er \<Rightarrow> (Inl er, m)
         | Inr (arg1, stack) \<Rightarrow>
             map_prod (map_sum id (Pair True)) id (make_node ty i i arg1 Null stack m))
      else if ty \<in> set predicate_ops \<or> (ty = SOT_HEXCOMP \<and> is_hexcomp el) then
        map_prod (map_sum id (Pair True)) id (make_node ty start i Null Null stack m)
      else (Inr (False, stack), m))"

fun expr2tree_loop ::
    "('v, 'q) T_POSTFIXELEM list \<Rightarrow> nat \<Rightarrow> nat option \<Rightarrow> T_NODE list \<Rightarrow> 'v mem \<Rightarrow>
      (norm_error + T_NODE list) \<times> 'v mem" where
  \<comment> \<open>\<open>start = None\<close> is \<^verbatim>\<open>start == -1\<close>\<close>
  "expr2tree_loop [] i start stack m = (Inr stack, m)"
| "expr2tree_loop (el # els) i start stack m =
     (let start = (case start of None \<Rightarrow> i | Some s \<Rightarrow> s) in
      case expr2tree_step el i start stack m of
        (Inl er, m) \<Rightarrow> (Inl er, m)
      | (Inr (reset, stack), m) \<Rightarrow>
          expr2tree_loop els (Suc i) (if reset then None else Some start) stack m)"

definition trans_expr2tree ::
    "('v, 'q) T_POSTFIXELEM list \<Rightarrow> 'v mem \<Rightarrow> (norm_error + T_NODE) \<times> 'v mem" where
  "trans_expr2tree expr m =
     (case expr2tree_loop expr 0 None [] m of
        (Inl er, m) \<Rightarrow> (Inl er, m)
      | (Inr stack, m) \<Rightarrow> (map_sum id fst (pop_node_stack stack), m))"

subsection \<open>Elimination of NOT\<close>

definition op_num :: "T_OPTYPE \<Rightarrow> nat" where
  "op_num ty = (case ty of
     SOT_NONE \<Rightarrow> 0 | SOT_AND \<Rightarrow> 1 | SOT_OR \<Rightarrow> 2 | SOT_NOT \<Rightarrow> 3 | SOT_LIKE \<Rightarrow> 4 | SOT_ILIKE \<Rightarrow> 5
   | SOT_ISNULL \<Rightarrow> 6 | SOT_ISNOTNULL \<Rightarrow> 7 | SOT_PLUS \<Rightarrow> 8 | SOT_MINUS \<Rightarrow> 9 | SOT_TIMES \<Rightarrow> 10
   | SOT_DIVIDE \<Rightarrow> 11 | SOT_EXPONENT \<Rightarrow> 12 | SOT_MODULA \<Rightarrow> 13 | SOT_MERGE \<Rightarrow> 14 | SOT_LT \<Rightarrow> 15
   | SOT_LE \<Rightarrow> 16 | SOT_GT \<Rightarrow> 17 | SOT_GE \<Rightarrow> 18 | SOT_EQ \<Rightarrow> 19 | SOT_NE \<Rightarrow> 20 | SOT_IN \<Rightarrow> 21
   | SOT_NIN \<Rightarrow> 22 | SOT_NLIKE \<Rightarrow> 23 | SOT_NILIKE \<Rightarrow> 24 | SOT_SOME \<Rightarrow> 25 | SOT_SOME_LT \<Rightarrow> 26
   | SOT_SOME_LE \<Rightarrow> 27 | SOT_SOME_GT \<Rightarrow> 28 | SOT_SOME_GE \<Rightarrow> 29 | SOT_SOME_EQ \<Rightarrow> 30
   | SOT_SOME_NE \<Rightarrow> 31 | SOT_ALL \<Rightarrow> 32 | SOT_ALL_LT \<Rightarrow> 33 | SOT_ALL_LE \<Rightarrow> 34 | SOT_ALL_GT \<Rightarrow> 35
   | SOT_ALL_GE \<Rightarrow> 36 | SOT_ALL_EQ \<Rightarrow> 37 | SOT_ALL_NE \<Rightarrow> 38 | SOT_EXISTS \<Rightarrow> 39 | SOT_NEXISTS \<Rightarrow> 40
   | SOT_HEXCOMP \<Rightarrow> 41 | SOT_HEXNOTCOMP \<Rightarrow> 42 | SOT_UNION_ALL \<Rightarrow> 43 | SOT_UNION \<Rightarrow> 44
   | SOT_INTERSECT \<Rightarrow> 45 | SOT_EXCEPT \<Rightarrow> 46)"

definition neg_op_tbl :: "T_OPTYPE list" where
  "neg_op_tbl = [
     SOT_NONE, SOT_OR, SOT_AND, SOT_NONE, SOT_NLIKE,
     SOT_NILIKE,
     SOT_ISNOTNULL, SOT_ISNULL, SOT_NONE, SOT_NONE, SOT_NONE, SOT_NONE, SOT_NONE, SOT_NONE, SOT_NONE,
     SOT_GE, SOT_GT, SOT_LE, SOT_LT, SOT_NE, SOT_EQ,
     SOT_NIN, SOT_IN, SOT_LIKE,
     SOT_ILIKE,
     SOT_NONE, SOT_ALL_GE, SOT_ALL_GT, SOT_ALL_LE, SOT_ALL_LT,
     SOT_ALL_NE, SOT_ALL_EQ, SOT_NONE,
     SOT_SOME_GE, SOT_SOME_GT, SOT_SOME_LE, SOT_SOME_LT,
     SOT_SOME_NE, SOT_SOME_EQ, SOT_NEXISTS, SOT_EXISTS,
     SOT_HEXCOMP, SOT_HEXNOTCOMP]"

definition neg_op :: "T_OPTYPE \<Rightarrow> T_OPTYPE option" where
  "neg_op ty = (if op_num ty < length neg_op_tbl then Some (neg_op_tbl ! op_num ty) else None)"

fun norm_negate_op :: "T_NODE \<Rightarrow> T_NODE option" where
  "norm_negate_op Null = None"
| "norm_negate_op (Node ty s e l r) =
     (if ty = SOT_AND \<or> ty = SOT_OR then
        (case (norm_negate_op l, norm_negate_op r) of
           (Some l, Some r) \<Rightarrow> map_option (\<lambda>ty. Node ty s e l r) (neg_op ty)
         | _ \<Rightarrow> None)
      else if ty = SOT_NOT then
        \<comment> \<open>the node becomes its operand, and then its type is negated all the same\<close>
        (case l of
           Null \<Rightarrow> None
         | Node ty s e l r \<Rightarrow> map_option (\<lambda>ty. Node ty s e l r) (neg_op ty))
      else map_option (\<lambda>ty. Node ty s e l r) (neg_op ty))"

fun norm_eliminate_NOT :: "T_NODE \<Rightarrow> T_NODE option" where
  "norm_eliminate_NOT Null = None"
| "norm_eliminate_NOT (Node ty s e l r) =
     (if ty \<noteq> SOT_NOT then
        (case (if l = Null then Some Null else norm_eliminate_NOT l,
               if r = Null then Some Null else norm_eliminate_NOT r) of
           (Some l, Some r) \<Rightarrow> Some (Node ty s e l r)
         | _ \<Rightarrow> None)
      else norm_negate_op l)"

subsection \<open>Conjunctive normal form\<close>

definition distribute_left :: "T_NODE \<Rightarrow> 'v mem \<Rightarrow> (norm_error + T_NODE) \<times> 'v mem" where
  \<comment> \<open>\<^verbatim>\<open>(A AND B) OR C => (A OR C) AND (B OR C)\<close>\<close>
  "distribute_left node m =
     (let t1 = nright node; t2 = nright (nleft node) in
      case copy_tree t1 m of (t3, m) \<Rightarrow>
      if t3 = Null then (Inl OUT_OF_MEMORY, m)
      else
        (let left = Node SOT_OR (nstart (nleft node)) (nend (nleft node)) (nleft (nleft node)) t1 in
         case PMEM_ALLOC m of
           (False, m) \<Rightarrow> (Inl OUT_OF_MEMORY, m)
         | (True, m) \<Rightarrow>
             (Inr (Node SOT_AND (nstart node) (nend node) left
                (Node SOT_OR (nstart (nleft node)) (nend (nleft node)) t2 t3)), m)))"

definition distribute_right :: "T_NODE \<Rightarrow> 'v mem \<Rightarrow> (norm_error + T_NODE) \<times> 'v mem" where
  \<comment> \<open>\<^verbatim>\<open>A OR (B AND C) => (A OR B) AND (A OR C)\<close>\<close>
  "distribute_right node m =
     (let t1 = nleft node; t2 = nleft (nright node) in
      case copy_tree t1 m of (t3, m) \<Rightarrow>
      if t3 = Null then (Inl OUT_OF_MEMORY, m)
      else
        (let right = Node SOT_OR (nstart (nright node)) (nend (nright node)) t1 (nright (nright node)) in
         case PMEM_ALLOC m of
           (False, m) \<Rightarrow> (Inl OUT_OF_MEMORY, m)
         | (True, m) \<Rightarrow>
             (Inr (Node SOT_AND (nstart node) (nend node)
                (Node SOT_OR (nstart (nright node)) (nend (nright node)) t3 t2) right), m)))"

definition rotate :: "T_NODE \<Rightarrow> T_NODE" where
  \<comment> \<open>\<^verbatim>\<open>A OR (B OR C) => (A OR B) OR C\<close>, and the same for AND\<close>
  "rotate node =
     (let t1 = nleft node; t2 = nleft (nright node); t3 = nright (nright node) in
      Node (ntype node) (nstart node) (nend node)
        (Node (ntype (nright node)) (nstart (nright node)) (nend (nright node)) t1 t2) t3)"

definition has_type :: "T_NODE \<Rightarrow> T_OPTYPE \<Rightarrow> bool" where
  "has_type t ty \<longleftrightarrow> t \<noteq> Null \<and> ntype t = ty"

definition set_left :: "T_NODE \<Rightarrow> T_NODE \<Rightarrow> T_NODE" where
  "set_left node l = Node (ntype node) (nstart node) (nend node) l (nright node)"

definition set_right :: "T_NODE \<Rightarrow> T_NODE \<Rightarrow> T_NODE" where
  "set_right node r = Node (ntype node) (nstart node) (nend node) (nleft node) r"

text \<open>\<open>None\<close> is a run that does not end.\<close>

partial_function (option) norm_transform_CNF ::
    "T_NODE \<Rightarrow> 'v mem \<Rightarrow> ((norm_error + T_NODE) \<times> 'v mem) option" where
  "norm_transform_CNF node m =
     (if node = Null then Some (Inl BAD_POINTER, m)
      else if ntype node \<noteq> SOT_AND \<and> ntype node \<noteq> SOT_OR then Some (Inr node, m)
      else
        Option.bind
          (if nleft node = Null then Some (Inr node, m)
           else
             Option.bind (norm_transform_CNF (nleft node) m) (\<lambda>res.
               case res of
                 (Inl er, m) \<Rightarrow> Some (Inl er, m)
               | (Inr l, m) \<Rightarrow>
                   let node = set_left node l in
                   if ntype node = SOT_OR \<and> ntype (nleft node) = SOT_AND then
                     (case distribute_left node m of
                        (Inl er, m) \<Rightarrow> Some (Inl er, m)
                      | (Inr node, m) \<Rightarrow> norm_transform_CNF node m)
                   else Some (Inr node, m)))
          (\<lambda>res.
             case res of
               (Inl er, m) \<Rightarrow> Some (Inl er, m)
             | (Inr node, m) \<Rightarrow>
                 if nright node = Null then Some (Inr node, m)
                 else
                   Option.bind (norm_transform_CNF (nright node) m) (\<lambda>res.
                     case res of
                       (Inl er, m) \<Rightarrow> Some (Inl er, m)
                     | (Inr r, m) \<Rightarrow>
                         let node = set_right node r in
                         if ntype node = SOT_OR \<and> ntype r = SOT_AND then
                           (case distribute_right node m of
                              (Inl er, m) \<Rightarrow> Some (Inl er, m)
                            | (Inr node, m) \<Rightarrow> norm_transform_CNF node m)
                         else if ntype node = SOT_OR \<and> ntype r = SOT_OR then
                           norm_transform_CNF (rotate node) m
                         else if ntype node = SOT_AND \<and> ntype r = SOT_AND then
                           norm_transform_CNF (rotate node) m
                         else Some (Inr node, m))))"

subsection \<open>Back to postfix\<close>

record ('v, 'q) T_EXPRESSIONDESC =
  expr_max :: nat
  expr_list :: "('v, 'q) T_POSTFIXELEM list"

fun elem_bufs :: "'v mem \<Rightarrow> ('v, 'q) T_POSTFIXELEM \<Rightarrow> nat" where
  "elem_bufs m (SPT_VALUE v) = pm_bufs m v"
| "elem_bufs m el = 0"

fun add_loop ::
    "('v, 'q) T_POSTFIXELEM list \<Rightarrow> ('v, 'q) T_EXPRESSIONDESC \<Rightarrow> 'v mem \<Rightarrow>
      bool \<times> ('v, 'q) T_EXPRESSIONDESC \<times> 'v mem" where
  "add_loop [] des m = (True, des, m)"
| "add_loop (el # els) des m =
     (let des = des\<lparr>expr_list := expr_list des @ [el]\<rparr> in
      case alloc_all (elem_bufs m el) m of
        (False, m) \<Rightarrow> (False, des, m)
      | (True, m) \<Rightarrow> add_loop els des m)"

definition segment :: "'a list \<Rightarrow> nat \<Rightarrow> nat \<Rightarrow> 'a list" where
  "segment xs s e = take (e - s + 1) (drop s xs)"

definition add_expression ::
    "('v, 'q) T_EXPRESSIONDESC \<Rightarrow> ('v, 'q) T_POSTFIXELEM list \<Rightarrow> nat \<Rightarrow> nat \<Rightarrow> 'v mem \<Rightarrow>
      bool \<times> ('v, 'q) T_EXPRESSIONDESC \<times> 'v mem" where
  "add_expression des src s e m =
     (if expr_max des - length (expr_list des) < e - s + 1 then (False, des, m)
      else add_loop (segment src s e) des m)"

fun set_op :: "T_OPTYPE \<Rightarrow> ('v, 'q) T_POSTFIXELEM \<Rightarrow> ('v, 'q) T_POSTFIXELEM" where
  \<comment> \<open>a write to \<^verbatim>\<open>u.op.type\<close>; the last element of a span is never a value or a subquery\<close>
  "set_op ty (SPT_OPERATOR _ n) = SPT_OPERATOR ty n"
| "set_op ty (SPT_SUBQ_OP _ n) = SPT_SUBQ_OP ty n"
| "set_op ty (SPT_FUNCTION _ n) =
     SPT_FUNCTION (if ty = SOT_HEXCOMP then SFT_HEXCOMP
                   else if ty = SOT_HEXNOTCOMP then SFT_HEXNOTCOMP else SFT_OTHER (op_num ty)) n"
| "set_op ty el = el"

fun map_last :: "('a \<Rightarrow> 'a) \<Rightarrow> 'a list \<Rightarrow> 'a list" where
  "map_last f [] = []"
| "map_last f (x # xs) = (if xs = [] then [f x] else x # map_last f xs)"

fun trans_tree2expr_work ::
    "T_NODE \<Rightarrow> ('v, 'q) T_POSTFIXELEM list \<Rightarrow> ('v, 'q) T_EXPRESSIONDESC \<Rightarrow> 'v mem \<Rightarrow>
      bool \<times> ('v, 'q) T_EXPRESSIONDESC \<times> 'v mem" where
  \<comment> \<open>a NULL child is skipped; the result of a child is not looked at\<close>
  "trans_tree2expr_work Null cond des m = (True, des, m)"
| "trans_tree2expr_work (Node ty s e l r) cond des m =
     (case trans_tree2expr_work l cond des m of (_, des, m) \<Rightarrow>
      case trans_tree2expr_work r cond des m of (_, des, m) \<Rightarrow>
      case add_expression des cond s e m of
        (False, des, m) \<Rightarrow> (False, des, m)
      | (True, des, m) \<Rightarrow> (True, des\<lparr>expr_list := map_last (set_op ty) (expr_list des)\<rparr>, m))"

definition trans_tree2expr ::
    "T_NODE \<Rightarrow> ('v, 'q) T_POSTFIXELEM list \<Rightarrow> 'v mem \<Rightarrow>
      (norm_error + ('v, 'q) T_POSTFIXELEM list) \<times> 'v mem" where
  \<comment> \<open>called with \<^verbatim>\<open>expr == NULL\<close>: the descriptor, its list and its elements are allocated\<close>
  "trans_tree2expr tree cond m =
     (case alloc_all (2 + calc_exprlen4tree tree) m of
        (False, m) \<Rightarrow> (Inl OUT_OF_MEMORY, m)
      | (True, m) \<Rightarrow>
          (case trans_tree2expr_work tree cond
                  \<lparr>expr_max = calc_exprlen4tree tree, expr_list = []\<rparr> m of
             (False, des, m) \<Rightarrow> (Inl OUT_OF_MEMORY, m)
           | (True, des, m) \<Rightarrow> (Inr (expr_list des), m)))"

fun trans_tree2exprlist ::
    "T_NODE \<Rightarrow> ('v, 'q) T_POSTFIXELEM list list \<Rightarrow> ('v, 'q) T_POSTFIXELEM list \<Rightarrow> 'v mem \<Rightarrow>
      (norm_error + ('v, 'q) T_POSTFIXELEM list list) \<times> 'v mem" where
  \<comment> \<open>the list is linked at its head; after an AND it is not empty\<close>
  "trans_tree2exprlist Null el cond m = (Inl BAD_POINTER, m)"
| "trans_tree2exprlist (Node ty s e l r) el cond m =
     (if ty = SOT_AND then
        (case trans_tree2exprlist l el cond m of
           (Inl er, m) \<Rightarrow> (Inl er, m)
         | (Inr el, m) \<Rightarrow> trans_tree2exprlist r el cond m)
      else
        (case trans_tree2expr (Node ty s e l r) cond m of
           (Inl er, m) \<Rightarrow> (Inl er, m)
         | (Inr ex, m) \<Rightarrow>
             (case PMEM_ALLOC m of
                (False, m) \<Rightarrow> (Inl OUT_OF_MEMORY, m)
              | (True, m) \<Rightarrow> (Inr (ex # el), m))))"

subsection \<open>The driver\<close>

definition MAX_CNF_SIZE :: int where "MAX_CNF_SIZE = 100"

definition cond_normalize ::
    "('v, 'q) T_POSTFIXELEM list \<Rightarrow> 'v mem \<Rightarrow>
      ((norm_error + ('v, 'q) T_POSTFIXELEM list list option) \<times> 'v mem) option" where
  \<comment> \<open>\<open>Inr None\<close>: success with \<^verbatim>\<open>*list_ptr == NULL\<close>, the condition is used as it is\<close>
  "cond_normalize cond m =
     (if cond = [] then Some (Inr None, m)
      else
        (case trans_expr2tree cond m of
           (Inl er, m) \<Rightarrow> Some (Inl er, m)
         | (Inr tree, m) \<Rightarrow>
             (case estimate_cnf_size tree of
                None \<Rightarrow> Some (Inl BAD_POINTER, m)
              | Some count \<Rightarrow>
                  if sint count > MAX_CNF_SIZE \<or> sint count < 0 then Some (Inr None, m)
                  else
                    (case norm_eliminate_NOT tree of
                       None \<Rightarrow> Some (Inl BAD_POINTER, m)
                     | Some tree \<Rightarrow>
                         Option.bind (norm_transform_CNF tree m) (\<lambda>res.
                           case res of
                             (Inl er, m) \<Rightarrow> Some (Inl er, m)
                           | (Inr tree, m) \<Rightarrow>
                               Some (map_prod (map_sum id Some) id
                                 (trans_tree2exprlist tree [] cond m)))))))"

end
