(* ===== verification/SqlCnf.thy ===== *)
theory SqlCnf
  imports SqlNorm
begin

section \<open>The transformation to conjunctive normal form\<close>

text \<open>
  \<open>norm_transform_CNF\<close> ends on every tree and with every pattern of failing allocations; when
  no allocation fails, the result has the shape of a conjunctive normal form, means the same under
  every valuation of the predicates, mentions the same predicates and has as many clauses as
  \<^verbatim>\<open>estimate_cnf_size\<close> predicted.  One well-founded induction on a weight of trees proves all of
  it: both distributive laws and both rotations make the weight smaller.
\<close>

subsection \<open>Meaning, shape, weight\<close>

fun eval_tree :: "(T_OPTYPE \<Rightarrow> nat \<Rightarrow> nat \<Rightarrow> bool) \<Rightarrow> T_NODE \<Rightarrow> bool" where
  "eval_tree p Null = False"
| "eval_tree p (Node ty s e l r) =
     (if ty = SOT_AND then eval_tree p l \<and> eval_tree p r
      else if ty = SOT_OR then eval_tree p l \<or> eval_tree p r
      else if ty = SOT_NOT then \<not> eval_tree p l
      else p ty s e)"

abbreviation is_conn :: "T_OPTYPE \<Rightarrow> bool" where
  "is_conn ty \<equiv> ty = SOT_AND \<or> ty = SOT_OR"

fun wf_conn :: "T_NODE \<Rightarrow> bool" where
  \<comment> \<open>both children of every AND and OR are there\<close>
  "wf_conn Null = False"
| "wf_conn (Node ty s e l r) = (is_conn ty \<longrightarrow> wf_conn l \<and> wf_conn r)"

fun est :: "T_NODE \<Rightarrow> nat" where
  \<comment> \<open>the estimate without wrap-around\<close>
  "est Null = 1"
| "est (Node ty s e l r) =
     (if ty = SOT_AND then est l + est r else if ty = SOT_OR then est l * est r else 1)"

fun leaves :: "T_NODE \<Rightarrow> T_NODE set" where
  "leaves Null = {}"
| "leaves (Node ty s e l r) =
     (if is_conn ty then leaves l \<union> leaves r else {Node ty s e l r})"

fun conn_spans :: "T_NODE \<Rightarrow> (nat \<times> nat) set" where
  "conn_spans Null = {}"
| "conn_spans (Node ty s e l r) =
     (if is_conn ty then insert (s, e) (conn_spans l \<union> conn_spans r) else {})"

fun is_clause :: "T_NODE \<Rightarrow> bool" where
  "is_clause Null = False"
| "is_clause (Node ty s e l r) =
     (ty \<noteq> SOT_AND \<and> (ty = SOT_OR \<longrightarrow> is_clause l \<and> r \<noteq> Null \<and> \<not> is_conn (ntype r)))"

fun is_cnf :: "T_NODE \<Rightarrow> bool" where
  "is_cnf Null = False"
| "is_cnf (Node ty s e l r) =
     (if ty = SOT_AND then is_cnf l \<and> is_clause r else is_clause (Node ty s e l r))"

fun weight :: "T_NODE \<Rightarrow> nat" where
  "weight Null = 2"
| "weight (Node ty s e l r) =
     (if ty = SOT_AND then weight l + 2 * weight r + 5
      else if ty = SOT_OR then (weight l + 1) * weight r
      else 2)"

lemma weight_ge2: "2 \<le> weight t"
proof (induction t)
  case (Node ty s e l r)
  then show ?case
    using mult_le_mono [of 1 "weight l + 1" 2 "weight r"] by auto
qed simp

lemma is_clause_cnf: "is_clause t \<Longrightarrow> is_cnf t"
  by (cases t) auto

lemma is_cnf_clause: "is_cnf t \<Longrightarrow> ntype t \<noteq> SOT_AND \<Longrightarrow> is_clause t"
  by (cases t) auto

lemma is_cnf_conn: "is_cnf t \<Longrightarrow> t \<noteq> Null"
  by auto

subsection \<open>What a rewriting step keeps\<close>

definition cnf_equiv :: "T_NODE \<Rightarrow> T_NODE \<Rightarrow> bool" where
  "cnf_equiv t t' \<longleftrightarrow> wf_conn t' \<and> est t' = est t \<and> (\<forall>p. eval_tree p t' = eval_tree p t) \<and>
     leaves t' = leaves t \<and> conn_spans t' \<subseteq> conn_spans t"

lemma cnf_equiv_refl: "wf_conn t \<Longrightarrow> cnf_equiv t t"
  by (simp add: cnf_equiv_def)

lemma cnf_equiv_trans: "cnf_equiv t u \<Longrightarrow> cnf_equiv u v \<Longrightarrow> cnf_equiv t v"
  by (auto simp: cnf_equiv_def)

lemma cnf_equiv_wf: "cnf_equiv t u \<Longrightarrow> wf_conn u"
  by (simp add: cnf_equiv_def)

lemma cnf_equiv_set_left:
  "cnf_equiv l l' \<Longrightarrow> wf_conn (Node ty s e l r) \<Longrightarrow> is_conn ty \<Longrightarrow>
   cnf_equiv (Node ty s e l r) (Node ty s e l' r)"
  by (auto simp: cnf_equiv_def)

lemma cnf_equiv_set_right:
  "cnf_equiv r r' \<Longrightarrow> wf_conn (Node ty s e l r) \<Longrightarrow> is_conn ty \<Longrightarrow>
   cnf_equiv (Node ty s e l r) (Node ty s e l r')"
  by (auto simp: cnf_equiv_def)

definition alloc_ok :: "'v mem \<Rightarrow> bool" where
  "alloc_ok m \<longleftrightarrow> (\<forall>n. pm_ok m n)"

definition same_mem :: "'v mem \<Rightarrow> 'v mem \<Rightarrow> bool" where
  "same_mem m m' \<longleftrightarrow> pm_ok m' = pm_ok m \<and> pm_bufs m' = pm_bufs m"

lemma same_mem_refl [simp]: "same_mem m m"
  by (simp add: same_mem_def)

lemma same_mem_trans: "same_mem m m1 \<Longrightarrow> same_mem m1 m2 \<Longrightarrow> same_mem m m2"
  by (simp add: same_mem_def)

lemma same_mem_ok: "same_mem m m' \<Longrightarrow> alloc_ok m' = alloc_ok m"
  by (simp add: same_mem_def alloc_ok_def)

lemma PMEM_ALLOC_mem: "PMEM_ALLOC m = (b, m') \<Longrightarrow> same_mem m m' \<and> (alloc_ok m \<longrightarrow> b)"
  by (auto simp: PMEM_ALLOC_def same_mem_def alloc_ok_def)

lemma copy_tree_mem:
  "copy_tree t m = (t', m') \<Longrightarrow> same_mem m m' \<and> weight t' \<le> weight t \<and> (alloc_ok m \<longrightarrow> t' = t)"
proof (induction t m arbitrary: t' m' rule: copy_tree.induct)
  case (1 m)
  then show ?case by simp
next
  case (2 ty s e l r m)
  obtain l' m1 where l: "copy_tree l m = (l', m1)" by fastforce
  obtain r' m2 where r: "copy_tree r m1 = (r', m2)" by fastforce
  obtain b m3 where a: "PMEM_ALLOC m2 = (b, m3)" by fastforce
  note L = "2.IH"(1) [OF l] and R = "2.IH"(2) [OF l [symmetric] r] and A = PMEM_ALLOC_mem [OF a]
  have mem: "same_mem m m3" using L R A same_mem_trans by blast
  have ok: "alloc_ok m1 = alloc_ok m" "alloc_ok m2 = alloc_ok m"
    using L R same_mem_ok same_mem_trans by blast+
  have w: "weight (Node ty s e l' r') \<le> weight (Node ty s e l r)"
    using L R by (auto intro: add_le_mono mult_le_mono)
  show ?case
    using "2.prems" l r a L R A mem ok w weight_ge2 [of "Node ty s e l r"]
    by (cases b) auto
qed

lemma distribute_left_step:
  assumes "distribute_left (Node SOT_OR s e (Node SOT_AND s1 e1 A B) C) m = (res, m')"
  shows "same_mem m m' \<and>
    (\<forall>n. res = Inr n \<longrightarrow> weight n < weight (Node SOT_OR s e (Node SOT_AND s1 e1 A B) C) \<and>
       n \<noteq> Null \<and> ntype n = SOT_AND) \<and>
    (alloc_ok m \<and> wf_conn (Node SOT_OR s e (Node SOT_AND s1 e1 A B) C) \<longrightarrow>
       (\<exists>n. res = Inr n \<and> cnf_equiv (Node SOT_OR s e (Node SOT_AND s1 e1 A B) C) n))"
proof -
  obtain C' m1 where c: "copy_tree C m = (C', m1)" by fastforce
  obtain b m2 where a: "PMEM_ALLOC m1 = (b, m2)" by fastforce
  note C = copy_tree_mem [OF c] and A = PMEM_ALLOC_mem [OF a]
  let ?n = "Node SOT_AND s e (Node SOT_OR s1 e1 A C) (Node SOT_OR s1 e1 B C')"
  have "(weight B + 1) * weight C' \<le> (weight B + 1) * weight C"
    using C by (intro mult_le_mono) simp_all
  then have w: "weight ?n < weight (Node SOT_OR s e (Node SOT_AND s1 e1 A B) C)"
    using weight_ge2 [of C] by (simp add: algebra_simps)
  have eq: "cnf_equiv (Node SOT_OR s e (Node SOT_AND s1 e1 A B) C)
      (Node SOT_AND s e (Node SOT_OR s1 e1 A C) (Node SOT_OR s1 e1 B C))"
    if "wf_conn (Node SOT_OR s e (Node SOT_AND s1 e1 A B) C)"
    using that by (auto simp: cnf_equiv_def algebra_simps)
  have "wf_conn C \<Longrightarrow> C \<noteq> Null" by auto
  with assms C A a c w eq same_mem_trans [of m m1 m2] same_mem_ok [of m m1] show ?thesis
    by (auto simp: distribute_left_def Let_def split: bool.splits if_splits)
qed

lemma distribute_right_step:
  assumes "distribute_right (Node SOT_OR s e A (Node SOT_AND s1 e1 B C)) m = (res, m')"
  shows "same_mem m m' \<and>
    (\<forall>n. res = Inr n \<longrightarrow> weight n < weight (Node SOT_OR s e A (Node SOT_AND s1 e1 B C)) \<and>
       n \<noteq> Null \<and> ntype n = SOT_AND) \<and>
    (alloc_ok m \<and> wf_conn (Node SOT_OR s e A (Node SOT_AND s1 e1 B C)) \<longrightarrow>
       (\<exists>n. res = Inr n \<and> cnf_equiv (Node SOT_OR s e A (Node SOT_AND s1 e1 B C)) n))"
proof -
  obtain A' m1 where c: "copy_tree A m = (A', m1)" by fastforce
  obtain b m2 where a: "PMEM_ALLOC m1 = (b, m2)" by fastforce
  note C = copy_tree_mem [OF c] and A = PMEM_ALLOC_mem [OF a]
  let ?n = "Node SOT_AND s e (Node SOT_OR s1 e1 A' B) (Node SOT_OR s1 e1 A C)"
  have "(weight A' + 1) * weight B \<le> (weight A + 1) * weight B"
    using C by (intro mult_le_mono) simp_all
  then have le: "weight A' * weight B + weight B \<le> weight A * weight B + weight B"
    by (simp only: add_mult_distrib mult_1)
  have "weight ?n = (weight A' * weight B + weight B) + 2 * (weight A * weight C + weight C) + 5"
    "weight (Node SOT_OR s e A (Node SOT_AND s1 e1 B C)) =
       (weight A * weight B + weight B) + 2 * (weight A * weight C + weight C) + 5 * weight A + 5"
    by (simp_all add: algebra_simps)
  then have w: "weight ?n < weight (Node SOT_OR s e A (Node SOT_AND s1 e1 B C))"
    using le weight_ge2 [of A] by linarith
  have eq: "cnf_equiv (Node SOT_OR s e A (Node SOT_AND s1 e1 B C))
      (Node SOT_AND s e (Node SOT_OR s1 e1 A B) (Node SOT_OR s1 e1 A C))"
    if "wf_conn (Node SOT_OR s e A (Node SOT_AND s1 e1 B C))"
    using that by (auto simp: cnf_equiv_def algebra_simps)
  have "wf_conn A \<Longrightarrow> A \<noteq> Null" by auto
  with assms C A a c w eq same_mem_trans [of m m1 m2] same_mem_ok [of m m1] show ?thesis
    by (auto simp: distribute_right_def Let_def split: bool.splits if_splits)
qed

lemma rotate_step:
  assumes "is_conn ty"
  shows "weight (rotate (Node ty s e A (Node ty s1 e1 B C))) < weight (Node ty s e A (Node ty s1 e1 B C))"
    and "rotate (Node ty s e A (Node ty s1 e1 B C)) = Node ty s e (Node ty s1 e1 A B) C"
    and "wf_conn (Node ty s e A (Node ty s1 e1 B C)) \<Longrightarrow>
      cnf_equiv (Node ty s e A (Node ty s1 e1 B C)) (rotate (Node ty s e A (Node ty s1 e1 B C)))"
proof -
  have "0 < weight A * weight C" using weight_ge2 [of A] weight_ge2 [of C] by simp
  then show "weight (rotate (Node ty s e A (Node ty s1 e1 B C))) < weight (Node ty s e A (Node ty s1 e1 B C))"
    using assms weight_ge2 [of C] by (auto simp: rotate_def algebra_simps)
  show "rotate (Node ty s e A (Node ty s1 e1 B C)) = Node ty s e (Node ty s1 e1 A B) C"
    by (simp add: rotate_def)
  show "cnf_equiv (Node ty s e A (Node ty s1 e1 B C)) (rotate (Node ty s e A (Node ty s1 e1 B C)))"
    if "wf_conn (Node ty s e A (Node ty s1 e1 B C))"
    using that assms by (auto simp: rotate_def cnf_equiv_def)
qed

subsection \<open>The induction\<close>

text \<open>\<open>cnf_pre\<close> relates a tree to a later state of the run on it, \<open>cnf_run\<close> to its end.\<close>

definition cnf_pre :: "T_NODE \<Rightarrow> 'v mem \<Rightarrow> T_NODE \<Rightarrow> 'v mem \<Rightarrow> bool" where
  "cnf_pre t m u m' \<longleftrightarrow> same_mem m m' \<and> weight u \<le> weight t \<and> u \<noteq> Null \<and>
     (ntype t = SOT_AND \<longrightarrow> ntype u = SOT_AND) \<and> is_conn (ntype u) \<and>
     (alloc_ok m \<and> wf_conn t \<longrightarrow> cnf_equiv t u)"

definition cnf_run ::
    "T_NODE \<Rightarrow> 'v mem \<Rightarrow> ((norm_error + T_NODE) \<times> 'v mem) option \<Rightarrow> bool" where
  "cnf_run t m out \<longleftrightarrow> (\<exists>r m'. out = Some (r, m') \<and> same_mem m m' \<and>
     (\<forall>u. r = Inr u \<longrightarrow> weight u \<le> weight t \<and> u \<noteq> Null \<and> (ntype t = SOT_AND \<longrightarrow> ntype u = SOT_AND)) \<and>
     (alloc_ok m \<and> wf_conn t \<longrightarrow> (\<exists>u. r = Inr u \<and> is_cnf u \<and> cnf_equiv t u)))"

lemma cnf_run_pre:
  assumes "cnf_pre t m u m'" and "cnf_run u m' out" and "t \<noteq> Null"
  shows "cnf_run t m out"
proof -
  obtain r m2 where r: "out = Some (r, m2)" "same_mem m' m2"
    "\<forall>v. r = Inr v \<longrightarrow> weight v \<le> weight u \<and> v \<noteq> Null \<and> (ntype u = SOT_AND \<longrightarrow> ntype v = SOT_AND)"
    "alloc_ok m' \<and> wf_conn u \<longrightarrow> (\<exists>v. r = Inr v \<and> is_cnf v \<and> cnf_equiv u v)"
    using assms(2) by (auto simp: cnf_run_def)
  have pm: "same_mem m m'" using assms(1) by (simp add: cnf_pre_def)
  note mem = same_mem_trans [OF pm r(2)] and ok = same_mem_ok [OF pm]
  have good: "\<exists>v. r = Inr v \<and> is_cnf v \<and> cnf_equiv t v" if h: "alloc_ok m \<and> wf_conn t"
  proof -
    have tu: "cnf_equiv t u" using h assms(1) by (simp add: cnf_pre_def)
    then obtain v where "r = Inr v" "is_cnf v" "cnf_equiv u v"
      using r(4) ok h cnf_equiv_wf [OF tu] by auto
    with cnf_equiv_trans [OF tu] show ?thesis by blast
  qed
  have "\<forall>v. r = Inr v \<longrightarrow> weight v \<le> weight t \<and> v \<noteq> Null \<and> (ntype t = SOT_AND \<longrightarrow> ntype v = SOT_AND)"
    using r(3) assms(1) by (auto simp: cnf_pre_def intro: le_trans)
  with r(1) mem good show ?thesis unfolding cnf_run_def by blast
qed

lemma cnf_run_error:
  "same_mem m m' \<Longrightarrow> \<not> (alloc_ok m \<and> wf_conn t) \<Longrightarrow> cnf_run t m (Some (Inl er, m'))"
  by (auto simp: cnf_run_def)

lemma cnf_run_stop:
  "cnf_pre t m u m' \<Longrightarrow> (alloc_ok m \<and> wf_conn t \<Longrightarrow> is_cnf u) \<Longrightarrow> cnf_run t m (Some (Inr u, m'))"
  by (auto simp: cnf_run_def cnf_pre_def)

lemma weight_children:
  "is_conn ty \<Longrightarrow> weight l < weight (Node ty s e l r) \<and> weight r < weight (Node ty s e l r)"
proof -
  have "weight l + 1 \<le> (weight l + 1) * weight r" "2 * weight r \<le> (weight l + 1) * weight r"
    using mult_le_mono [of "weight l + 1" "weight l + 1" 1 "weight r"]
      mult_le_mono [of 2 "weight l + 1" "weight r" "weight r"] weight_ge2 [of l] weight_ge2 [of r] by auto
  then show "is_conn ty \<Longrightarrow> ?thesis" using weight_ge2 [of r] by auto
qed

text \<open>The first half of the function body: the left child, and the first distributive law.\<close>

definition cnf_left :: "T_NODE \<Rightarrow> 'v mem \<Rightarrow> ((norm_error + T_NODE) \<times> 'v mem) option" where
  "cnf_left node m =
     (if nleft node = Null then Some (Inr node, m)
      else
        Option.bind (norm_transform_CNF (nleft node) m) (\<lambda>res.
          case res of
            (Inl er, m) \<Rightarrow> Some (Inl er, m)
          | (Inr l, m) \<Rightarrow>
              let node = set_left node l in
              if ntype node = SOT_OR \<and> ntype (nleft node) = SOT_AND then
                (case distribute_left node m of
                   (Inl er, m) \<Rightarrow> Some (Inl er, m)
                 | (Inr node, m) \<Rightarrow> norm_transform_CNF node m)
              else Some (Inr node, m)))"

definition cnf_right :: "T_NODE \<Rightarrow> 'v mem \<Rightarrow> ((norm_error + T_NODE) \<times> 'v mem) option" where
  "cnf_right node m =
     (if nright node = Null then Some (Inr node, m)
      else
        Option.bind (norm_transform_CNF (nright node) m) (\<lambda>res.
          case res of
            (Inl er, m) \<Rightarrow> Some (Inl er, m)
          | (Inr r, m) \<Rightarrow>
              let node = set_right node r in
              if ntype node = SOT_OR \<and> ntype r = SOT_AND then
                (case distribute_right node m of
                   (Inl er, m) \<Rightarrow> Some (Inl er, m)
                 | (Inr node, m) \<Rightarrow> norm_transform_CNF node m)
              else if ntype node = SOT_OR \<and> ntype r = SOT_OR then
                norm_transform_CNF (rotate node) m
              else if ntype node = SOT_AND \<and> ntype r = SOT_AND then
                norm_transform_CNF (rotate node) m
              else Some (Inr node, m)))"

lemma norm_transform_CNF_halves:
  assumes "node \<noteq> Null" and "is_conn (ntype node)"
  shows "norm_transform_CNF node m =
     Option.bind (cnf_left node m) (\<lambda>res. case res of
       (Inl er, m) \<Rightarrow> Some (Inl er, m) | (Inr node, m) \<Rightarrow> cnf_right node m)"
proof -
  have c: "(node = Null) = False" "(ntype node \<noteq> SOT_AND \<and> ntype node \<noteq> SOT_OR) = False"
    using assms by auto
  show ?thesis
    unfolding cnf_left_def cnf_right_def
    by (subst norm_transform_CNF.simps) (simp only: c if_False)
qed

definition cnf_half :: "T_NODE \<Rightarrow> 'v mem \<Rightarrow> ((norm_error + T_NODE) \<times> 'v mem) option \<Rightarrow> bool" where
  "cnf_half t m out \<longleftrightarrow>
     (\<exists>er m'. out = Some (Inl er, m') \<and> same_mem m m' \<and> \<not> (alloc_ok m \<and> wf_conn t)) \<or>
     (\<exists>u m'. out = Some (Inr u, m') \<and> cnf_pre t m u m' \<and>
        (alloc_ok m \<and> wf_conn t \<longrightarrow> is_cnf (nleft u) \<and> (ntype u = SOT_OR \<longrightarrow> is_clause (nleft u))))"

lemma cnf_run_half:
  assumes "cnf_run u m' out" and "cnf_pre t m u m'" and "ntype u = SOT_AND"
  shows "cnf_half t m out"
proof -
  from assms(1) obtain r m2 where r: "out = Some (r, m2)" "same_mem m' m2"
    "\<forall>v. r = Inr v \<longrightarrow> weight v \<le> weight u \<and> v \<noteq> Null \<and> ntype v = SOT_AND"
    "alloc_ok m' \<and> wf_conn u \<longrightarrow> (\<exists>v. r = Inr v \<and> is_cnf v \<and> cnf_equiv u v)"
    using assms(3) by (auto simp: cnf_run_def)
  have pm: "same_mem m m'" using assms(2) by (simp add: cnf_pre_def)
  note mem = same_mem_trans [OF pm r(2)] and ok = same_mem_ok [OF pm]
  have good: "\<exists>v. r = Inr v \<and> is_cnf v \<and> cnf_equiv t v" if h: "alloc_ok m \<and> wf_conn t"
  proof -
    have tu: "cnf_equiv t u" using h assms(2) by (simp add: cnf_pre_def)
    then obtain v where "r = Inr v" "is_cnf v" "cnf_equiv u v"
      using r(4) ok h cnf_equiv_wf [OF tu] by auto
    with cnf_equiv_trans [OF tu] show ?thesis by blast
  qed
  show ?thesis
  proof (cases r)
    case (Inl er)
    with r(1) mem good show ?thesis by (auto simp: cnf_half_def)
  next
    case (Inr v)
    then obtain s e l rr where v: "v = Node SOT_AND s e l rr" using r(3) by (cases v) auto
    with Inr r mem good assms(2) show ?thesis
      by (auto simp: cnf_half_def cnf_pre_def)
  qed
qed

lemma cnf_left_step:
  fixes m :: "'v mem"
  assumes IH: "\<And>u (m' :: 'v mem). weight u < weight t \<Longrightarrow> u \<noteq> Null \<Longrightarrow> cnf_run u m' (norm_transform_CNF u m')"
    and t: "t = Node ty s e l r" "is_conn ty"
  shows "cnf_half t m (cnf_left t m)"
proof (cases "l = Null")
  case True
  with t show ?thesis by (auto simp: cnf_left_def cnf_half_def cnf_pre_def)
next
  case False
  have "weight l < weight t" using weight_children [OF t(2)] t(1) by simp
  from IH [OF this False, of m] obtain res m1 where res: "norm_transform_CNF l m = Some (res, m1)" "same_mem m m1"
    "\<forall>u. res = Inr u \<longrightarrow> weight u \<le> weight l \<and> u \<noteq> Null"
    "alloc_ok m \<and> wf_conn l \<longrightarrow> (\<exists>u. res = Inr u \<and> is_cnf u \<and> cnf_equiv l u)"
    by (auto simp: cnf_run_def)
  show ?thesis
  proof (cases res)
    case (Inl er)
    with res t False show ?thesis by (auto simp: cnf_left_def cnf_half_def)
  next
    case (Inr l')
    let ?u = "Node ty s e l' r"
    have w: "weight ?u \<le> weight t"
      using res(3) Inr t by auto
    have eq: "is_cnf l' \<and> cnf_equiv t ?u" if "alloc_ok m \<and> wf_conn t"
      using that res(4) Inr t cnf_equiv_set_left by auto
    have pre: "cnf_pre t m ?u m1"
      using w eq res(2) t by (auto simp: cnf_pre_def)
    show ?thesis
    proof (cases "ty = SOT_OR \<and> ntype l' = SOT_AND")
      case False
      with \<open>l \<noteq> Null\<close> res(1) Inr t pre eq is_cnf_clause show ?thesis
        by (auto simp: cnf_left_def cnf_half_def set_left_def)
    next
      case True
      with Inr res(3) obtain s1 e1 A B where l': "l' = Node SOT_AND s1 e1 A B" by (cases l') auto
      obtain d m2 where d: "distribute_left ?u m1 = (d, m2)" by fastforce
      have u: "?u = Node SOT_OR s e (Node SOT_AND s1 e1 A B) r" using True l' by simp
      note D = distribute_left_step [OF d [unfolded u]]
      have ok: "alloc_ok m1 = alloc_ok m" using res(2) by (rule same_mem_ok)
      have mem: "same_mem m m2" using D res(2) same_mem_trans by blast
      have good: "\<exists>n. d = Inr n \<and> cnf_equiv t n" if h: "alloc_ok m \<and> wf_conn t"
      proof -
        have tu: "cnf_equiv t ?u" using eq h by simp
        then obtain n where "d = Inr n" "cnf_equiv ?u n"
          using D ok h cnf_equiv_wf [OF tu] unfolding u by auto
        with cnf_equiv_trans [OF tu] show ?thesis by blast
      qed
      show ?thesis
      proof (cases d)
        case (Inl er)
        with good have "\<not> (alloc_ok m \<and> wf_conn t)" by auto
        with Inl d l' True \<open>l \<noteq> Null\<close> res(1) \<open>res = Inr l'\<close> t mem show ?thesis
          by (simp add: cnf_left_def cnf_half_def set_left_def)
      next
        case (Inr n)
        have n: "weight n < weight t" "n \<noteq> Null" "ntype n = SOT_AND"
          using Inr D w unfolding u by auto
        have "cnf_pre t m n m2"
          using n mem good Inr by (auto simp: cnf_pre_def)
        from cnf_run_half [OF IH [OF n(1,2)] this n(3)]
        show ?thesis
          using Inr d l' True \<open>l \<noteq> Null\<close> res(1) \<open>res = Inr l'\<close> t
          by (auto simp: cnf_left_def set_left_def)
      qed
    qed
  qed
qed

lemma cnf_right_step:
  fixes m :: "'v mem"
  assumes IH: "\<And>u (m' :: 'v mem). weight u < weight t \<Longrightarrow> u \<noteq> Null \<Longrightarrow> cnf_run u m' (norm_transform_CNF u m')"
    and pre: "cnf_pre t m0 n m" and t: "t \<noteq> Null"
    and left: "alloc_ok m0 \<and> wf_conn t \<longrightarrow> is_cnf (nleft n) \<and> (ntype n = SOT_OR \<longrightarrow> is_clause (nleft n))"
  shows "cnf_run t m0 (cnf_right n m)"
proof -
  obtain ty s e l r where n: "n = Node ty s e l r" "is_conn ty"
    using pre by (cases n) (auto simp: cnf_pre_def)
  show ?thesis
  proof (cases "r = Null")
    case True
    with pre n show ?thesis
      by (auto simp: cnf_right_def cnf_run_def cnf_pre_def cnf_equiv_def)
  next
    case False
    have "weight n \<le> weight t" using pre by (simp add: cnf_pre_def)
    moreover have wr: "weight r < weight n" using weight_children [OF n(2)] n(1) by simp
    ultimately have "weight r < weight t" by simp
    from IH [OF this False, of m] obtain res m1 where res:
      "norm_transform_CNF r m = Some (res, m1)" "same_mem m m1"
      "\<forall>u. res = Inr u \<longrightarrow> weight u \<le> weight r \<and> u \<noteq> Null"
      "alloc_ok m \<and> wf_conn r \<longrightarrow> (\<exists>u. res = Inr u \<and> is_cnf u \<and> cnf_equiv r u)"
      by (auto simp: cnf_run_def)
    have m0: "same_mem m0 m" using pre by (simp add: cnf_pre_def)
    note m01 = same_mem_trans [OF m0 res(2)] and ok = same_mem_ok [OF m0]
    have wfn: "cnf_equiv t n \<and> wf_conn n" if "alloc_ok m0 \<and> wf_conn t"
      using that pre cnf_equiv_wf by (auto simp: cnf_pre_def)
    have good: "\<exists>u. res = Inr u \<and> is_cnf u \<and> cnf_equiv t (Node ty s e l u)"
      if h: "alloc_ok m0 \<and> wf_conn t"
    proof -
      have "wf_conn r" using wfn [OF h] n by auto
      then obtain u where u: "res = Inr u" "is_cnf u" "cnf_equiv r u" using res(4) ok h by auto
      have "cnf_equiv n (Node ty s e l u)"
        using wfn [OF h] n u(3) cnf_equiv_set_right by simp
      with u wfn [OF h] cnf_equiv_trans show ?thesis by blast
    qed
    show ?thesis
    proof (cases res)
      case (Inl er)
      with good have "\<not> (alloc_ok m0 \<and> wf_conn t)" by auto
      with Inl n False res(1) m01 show ?thesis
        by (simp add: cnf_right_def cnf_run_error)
    next
      case (Inr r')
      let ?u = "Node ty s e l r'"
      have "weight ?u \<le> weight n" using res(3) Inr n mult_le_mono2 [of "weight r'" "weight r" "weight l + 1"] by auto
      with pre have w: "weight ?u \<le> weight t" by (simp add: cnf_pre_def)
      have u: "cnf_pre t m0 ?u m1"
        using pre w n m01 good Inr by (auto simp: cnf_pre_def)
      note right = Inr n False res(1)
      have r': "r' \<noteq> Null" using res(3) Inr by simp
      consider (dist) "ty = SOT_OR" "ntype r' = SOT_AND" | (rot) "ntype r' = ty" | (stop) "ntype r' \<noteq> ty"
        "\<not> (ty = SOT_OR \<and> ntype r' = SOT_AND)"
        by blast
      then show ?thesis
      proof cases
        case dist
        with r' obtain s1 e1 B C where r'': "r' = Node SOT_AND s1 e1 B C" by (cases r') auto
        obtain d m2 where d: "distribute_right ?u m1 = (d, m2)" by fastforce
        have u': "?u = Node SOT_OR s e l (Node SOT_AND s1 e1 B C)" using dist r'' by simp
        note D = distribute_right_step [OF d [unfolded u']]
        have ok1: "alloc_ok m1 = alloc_ok m0" using m01 by (rule same_mem_ok)
        have mem: "same_mem m0 m2" using D m01 same_mem_trans by blast
        have gd: "\<exists>v. d = Inr v \<and> cnf_equiv t v" if h: "alloc_ok m0 \<and> wf_conn t"
        proof -
          have tu: "cnf_equiv t ?u" using good [OF h] Inr by simp
          then obtain v where "d = Inr v" "cnf_equiv ?u v"
            using D ok1 h cnf_equiv_wf [OF tu] unfolding u' by auto
          with cnf_equiv_trans [OF tu] show ?thesis by blast
        qed
        show ?thesis
        proof (cases d)
          case (Inl er)
          with gd have "\<not> (alloc_ok m0 \<and> wf_conn t)" by auto
          with Inl d dist right mem show ?thesis
            by (simp add: cnf_right_def cnf_run_error set_right_def)
        next
          case (Inr v)
          have v: "weight v < weight t" "v \<noteq> Null" "ntype v = SOT_AND"
            using Inr D w unfolding u' by auto
          have "cnf_pre t m0 v m2"
            using v mem gd Inr by (auto simp: cnf_pre_def)
          from cnf_run_pre [OF this IH [OF v(1,2)] t] Inr d dist right show ?thesis
            by (simp add: cnf_right_def set_right_def)
        qed
      next
        case rot
        with r' obtain s1 e1 B C where r'': "r' = Node ty s1 e1 B C" by (cases r') auto
        let ?v = "SqlNorm.rotate ?u"
        note R = rotate_step [OF n(2), of s e l s1 e1 B C]
        have "weight ?v < weight ?u" using R(1) r'' by simp
        with w have v: "weight ?v < weight t" by simp
        have nn: "?v \<noteq> Null" using R(2) r'' by simp
        have eq: "cnf_equiv t ?v" if h: "alloc_ok m0 \<and> wf_conn t"
        proof -
          have tu: "cnf_equiv t ?u" using good [OF h] Inr by simp
          with R(3) cnf_equiv_wf [OF tu] r'' cnf_equiv_trans [OF tu] show ?thesis by simp
        qed
        have "cnf_pre t m0 ?v m1"
          using u v eq R(2) r'' n by (auto simp: cnf_pre_def)
        from cnf_run_pre [OF this IH [OF v nn] t] rot right show ?thesis
          by (auto simp: cnf_right_def set_right_def)
      next
        case stop
        have "is_cnf ?u" if h: "alloc_ok m0 \<and> wf_conn t"
          using good [OF h] left h n stop Inr r' is_cnf_clause [of r'] by (auto simp: is_clause_cnf)
        with u have "cnf_run t m0 (Some (Inr ?u, m1))" by (rule cnf_run_stop)
        with stop right show ?thesis by (auto simp: cnf_right_def set_right_def)
      qed
    qed
  qed
qed

lemma norm_transform_CNF_run:
  fixes m :: "'v mem"
  assumes "t \<noteq> Null" shows "cnf_run t m (norm_transform_CNF t m)"
  using assms
proof (induction "weight t" arbitrary: t m rule: less_induct)
  case less
  have IH: "cnf_run u m' (norm_transform_CNF u m')" if "weight u < weight t" "u \<noteq> Null"
    for u and m' :: "'v mem"
    using less that by blast
  obtain ty s e l r where t: "t = Node ty s e l r" using less.prems by (cases t) auto
  show ?case
  proof (cases "is_conn ty")
    case False
    with t show ?thesis
      by (subst norm_transform_CNF.simps) (auto simp: cnf_run_def cnf_equiv_refl)
  next
    case True
    note half = cnf_left_step [OF IH t True, of m]
    have eq: "norm_transform_CNF t m = Option.bind (cnf_left t m) (\<lambda>res. case res of
       (Inl er, m) \<Rightarrow> Some (Inl er, m) | (Inr node, m) \<Rightarrow> cnf_right node m)"
      using norm_transform_CNF_halves [of t m] t True by simp
    from half consider
      (err) er m' where "cnf_left t m = Some (Inl er, m')" "same_mem m m'" "\<not> (alloc_ok m \<and> wf_conn t)"
    | (go) u m' where "cnf_left t m = Some (Inr u, m')" "cnf_pre t m u m'"
        "alloc_ok m \<and> wf_conn t \<longrightarrow> is_cnf (nleft u) \<and> (ntype u = SOT_OR \<longrightarrow> is_clause (nleft u))"
      unfolding cnf_half_def by blast
    then show ?thesis
    proof cases
      case err
      then show ?thesis unfolding eq by (simp add: cnf_run_error)
    next
      case go
      with cnf_right_step [OF IH go(2) less.prems go(3)] show ?thesis unfolding eq by simp
    qed
  qed
qed

end
