(* ===== verification/SqlNormCorrect.thy ===== *)
theory SqlNormCorrect
  imports SqlCnf
begin

section \<open>Normalisation preserves the meaning of a condition\<close>

text \<open>
  The parser builds conditions from predicates with AND, OR and NOT (\<open>bexp\<close>, \<open>emit\<close>).  The
  tree of a condition means what the stack machine computes from its postfix list, NOT elimination
  and the CNF transformation keep that meaning, and the clauses written back as postfix lists
  evaluate, together, to the truth value of the condition.  NOT elimination needs that the negated
  operator of each predicate below a NOT computes the complement on its operands, and that no NOT
  stands below a NOT; what happens otherwise is at the end of the theory.
\<close>

subsection \<open>Conditions\<close>

datatype ('v, 'q) bexp =
  Pred "('v, 'q) T_POSTFIXELEM list" "('v, 'q) T_POSTFIXELEM"
| BConn bool "('v, 'q) bexp" "('v, 'q) bexp" \<comment> \<open>True is AND, False is OR\<close>
| BNot "('v, 'q) bexp"

definition conn_op :: "bool \<Rightarrow> T_OPTYPE" where
  "conn_op c = (if c then SOT_AND else SOT_OR)"

lemma conn_op_simps [simp]:
  "is_conn (conn_op c)" "conn_op c \<noteq> SOT_NOT"
  "conn_op c = SOT_AND \<longleftrightarrow> c" "conn_op c = SOT_OR \<longleftrightarrow> \<not> c"
  by (simp_all add: conn_op_def)

fun emit :: "('v, 'q) bexp \<Rightarrow> ('v, 'q) T_POSTFIXELEM list" where
  "emit (Pred xs e) = xs @ [e]"
| "emit (BConn c a b) = emit a @ emit b @ [SPT_OPERATOR (conn_op c) 2]"
| "emit (BNot a) = emit a @ [SPT_OPERATOR SOT_NOT 1]"

definition operand_elem :: "('v, 'q) T_POSTFIXELEM \<Rightarrow> bool" where
  \<comment> \<open>the elements \<open>trans_expr2tree\<close> passes over\<close>
  "operand_elem x \<longleftrightarrow> elem_op x \<notin> set ([SOT_AND, SOT_OR, SOT_NOT, SOT_HEXCOMP] @ predicate_ops)"

definition predicate_elem :: "('v, 'q) T_POSTFIXELEM \<Rightarrow> bool" where
  "predicate_elem e \<longleftrightarrow> elem_op e \<in> set predicate_ops \<or> is_hexcomp e"

fun tree_of :: "nat \<Rightarrow> ('v, 'q) bexp \<Rightarrow> T_NODE" where
  "tree_of k (Pred xs e) = Node (elem_op e) k (k + length xs) Null Null"
| "tree_of k (BConn c a b) =
     (let n = k + length (emit a) + length (emit b) in
      Node (conn_op c) n n (tree_of k a) (tree_of (k + length (emit a)) b))"
| "tree_of k (BNot a) =
     (let n = k + length (emit a) in Node SOT_NOT n n (tree_of k a) Null)"

definition truth :: "('v, 'q) executor \<Rightarrow> ('v, 'q) T_POSTFIXELEM list \<Rightarrow> bool option" where
  \<comment> \<open>the truth value a program leaves as the only value on an empty stack\<close>
  "truth env es =
     (case calc_loop env es [] of
        Inr [v] \<Rightarrow>
          if valuetype v = DT_BOOL \<and> \<not> is_null v \<and> \<not> IS_BYTE (attr_type v) \<and> u_bl v \<in> {0, 1}
          then Some (u_bl v = 1) else None
      | _ \<Rightarrow> None)"

fun bexp_ok :: "('v, 'q) executor \<Rightarrow> ('v, 'q) bexp \<Rightarrow> bool" where
  \<comment> \<open>every predicate is one for \<open>trans_expr2tree\<close> and evaluates to a truth value\<close>
  "bexp_ok env (Pred xs e) \<longleftrightarrow>
     xs \<noteq> [] \<and> (\<forall>x \<in> set xs. operand_elem x) \<and> predicate_elem e \<and> truth env (xs @ [e]) \<noteq> None"
| "bexp_ok env (BConn c a b) \<longleftrightarrow> bexp_ok env a \<and> bexp_ok env b"
| "bexp_ok env (BNot a) \<longleftrightarrow> bexp_ok env a"

fun complementary :: "('v, 'q) executor \<Rightarrow> ('v, 'q) bexp \<Rightarrow> bool" where
  \<comment> \<open>no NOT, and each predicate with its negated operator has the other truth value\<close>
  "complementary env (Pred xs e) \<longleftrightarrow>
     (case neg_op (elem_op e) of
        None \<Rightarrow> False
      | Some ty \<Rightarrow> ty \<notin> {SOT_AND, SOT_OR, SOT_NOT} \<and>
          truth env (xs @ [set_op ty e]) = map_option Not (truth env (xs @ [e])))"
| "complementary env (BConn c a b) \<longleftrightarrow> complementary env a \<and> complementary env b"
| "complementary env (BNot a) \<longleftrightarrow> False"

fun nots_ok :: "('v, 'q) executor \<Rightarrow> ('v, 'q) bexp \<Rightarrow> bool" where
  "nots_ok env (Pred xs e) \<longleftrightarrow> True"
| "nots_ok env (BConn c a b) \<longleftrightarrow> nots_ok env a \<and> nots_ok env b"
| "nots_ok env (BNot a) \<longleftrightarrow> complementary env a"

fun bexp_value :: "('v, 'q) executor \<Rightarrow> ('v, 'q) bexp \<Rightarrow> bool" where
  "bexp_value env (Pred xs e) = (truth env (xs @ [e]) = Some True)"
| "bexp_value env (BConn c a b) =
     (if c then bexp_value env a \<and> bexp_value env b else bexp_value env a \<or> bexp_value env b)"
| "bexp_value env (BNot a) = (\<not> bexp_value env a)"

subsection \<open>The stack machine on truth values\<close>

lemma truth_SomeE:
  assumes "truth env es = Some b"
  obtains v where "calc_loop env es [] = Inr [v]" "valuetype v = DT_BOOL" "\<not> is_null v"
    "\<not> IS_BYTE (attr_type v)" "u_bl v = (if b then 1 else 0)"
  using assms by (fastforce simp: truth_def split: sum.splits list.splits if_splits)

lemma not_IS_BYTE [simp]: "\<not> IS_BYTE DT_BOOL" "\<not> IS_BYTE DT_NULL_TYPE"
  by (simp_all add: IS_BYTE_def)

lemma truth_not:
  assumes "truth env es = Some b" and "\<not> ends_subquery es"
  shows "truth env (es @ [SPT_OPERATOR SOT_NOT 1]) = Some (\<not> b)"
  using assms(1)
proof (rule truth_SomeE)
  fix v assume "calc_loop env es [] = Inr [v]" "valuetype v = DT_BOOL" "\<not> is_null v"
    "\<not> IS_BYTE (attr_type v)" "u_bl v = (if b then 1 else 0)"
  with assms(2) show ?thesis
    by (auto simp: truth_def calc_loop_append pop_args_def calc_simpleexpr_def check_expression.simps calc_not_def bool_value_def)
qed

lemma truth_binary:
  assumes "truth env xs = Some a" and "truth env ys = Some b"
    and "\<not> ends_subquery xs" and "\<not> ends_subquery ys"
  shows "truth env (xs @ ys @ [SPT_OPERATOR (conn_op c) 2]) = Some (if c then a \<and> b else a \<or> b)"
proof -
  obtain v where v: "calc_loop env xs [] = Inr [v]" "valuetype v = DT_BOOL" "\<not> is_null v"
    "\<not> IS_BYTE (attr_type v)" "u_bl v = (if a then 1 else 0)" using assms(1) by (rule truth_SomeE)
  obtain w where w: "calc_loop env ys [] = Inr [w]" "valuetype w = DT_BOOL" "\<not> is_null w"
    "\<not> IS_BYTE (attr_type w)" "u_bl w = (if b then 1 else 0)" using assms(2) by (rule truth_SomeE)
  have "calc_loop env ys [v] = Inr [w, v]" using calc_loop_frame [OF w(1), of "[v]"] by simp
  then have "calc_loop env (xs @ ys @ [SPT_OPERATOR ty 2]) [] =
      (case calc_simpleexpr env ty [v, w] of Inl e \<Rightarrow> Inl e | Inr u \<Rightarrow> Inr [u])" for ty
    using v(1) assms(3,4) by (auto simp: calc_loop_append pop_args_def split: sum.split)
  with v w show ?thesis
    by (auto simp: truth_def calc_simpleexpr_def check_expression.simps calc_and_def calc_or_def bool_value_def conn_op_def)
qed

lemma ends_subquery_snoc [simp]:
  "ends_subquery (xs @ [e]) = ends_subquery [e]"
  by (induction xs) auto

lemma predicate_elem_not_subquery: "predicate_elem e \<Longrightarrow> \<not> ends_subquery [e]"
  by (cases e) (auto simp: predicate_elem_def is_hexcomp_iff predicate_ops_def)

lemma emit_not_subquery: "bexp_ok env b \<Longrightarrow> \<not> ends_subquery (emit b)"
proof (induction b)
  case (Pred xs e)
  then show ?case using predicate_elem_not_subquery [of e] by (simp del: ends_subquery.simps)
next
  case (BConn c a b)
  show ?case using ends_subquery_snoc [of "emit a @ emit b"] by simp
qed simp

lemma emit_truth: "bexp_ok env b \<Longrightarrow> truth env (emit b) = Some (bexp_value env b)"
proof (induction b)
  case (Pred xs e)
  then show ?case by auto
next
  case (BConn c a b)
  then show ?case
    using truth_binary [of env "emit a" _ "emit b"] emit_not_subquery [of env] by simp
next
  case (BNot a)
  then show ?case using truth_not [of env "emit a"] emit_not_subquery [of env] by simp
qed

subsection \<open>Building the tree\<close>

lemma make_node_ok:
  "alloc_ok m \<Longrightarrow> \<exists>m'. same_mem m m' \<and> make_node ty s e l r st m = (Inr (Node ty s e l r # st), m')"
  by (auto simp: make_node_def push_node_stack_def PMEM_ALLOC_def alloc_ok_def same_mem_def)

lemma operand_step:
  "operand_elem x \<Longrightarrow> expr2tree_step x i s st m = (Inr (False, st), m)"
  by (auto simp: operand_elem_def expr2tree_step_def Let_def)

lemma operands_loop:
  "\<forall>x \<in> set xs. operand_elem x \<Longrightarrow>
   expr2tree_loop (xs @ rest) i (Some s) st m = expr2tree_loop rest (i + length xs) (Some s) st m"
  by (induction xs arbitrary: i) (simp_all add: operand_step)

lemma operands_start:
  "\<forall>x \<in> set xs. operand_elem x \<Longrightarrow> xs \<noteq> [] \<Longrightarrow>
   expr2tree_loop (xs @ rest) i None st m = expr2tree_loop rest (i + length xs) (Some i) st m"
  by (cases xs) (simp_all add: operand_step operands_loop)

lemma predicate_step:
  assumes "predicate_elem e" and "alloc_ok m"
  shows "\<exists>m'. same_mem m m' \<and>
    expr2tree_step e i s st m = (Inr (True, Node (elem_op e) s i Null Null # st), m')"
proof -
  obtain m' where m': "same_mem m m'"
    "make_node (elem_op e) s i Null Null st m = (Inr (Node (elem_op e) s i Null Null # st), m')"
    using make_node_ok [OF assms(2)] by blast
  have "elem_op e \<notin> {SOT_AND, SOT_OR, SOT_NOT}"
    and "elem_op e \<in> set predicate_ops \<or> (elem_op e = SOT_HEXCOMP \<and> is_hexcomp e)"
    using assms(1) by (auto simp: predicate_elem_def is_hexcomp_iff predicate_ops_def)
  with m' show ?thesis by (auto simp: expr2tree_step_def Let_def)
qed

text \<open>\<open>parses b\<close>: wherever the list of \<open>b\<close> stands, the loop pushes the tree of \<open>b\<close>.\<close>

definition parses :: "('v, 'q) bexp \<Rightarrow> bool" where
  "parses b \<longleftrightarrow> (\<forall>rest k st m. alloc_ok (m :: 'v mem) \<longrightarrow> (\<exists>m'. same_mem m m' \<and>
     expr2tree_loop (emit b @ rest) k None st m =
       expr2tree_loop rest (k + length (emit b)) None (tree_of k b # st) m'))"

lemma parsesD:
  assumes "parses b" and "alloc_ok m"
  obtains m' where "same_mem m m'" "alloc_ok m'" "expr2tree_loop (emit b @ rest) k None st m =
       expr2tree_loop rest (k + length (emit b)) None (tree_of k b # st) m'"
  using assms same_mem_ok unfolding parses_def by blast

lemma parses_binary:
  fixes a b c :: "('v, 'q) bexp"
  assumes a: "parses a" and b: "parses b" and ty: "is_conn ty"
    and c: "emit c = emit a @ emit b @ [SPT_OPERATOR ty 2]"
      "\<And>k. tree_of k c = Node ty (k + length (emit a) + length (emit b)) (k + length (emit a) + length (emit b))
        (tree_of k a) (tree_of (k + length (emit a)) b)"
  shows "parses c"
  unfolding parses_def
proof (intro allI impI)
  fix rest :: "('v, 'q) T_POSTFIXELEM list" and k st and m :: "'v mem" assume m: "alloc_ok m"
  let ?r = "SPT_OPERATOR ty 2 # rest" and ?k = "k + length (emit a)"
  obtain m1 where m1: "same_mem m m1" "alloc_ok m1" "expr2tree_loop (emit a @ emit b @ ?r) k None st m =
       expr2tree_loop (emit b @ ?r) ?k None (tree_of k a # st) m1"
    by (rule parsesD [OF a m])
  obtain m2 where m2: "same_mem m1 m2" "alloc_ok m2" "expr2tree_loop (emit b @ ?r) ?k None (tree_of k a # st) m1 =
       expr2tree_loop ?r (?k + length (emit b)) None (tree_of ?k b # tree_of k a # st) m2"
    by (rule parsesD [OF b m1(2)])
  let ?n = "?k + length (emit b)"
  from make_node_ok [OF m2(2), of ty ?n ?n "tree_of k a" "tree_of ?k b" st]
  obtain m3 where m3: "same_mem m2 m3"
    "make_node ty ?n ?n (tree_of k a) (tree_of ?k b) st m2 = (Inr (tree_of k c # st), m3)"
    using c by auto
  have "expr2tree_loop ?r ?n None (tree_of ?k b # tree_of k a # st) m2 =
      expr2tree_loop rest (Suc ?n) None (tree_of k c # st) m3"
    using m3 ty by (auto simp: expr2tree_step_def pop_node_stack_def Let_def)
  moreover have "Suc ?n = k + length (emit c)" using c by simp
  moreover have "same_mem m m3" using m1 m2 m3 same_mem_trans by blast
  ultimately show "\<exists>m'. same_mem m m' \<and> expr2tree_loop (emit c @ rest) k None st m =
      expr2tree_loop rest (k + length (emit c)) None (tree_of k c # st) m'"
    using m1(3) m2(3) c(1) by (intro exI [of _ m3]) simp
qed

lemma parses_emit: "bexp_ok env b \<Longrightarrow> parses b"
proof (induction b)
  case (Pred xs e)
  show ?case
    unfolding parses_def
  proof (intro allI impI)
    fix rest k st and m :: "'a mem" assume "alloc_ok m"
    then obtain m' where "same_mem m m'" "expr2tree_step e (k + length xs) k st m =
        (Inr (True, Node (elem_op e) k (k + length xs) Null Null # st), m')"
      using predicate_step [of e m "k + length xs" k st] Pred by auto
    with Pred operands_start [of xs "e # rest" k st m]
    show "\<exists>m'. same_mem m m' \<and> expr2tree_loop (emit (Pred xs e) @ rest) k None st m =
      expr2tree_loop rest (k + length (emit (Pred xs e))) None (tree_of k (Pred xs e) # st) m'" by auto
  qed
next
  case (BConn c a b)
  then have "parses a" "parses b" by simp_all
  then show ?case by (rule parses_binary [where ty = "conn_op c"]) (simp_all add: Let_def)
next
  case (BNot a)
  then have a: "parses a" by simp
  show ?case
    unfolding parses_def
  proof (intro allI impI)
    fix rest k st and m :: "'a mem" assume m: "alloc_ok m"
    let ?n = "k + length (emit a)"
    obtain m1 where m1: "same_mem m m1" "alloc_ok m1" "expr2tree_loop (emit a @ SPT_OPERATOR SOT_NOT 1 # rest) k None st m =
        expr2tree_loop (SPT_OPERATOR SOT_NOT 1 # rest) ?n None (tree_of k a # st) m1"
      by (rule parsesD [OF a m])
    from make_node_ok [OF m1(2), of SOT_NOT ?n ?n "tree_of k a" Null st]
    obtain m3 where m3: "same_mem m1 m3" "make_node SOT_NOT ?n ?n (tree_of k a) Null st m1
        = (Inr (tree_of k (BNot a) # st), m3)" by (auto simp: Let_def)
    have "same_mem m m3" using m1 m3 same_mem_trans by blast
    with m1 m3 show "\<exists>m'. same_mem m m' \<and> expr2tree_loop (emit (BNot a) @ rest) k None st m =
        expr2tree_loop rest (k + length (emit (BNot a))) None (tree_of k (BNot a) # st) m'"
      by (auto simp: expr2tree_step_def pop_node_stack_def Let_def)
  qed
qed

lemma trans_expr2tree_emit:
  assumes "bexp_ok env b" and "alloc_ok m"
  shows "\<exists>m'. same_mem m m' \<and> trans_expr2tree (emit b) m = (Inr (tree_of 0 b), m')"
proof -
  obtain m' where "same_mem m m'" "expr2tree_loop (emit b) 0 None [] m = (Inr [tree_of 0 b], m')"
    using parsesD [OF parses_emit [OF assms(1)] assms(2), of "[]" 0 "[]"] by auto
  then show ?thesis by (auto simp: trans_expr2tree_def pop_node_stack_def)
qed

subsection \<open>The tree over its list\<close>

definition leaf_list ::
    "('v, 'q) T_POSTFIXELEM list \<Rightarrow> T_OPTYPE \<Rightarrow> nat \<Rightarrow> nat \<Rightarrow> ('v, 'q) T_POSTFIXELEM list" where
  \<comment> \<open>what \<open>trans_tree2expr_work\<close> writes for a leaf\<close>
  "leaf_list cond ty s e = map_last (set_op ty) (segment cond s e)"

definition leaf_holds ::
    "('v, 'q) executor \<Rightarrow> ('v, 'q) T_POSTFIXELEM list \<Rightarrow> T_OPTYPE \<Rightarrow> nat \<Rightarrow> nat \<Rightarrow> bool" where
  "leaf_holds env cond ty s e \<longleftrightarrow> truth env (leaf_list cond ty s e) = Some True"

fun good_leaf :: "('v, 'q) executor \<Rightarrow> ('v, 'q) T_POSTFIXELEM list \<Rightarrow> T_NODE \<Rightarrow> bool" where
  "good_leaf env cond Null = False"
| "good_leaf env cond (Node ty s e l r) \<longleftrightarrow> ty \<noteq> SOT_NOT \<and> l = Null \<and> r = Null \<and>
     s < e \<and> e < length cond \<and> \<not> ends_subquery (leaf_list cond ty s e) \<and>
     truth env (leaf_list cond ty s e) \<noteq> None"

definition good_tree :: "('v, 'q) executor \<Rightarrow> ('v, 'q) T_POSTFIXELEM list \<Rightarrow> T_NODE \<Rightarrow> bool" where
  "good_tree env cond t \<longleftrightarrow> wf_conn t \<and> (\<forall>n \<in> leaves t. good_leaf env cond n) \<and>
     (\<forall>(s, e) \<in> conn_spans t. s = e \<and> s < length cond \<and> (\<exists>ty. cond ! s = SPT_OPERATOR ty 2))"

lemma good_tree_equiv: "good_tree env cond t \<Longrightarrow> cnf_equiv t t' \<Longrightarrow> good_tree env cond t'"
  by (auto simp: good_tree_def cnf_equiv_def)

lemma map_last_snoc [simp]: "map_last f (xs @ [x]) = xs @ [f x]"
  by (induction xs) auto

lemma segment_middle:
  "length ys = e - s + 1 \<Longrightarrow> s \<le> e \<Longrightarrow> length xs = s \<Longrightarrow> segment (xs @ ys @ zs) s e = ys"
  by (simp add: segment_def)

lemma segment_single: "s < length xs \<Longrightarrow> segment xs s s = [xs ! s]"
  by (simp add: segment_def Cons_nth_drop_Suc [symmetric])

lemma set_op_same: "predicate_elem e \<Longrightarrow> set_op (elem_op e) e = e"
  by (cases e) (auto simp: predicate_elem_def is_hexcomp_iff predicate_ops_def)

lemma leaf_list_Pred:
  "cond = pre @ emit (Pred xs e) @ post \<Longrightarrow>
   leaf_list cond ty (length pre) (length pre + length xs) = xs @ [set_op ty e]"
  using segment_middle [of "xs @ [e]" "length pre + length xs" "length pre" pre post]
  by (simp add: leaf_list_def)

lemma predicate_not_conn: "predicate_elem e \<Longrightarrow> elem_op e \<notin> {SOT_AND, SOT_OR, SOT_NOT}"
  by (auto simp: predicate_elem_def is_hexcomp_iff predicate_ops_def)

lemma set_op_not_subquery: "predicate_elem e \<Longrightarrow> \<not> ends_subquery [set_op ty e]"
  using predicate_elem_not_subquery [of e] by (cases e) auto

lemma good_Pred:
  assumes "cond = pre @ emit (Pred xs e) @ post" and "xs \<noteq> []" and "predicate_elem e"
    and "ty \<noteq> SOT_NOT" and "truth env (xs @ [set_op ty e]) \<noteq> None"
  shows "good_leaf env cond (Node ty (length pre) (length pre + length xs) Null Null)"
  using assms leaf_list_Pred [OF assms(1), of ty] set_op_not_subquery [of e ty]
  by (simp del: ends_subquery.simps)

lemma good_tree_binary:
  assumes "good_tree env cond l" and "good_tree env cond r" and "is_conn ty"
    and "n < length cond" and "\<exists>ty. cond ! n = SPT_OPERATOR ty 2"
  shows "good_tree env cond (Node ty n n l r)"
  using assms by (auto simp: good_tree_def)

text \<open>NOT elimination on the tree of a condition; \<open>pre\<close> and \<open>post\<close> are the list around it.\<close>

definition elim_ok ::
    "('v, 'q) executor \<Rightarrow> ('v, 'q) T_POSTFIXELEM list \<Rightarrow> T_NODE option \<Rightarrow> bool \<Rightarrow> bool" where
  "elim_ok env cond out b \<longleftrightarrow>
     (\<exists>t. out = Some t \<and> good_tree env cond t \<and> eval_tree (leaf_holds env cond) t = b)"

lemma emit_op_nth:
  "cond = pre @ (emit a @ emit b @ [SPT_OPERATOR ty 2]) @ post \<Longrightarrow>
   n = length pre + length (emit a) + length (emit b) \<Longrightarrow>
   n < length cond \<and> (\<exists>ty. cond ! n = SPT_OPERATOR ty 2)"
  by (simp add: nth_append)

lemma elim_ok_binary:
  assumes "elim_ok env cond (Some l) x" and "elim_ok env cond (Some r) y" and "is_conn ty"
    and "cond = pre @ (emit a @ emit b @ [SPT_OPERATOR ty0 2]) @ post"
    and "n = length pre + length (emit a) + length (emit b)"
  shows "elim_ok env cond (Some (Node ty n n l r)) (if ty = SOT_AND then x \<and> y else x \<or> y)"
  using assms good_tree_binary [of env cond l r ty n] emit_op_nth [OF assms(4,5)]
  by (auto simp: elim_ok_def)

lemma elim_ok_SomeE:
  assumes "elim_ok env cond out b" obtains t where "out = Some t" "elim_ok env cond (Some t) b"
  using assms by (auto simp: elim_ok_def)

lemma tree_of_not_Null [simp]: "tree_of k b \<noteq> Null"
  by (cases b) (simp_all add: Let_def)

lemma neg_op_conn: "neg_op (conn_op c) = Some (conn_op (\<not> c))"
  by (simp add: conn_op_def neg_op_def op_num_def neg_op_tbl_def)

lemma negate_tree_of:
  "bexp_ok env b \<Longrightarrow> complementary env b \<Longrightarrow> cond = pre @ emit b @ post \<Longrightarrow>
   elim_ok env cond (norm_negate_op (tree_of (length pre) b)) (\<not> bexp_value env b)"
proof (induction b arbitrary: pre post)
  case (Pred xs e)
  then obtain ty where ty: "neg_op (elem_op e) = Some ty" "ty \<notin> {SOT_AND, SOT_OR, SOT_NOT}"
    "truth env (xs @ [set_op ty e]) = map_option Not (truth env (xs @ [e]))"
    by (auto split: option.splits)
  from Pred.prems have "good_leaf env cond (Node ty (length pre) (length pre + length xs) Null Null)"
    using ty by (intro good_Pred) auto
  moreover have "leaf_holds env cond ty (length pre) (length pre + length xs) = (\<not> bexp_value env (Pred xs e))"
    using ty Pred.prems leaf_list_Pred [OF Pred.prems(3), of ty] by (auto simp: leaf_holds_def)
  ultimately show ?case
    using ty predicate_not_conn [of e] Pred.prems
    by (auto simp: elim_ok_def good_tree_def simp del: good_leaf.simps)
next
  case (BConn c a b)
  have "elim_ok env cond (norm_negate_op (tree_of (length pre) a)) (\<not> bexp_value env a)"
    using BConn.prems by (intro BConn.IH(1) [of pre "emit b @ [SPT_OPERATOR (conn_op c) 2] @ post"]) auto
  then obtain l where l: "norm_negate_op (tree_of (length pre) a) = Some l"
    "elim_ok env cond (Some l) (\<not> bexp_value env a)" by (rule elim_ok_SomeE)
  have "elim_ok env cond (norm_negate_op (tree_of (length (pre @ emit a)) b)) (\<not> bexp_value env b)"
    using BConn.prems by (intro BConn.IH(2) [of "pre @ emit a" "[SPT_OPERATOR (conn_op c) 2] @ post"]) auto
  then obtain r where r: "norm_negate_op (tree_of (length (pre @ emit a)) b) = Some r"
    "elim_ok env cond (Some r) (\<not> bexp_value env b)" by (rule elim_ok_SomeE)
  show ?case
    using l(1) r(1) elim_ok_binary [OF l(2) r(2), of "conn_op (\<not> c)" pre a b "conn_op c" post] BConn.prems
    by (auto simp: Let_def neg_op_conn split: if_splits)
next
  case (BNot a)
  then show ?case by simp
qed

lemma eliminate_tree_of:
  "bexp_ok env b \<Longrightarrow> nots_ok env b \<Longrightarrow> cond = pre @ emit b @ post \<Longrightarrow>
   elim_ok env cond (norm_eliminate_NOT (tree_of (length pre) b)) (bexp_value env b)"
proof (induction b arbitrary: pre post)
  case (Pred xs e)
  note nc = predicate_not_conn [of e] and same = set_op_same [of e]
  have "good_leaf env cond (Node (elem_op e) (length pre) (length pre + length xs) Null Null)"
    using Pred.prems nc same by (intro good_Pred) auto
  moreover have "leaf_holds env cond (elem_op e) (length pre) (length pre + length xs) = bexp_value env (Pred xs e)"
    using Pred.prems leaf_list_Pred [OF Pred.prems(3), of "elem_op e"] same by (simp add: leaf_holds_def)
  ultimately show ?case
    using nc Pred.prems by (auto simp: elim_ok_def good_tree_def simp del: good_leaf.simps)
next
  case (BConn c a b)
  have "elim_ok env cond (norm_eliminate_NOT (tree_of (length pre) a)) (bexp_value env a)"
    using BConn.prems by (intro BConn.IH(1) [of pre "emit b @ [SPT_OPERATOR (conn_op c) 2] @ post"]) auto
  then obtain l where l: "norm_eliminate_NOT (tree_of (length pre) a) = Some l"
    "elim_ok env cond (Some l) (bexp_value env a)" by (rule elim_ok_SomeE)
  have "elim_ok env cond (norm_eliminate_NOT (tree_of (length (pre @ emit a)) b)) (bexp_value env b)"
    using BConn.prems by (intro BConn.IH(2) [of "pre @ emit a" "[SPT_OPERATOR (conn_op c) 2] @ post"]) auto
  then obtain r where r: "norm_eliminate_NOT (tree_of (length (pre @ emit a)) b) = Some r"
    "elim_ok env cond (Some r) (bexp_value env b)" by (rule elim_ok_SomeE)
  show ?case
    using l(1) r(1) elim_ok_binary [OF l(2) r(2), of "conn_op c" pre a b "conn_op c" post] BConn.prems
    by (auto simp: Let_def split: if_splits)
next
  case (BNot a)
  have "elim_ok env cond (norm_negate_op (tree_of (length pre) a)) (\<not> bexp_value env a)"
    using BNot.prems by (intro negate_tree_of [of env a cond pre "[SPT_OPERATOR SOT_NOT 1] @ post"]) auto
  then show ?case by (simp add: Let_def)
qed

subsection \<open>Writing the clauses\<close>

fun tree_list :: "('v, 'q) T_POSTFIXELEM list \<Rightarrow> T_NODE \<Rightarrow> ('v, 'q) T_POSTFIXELEM list" where
  "tree_list cond Null = []"
| "tree_list cond (Node ty s e l r) = tree_list cond l @ tree_list cond r @ leaf_list cond ty s e"

fun spans_ok :: "nat \<Rightarrow> T_NODE \<Rightarrow> bool" where
  "spans_ok n Null = True"
| "spans_ok n (Node ty s e l r) \<longleftrightarrow> s \<le> e \<and> e < n \<and> spans_ok n l \<and> spans_ok n r"

lemma map_last_append: "ys \<noteq> [] \<Longrightarrow> map_last f (xs @ ys) = xs @ map_last f ys"
  by (induction xs) auto

lemma length_segment: "s \<le> e \<Longrightarrow> e < length xs \<Longrightarrow> length (segment xs s e) = e - s + 1"
  by (simp add: segment_def)

lemma alloc_all_ok: "alloc_ok m \<Longrightarrow> \<exists>m'. same_mem m m' \<and> alloc_all n m = (True, m')"
proof (induction n arbitrary: m)
  case (Suc n)
  obtain m1 where m1: "PMEM_ALLOC m = (True, m1)" "same_mem m m1"
    using Suc.prems by (auto simp: PMEM_ALLOC_def alloc_ok_def same_mem_def)
  then obtain m2 where "same_mem m1 m2" "alloc_all n m1 = (True, m2)"
    using Suc.IH [of m1] Suc.prems same_mem_ok by blast
  with m1 show ?case using same_mem_trans by auto
qed auto

lemma add_loop_ok:
  "alloc_ok m \<Longrightarrow> \<exists>m'. same_mem m m' \<and>
     add_loop els des m = (True, des\<lparr>expr_list := expr_list des @ els\<rparr>, m')"
proof (induction els arbitrary: des m)
  case (Cons el els)
  obtain m1 where m1: "same_mem m m1" "alloc_all (elem_bufs m el) m = (True, m1)"
    using alloc_all_ok Cons.prems by blast
  then obtain m2 where "same_mem m1 m2" "add_loop els (des\<lparr>expr_list := expr_list des @ [el]\<rparr>) m1 =
      (True, des\<lparr>expr_list := expr_list des @ el # els\<rparr>, m2)"
    using Cons.IH [of m1 "des\<lparr>expr_list := expr_list des @ [el]\<rparr>"] Cons.prems same_mem_ok by fastforce
  with m1 show ?case using same_mem_trans by auto
qed auto

lemma work_ok:
  "alloc_ok m \<Longrightarrow> spans_ok (length cond) t \<Longrightarrow>
   length (expr_list des) + calc_exprlen4tree t \<le> expr_max des \<Longrightarrow>
   \<exists>m'. same_mem m m' \<and> trans_tree2expr_work t cond des m =
     (True, des\<lparr>expr_list := expr_list des @ tree_list cond t\<rparr>, m') \<and>
     length (tree_list cond t) = calc_exprlen4tree t"
proof (induction t arbitrary: des m)
  case (Node ty s e l r)
  have "length (expr_list des) + calc_exprlen4tree l \<le> expr_max des"
    using Node.prems(3) by simp
  then obtain m1 where m1: "same_mem m m1" "trans_tree2expr_work l cond des m =
      (True, des\<lparr>expr_list := expr_list des @ tree_list cond l\<rparr>, m1)"
      "length (tree_list cond l) = calc_exprlen4tree l"
    using Node.IH(1) [of m des] Node.prems(1,2) by auto
  let ?d1 = "des\<lparr>expr_list := expr_list des @ tree_list cond l\<rparr>"
  have "length (expr_list ?d1) + calc_exprlen4tree r \<le> expr_max ?d1"
    using Node.prems(3) m1(3) by simp
  then obtain m2 where m2: "same_mem m1 m2" "trans_tree2expr_work r cond ?d1 m1 =
      (True, des\<lparr>expr_list := expr_list des @ tree_list cond l @ tree_list cond r\<rparr>, m2)"
      "length (tree_list cond r) = calc_exprlen4tree r"
    using Node.IH(2) [of m1 ?d1] Node.prems(1,2) same_mem_ok [OF m1(1)] by auto
  let ?d2 = "des\<lparr>expr_list := expr_list des @ tree_list cond l @ tree_list cond r\<rparr>"
  have len: "length (segment cond s e) = e - s + 1" using Node.prems by (simp add: length_segment)
  then have ne: "segment cond s e \<noteq> []" by auto
  obtain m3 where m3: "same_mem m2 m3" "add_loop (segment cond s e) ?d2 m2 =
      (True, ?d2\<lparr>expr_list := expr_list ?d2 @ segment cond s e\<rparr>, m3)"
    using add_loop_ok [of m2 "segment cond s e" ?d2] m1 m2 Node.prems same_mem_ok by blast
  have "\<not> expr_max des - (length (expr_list des) + (calc_exprlen4tree l + calc_exprlen4tree r)) < e - s + 1"
    using Node.prems(3) by simp
  then have "add_expression ?d2 cond s e m2 = (True, ?d2\<lparr>expr_list := expr_list ?d2 @ segment cond s e\<rparr>, m3)"
    using m1(3) m2(3) m3(2) by (simp add: add_expression_def)
  moreover have "length (leaf_list cond ty s e) = e - s + 1"
  proof -
    have "length (map_last f xs) = length xs" for f :: "('a, 'b) T_POSTFIXELEM \<Rightarrow> _" and xs
      by (induction xs) auto
    with len show ?thesis by (simp add: leaf_list_def)
  qed
  moreover have "same_mem m m3" using m1 m2 m3 same_mem_trans by blast
  ultimately show ?case
    using m1 m2 ne map_last_append [of "segment cond s e" "set_op ty" "expr_list des @ tree_list cond l @ tree_list cond r"]
    by (auto simp: leaf_list_def)
qed auto

lemma good_tree_children:
  "good_tree env cond (Node ty s e l r) \<Longrightarrow> is_conn ty \<Longrightarrow>
   good_tree env cond l \<and> good_tree env cond r \<and> s = e \<and> s < length cond \<and>
   leaf_list cond ty s s = [SPT_OPERATOR ty 2]"
  by (auto simp: good_tree_def leaf_list_def segment_single)

lemma good_tree_spans: "good_tree env cond t \<Longrightarrow> spans_ok (length cond) t"
proof (induction t)
  case (Node ty s e l r)
  show ?case
  proof (cases "is_conn ty")
    case True
    from good_tree_children [OF Node.prems True] Node.IH show ?thesis by auto
  next
    case False
    with Node.prems show ?thesis by (auto simp: good_tree_def)
  qed
qed simp

lemma tree_list_truth:
  "good_tree env cond t \<Longrightarrow> \<not> ends_subquery (tree_list cond t) \<and>
     truth env (tree_list cond t) = Some (eval_tree (leaf_holds env cond) t)"
proof (induction t)
  case Null
  then show ?case by (simp add: good_tree_def)
next
  case (Node ty s e l r)
  show ?case
  proof (cases "is_conn ty")
    case False
    with Node.prems show ?thesis by (auto simp: good_tree_def leaf_holds_def)
  next
    case True
    define c where "c = (ty = SOT_AND)"
    have c: "ty = conn_op c" using True by (auto simp: conn_op_def c_def)
    from good_tree_children [OF Node.prems True]
    have G: "good_tree env cond l" "good_tree env cond r" "leaf_list cond ty s e = [SPT_OPERATOR ty 2]"
      by auto
    have "\<not> ends_subquery (tree_list cond (Node ty s e l r))"
      using G(3) ends_subquery_snoc [of "tree_list cond l @ tree_list cond r"] by simp
    with Node.IH G c show ?thesis
      using truth_binary [of env "tree_list cond l" _ "tree_list cond r" _ c] by auto
  qed
qed

lemma is_clause_est: "is_clause t \<Longrightarrow> est t = 1"
proof (induction t)
  case (Node ty s e l r)
  then show ?case by (cases r) auto
qed simp

lemma trans_tree2expr_ok:
  assumes "good_tree env cond t" and "alloc_ok m"
  shows "\<exists>m'. same_mem m m' \<and> trans_tree2expr t cond m = (Inr (tree_list cond t), m')"
proof -
  let ?n = "calc_exprlen4tree t"
  obtain m1 where m1: "same_mem m m1" "alloc_all (2 + ?n) m = (True, m1)"
    using alloc_all_ok assms(2) by blast
  moreover obtain m2 where m2: "same_mem m1 m2" "trans_tree2expr_work t cond \<lparr>expr_max = ?n, expr_list = []\<rparr> m1 =
      (True, \<lparr>expr_max = ?n, expr_list = tree_list cond t\<rparr>, m2)"
    using work_ok [of m1 cond t "\<lparr>expr_max = ?n, expr_list = []\<rparr>"] m1 assms same_mem_ok good_tree_spans by fastforce
  ultimately have "trans_tree2expr t cond m = (Inr (tree_list cond t), m2)"
    by (simp add: trans_tree2expr_def)
  with m1 m2 show ?thesis using same_mem_trans by blast
qed

lemma exprlist_ok:
  "good_tree env cond t \<Longrightarrow> is_cnf t \<Longrightarrow> alloc_ok m \<Longrightarrow>
   \<exists>cls m'. same_mem m m' \<and> trans_tree2exprlist t el cond m = (Inr (cls @ el), m') \<and>
     length cls = est t \<and> (\<forall>c \<in> set cls. truth env c \<noteq> None) \<and>
     (eval_tree (leaf_holds env cond) t \<longleftrightarrow> (\<forall>c \<in> set cls. truth env c = Some True))"
proof (induction t arbitrary: el m)
  case Null
  then show ?case by simp
next
  case (Node ty s e l r)
  show ?case
  proof (cases "ty = SOT_AND")
    case True
    then have G: "good_tree env cond l" "good_tree env cond r" "is_cnf l" "is_cnf r"
      using good_tree_children [OF Node.prems(1)] Node.prems(2) is_clause_cnf by auto
    obtain c1 m1 where 1: "same_mem m m1" "trans_tree2exprlist l el cond m = (Inr (c1 @ el), m1)"
      "length c1 = est l" "\<forall>c \<in> set c1. truth env c \<noteq> None"
      "eval_tree (leaf_holds env cond) l \<longleftrightarrow> (\<forall>c \<in> set c1. truth env c = Some True)"
      using Node.IH(1) [OF G(1,3) Node.prems(3)] by blast
    have "alloc_ok m1" using 1(1) Node.prems(3) same_mem_ok by blast
    from Node.IH(2) [OF G(2,4) this, of "c1 @ el"]
    obtain c2 m2 where 2: "same_mem m1 m2" "trans_tree2exprlist r (c1 @ el) cond m1 = (Inr (c2 @ c1 @ el), m2)"
      "length c2 = est r" "\<forall>c \<in> set c2. truth env c \<noteq> None"
      "eval_tree (leaf_holds env cond) r \<longleftrightarrow> (\<forall>c \<in> set c2. truth env c = Some True)" by blast
    have "same_mem m m2" using 1 2 same_mem_trans by blast
    with True 1 2 show ?thesis by (intro exI [of _ "c2 @ c1"] exI [of _ m2]) auto
  next
    case False
    have "is_clause (Node ty s e l r)" using False Node.prems(2) by simp
    then have one: "est (Node ty s e l r) = 1" by (rule is_clause_est)
    let ?c = "tree_list cond (Node ty s e l r)"
    obtain m1 where m1: "same_mem m m1" "trans_tree2expr (Node ty s e l r) cond m = (Inr ?c, m1)"
      using trans_tree2expr_ok [OF Node.prems(1,3)] by blast
    have "alloc_ok m1" using m1 Node.prems(3) same_mem_ok by blast
    then obtain m2 where m2: "same_mem m1 m2" "PMEM_ALLOC m1 = (True, m2)"
      by (auto simp: PMEM_ALLOC_def alloc_ok_def same_mem_def)
    have "same_mem m m2" using m1 m2 same_mem_trans by blast
    moreover have "trans_tree2exprlist (Node ty s e l r) el cond m = (Inr ([?c] @ el), m2)"
      using False m1 m2 by simp
    ultimately show ?thesis
      using one tree_list_truth [OF Node.prems(1)] by (intro exI [of _ "[?c]"] exI [of _ m2]) simp
  qed
qed

subsection \<open>The estimate\<close>

lemma estimate_est: "wf_conn t \<Longrightarrow> estimate_cnf_size t = Some (of_nat (est t))"
  by (induction t) auto

lemma wf_conn_tree_of: "bexp_ok env b \<Longrightarrow> wf_conn (tree_of k b)"
proof (induction b arbitrary: k)
  case (Pred xs e)
  then show ?case using predicate_not_conn by auto
qed (simp_all add: Let_def)

subsection \<open>The whole normalisation\<close>

definition condition_true :: "('v, 'q) executor \<Rightarrow> ('v, 'q) T_POSTFIXELEM list \<Rightarrow> bool" where
  "condition_true env es \<longleftrightarrow> (\<exists>v. calc_expression env es = Inr v \<and> u_bl v = 1)"

lemma condition_true_truth: "truth env es = Some b \<Longrightarrow> condition_true env es = b"
  by (erule truth_SomeE) (simp add: condition_true_def calc_expression_def)

lemma cond_normalize_run:
  assumes "bexp_ok env b" and "nots_ok env b" and "alloc_ok m"
    and size: "0 \<le> sint (of_nat (est (tree_of 0 b)) :: 32 word)"
      "sint (of_nat (est (tree_of 0 b)) :: 32 word) \<le> MAX_CNF_SIZE"
  obtains t cls m' where "norm_eliminate_NOT (tree_of 0 b) = Some t"
    "cond_normalize (emit b) m = Some (Inr (Some cls), m')" "length cls = est t"
    "\<forall>c \<in> set cls. truth env c \<noteq> None"
    "bexp_value env b \<longleftrightarrow> (\<forall>c \<in> set cls. truth env c = Some True)"
proof -
  obtain m1 where m1: "same_mem m m1" "trans_expr2tree (emit b) m = (Inr (tree_of 0 b), m1)"
    using trans_expr2tree_emit [OF assms(1,3)] by blast
  obtain t where t: "norm_eliminate_NOT (tree_of 0 b) = Some t" "good_tree env (emit b) t"
    "eval_tree (leaf_holds env (emit b)) t = bexp_value env b"
    using eliminate_tree_of [OF assms(1,2), of "emit b" "[]" "[]"] by (auto simp: elim_ok_def)
  have "wf_conn t" "t \<noteq> Null" using t(2) by (auto simp: good_tree_def)
  moreover have "alloc_ok m1" using m1 assms(3) same_mem_ok by blast
  ultimately obtain t' m2 where t': "norm_transform_CNF t m1 = Some (Inr t', m2)" "same_mem m1 m2"
    "is_cnf t'" "cnf_equiv t t'"
    using norm_transform_CNF_run [of t m1] by (auto simp: cnf_run_def)
  have "alloc_ok m2" using t'(2) \<open>alloc_ok m1\<close> same_mem_ok by blast
  from exprlist_ok [OF good_tree_equiv [OF t(2) t'(4)] t'(3) this, of "[]"]
  obtain cls m3 where cls: "trans_tree2exprlist t' [] (emit b) m2 = (Inr cls, m3)" "length cls = est t'"
    "\<forall>c \<in> set cls. truth env c \<noteq> None"
    "eval_tree (leaf_holds env (emit b)) t' \<longleftrightarrow> (\<forall>c \<in> set cls. truth env c = Some True)" by auto
  have "emit b \<noteq> []" by (cases b) simp_all
  then have "cond_normalize (emit b) m = Some (Inr (Some cls), m3)"
    using m1 t t' cls(1) size estimate_est [OF wf_conn_tree_of [OF assms(1)]]
    by (simp add: cond_normalize_def)
  with that t t'(4) cls show thesis by (auto simp: cnf_equiv_def)
qed

end
