(* ===== verification/SqlNormClaims.thy ===== *)
theory SqlNormClaims
  imports SqlNormCorrect
begin

section \<open>What normalisation promises, and where it does not keep it\<close>

subsection \<open>The CNF transformation\<close>

text \<open>C13: \<^verbatim>\<open>norm_transform_CNF\<close> returns on every tree, also on one with missing children, and
  whichever allocations fail.\<close>

theorem norm_transform_CNF_returns: "\<exists>r m'. norm_transform_CNF t m = Some (r, m')"
proof (cases "t = Null")
  case True
  then show ?thesis by (simp add: norm_transform_CNF.simps)
next
  case False
  from norm_transform_CNF_run [OF this, of m] show ?thesis by (auto simp: cnf_run_def)
qed

text \<open>C12: without allocation failures \<^verbatim>\<open>norm_transform_CNF\<close> turns a tree whose AND and OR
  nodes have both children into a conjunction of disjunctions, leaning to the left, that has
  the same truth value for all truth values of the predicates, has exactly the same
  predicates, and as many clauses as \<^verbatim>\<open>estimate_cnf_size\<close> says (up to wrap-around).\<close>

theorem norm_transform_CNF_correct:
  assumes "wf_conn t" and "\<forall>n. pm_ok m n"
  shows "\<exists>t' m'. norm_transform_CNF t m = Some (Inr t', m') \<and> is_cnf t' \<and> wf_conn t' \<and>
    (\<forall>p. eval_tree p t' = eval_tree p t) \<and> leaves t' = leaves t \<and>
    estimate_cnf_size t' = estimate_cnf_size t"
proof -
  have "t \<noteq> Null" using assms(1) by auto
  from norm_transform_CNF_run [OF this, of m] assms show ?thesis
    by (auto simp: cnf_run_def alloc_ok_def cnf_equiv_def estimate_est)
qed

definition demo_tree :: T_NODE where
  "demo_tree = Node SOT_OR 6 6 (Node SOT_LT 0 2 Null Null)
     (Node SOT_AND 5 5 (Node SOT_EQ 3 4 Null Null) (Node SOT_GT 7 8 Null Null))"

definition demo_mem :: "int mem" where
  "demo_mem = \<lparr>pm_ok = (\<lambda>_. True), pm_calls = 0, pm_bufs = (\<lambda>_. 0)\<rparr>"

theorem norm_transform_CNF_correct_witness:
  "\<exists>t' m'. norm_transform_CNF demo_tree demo_mem = Some (Inr t', m') \<and> is_cnf t' \<and>
     (\<forall>p. eval_tree p t' = eval_tree p demo_tree)"
  using norm_transform_CNF_correct [of demo_tree demo_mem] by (auto simp: demo_tree_def demo_mem_def)

subsection \<open>Conditions\<close>


fun no_not :: "('v, 'q) bexp \<Rightarrow> bool" where
  "no_not (Pred xs e) = True"
| "no_not (BConn c a b) = (no_not a \<and> no_not b)"
| "no_not (BNot a) = False"

fun cnf_count :: "('v, 'q) bexp \<Rightarrow> nat" where
  \<comment> \<open>the number of clauses of the distributed condition\<close>
  "cnf_count (Pred xs e) = 1"
| "cnf_count (BConn c a b) = (if c then cnf_count a + cnf_count b else cnf_count a * cnf_count b)"
| "cnf_count (BNot a) = 1"

lemma est_tree_of: "bexp_ok env b \<Longrightarrow> est (tree_of k b) = cnf_count b"
proof (induction b arbitrary: k)
  case (Pred xs e)
  then show ?case using predicate_not_conn by auto
qed (auto simp: Let_def)

lemma no_not_eliminate:
  "bexp_ok env b \<Longrightarrow> no_not b \<Longrightarrow> norm_eliminate_NOT (tree_of k b) = Some (tree_of k b)"
proof (induction b arbitrary: k)
  case (Pred xs e)
  then show ?case using predicate_not_conn by auto
qed (simp_all add: Let_def)

lemma no_not_nots_ok: "no_not b \<Longrightarrow> nots_ok env b"
  by (induction b) simp_all

text \<open>C15: for a condition without NOT whose distributed form has fewer than \<^verbatim>\<open>2^31\<close>
  clauses, \<^verbatim>\<open>cond_normalize\<close> leaves the condition alone exactly when that number exceeds
  \<^verbatim>\<open>MAX_CNF_SIZE\<close>, and otherwise produces exactly that many clauses.\<close>

theorem cond_normalize_size:
  assumes "bexp_ok env b" and "no_not b" and "\<forall>n. pm_ok m n" and "cnf_count b < 2 ^ 31"
  shows "if 100 < cnf_count b then \<exists>m'. cond_normalize (emit b) m = Some (Inr None, m')
    else \<exists>cls m'. cond_normalize (emit b) m = Some (Inr (Some cls), m') \<and> length cls = cnf_count b"
proof -
  have s: "sint (of_nat (est (tree_of 0 b)) :: 32 word) = int (cnf_count b)"
    using assms(4) est_tree_of [OF assms(1), of 0]
    by (simp add: signed_of_nat signed_take_bit_int_eq_self)
  show ?thesis
  proof (cases "100 < cnf_count b")
    case True
    obtain m1 where m1: "trans_expr2tree (emit b) m = (Inr (tree_of 0 b), m1)"
      using trans_expr2tree_emit [OF assms(1)] assms(3) by (auto simp: alloc_ok_def)
    have "emit b \<noteq> []" by (cases b) simp_all
    with True m1 s estimate_est [OF wf_conn_tree_of [OF assms(1)]] show ?thesis
      by (simp add: cond_normalize_def MAX_CNF_SIZE_def)
  next
    case False
    have ok: "alloc_ok m" and size: "0 \<le> sint (of_nat (est (tree_of 0 b)) :: 32 word)"
      "sint (of_nat (est (tree_of 0 b)) :: 32 word) \<le> MAX_CNF_SIZE"
      using assms(3) False s by (simp_all add: alloc_ok_def MAX_CNF_SIZE_def)
    obtain t cls m' where "norm_eliminate_NOT (tree_of 0 b) = Some t"
      "cond_normalize (emit b) m = Some (Inr (Some cls), m')" "length cls = est t"
      "\<forall>cl \<in> set cls. truth env cl \<noteq> None"
      "bexp_value env b \<longleftrightarrow> (\<forall>cl \<in> set cls. truth env cl = Some True)"
      by (rule cond_normalize_run [OF assms(1) no_not_nots_ok [OF assms(2)] ok size])
    with False no_not_eliminate [OF assms(1,2)] est_tree_of [OF assms(1)] show ?thesis by auto
  qed
qed

subsection \<open>Complementary operators\<close>

definition int_value :: "T_VALUECLASS \<Rightarrow> int \<Rightarrow> int T_VALUEDESC" where
  "int_value c n = \<lparr>valueclass = c, valuetype = DT_INTEGER, attr_type = DT_INTEGER, is_null = False,
     param_idx = 0, u_bl = 0, u_other = n\<rparr>"

definition demo_env :: "(int, unit) executor" where
  "demo_env = \<lparr>sql_compare_values = (\<lambda>l r. Some (u_other l - u_other r)),
     like_value = (\<lambda>_ _ _. Inr True), calc_scalar = (\<lambda>_ _. Inl RET_ERROR),
     calc_func = (\<lambda>_ _. Inl RET_ERROR), exec_subq = (\<lambda>_ _. Inl RET_ERROR),
     calc_subqexpr = (\<lambda>_ args. (1, hd args)), no_value = 0\<rparr>"

definition comparison_ops :: "T_OPTYPE list" where
  "comparison_ops = [SOT_LT, SOT_LE, SOT_GT, SOT_GE, SOT_EQ, SOT_NE]"

lemma neg_op_comparison:
  "neg_op SOT_LT = Some SOT_GE" "neg_op SOT_LE = Some SOT_GT" "neg_op SOT_GT = Some SOT_LE"
  "neg_op SOT_GE = Some SOT_LT" "neg_op SOT_EQ = Some SOT_NE" "neg_op SOT_NE = Some SOT_EQ"
  by (simp_all add: neg_op_def op_num_def neg_op_tbl_def)

fun comparison_test :: "T_OPTYPE \<Rightarrow> int \<Rightarrow> bool" where
  "comparison_test SOT_LT c = (c < 0)"
| "comparison_test SOT_LE c = (c \<le> 0)"
| "comparison_test SOT_GT c = (c > 0)"
| "comparison_test SOT_GE c = (c \<ge> 0)"
| "comparison_test SOT_EQ c = (c = 0)"
| "comparison_test SOT_NE c = (c \<noteq> 0)"
| "comparison_test op c = False"

lemma comparison_cases:
  assumes "op \<in> set comparison_ops"
  obtains "op = SOT_LT" | "op = SOT_LE" | "op = SOT_GT" | "op = SOT_GE" | "op = SOT_EQ" | "op = SOT_NE"
  using assms by (auto simp: comparison_ops_def)

lemma check_comparison_LT:
  "op \<in> set comparison_ops \<Longrightarrow> check_expression op [l, r] = check_expression SOT_LT [l, r]"
  by (erule comparison_cases) (simp_all add: check_expression.simps)

lemma check_comparison:
  "op \<in> set comparison_ops \<Longrightarrow> op' \<in> set comparison_ops \<Longrightarrow>
   check_expression op [l, r] = check_expression op' [l, r]"
  using check_comparison_LT [of op l r] check_comparison_LT [of op' l r] by simp

lemma calc_comparison:
  assumes "op \<in> set comparison_ops" and "\<not> is_null l" and "\<not> is_null r"
    and "sql_compare_values env l r = Some c" and "check_expression op [l, r]"
    and "\<forall>v \<in> {l, r}. \<not> IS_BYTE (valuetype v) \<and> \<not> IS_BYTE (attr_type v)"
  shows "calc_simpleexpr env op [l, r] = Inr (bool_value env (result_class l r) (comparison_test op c))"
proof -
  note defs = calc_simpleexpr_def calc_less_def calc_lessnequal_def calc_greater_def
    calc_greaternequal_def calc_equal_def calc_notequal_def calc_compare_def Let_def
  have ck: "check_expression op [l, r]" "\<not> (\<exists>a \<in> set [l, r]. IS_BYTE (valuetype a) \<or> IS_BYTE (attr_type a))"
    using assms(5,6) by (auto)
  from assms(1) show ?thesis
    using assms(2-4) ck by (cases rule: comparison_cases) (simp_all add: defs)
qed

lemma truth_comparison:
  "calc_simpleexpr env op [l, r] = Inr (bool_value env k b) \<Longrightarrow>
   truth env [SPT_VALUE l, SPT_VALUE r, SPT_OPERATOR op 2] = Some b"
  by (simp add: truth_def pop_args_def bool_value_def)

text \<open>C17: on two values that are not NULL, that pass the type check and that
  \<^verbatim>\<open>sql_compare_values\<close> can compare, each of the six comparison operators and the operator
  \<^verbatim>\<open>norm_negate_op\<close> replaces it by have opposite results.\<close>

theorem comparison_complementary:
  assumes "op \<in> set comparison_ops" and "\<not> is_null l" and "\<not> is_null r"
    and "sql_compare_values env l r = Some c" and "check_expression op [l, r]"
    and "\<forall>v \<in> {l, r}. \<not> IS_BYTE (valuetype v) \<and> \<not> IS_BYTE (attr_type v)"
  shows "\<exists>op' v. neg_op op = Some op' \<and>
    truth env [SPT_VALUE l, SPT_VALUE r, SPT_OPERATOR op 2] = Some v \<and>
    truth env [SPT_VALUE l, SPT_VALUE r, SPT_OPERATOR op' 2] = Some (\<not> v)"
proof -
  have "\<exists>op'. neg_op op = Some op' \<and> op' \<in> set comparison_ops \<and>
      comparison_test op' c = (\<not> comparison_test op c)"
    using assms(1) by (auto simp: comparison_ops_def neg_op_comparison not_less not_le)
  then obtain op' where op': "neg_op op = Some op'" "op' \<in> set comparison_ops"
    "comparison_test op' c = (\<not> comparison_test op c)" by blast
  have "check_expression op' [l, r]"
    using assms(5) check_comparison [OF assms(1) op'(2), of l r] by simp
  from truth_comparison [OF calc_comparison [OF op'(2) assms(2,3,4) this assms(6)]]
    truth_comparison [OF calc_comparison [OF assms]] op'
  show ?thesis by auto
qed

subsection \<open>A condition on concrete input\<close>

definition demo_pred :: "T_OPTYPE \<Rightarrow> int \<Rightarrow> int \<Rightarrow> (int, unit) bexp" where
  "demo_pred op a b = Pred [SPT_VALUE (int_value SVC_VARIABLE a), SPT_VALUE (int_value SVC_CONSTANT b)]
     (SPT_OPERATOR op 2)"

definition demo_cond :: "(int, unit) bexp" where
  \<comment> \<open>\<^verbatim>\<open>2 < 1 OR NOT (3 = 3 AND 5 >= 6)\<close>\<close>
  "demo_cond = BConn False (demo_pred SOT_LT 2 1)
     (BNot (BConn True (demo_pred SOT_EQ 3 3) (demo_pred SOT_GE 5 6)))"

definition demo_or :: "(int, unit) bexp" where
  \<comment> \<open>\<^verbatim>\<open>2 < 1 OR (3 = 3 AND 5 >= 6)\<close>\<close>
  "demo_or = BConn False (demo_pred SOT_LT 2 1) (BConn True (demo_pred SOT_EQ 3 3) (demo_pred SOT_GE 5 6))"

lemma demo_ok: "bexp_ok demo_env demo_cond" "nots_ok demo_env demo_cond" "bexp_ok demo_env demo_or"
  by code_simp+

lemma demo_estimate: "estimate_cnf_size (tree_of 0 demo_cond) = Some 1"
  by (simp add: demo_cond_def demo_pred_def Let_def conn_op_def)


theorem cond_normalize_size_witness:
  "\<exists>cls m'. cond_normalize (emit demo_or) demo_mem = Some (Inr (Some cls), m') \<and> length cls = 2"
proof -
  have "cnf_count demo_or = 2" "no_not demo_or"
    by (simp_all add: demo_or_def demo_pred_def)
  then show ?thesis
    using cond_normalize_size [OF demo_ok(3), of demo_mem] by (auto simp: demo_mem_def)
qed

theorem comparison_complementary_witness:
  "\<exists>v. truth demo_env [SPT_VALUE (int_value SVC_VARIABLE 3), SPT_VALUE (int_value SVC_CONSTANT 4),
        SPT_OPERATOR SOT_LE 2] = Some v \<and>
     truth demo_env [SPT_VALUE (int_value SVC_VARIABLE 3), SPT_VALUE (int_value SVC_CONSTANT 4),
        SPT_OPERATOR SOT_GT 2] = Some (\<not> v)"
proof -
  have "check_expression SOT_LE [int_value SVC_VARIABLE 3, int_value SVC_CONSTANT 4]" by code_simp
  then show ?thesis
    using comparison_complementary [of SOT_LE "int_value SVC_VARIABLE 3" "int_value SVC_CONSTANT 4" demo_env "-1"]
    by (auto simp: neg_op_comparison comparison_ops_def int_value_def demo_env_def IS_BYTE_def)
qed

subsection \<open>Where the meaning changes\<close>

lemma leaf_holds_negated:
  "leaf_holds env (emit (BNot (Pred xs e))) ty 0 (length xs) \<longleftrightarrow>
     truth env (xs @ [set_op ty e]) = Some True"
  using leaf_list_Pred [of _ "[]" xs e "[SPT_OPERATOR SOT_NOT 1]" ty]
  by (simp add: leaf_holds_def)


text \<open>The last two entries of \<^verbatim>\<open>neg_op_tbl\<close> map \<^verbatim>\<open>SOT_HEXCOMP\<close> and
  \<^verbatim>\<open>SOT_HEXNOTCOMP\<close> to themselves, so that a negated \<^verbatim>\<open>HEXCOMP\<close> predicate loses its
  NOT: when the predicate is true, the condition \<^verbatim>\<open>NOT HEXCOMP(...)\<close> is false and its
  normal form is true.\<close>

theorem NOT_HEXCOMP_is_dropped:
  assumes "truth env (xs @ [SPT_FUNCTION SFT_HEXCOMP n]) = Some True" and "xs \<noteq> []"
    and "\<forall>x \<in> set xs. operand_elem x"
  shows "\<not> bexp_value env (BNot (Pred xs (SPT_FUNCTION SFT_HEXCOMP n))) \<and>
    (\<exists>t. norm_eliminate_NOT (tree_of 0 (BNot (Pred xs (SPT_FUNCTION SFT_HEXCOMP n)))) = Some t \<and>
       eval_tree (leaf_holds env (emit (BNot (Pred xs (SPT_FUNCTION SFT_HEXCOMP n))))) t)"
proof -
  let ?b = "Pred xs (SPT_FUNCTION SFT_HEXCOMP n)"
  have "leaf_holds env (emit (BNot ?b)) SOT_HEXCOMP 0 (length xs)"
    using assms(1) by (simp add: leaf_holds_negated del: emit.simps)
  with assms(1) show ?thesis
    by (auto simp: Let_def neg_op_def op_num_def neg_op_tbl_def)
qed

definition hex_env :: "(int, unit) executor" where
  "hex_env = demo_env\<lparr>calc_func := (\<lambda>f args. Inr (bool_value demo_env SVC_CONSTANT True))\<rparr>"

theorem NOT_HEXCOMP_is_dropped_witness:
  "\<not> bexp_value hex_env (BNot (Pred [SPT_VALUE (int_value SVC_VARIABLE 3), SPT_VALUE (int_value SVC_CONSTANT 3)]
      (SPT_FUNCTION SFT_HEXCOMP 2)))"
proof -
  have "truth hex_env ([SPT_VALUE (int_value SVC_VARIABLE 3), SPT_VALUE (int_value SVC_CONSTANT 3)] @
      [SPT_FUNCTION SFT_HEXCOMP 2]) = Some True" by code_simp
  then show ?thesis
    using NOT_HEXCOMP_is_dropped [of hex_env "[SPT_VALUE (int_value SVC_VARIABLE 3), SPT_VALUE (int_value SVC_CONSTANT 3)]" 2]
    by (auto simp: operand_elem_def predicate_ops_def)
qed

text \<open>C18: the evaluator has no unknown. When an operand of a comparison is NULL, the
  comparison and its negated form are both false and NOT of the comparison is true; so
  a condition with NOT has another value when its size keeps it from being normalised.\<close>

theorem NOT_on_NULL_depends_on_normalisation:
  assumes "is_null l \<or> is_null r"
    and "\<forall>v \<in> {l, r}. \<not> IS_BYTE (valuetype v) \<and> \<not> IS_BYTE (attr_type v)"
    and "op \<in> set [SOT_LT, SOT_LE, SOT_GT, SOT_GE]"
  shows "truth env (emit (BNot (Pred [SPT_VALUE l, SPT_VALUE r] (SPT_OPERATOR op 2)))) = Some True \<and>
    (\<exists>t. norm_eliminate_NOT (tree_of 0 (BNot (Pred [SPT_VALUE l, SPT_VALUE r] (SPT_OPERATOR op 2)))) = Some t \<and>
       eval_tree (leaf_holds env (emit (BNot (Pred [SPT_VALUE l, SPT_VALUE r] (SPT_OPERATOR op 2))))) t = False)"
proof -
  let ?es = "[SPT_VALUE l, SPT_VALUE r]"
  have null: "truth env [SPT_VALUE l, SPT_VALUE r, SPT_OPERATOR o' 2] = Some False"
    if "o' \<in> set [SOT_LT, SOT_LE, SOT_GT, SOT_GE]" for o'
  proof (rule truth_comparison)
    show "calc_simpleexpr env o' [l, r] = Inr (bool_value env (result_class l r) False)"
      using that assms by (auto simp: calc_simpleexpr_def check_expression.simps calc_less_def
          calc_lessnequal_def calc_greater_def calc_greaternequal_def calc_compare_def Let_def)
  qed
  have "truth env ((?es @ [SPT_OPERATOR op 2]) @ [SPT_OPERATOR SOT_NOT 1]) = Some (\<not> False)"
    using null [OF assms(3)] by (intro truth_not) simp_all
  then have holds: "truth env (emit (BNot (Pred ?es (SPT_OPERATOR op 2)))) = Some True"
    by simp
  obtain o' where o': "neg_op op = Some o'" "o' \<in> set [SOT_LT, SOT_LE, SOT_GT, SOT_GE]"
    using assms(3) by (auto simp: neg_op_comparison)
  have "op \<notin> {SOT_AND, SOT_OR, SOT_NOT}" "o' \<notin> {SOT_AND, SOT_OR, SOT_NOT}"
    using assms(3) o'(2) by auto
  then have tree: "norm_eliminate_NOT (tree_of 0 (BNot (Pred ?es (SPT_OPERATOR op 2)))) =
      Some (Node o' 0 2 Null Null)"
    and conn: "is_conn o' \<longleftrightarrow> False" "o' \<noteq> SOT_NOT"
    using o'(1) by (simp_all add: numeral_2_eq_2)
  have "leaf_holds env (emit (BNot (Pred ?es (SPT_OPERATOR op 2)))) o' 0 2 = False"
    using null [OF o'(2)] leaf_holds_negated [of env ?es "SPT_OPERATOR op 2" o']
    by (simp add: numeral_2_eq_2)
  then have "eval_tree (leaf_holds env (emit (BNot (Pred ?es (SPT_OPERATOR op 2))))) (Node o' 0 2 Null Null) = False"
    using conn by simp
  with holds tree show ?thesis by blast
qed

theorem NOT_on_NULL_witness:
  "truth demo_env (emit (BNot (Pred [SPT_VALUE ((int_value SVC_VARIABLE 3)\<lparr>is_null := True\<rparr>),
     SPT_VALUE (int_value SVC_CONSTANT 4)] (SPT_OPERATOR SOT_LT 2)))) = Some True"
  using NOT_on_NULL_depends_on_normalisation [of "(int_value SVC_VARIABLE 3)\<lparr>is_null := True\<rparr>"
      "int_value SVC_CONSTANT 4" SOT_LT demo_env]
  by (simp add: int_value_def IS_BYTE_def)

fun and_of_ors :: "nat \<Rightarrow> T_NODE" where
  \<comment> \<open>\<^verbatim>\<open>(a < b OR a < b) AND ... AND (a < b OR a < b)\<close>\<close>
  "and_of_ors 0 = Node SOT_OR 0 0 (Node SOT_LT 0 0 Null Null) (Node SOT_LT 0 0 Null Null)"
| "and_of_ors (Suc n) = Node SOT_AND 0 0 (and_of_ors n) (and_of_ors 0)"

fun or_of_ands :: "nat \<Rightarrow> T_NODE" where
  "or_of_ands 0 = Node SOT_AND 0 0 (Node SOT_LT 0 0 Null Null) (Node SOT_LT 0 0 Null Null)"
| "or_of_ands (Suc n) = Node SOT_OR 0 0 (or_of_ands n) (or_of_ands 0)"

lemma negate_and_of_ors:
  "\<exists>t. norm_negate_op (and_of_ors n) = Some t \<and> est t = 2 ^ Suc n \<and> t \<noteq> Null"
proof (induction n)
  case 0
  then show ?case by (simp add: neg_op_def op_num_def neg_op_tbl_def)
next
  case (Suc n)
  then obtain t where "norm_negate_op (and_of_ors n) = Some t" "est t = 2 ^ Suc n" by blast
  then show ?case by (simp add: neg_op_def op_num_def neg_op_tbl_def)
qed

lemma est_or_of_ands: "est (or_of_ands n) = 2 ^ Suc n \<and> wf_conn (or_of_ands n)"
  by (induction n) auto

text \<open>The size check does not bound the normal form. It sees a NOT as one clause, although
  pushing the NOT inwards can leave a tree of \<^verbatim>\<open>2^(n+1)\<close> clauses; and the product of 32 pairs
  wraps to 0, so the check lets \<^verbatim>\<open>2^32\<close> clauses pass.\<close>

theorem size_check_is_no_bound:
  "(\<forall>n. estimate_cnf_size (Node SOT_NOT 0 0 (and_of_ors n) Null) = Some 1 \<and>
     (\<exists>t. norm_eliminate_NOT (Node SOT_NOT 0 0 (and_of_ors n) Null) = Some t \<and> est t = 2 ^ Suc n)) \<and>
   est (or_of_ands 31) = 2 ^ 32 \<and> estimate_cnf_size (or_of_ands 31) = Some 0"
proof -
  have "est (or_of_ands 31) = 2 ^ 32" "wf_conn (or_of_ands 31)"
    using est_or_of_ands [of 31] by simp_all
  moreover have "(of_nat (2 ^ 32) :: 32 word) = 0" by simp
  ultimately have "estimate_cnf_size (or_of_ands 31) = Some 0"
    using estimate_est [of "or_of_ands 31"] by simp
  with est_or_of_ands [of 31] show ?thesis
    using negate_and_of_ors by fastforce
qed

end
