(* ===== verification/Utf8.thy ===== *)
theory Utf8
  imports Prelude
begin

section \<open>Conversion between UCS-2 and UTF-8 (\<^verbatim>\<open>openML/src/server/common/mdb_ucs2vsutf.c\<close>)\<close>

text \<open>
  A source pointer is the list of the elements that can be read from it on, the terminator
  included; a destination buffer is the list of its cells.  Reading or writing beyond the list is
  the error \<open>Read_overrun\<close> or \<open>Write_overrun\<close>, a negative result of the conversion \<open>Code\<close>.
  \<^verbatim>\<open>UCS2\<close> is a 16-bit, \<^verbatim>\<open>UTF8\<close> an 8-bit word; the local \<^verbatim>\<open>u32\<close> (an
  \<^verbatim>\<open>unsigned long\<close>) never needs more than 32 bits.  The sizes are \<^verbatim>\<open>int\<close>s and are
  not taken near their limits.
\<close>

unbundle bit_operations_syntax

type_synonym UTF8 = "8 word"
type_synonym UCS2 = "16 word"
type_synonym UTF32 = "32 word"

definition conversionOK :: int where "conversionOK = 0"
definition sourceoverbmp :: int where "sourceoverbmp = -1"
definition sourceIllegal :: int where "sourceIllegal = -2"
definition targetExhausted :: int where "targetExhausted = -3"
definition UNI_MAX_BMP :: UTF32 where "UNI_MAX_BMP = 0xFFFF"

datatype conv_fault = Code int | Read_overrun | Write_overrun

definition MC_GetUTF8ByteSize :: "UTF8 \<Rightarrow> nat" where
  "MC_GetUTF8ByteSize c =
     (if c AND 0x80 = 0 then 1 else if drop_bit 5 c = 6 then 2 else if drop_bit 4 c = 0x0e then 3 else 0)"

definition MC_GETUTF8_BYTESEQUENCE_10XXXXXX :: "UTF32 \<Rightarrow> UTF8" where
  \<comment> \<open>with the cast at both places of use\<close>
  "MC_GETUTF8_BYTESEQUENCE_10XXXXXX v = ucast ((v AND 0xBF) OR 0x80)"

fun Convert_isLegalUTF8 :: "UTF8 list \<Rightarrow> conv_fault + bool" where
  "Convert_isLegalUTF8 [] = Inl Read_overrun"
| "Convert_isLegalUTF8 (c # p) =
     (if c = 0 then Inr True
      else if MC_GetUTF8ByteSize c = 1 then Convert_isLegalUTF8 p
      else if MC_GetUTF8ByteSize c = 2 then
        (case p of
           [] \<Rightarrow> Inl Read_overrun
         | c1 # p \<Rightarrow> if drop_bit 6 c1 \<noteq> 2 then Inr False else Convert_isLegalUTF8 p)
      else if MC_GetUTF8ByteSize c = 3 then
        (case p of
           [] \<Rightarrow> Inl Read_overrun
         | c1 # p \<Rightarrow>
             if drop_bit 6 c1 \<noteq> 2 then Inr False
             else
               (case p of
                  [] \<Rightarrow> Inl Read_overrun
                | c2 # p \<Rightarrow> if drop_bit 6 c2 \<noteq> 2 then Inr False else Convert_isLegalUTF8 p))
      else Inr False)"

subsection \<open>UCS-2 to UTF-8\<close>

definition bytes_to_write :: "UTF32 \<Rightarrow> nat option" where
  "bytes_to_write u32 =
     (if u32 < 0x80 then Some 1 else if u32 < 0x800 then Some 2 else if u32 < 0x10000 then Some 3
      else None)"

fun UCS2toUTF8_size :: "UCS2 list \<Rightarrow> int \<Rightarrow> conv_fault + int" where
  \<comment> \<open>called with \<^verbatim>\<open>dest == NULL\<close>: counts the bytes, starting at 1 for the terminator\<close>
  "UCS2toUTF8_size [] targetBufSize = Inl Read_overrun"
| "UCS2toUTF8_size (c # p) targetBufSize =
     (if c = 0 then Inr targetBufSize
      else
        (case bytes_to_write (ucast c) of
           None \<Rightarrow> Inl (Code sourceoverbmp)
         | Some n \<Rightarrow> UCS2toUTF8_size p (targetBufSize + int n)))"

definition write_cell :: "'a list \<Rightarrow> nat \<Rightarrow> 'a \<Rightarrow> conv_fault + 'a list" where
  "write_cell dest i v = (if i < length dest then Inr (dest[i := v]) else Inl Write_overrun)"

definition szFirstByteMark :: "UTF8 list" where
  "szFirstByteMark = [0x00, 0x00, 0xC0, 0xE0, 0xF0, 0xF8, 0xFC]"

definition bind_r :: "conv_fault + 'a \<Rightarrow> ('a \<Rightarrow> conv_fault + 'b) \<Rightarrow> conv_fault + 'b" where
  "bind_r r f = (case r of Inl e \<Rightarrow> Inl e | Inr x \<Rightarrow> f x)"

lemma bind_r_simps [simp]: "bind_r (Inl e) f = Inl e" "bind_r (Inr x) f = f x"
  by (simp_all add: bind_r_def)

definition write_first :: "UTF8 list \<Rightarrow> nat \<Rightarrow> nat \<Rightarrow> UTF32 \<Rightarrow> conv_fault + UTF8 list" where
  "write_first dest i bytesToWrite u32 =
     write_cell dest i (ucast (u32 OR ucast (szFirstByteMark ! bytesToWrite)))"

definition write_bytes :: "UTF8 list \<Rightarrow> nat \<Rightarrow> nat \<Rightarrow> UTF32 \<Rightarrow> conv_fault + UTF8 list" where
  \<comment> \<open>the switch whose cases fall through; \<open>i\<close> is the index after the last byte of this character\<close>
  "write_bytes dest i bytesToWrite u32 =
     (if bytesToWrite = 3 then
        bind_r (write_cell dest (i - 1) (MC_GETUTF8_BYTESEQUENCE_10XXXXXX u32)) (\<lambda>dest.
        bind_r (write_cell dest (i - 2) (MC_GETUTF8_BYTESEQUENCE_10XXXXXX (drop_bit 6 u32))) (\<lambda>dest.
          write_first dest (i - 3) bytesToWrite (drop_bit 6 (drop_bit 6 u32))))
      else if bytesToWrite = 2 then
        bind_r (write_cell dest (i - 1) (MC_GETUTF8_BYTESEQUENCE_10XXXXXX u32)) (\<lambda>dest.
          write_first dest (i - 2) bytesToWrite (drop_bit 6 u32))
      else write_first dest (i - 1) bytesToWrite u32)"

fun UCS2toUTF8_loop :: "UCS2 list \<Rightarrow> int \<Rightarrow> nat \<Rightarrow> UTF8 list \<Rightarrow> conv_fault + int \<times> UTF8 list" where
  "UCS2toUTF8_loop [] targetBufSize i dest = Inl Read_overrun"
| "UCS2toUTF8_loop (c # p) targetBufSize i dest =
     (if c = 0 then bind_r (write_cell dest i 0) (\<lambda>dest. Inr (int i + 1, dest))
      else
        (case bytes_to_write (ucast c) of
           None \<Rightarrow> Inl (Code sourceoverbmp)
         | Some n \<Rightarrow>
             if int (i + n) \<ge> targetBufSize then Inl (Code targetExhausted)
             else bind_r (write_bytes dest (i + n) n (ucast c)) (UCS2toUTF8_loop p targetBufSize (i + n))))"

definition Convert_UCS2toUTF8 :: "UCS2 list \<Rightarrow> UTF8 list option \<Rightarrow> int \<Rightarrow> conv_fault + int \<times> UTF8 list" where
  \<comment> \<open>the result has the new \<^verbatim>\<open>*pdestsize\<close> and the buffer (the empty list without one)\<close>
  "Convert_UCS2toUTF8 source dest destsize =
     (case dest of
        None \<Rightarrow> bind_r (UCS2toUTF8_size source 1) (\<lambda>n. Inr (n, []))
      | Some dest \<Rightarrow> UCS2toUTF8_loop source destsize 0 dest)"

subsection \<open>UTF-8 to UCS-2\<close>

fun utf8_cont :: "nat \<Rightarrow> UTF32 \<Rightarrow> UTF8 list \<Rightarrow> conv_fault + UTF32 \<times> UTF8 list" where
  \<comment> \<open>\<^verbatim>\<open>while (--nBytes > 0)\<close>, for \<open>n\<close> more rounds\<close>
  "utf8_cont 0 u32 p = Inr (u32, p)"
| "utf8_cont (Suc n) u32 [] = Inl Read_overrun"
| "utf8_cont (Suc n) u32 (c # p) = utf8_cont n (push_bit 6 u32 OR (ucast c AND 0x3f)) p"

definition utf8_char :: "int \<Rightarrow> UTF8 \<Rightarrow> UTF8 list \<Rightarrow> conv_fault + UTF32 \<times> UTF8 list" where
  \<comment> \<open>\<open>bad\<close> is the result for a first byte that starts no sequence\<close>
  "utf8_char bad c p =
     (let n = MC_GetUTF8ByteSize c in
      if n = 1 then utf8_cont 0 (ucast c) p
      else if n = 2 then utf8_cont 1 (ucast c AND 0x1F) p
      else if n = 3 then utf8_cont 2 (ucast c AND 0x0F) p
      else Inl (Code bad))"

lemma utf8_cont_length: "utf8_cont n u p = Inr (v, q) \<Longrightarrow> length q \<le> length p"
  by (induction n u p rule: utf8_cont.induct) fastforce+

lemma utf8_char_length: "utf8_char bad c p = Inr (v, q) \<Longrightarrow> length q \<le> length p"
  by (auto simp: utf8_char_def Let_def split: if_splits dest: utf8_cont_length)

function UTF8toUCS2_size :: "UTF8 list \<Rightarrow> int \<Rightarrow> conv_fault + int" where
  "UTF8toUCS2_size [] targetBufSize = Inl Read_overrun"
| "UTF8toUCS2_size (c # p) targetBufSize =
     (if c = 0 then Inr targetBufSize
      else
        (case utf8_char sourceoverbmp c p of
           Inl e \<Rightarrow> Inl e
         | Inr (u32, p) \<Rightarrow>
             if u32 \<le> UNI_MAX_BMP then UTF8toUCS2_size p (targetBufSize + 1)
             else Inl (Code sourceoverbmp)))"
  by pat_completeness auto
termination
  by (relation "measure (\<lambda>(p, n). length p)") (auto dest!: utf8_char_length simp: less_Suc_eq_le)

function UTF8toUCS2_loop :: "UTF8 list \<Rightarrow> int \<Rightarrow> nat \<Rightarrow> UCS2 list \<Rightarrow> conv_fault + int \<times> UCS2 list" where
  "UTF8toUCS2_loop [] targetBufSize i dest = Inl Read_overrun"
| "UTF8toUCS2_loop (c # p) targetBufSize i dest =
     (if c = 0 then bind_r (write_cell dest i 0) (\<lambda>dest. Inr (int i + 1, dest))
      else
        (case utf8_char sourceIllegal c p of
           Inl e \<Rightarrow> Inl e
         | Inr (u32, p) \<Rightarrow>
             if int i \<ge> targetBufSize then Inl (Code targetExhausted)
             else if u32 \<le> UNI_MAX_BMP then
               (case write_cell dest i (ucast u32) of
                  Inl e \<Rightarrow> Inl e
                | Inr dest \<Rightarrow> UTF8toUCS2_loop p targetBufSize (i + 1) dest)
             else Inl (Code sourceoverbmp)))"
  by pat_completeness auto
termination
  by (relation "measure (\<lambda>(p, n, i, d). length p)") (auto dest!: utf8_char_length simp: less_Suc_eq_le)

definition Convert_UTF8toUCS2 :: "UTF8 list \<Rightarrow> UCS2 list option \<Rightarrow> int \<Rightarrow> conv_fault + int \<times> UCS2 list" where
  "Convert_UTF8toUCS2 source dest destsize =
     (case dest of
        None \<Rightarrow> bind_r (UTF8toUCS2_size source 1) (\<lambda>n. Inr (n, []))
      | Some dest \<Rightarrow> UTF8toUCS2_loop source destsize 0 dest)"

subsection \<open>The interface\<close>

text \<open>
  \<^verbatim>\<open>MDB_UCS2toUTF8\<close> and \<^verbatim>\<open>MDB_UTF8toUCS2\<close> are the same text over the two conversions and
  two sets of result codes.  \<^verbatim>\<open>dest\<close> is NULL, points to NULL (the function allocates) or
  points to a buffer.  \<open>malloc\<close> is the allocator: the block for a number of cells, with
  whatever it contains.  What a failed conversion has written to the caller's buffer is not
  tracked.
\<close>

datatype 'b target = No_target | Unallocated | Buffer "'b list"

record convert_codes =
  cc_source :: int
  cc_alloc :: int
  cc_invalidparam :: int
  cc_overbmp :: int
  cc_illegal :: int
  cc_destsize :: int
  cc_unknown :: int

definition convert_code :: "convert_codes \<Rightarrow> int \<Rightarrow> int" where
  "convert_code cs e =
     (if e = sourceoverbmp then cc_overbmp cs
      else if e = sourceIllegal then cc_illegal cs
      else if e = targetExhausted then cc_destsize cs
      else cc_unknown cs)"

definition convert_string ::
    "convert_codes \<Rightarrow> ('s \<Rightarrow> 'b list option \<Rightarrow> int \<Rightarrow> conv_fault + int \<times> 'b list) \<Rightarrow> (nat \<Rightarrow> 'b list option) \<Rightarrow>
     's option \<Rightarrow> 'b target \<Rightarrow> int option \<Rightarrow> conv_fault + int \<times> 'b target \<times> int option" where
  "convert_string cs conv malloc source dest pdestsize =
     (case source of
        None \<Rightarrow> Inr (cc_source cs, dest, pdestsize)
      | Some source \<Rightarrow>
          (case dest of
             No_target \<Rightarrow>
               (case conv source None 0 of
                  Inl (Code e) \<Rightarrow> Inr (convert_code cs e, dest, pdestsize)
                | Inl f \<Rightarrow> Inl f
                | Inr (n, _) \<Rightarrow> Inr (DB_SUCCESS, dest, map_option (\<lambda>_. n) pdestsize))
           | Unallocated \<Rightarrow>
               (case conv source None 0 of
                  Inl (Code e) \<Rightarrow> Inr (convert_code cs e, Unallocated, pdestsize)
                | Inl f \<Rightarrow> Inl f
                | Inr (nLen, _) \<Rightarrow>
                    (case malloc (nat nLen) of
                       None \<Rightarrow> Inr (cc_alloc cs, Unallocated, pdestsize)
                     | Some b \<Rightarrow>
                         (case conv source (Some b) nLen of
                            Inl (Code e) \<Rightarrow> Inr (convert_code cs e, Unallocated, pdestsize)
                          | Inl f \<Rightarrow> Inl f
                          | Inr (n, b) \<Rightarrow> Inr (DB_SUCCESS, Buffer b, map_option (\<lambda>_. n) pdestsize))))
           | Buffer b \<Rightarrow>
               (case pdestsize of
                  Some n \<Rightarrow>
                    if n > 0 then
                      (case conv source (Some b) n of
                         Inl (Code e) \<Rightarrow> Inr (convert_code cs e, dest, pdestsize)
                       | Inl f \<Rightarrow> Inl f
                       | Inr (n, b) \<Rightarrow> Inr (DB_SUCCESS, Buffer b, Some n))
                    else Inr (cc_invalidparam cs, dest, pdestsize)
                | None \<Rightarrow> Inr (cc_invalidparam cs, dest, pdestsize))))"

definition codes1 :: convert_codes where
  "codes1 = \<lparr>cc_source = -1001460, cc_alloc = -1001462, cc_invalidparam = -1001464,
     cc_overbmp = -1001466, cc_illegal = -1001468, cc_destsize = -1001470, cc_unknown = -1001472\<rparr>"

definition codes2 :: convert_codes where
  "codes2 = \<lparr>cc_source = -1001461, cc_alloc = -1001463, cc_invalidparam = -1001465,
     cc_overbmp = -1001467, cc_illegal = -1001469, cc_destsize = -1001471, cc_unknown = -1001473\<rparr>"

definition MDB_UCS2toUTF8 ::
    "(nat \<Rightarrow> UTF8 list option) \<Rightarrow> UCS2 list option \<Rightarrow> UTF8 target \<Rightarrow> int option \<Rightarrow>
      conv_fault + int \<times> UTF8 target \<times> int option" where
  "MDB_UCS2toUTF8 = convert_string codes1 Convert_UCS2toUTF8"

definition MDB_UTF8toUCS2 ::
    "(nat \<Rightarrow> UCS2 list option) \<Rightarrow> UTF8 list option \<Rightarrow> UCS2 target \<Rightarrow> int option \<Rightarrow>
      conv_fault + int \<times> UCS2 target \<times> int option" where
  "MDB_UTF8toUCS2 = convert_string codes2 Convert_UTF8toUCS2"

end
