(* ===== verification/Utf8Codec.thy ===== *)
theory Utf8Codec
  imports Utf8
begin

section \<open>What the conversions between UCS-2 and UTF-8 do\<close>

text \<open>
  The bytes of one character (\<open>enc\<close>) and that the decoder inverts them; the encoding of a string
  (\<open>utf8\<close>, \<open>ucs2\<close>), and that the loops of the program write exactly this inside their buffer;
  and the contract \<open>two_pass\<close> of a conversion that first measures and then fills.
\<close>

subsection \<open>Bits\<close>

lemma and_0x80: "(c :: UTF8) AND 0x80 = 0 \<longleftrightarrow> \<not> bit c 7"
  using and_exp_eq_0_iff_not_bit [of c 7] by simp

lemma masks:
  "(x :: 'a::len word) AND 0x3f = take_bit 6 x" "x AND 0x1f = take_bit 5 x" "x AND 0x0f = take_bit 4 x"
  by (simp_all add: take_bit_eq_mask mask_eq_exp_minus_1)

lemma ucast_8_32: "(ucast (ucast (x :: UTF32) :: UTF8) :: UTF32) = take_bit 8 x"
  by (rule bit_word_eqI) (auto simp: bit_simps)

lemma cont_payload: "ucast (MC_GETUTF8_BYTESEQUENCE_10XXXXXX u) AND (0x3f :: UTF32) = take_bit 6 u"
  unfolding MC_GETUTF8_BYTESEQUENCE_10XXXXXX_def ucast_8_32 masks
  by (simp add: take_bit_or take_bit_and masks)

lemma first3: "drop_bit 4 y = (0::UTF32) \<Longrightarrow> (ucast (ucast (y OR 0xE0) :: UTF8) :: UTF32) AND 0x0F = y"
  unfolding ucast_8_32 masks by (simp add: take_bit_or take_bit_eq_self_iff_drop_bit_eq_0)

lemma first2: "drop_bit 5 y = (0::UTF32) \<Longrightarrow> (ucast (ucast (y OR 0xC0) :: UTF8) :: UTF32) AND 0x1F = y"
  unfolding ucast_8_32 masks by (simp add: take_bit_or take_bit_eq_self_iff_drop_bit_eq_0)

lemma split6: "push_bit 6 (drop_bit 6 (u::UTF32)) OR take_bit 6 u = u"
  by (rule bit_word_eqI) (auto simp: bit_simps)

lemma top2: "drop_bit 6 (x :: UTF8) = 2 \<longleftrightarrow> bit x 7 \<and> \<not> bit x 6"
proof
  assume "drop_bit 6 x = 2"
  then have "bit (drop_bit 6 x) n = bit (2 :: UTF8) n" for n by simp
  from this [of 0] this [of 1] show "bit x 7 \<and> \<not> bit x 6" by (simp add: bit_drop_bit_eq)
next
  assume h: "bit x 7 \<and> \<not> bit x 6"
  show "drop_bit 6 x = 2"
  proof (rule bit_word_eqI)
    fix n assume "n < LENGTH(8)"
    then consider "n = 0" | "n = 1" | "n \<ge> 2" by linarith
    then show "bit (drop_bit 6 x) n \<longleftrightarrow> bit (2 :: UTF8) n"
    proof cases
      case 3
      then have "\<not> bit (2::UTF8) n" using bit_exp_iff [of 1 n, where 'a=UTF8] by simp
      moreover have "\<not> bit x (6+n)" using 3 bit_imp_le_length [of x "6+n"] by auto
      ultimately show ?thesis by (simp add: bit_drop_bit_eq)
    qed (use h in \<open>simp_all add: bit_drop_bit_eq\<close>)
  qed
qed

lemma cont_top: "drop_bit 6 (MC_GETUTF8_BYTESEQUENCE_10XXXXXX u) = 2"
  unfolding top2 MC_GETUTF8_BYTESEQUENCE_10XXXXXX_def by (simp add: bit_simps)

lemma small: fixes u :: UTF32 shows "u < 0x80 \<longleftrightarrow> drop_bit 7 u = 0" "u < 0x800 \<longleftrightarrow> drop_bit 11 u = 0" "u < 0x10000 \<longleftrightarrow> drop_bit 16 u = 0" 
  by (simp_all add: word_less_nat_alt word_unat_eq_iff drop_bit_eq_div unat_div div_eq_0_iff)

lemma drop_bit_ucast8:
  assumes "drop_bit 8 (z :: UTF32) = 0" shows "drop_bit n (ucast z :: UTF8) = ucast (drop_bit n z)"
proof (rule bit_word_eqI)
  fix i
  have "\<not> bit z j" if "j \<ge> 8" for j
  proof -
    have "bit (drop_bit 8 z) (j - 8) = bit (0::UTF32) (j - 8)" by (simp only: assms)
    with that show ?thesis by (simp add: bit_drop_bit_eq)
  qed
  then show "bit (drop_bit n (ucast z :: UTF8)) i = bit (ucast (drop_bit n z) :: UTF8) i" if "i < LENGTH(8)"
    using that by (auto simp: bit_simps not_le intro: ccontr)
qed

lemma drop_bit_0_mono: "drop_bit m y = (0::UTF32) \<Longrightarrow> m \<le> n \<Longrightarrow> drop_bit n y = 0"
  by (metis drop_bit_drop_bit drop_bit_of_0 le_add_diff_inverse2)

lemma size3: "drop_bit 4 y = (0::UTF32) \<Longrightarrow> MC_GetUTF8ByteSize (ucast (y OR 0xE0)) = 3"
  unfolding MC_GetUTF8ByteSize_def and_0x80
  using drop_bit_0_mono [of 4 y 8] drop_bit_0_mono [of 4 y 5]
  by (simp add: drop_bit_ucast8 bit_simps)

lemma size2: "drop_bit 5 y = (0::UTF32) \<Longrightarrow> MC_GetUTF8ByteSize (ucast (y OR 0xC0)) = 2"
  unfolding MC_GetUTF8ByteSize_def and_0x80
  using drop_bit_0_mono [of 5 y 8] 
  by (simp add: drop_bit_ucast8 bit_simps)
lemma size1:
  assumes "drop_bit 7 y = (0 :: UTF32)" shows "MC_GetUTF8ByteSize (ucast y) = 1"
proof -
  have "bit (drop_bit 7 y) 0 = bit (0 :: UTF32) 0" by (simp only: assms)
  then have "\<not> bit y 7" by (simp add: bit_drop_bit_eq)
  then show ?thesis unfolding MC_GetUTF8ByteSize_def and_0x80 by (simp add: bit_simps)
qed

subsection \<open>One character\<close>

definition enc :: "UCS2 \<Rightarrow> UTF8 list" where
  "enc c =
     (let u = ucast c :: UTF32 in
      if u < 0x80 then [ucast u]
      else if u < 0x800 then [ucast (drop_bit 6 u OR 0xC0), MC_GETUTF8_BYTESEQUENCE_10XXXXXX u]
      else [ucast (drop_bit 6 (drop_bit 6 u) OR 0xE0), MC_GETUTF8_BYTESEQUENCE_10XXXXXX (drop_bit 6 u),
            MC_GETUTF8_BYTESEQUENCE_10XXXXXX u])"

lemma ucs2_below: "(ucast (c :: UCS2) :: UTF32) < 0x10000"
proof -
  have "unat c < 2 ^ 16" using unsigned_less [of c, where 'a=nat] by simp
  then show ?thesis by (simp add: word_less_nat_alt unsigned_ucast_eq take_bit_nat_eq_self)
qed

lemma bytes_to_write_enc: "bytes_to_write (ucast c) = Some (length (enc c))"
  using ucs2_below [of c] by (simp add: bytes_to_write_def enc_def Let_def)

lemma utf8_cont_steps:
  "utf8_cont 1 u (c # p) = Inr (push_bit 6 u OR (ucast c AND 0x3f), p)"
  "utf8_cont 2 u (c # d # p) = Inr (push_bit 6 (push_bit 6 u OR (ucast c AND 0x3f)) OR (ucast d AND 0x3f), p)"
  by (simp_all add: numeral_2_eq_2 One_nat_def)

lemma utf8_char_enc:
  assumes "enc c = b # bs" shows "utf8_char bad b (bs @ rest) = Inr (ucast c, rest)"
proof -
  let ?u = "ucast c :: UTF32"
  consider "?u < 0x80" | "\<not> ?u < 0x80" "?u < 0x800" | "\<not> ?u < 0x80" "\<not> ?u < 0x800" by blast
  then show ?thesis
  proof cases
    case 1
    then have d: "drop_bit 7 ?u = 0" by (simp only: small)
    have "(ucast (ucast ?u :: UTF8) :: UTF32) = ?u"
      using drop_bit_0_mono [OF d, of 8] by (simp only: ucast_8_32 take_bit_eq_self_iff_drop_bit_eq_0)
    moreover have "b = ucast ?u" "bs = []" using 1 assms by (simp_all add: enc_def Let_def)
    ultimately show ?thesis
      using size1 [OF d] by (simp add: utf8_char_def Let_def)
  next
    case 2
    then have d: "drop_bit 5 (drop_bit 6 ?u) = 0" by (simp add: small)
    have "b = ucast (drop_bit 6 ?u OR 0xC0)" "bs = [MC_GETUTF8_BYTESEQUENCE_10XXXXXX ?u]"
      using 2 assms by (simp_all only: enc_def Let_def if_False if_True list.inject)
    then show ?thesis
      by (simp only: utf8_char_def Let_def size2 [OF d] append.simps utf8_cont_steps first2 [OF d]
          cont_payload split6) simp
  next
    case 3
    have d: "drop_bit 4 (drop_bit 6 (drop_bit 6 ?u)) = 0" using ucs2_below [of c] by (simp add: small)
    have "b = ucast (drop_bit 6 (drop_bit 6 ?u) OR 0xE0)"
      "bs = [MC_GETUTF8_BYTESEQUENCE_10XXXXXX (drop_bit 6 ?u), MC_GETUTF8_BYTESEQUENCE_10XXXXXX ?u]"
      using 3 assms by (simp_all only: enc_def Let_def if_False if_True list.inject)
    then show ?thesis
      by (simp only: utf8_char_def Let_def size3 [OF d] append.simps utf8_cont_steps first3 [OF d]
          cont_payload split6) simp
  qed
qed

lemma enc_not_Nil: "enc c \<noteq> []"
  by (simp add: enc_def Let_def)

lemma enc_length: "length (enc c) \<le> 3" "length (enc c) \<ge> 1"
  by (simp_all add: enc_def Let_def)

lemma enc_first:
  assumes "enc c = b # bs" and "c \<noteq> 0" shows "b \<noteq> 0"
proof
  assume "b = 0"
  have size: "MC_GetUTF8ByteSize 0 = 1" by (simp add: MC_GetUTF8ByteSize_def)
  from utf8_char_enc [OF assms(1), of 0 "[]"] \<open>b = 0\<close> size have "ucast c = (0 :: UTF32)"
    by (simp add: utf8_char_def)
  then have "unat (ucast c :: UTF32) = 0" by simp
  moreover have "unat c < 2 ^ 32" using unsigned_less [of c, where 'a=nat] by simp
  ultimately have "unat c = 0" by (simp add: unsigned_ucast_eq take_bit_nat_eq_self)
  with assms(2) show False by (simp add: unat_eq_zero)
qed

subsection \<open>Writing one character\<close>

lemma write_cell_ok: "i < length d \<Longrightarrow> write_cell d i v = Inr (d[i := v])"
  by (simp add: write_cell_def)

lemma list_update_append_here: "length xs = i \<Longrightarrow> (xs @ y # ys)[i := v] = xs @ v # ys"
  by (simp add: list_update_append)

lemma write_bytes_enc:
  assumes "i + length (enc c) \<le> length d"
  shows "write_bytes d (i + length (enc c)) (length (enc c)) (ucast c) =
    Inr (take i d @ enc c @ drop (i + length (enc c)) d)"
proof -
  let ?u = "ucast c :: UTF32"
  have split: "d = take i d @ drop i d" by simp
  have len: "length (take i d) = i" using assms by simp
  consider (one) "?u < 0x80" | (two) "\<not> ?u < 0x80" "?u < 0x800" | (three) "\<not> ?u < 0x80" "\<not> ?u < 0x800" by blast
  then show ?thesis
  proof cases
    case one
    then have e: "enc c = [ucast ?u]" by (simp add: enc_def Let_def)
    with assms obtain x xs where x: "drop i d = x # xs" by (cases "drop i d") auto
    have "d[i := v] = take i d @ v # xs" for v
      using split x len list_update_append_here by metis
    with e assms x show ?thesis
      by (simp add: write_bytes_def write_first_def write_cell_ok szFirstByteMark_def drop_Suc tl_drop [symmetric])
  next
    case two
    then have e: "enc c = [ucast (drop_bit 6 ?u OR 0xC0), MC_GETUTF8_BYTESEQUENCE_10XXXXXX ?u]"
      by (simp only: enc_def Let_def if_False if_True)
    with assms have "Suc (Suc 0) \<le> length (drop i d)" by simp
    then obtain x y xs where x: "drop i d = x # y # xs" unfolding Suc_le_length_iff by blast
    have "(d[Suc i := v])[i := w] = take i d @ w # v # xs" for v w
    proof -
      have "(take i d @ x # y # xs)[Suc i := v] = take i d @ x # v # xs"
        using list_update_append_here [of "take i d @ [x]" "Suc i" y xs v] len by simp
      with split x len list_update_append_here show ?thesis by metis
    qed
    moreover have "drop (Suc (Suc i)) d = xs" using x by (metis drop_Suc list.sel(3) tl_drop)
    ultimately show ?thesis
      using e assms by (simp add: write_bytes_def write_first_def write_cell_ok szFirstByteMark_def)
  next
    case three
    then have e: "enc c = [ucast (drop_bit 6 (drop_bit 6 ?u) OR 0xE0),
        MC_GETUTF8_BYTESEQUENCE_10XXXXXX (drop_bit 6 ?u), MC_GETUTF8_BYTESEQUENCE_10XXXXXX ?u]"
      by (simp only: enc_def Let_def if_False if_True)
    with assms have "Suc (Suc (Suc 0)) \<le> length (drop i d)" by simp
    then obtain x y z xs where x: "drop i d = x # y # z # xs" unfolding Suc_le_length_iff by blast
    let ?v = "MC_GETUTF8_BYTESEQUENCE_10XXXXXX ?u" and ?w = "MC_GETUTF8_BYTESEQUENCE_10XXXXXX (drop_bit 6 ?u)"
      and ?q = "ucast (drop_bit 6 (drop_bit 6 ?u) OR 0xE0) :: UTF8"
    have n: "length (enc c) = 3" using e by simp
    have upd: "((d[i + 2 := ?v])[i + 1 := ?w])[i := ?q] = take i d @ ?q # ?w # ?v # xs"
    proof -
      have "(take i d @ x # y # z # xs)[i + 2 := ?v] = take i d @ x # y # ?v # xs"
        using list_update_append_here [of "take i d @ [x, y]" "i + 2" z xs ?v] len by simp
      moreover have "(take i d @ x # y # ?v # xs)[i + 1 := ?w] = take i d @ x # ?w # ?v # xs"
        using list_update_append_here [of "take i d @ [x]" "i + 1" y "?v # xs" ?w] len by simp
      ultimately show ?thesis using split x len list_update_append_here by metis
    qed
    have "i + 3 \<le> length d" using assms n by simp
    then have "write_bytes d (i + 3) 3 ?u = Inr (((d[i + 2 := ?v])[i + 1 := ?w])[i := ?q])"
      by (simp add: write_bytes_def write_first_def write_cell_ok szFirstByteMark_def del: drop_bit_drop_bit)
    moreover have "drop (i + 3) d = xs"
      using arg_cong [OF x, of "drop 3"] by (simp add: add.commute)
    ultimately show ?thesis unfolding n by (simp only: upd e append.simps)
  qed
qed

subsection \<open>Strings\<close>

definition utf8 :: "UCS2 list \<Rightarrow> UTF8 list" where
  "utf8 s = concat (map enc s) @ [0]"

definition ucs2 :: "UCS2 list \<Rightarrow> UCS2 list" where
  "ucs2 s = s @ [0]"

abbreviation no_nul :: "UCS2 list \<Rightarrow> bool" where
  "no_nul s \<equiv> 0 \<notin> set s"

lemma UCS2toUTF8_size_eq:
  "no_nul s \<Longrightarrow> UCS2toUTF8_size (ucs2 s) k = Inr (k + int (length (utf8 s)) - 1)"
  by (induction s arbitrary: k) (auto simp: ucs2_def utf8_def bytes_to_write_enc)

lemma UCS2toUTF8_loop_eq:
  "no_nul s \<Longrightarrow> i + length (utf8 s) \<le> length d \<Longrightarrow> int (i + length (utf8 s)) \<le> n \<Longrightarrow>
   UCS2toUTF8_loop (ucs2 s) n i d =
     Inr (int (i + length (utf8 s)), take i d @ utf8 s @ drop (i + length (utf8 s)) d)"
proof (induction s arbitrary: i d)
  case Nil
  then have "i < length d" by (simp add: utf8_def)
  then show ?case
    by (simp add: ucs2_def utf8_def write_cell_ok upd_conv_take_nth_drop)
next
  case (Cons c s)
  let ?l = "length (enc c)" and ?d = "take i d @ enc c @ drop (i + length (enc c)) d"
  have len: "length (utf8 (c # s)) = ?l + length (utf8 s)" by (simp add: utf8_def)
  have pos: "length (utf8 s) \<ge> 1" by (simp add: utf8_def)
  have "write_bytes d (i + ?l) ?l (ucast c) = Inr ?d"
    using Cons.prems(2) by (intro write_bytes_enc) (simp add: len)
  moreover have "UCS2toUTF8_loop (ucs2 s) n (i + ?l) ?d =
      Inr (int (i + ?l + length (utf8 s)), take (i + ?l) ?d @ utf8 s @ drop (i + ?l + length (utf8 s)) ?d)"
    using Cons.prems by (intro Cons.IH) (simp_all add: len)
  moreover have "\<not> int (i + ?l) \<ge> n" using Cons.prems(3) pos by (simp add: len)
  ultimately show ?case
    using Cons.prems(1,2) by (simp add: ucs2_def utf8_def bytes_to_write_enc algebra_simps)
qed

lemma ucast_back [simp]: "ucast (ucast (c :: UCS2) :: UTF32) = c"
  by (rule bit_word_eqI) (auto simp: bit_simps)

lemma ucs2_max: "(ucast (c :: UCS2) :: UTF32) \<le> UNI_MAX_BMP"
  using ucs2_below [of c] by (simp add: UNI_MAX_BMP_def word_le_nat_alt word_less_nat_alt)

lemma utf8_Cons:
  obtains b bs where "enc c = b # bs" "utf8 (c # s) = b # bs @ utf8 s" "c \<noteq> 0 \<Longrightarrow> b \<noteq> 0"
    "\<And>bad. utf8_char bad b (bs @ utf8 s) = Inr (ucast c, utf8 s)"
proof -
  obtain b bs where e: "enc c = b # bs" using enc_not_Nil [of c] by (cases "enc c") auto
  then have "utf8 (c # s) = b # bs @ utf8 s" by (simp add: utf8_def)
  with that e enc_first [OF e] utf8_char_enc [OF e] show ?thesis by blast
qed

lemma UTF8toUCS2_size_eq:
  "no_nul s \<Longrightarrow> UTF8toUCS2_size (utf8 s) k = Inr (k + int (length s))"
proof (induction s arbitrary: k)
  case Nil
  then show ?case by (simp add: utf8_def)
next
  case (Cons c s)
  obtain b bs where b: "utf8 (c # s) = b # bs @ utf8 s" "c \<noteq> 0 \<Longrightarrow> b \<noteq> 0"
    "\<And>bad. utf8_char bad b (bs @ utf8 s) = Inr (ucast c, utf8 s)"
    by (rule utf8_Cons [of c s]) blast
  with Cons ucs2_max show ?case by simp
qed

text \<open>The decoder on a string of \<open>length s\<close> characters: it fills the buffer, and it notices a
  buffer that is too short only when a character does not fit.\<close>

lemma UTF8toUCS2_loop_eq:
  "no_nul s \<Longrightarrow> i \<le> length d \<Longrightarrow> n = int (length d) \<Longrightarrow>
   UTF8toUCS2_loop (utf8 s) n i d =
     (if i + length s < length d
      then Inr (int (i + length s) + 1, take i d @ ucs2 s @ drop (i + length s + 1) d)
      else if i + length s = length d then Inl Write_overrun else Inl (Code targetExhausted))"
proof (induction s arbitrary: i d)
  case Nil
  then show ?case
    by (simp add: utf8_def ucs2_def write_cell_def upd_conv_take_nth_drop)
next
  case (Cons c s)
  obtain b bs where b: "utf8 (c # s) = b # bs @ utf8 s" "b \<noteq> 0"
    "\<And>bad. utf8_char bad b (bs @ utf8 s) = Inr (ucast c, utf8 s)"
    using Cons.prems(1) by (metis utf8_Cons list.set_intros(1))
  show ?case
  proof (cases "i < length d")
    case False
    with b Cons.prems show ?thesis by simp
  next
    case True
    let ?d = "d[i := c]"
    have ih: "UTF8toUCS2_loop (utf8 s) n (i + 1) ?d =
      (if i + 1 + length s < length d
       then Inr (int (i + 1 + length s) + 1, take (i + 1) ?d @ ucs2 s @ drop (i + 1 + length s + 1) ?d)
       else if i + 1 + length s = length d then Inl Write_overrun else Inl (Code targetExhausted))"
      using Cons.IH [of "i + 1" ?d] Cons.prems True by simp
    have "take (i + 1) ?d = take i d @ [c]" using True by (simp add: take_Suc_conv_app_nth)
    with b Cons.prems(3) True ih ucs2_max show ?thesis
      by (simp add: write_cell_ok ucs2_def)
  qed
qed

subsection \<open>Two passes\<close>

text \<open>The functions of the interface convert twice, first without a buffer to learn the size.  The
  contract: on the representation \<open>src t\<close> of a good string, the first pass returns the length of
  \<open>out t\<close> and the second fills a buffer of this length with \<open>out t\<close>.\<close>

locale two_pass =
  fixes conv :: "'s \<Rightarrow> 'b list option \<Rightarrow> int \<Rightarrow> conv_fault + int \<times> 'b list"
    and good :: "'t \<Rightarrow> bool" and src :: "'t \<Rightarrow> 's" and out :: "'t \<Rightarrow> 'b list"
  assumes size_pass: "good t \<Longrightarrow> conv (src t) None 0 = Inr (int (length (out t)), [])"
    and fill_pass: "good t \<Longrightarrow> length d = length (out t) \<Longrightarrow>
      conv (src t) (Some d) (int (length (out t))) = Inr (int (length (out t)), out t)"
begin

lemma allocating:
  assumes "good t" and "malloc (length (out t)) = Some b" and "length b = length (out t)"
  shows "convert_string cs conv malloc (Some (src t)) Unallocated sz =
     Inr (DB_SUCCESS, Buffer (out t), map_option (\<lambda>_. int (length (out t))) sz)"
  using assms by (simp add: convert_string_def size_pass fill_pass)

lemma no_memory:
  assumes "good t" and "malloc (length (out t)) = None"
  shows "convert_string cs conv malloc (Some (src t)) Unallocated sz = Inr (cc_alloc cs, Unallocated, sz)"
  using assms by (simp add: convert_string_def size_pass)

lemma size_only:
  assumes "good t"
  shows "convert_string cs conv malloc (Some (src t)) No_target sz =
     Inr (DB_SUCCESS, No_target, map_option (\<lambda>_. int (length (out t))) sz)"
  using assms by (simp add: convert_string_def size_pass)

end

interpretation to_utf8: two_pass Convert_UCS2toUTF8 no_nul ucs2 utf8
proof
  show "Convert_UCS2toUTF8 (ucs2 t) None 0 = Inr (int (length (utf8 t)), [])" if "no_nul t" for t
    using that by (simp add: Convert_UCS2toUTF8_def UCS2toUTF8_size_eq)
  show "Convert_UCS2toUTF8 (ucs2 t) (Some d) (int (length (utf8 t))) = Inr (int (length (utf8 t)), utf8 t)"
    if "no_nul t" "length d = length (utf8 t)" for t d
    using that by (simp add: Convert_UCS2toUTF8_def UCS2toUTF8_loop_eq)
qed

interpretation to_ucs2: two_pass Convert_UTF8toUCS2 no_nul utf8 ucs2
proof
  show "Convert_UTF8toUCS2 (utf8 t) None 0 = Inr (int (length (ucs2 t)), [])" if "no_nul t" for t
    using that by (simp add: Convert_UTF8toUCS2_def UTF8toUCS2_size_eq ucs2_def)
  show "Convert_UTF8toUCS2 (utf8 t) (Some d) (int (length (ucs2 t))) = Inr (int (length (ucs2 t)), ucs2 t)"
    if "no_nul t" "length d = length (ucs2 t)" for t d
    using that UTF8toUCS2_loop_eq [of t 0 d "int (length d)"] by (simp add: Convert_UTF8toUCS2_def ucs2_def)
qed

end
