(* ===== verification/Utf8Claims.thy ===== *)
theory Utf8Claims
  imports Utf8Codec
begin

section \<open>Properties of the conversion between UCS-2 and UTF-8\<close>

text \<open>
  The properties of \<^verbatim>\<open>mdb_ucs2vsutf.c\<close>, for callers that let the function allocate and for
  callers that bring a buffer.
\<close>

subsection \<open>Any source, any buffer\<close>

lemma write_bytes_length:
  "write_bytes d (i + length (enc c)) (length (enc c)) (ucast c) = Inr d' \<Longrightarrow>
   i + length (enc c) \<le> length d \<Longrightarrow> length d' = length d"
  by (auto simp: write_bytes_enc)

lemma UCS2toUTF8_loop_in_buffer:
  "int i < n \<Longrightarrow> n \<le> int (length d) \<Longrightarrow> UCS2toUTF8_loop p n i d \<noteq> Inl Write_overrun"
proof (induction p arbitrary: i d)
  case Nil
  then show ?case by simp
next
  case (Cons c p)
  show ?case
  proof (cases "c = 0 \<or> int (i + length (enc c)) \<ge> n")
    case True
    with Cons.prems show ?thesis by (auto simp: write_cell_ok bytes_to_write_enc)
  next
    case False
    let ?d = "take i d @ enc c @ drop (i + length (enc c)) d"
    have "write_bytes d (i + length (enc c)) (length (enc c)) (ucast c) = Inr ?d"
      using False Cons.prems by (intro write_bytes_enc) simp
    moreover have "UCS2toUTF8_loop p n (i + length (enc c)) ?d \<noteq> Inl Write_overrun"
      using False Cons.prems by (intro Cons.IH) simp_all
    ultimately show ?thesis using False by (simp add: bytes_to_write_enc)
  qed
qed

text \<open>C7: \<^verbatim>\<open>Convert_UCS2toUTF8\<close> stays inside the caller's buffer on every source, whatever
  the string is and however short the buffer, once it has one byte and the size passed is not larger than
  the buffer.\<close>

theorem UCS2toUTF8_stays_in_buffer:
  assumes "0 < n" and "n \<le> int (length d)"
  shows "Convert_UCS2toUTF8 source (Some d) n \<noteq> Inl Write_overrun"
  using assms UCS2toUTF8_loop_in_buffer [of 0 n d source] by (simp add: Convert_UCS2toUTF8_def)

theorem UCS2toUTF8_stays_in_buffer_witness:
  "Convert_UCS2toUTF8 [0x41, 0xAC00, 0] (Some [0, 0, 0, 0]) 4 \<noteq> Inl Write_overrun"
  by (rule UCS2toUTF8_stays_in_buffer) simp_all

subsection \<open>Legal strings\<close>

lemma utf8_char_cases:
  "MC_GetUTF8ByteSize c = 1 \<Longrightarrow> utf8_char bad c p = Inr (ucast c, p)"
  "MC_GetUTF8ByteSize c = 2 \<Longrightarrow> utf8_char bad c (d # p) = Inr (push_bit 6 (ucast c AND 0x1F) OR (ucast d AND 0x3f), p)"
  "MC_GetUTF8ByteSize c = 3 \<Longrightarrow> utf8_char bad c (d # e # p) =
     Inr (push_bit 6 (push_bit 6 (ucast c AND 0x0F) OR (ucast d AND 0x3f)) OR (ucast e AND 0x3f), p)"
  by (simp_all add: utf8_char_def utf8_cont_steps)

lemma take_bit_16: "take_bit 16 (u :: UTF32) = u \<longleftrightarrow> u \<le> UNI_MAX_BMP"
  using small(3) [of u] by (simp add: UNI_MAX_BMP_def take_bit_eq_self_iff_drop_bit_eq_0 word_le_nat_alt word_less_nat_alt)
    linarith

lemma payload_bmp:
  "(ucast (c :: UTF8) :: UTF32) \<le> UNI_MAX_BMP"
  "push_bit 6 (ucast c AND 0x1F) OR (ucast d AND 0x3f) \<le> UNI_MAX_BMP"
  "push_bit 6 (push_bit 6 (ucast c AND 0x0F) OR (ucast d AND 0x3f)) OR (ucast e AND 0x3f) \<le> UNI_MAX_BMP"
    for c d e :: UTF8
  unfolding take_bit_16 [symmetric] masks
  by (rule bit_word_eqI, use bit_imp_le_length [of c] in \<open>force simp: bit_simps\<close>)+


lemma legal_char:
  assumes "Convert_isLegalUTF8 (c # p) = Inr True" and "c \<noteq> 0"
  obtains u q where "\<And>bad. utf8_char bad c p = Inr (u, q)" "u \<le> UNI_MAX_BMP"
    "Convert_isLegalUTF8 q = Inr True"
proof -
  consider (one) "MC_GetUTF8ByteSize c = 1" | (two) "MC_GetUTF8ByteSize c = 2" | (three) "MC_GetUTF8ByteSize c = 3"
    using assms by (auto split: if_splits)
  then show ?thesis
  proof cases
    case one
    with assms that [OF utf8_char_cases(1)] payload_bmp(1) show ?thesis by simp
  next
    case two
    with assms obtain d q where "p = d # q" "Convert_isLegalUTF8 q = Inr True"
      by (auto split: list.splits if_splits)
    with two that [of _ q] utf8_char_cases(2) payload_bmp(2) show ?thesis by metis
  next
    case three
    with assms obtain d e q where "p = d # e # q" "Convert_isLegalUTF8 q = Inr True"
      by (auto split: list.splits if_splits)
    with three that [of _ q] utf8_char_cases(3) payload_bmp(3) show ?thesis by metis
  qed
qed

lemma legal_sized:
  "Convert_isLegalUTF8 p = Inr True \<Longrightarrow> \<exists>m. UTF8toUCS2_size p k = Inr (k + int m)"
proof (induction "length p" arbitrary: p k rule: less_induct)
  case less
  show ?case
  proof (cases p)
    case Nil
    with less.prems show ?thesis by simp
  next
    case (Cons c q)
    show ?thesis
    proof (cases "c = 0")
      case True
      then show ?thesis using Cons by (intro exI [of _ 0]) simp
    next
      case False
      from legal_char [of c q] False less.prems Cons obtain u r where
        u: "\<And>bad. utf8_char bad c q = Inr (u, r)" "u \<le> UNI_MAX_BMP" "Convert_isLegalUTF8 r = Inr True"
        by metis
      have "length r < length p" using utf8_char_length [OF u(1)] Cons by simp
      with less.hyps [OF _ u(3), of "k + 1"] obtain m where "UTF8toUCS2_size r (k + 1) = Inr (k + 1 + int m)"
        by blast
      with u Cons False show ?thesis by (intro exI [of _ "Suc m"]) simp
    qed
  qed
qed

text \<open>The second pass agrees with the first on the length.\<close>

lemma utf8_char_bad:
  "utf8_char bad c p = Inr r \<Longrightarrow> utf8_char bad' c p = Inr r"
  by (auto simp: utf8_char_def Let_def split: if_splits)

lemma sized_filled:
  "UTF8toUCS2_size p k = Inr (k + int m) \<Longrightarrow> i + m < length d \<Longrightarrow> n = int (length d) \<Longrightarrow>
   \<exists>d'. UTF8toUCS2_loop p n i d = Inr (int (i + m) + 1, d') \<and> length d' = length d"
proof (induction "length p" arbitrary: p k m i d rule: less_induct)
  case less
  show ?case
  proof (cases p)
    case Nil
    with less.prems show ?thesis by simp
  next
    case (Cons c q)
    show ?thesis
    proof (cases "c = 0")
      case True
      with less.prems Cons show ?thesis by (simp add: write_cell_ok)
    next
      case False
      with less.prems(1) Cons obtain u r where u: "utf8_char sourceoverbmp c q = Inr (u, r)"
        "u \<le> UNI_MAX_BMP" and s: "UTF8toUCS2_size r (k + 1) = Inr (k + int m)"
        by (auto split: sum.splits if_splits)
      have ge: "UTF8toUCS2_size p k = Inr j \<Longrightarrow> k \<le> j" for p k j
        by (induction p k rule: UTF8toUCS2_size.induct) (fastforce split: if_splits sum.splits)+
      from ge [OF s] obtain m' where m: "m = Suc m'" by (cases m) auto
      have "length r < length p" using utf8_char_length [OF u(1)] Cons by simp
      from less.hyps [OF this, of "k + 1" m' "i + 1" "d[i := ucast u]"] s m less.prems
      obtain d' where "UTF8toUCS2_loop r n (i + 1) (d[i := ucast u]) = Inr (int (i + 1 + m') + 1, d')"
        "length d' = length d"
        by auto
      with u Cons False m less.prems utf8_char_bad [OF u(1), of sourceIllegal] show ?thesis
        by (simp add: write_cell_ok)
    qed
  qed
qed

text \<open>C8: A string that \<^verbatim>\<open>Convert_isLegalUTF8\<close> accepts is always converted by
  \<^verbatim>\<open>MDB_UTF8toUCS2\<close> when the memory can be had: no error code, nothing read beyond the
  terminator, nothing written beyond the allocated block, and the size given back is the one of the
  block.\<close>

theorem legal_is_converted:
  assumes "Convert_isLegalUTF8 source = Inr True"
    and malloc: "\<forall>n. \<exists>b. malloc n = Some b \<and> length b = n"
  shows "\<exists>t. MDB_UTF8toUCS2 malloc (Some source) Unallocated (Some sz) =
    Inr (DB_SUCCESS, Buffer t, Some (int (length t)))"
proof -
  from legal_sized [OF assms(1)] obtain m where size: "UTF8toUCS2_size source 1 = Inr (1 + int m)" by blast
  obtain b where b: "malloc (nat (1 + int m)) = Some b" "length b = nat (1 + int m)" using malloc by blast
  then have "int (length b) = 1 + int m" by simp
  with sized_filled [OF size, of 0 b "1 + int m"] obtain t where
    "UTF8toUCS2_loop source (1 + int m) 0 b = Inr (int m + 1, t)" "length t = length b" by auto
  with b size show ?thesis
    by (auto simp: MDB_UTF8toUCS2_def convert_string_def Convert_UTF8toUCS2_def)
qed

theorem legal_is_converted_witness:
  "\<exists>t. MDB_UTF8toUCS2 (\<lambda>n. Some (replicate n 7)) (Some [0x41, 0xEA, 0xB0, 0x80, 0]) Unallocated (Some 0) =
    Inr (DB_SUCCESS, Buffer t, Some (int (length t)))"
proof (rule legal_is_converted)
  show "Convert_isLegalUTF8 [0x41, 0xEA, 0xB0, 0x80, 0] = Inr True" by code_simp
qed simp

subsection \<open>Round trip\<close>

lemma enc_bytes:
  assumes "enc c = b # bs"
  shows "MC_GetUTF8ByteSize b = length (enc c) \<and> (\<forall>x \<in> set bs. drop_bit 6 x = 2)"
proof -
  let ?u = "ucast c :: UTF32"
  consider "?u < 0x80" | "\<not> ?u < 0x80" "?u < 0x800" | "\<not> ?u < 0x80" "\<not> ?u < 0x800" by blast
  then show ?thesis
  proof cases
    case 1
    then have "b = ucast ?u" "bs = []" using assms by (simp_all add: enc_def Let_def)
    moreover have "drop_bit 7 ?u = 0" using 1 by (simp only: small)
    ultimately show ?thesis using assms size1 by simp
  next
    case 2
    then have d: "drop_bit 5 (drop_bit 6 ?u) = 0" by (simp add: small)
    have "b = ucast (drop_bit 6 ?u OR 0xC0)" "bs = [MC_GETUTF8_BYTESEQUENCE_10XXXXXX ?u]"
      using 2 assms by (simp_all only: enc_def Let_def if_False if_True list.inject)
    with assms size2 [OF d] show ?thesis by (simp add: cont_top del: drop_bit_drop_bit)
  next
    case 3
    have d: "drop_bit 4 (drop_bit 6 (drop_bit 6 ?u)) = 0" using ucs2_below [of c] by (simp add: small)
    have "b = ucast (drop_bit 6 (drop_bit 6 ?u) OR 0xE0)"
      "bs = [MC_GETUTF8_BYTESEQUENCE_10XXXXXX (drop_bit 6 ?u), MC_GETUTF8_BYTESEQUENCE_10XXXXXX ?u]"
      using 3 assms by (simp_all only: enc_def Let_def if_False if_True list.inject)
    with assms size3 [OF d] show ?thesis by (simp add: cont_top del: drop_bit_drop_bit)
  qed
qed

lemma enc_shape:
  obtains (one) b where "enc c = [b]" "MC_GetUTF8ByteSize b = 1"
    | (two) b x where "enc c = [b, x]" "MC_GetUTF8ByteSize b = 2" "drop_bit 6 x = 2"
    | (three) b x y where "enc c = [b, x, y]" "MC_GetUTF8ByteSize b = 3" "drop_bit 6 x = 2" "drop_bit 6 y = 2"
proof -
  obtain b bs where e: "enc c = b # bs" using enc_not_Nil [of c] by (cases "enc c") auto
  note b = enc_bytes [OF e]
  consider "bs = []" | x where "bs = [x]" | x y where "bs = [x, y]"
    using e enc_length(1) [of c] by (cases bs; cases "tl bs") auto
  then show ?thesis
  proof cases
    case 1
    then show ?thesis using b e one by simp
  next
    case 2
    then show ?thesis using b e two by simp
  next
    case 3
    then show ?thesis using b e three by simp
  qed
qed

lemma enc_legal:
  assumes "c \<noteq> 0" shows "Convert_isLegalUTF8 (enc c @ rest) = Convert_isLegalUTF8 rest"
  using assms enc_first [of c] by (cases c rule: enc_shape) simp_all

lemma encs_legal:
  "no_nul s \<Longrightarrow> Convert_isLegalUTF8 (concat (map enc s) @ rest) = Convert_isLegalUTF8 rest"
  by (induction s) (simp_all add: enc_legal)

lemma utf8_legal: "no_nul s \<Longrightarrow> Convert_isLegalUTF8 (utf8 s) = Inr True"
  by (simp add: utf8_def encs_legal)

lemma encs_sized:
  "no_nul s \<Longrightarrow> UTF8toUCS2_size (concat (map enc s) @ rest) k = UTF8toUCS2_size rest (k + int (length s))"
proof (induction s arbitrary: k)
  case Nil
  then show ?case by simp
next
  case (Cons c s)
  obtain b bs where e: "enc c = b # bs" using enc_not_Nil [of c] by (cases "enc c") auto
  with Cons enc_first [OF e] utf8_char_enc [OF e] ucs2_max show ?case by (simp add: add.assoc)
qed



subsection \<open>The caller's buffer of the other direction\<close>

text \<open>C20: \<^verbatim>\<open>Convert_UTF8toUCS2\<close> with a buffer of the caller, on the encoding of
  a string: it succeeds exactly if the string fits with its terminator; with one element less it
  writes the terminator behind the buffer (\<^verbatim>\<open>dest[i]\<close> is not compared with
  \<^verbatim>\<open>targetBufSize\<close> after the loop); with less than that it reports
  \<^verbatim>\<open>targetExhausted\<close>.\<close>

theorem UTF8toUCS2_into_buffer:
  assumes "0 \<notin> set s"
  shows "Convert_UTF8toUCS2 (utf8 s) (Some d) (int (length d)) =
     (if length s < length d then Inr (int (length s) + 1, s @ [0] @ drop (length s + 1) d)
      else if length s = length d then Inl Write_overrun else Inl (Code targetExhausted))"
  using UTF8toUCS2_loop_eq [OF assms, of 0 d "int (length d)"] by (simp add: Convert_UTF8toUCS2_def ucs2_def)

theorem UTF8toUCS2_into_buffer_witness:
  "Convert_UTF8toUCS2 (utf8 [0x41, 0xAC00]) (Some [0, 0]) 2 = Inl Write_overrun"
  using UTF8toUCS2_into_buffer [of "[0x41, 0xAC00]" "[0, 0]"] by simp

lemma truncated_sized:
  "MC_GetUTF8ByteSize b = 2 \<Longrightarrow> b \<noteq> 0 \<Longrightarrow> UTF8toUCS2_size [b, 0] k = Inl Read_overrun"
  "MC_GetUTF8ByteSize b = 3 \<Longrightarrow> b \<noteq> 0 \<Longrightarrow> UTF8toUCS2_size [b, x, 0] k = Inl Read_overrun"
  using payload_bmp(2) [of b 0] payload_bmp(3) [of b x 0] by (simp_all add: utf8_char_cases)

text \<open>C21: A string cut in the middle of a character: \<^verbatim>\<open>Convert_isLegalUTF8\<close> refuses it,
  without looking behind the terminator, for every cut of the encoding of a character of several bytes;
  the decoder, which does not ask it, takes the terminator for a byte of the character and reads on
  behind the string.\<close>

theorem truncated_character:
  assumes "length (enc c) = 2 \<or> length (enc c) = 3" and "0 \<notin> set s"
  shows "let t = concat (map enc s) @ butlast (enc c) @ [0] in
    Convert_isLegalUTF8 t = Inr False \<and> MDB_UTF8toUCS2 malloc (Some t) Unallocated sz = Inl Read_overrun"
proof -
  have "c \<noteq> 0" using assms(1) by (auto simp: enc_def)
  then have "Convert_isLegalUTF8 (butlast (enc c) @ [0]) = Inr False \<and>
      UTF8toUCS2_size (butlast (enc c) @ [0]) k = Inl Read_overrun" for k
    using assms(1) enc_first [of c]
    by (cases c rule: enc_shape) (simp_all add: truncated_sized del: UTF8toUCS2_size.simps)
  with assms(2) show ?thesis
    by (simp add: encs_legal encs_sized MDB_UTF8toUCS2_def convert_string_def Convert_UTF8toUCS2_def)
qed

theorem truncated_character_witness:
  "let t = concat (map enc [0x41]) @ butlast (enc 0xAC00) @ [0] in
    Convert_isLegalUTF8 t = Inr False \<and> MDB_UTF8toUCS2 (\<lambda>n. None) (Some t) Unallocated None = Inl Read_overrun"
proof (rule truncated_character)
  show "length (enc 0xAC00) = 2 \<or> length (enc 0xAC00) = 3" by code_simp
qed simp

text \<open>Legality is weaker than the table in the source: \<^verbatim>\<open>Convert_isLegalUTF8\<close>
  accepts overlong forms (C1 81 for the letter A) and encoded surrogates (ED A0 80), and the decoder
  returns them, so that decoding and encoding again is not the identity on accepted strings.\<close>

theorem overlong_is_legal:
  "Convert_isLegalUTF8 [0xC1, 0x81, 0] = Inr True \<and>
   Convert_UTF8toUCS2 [0xC1, 0x81, 0] (Some [0, 0]) 2 = Inr (2, [0x41, 0]) \<and>
   Convert_UCS2toUTF8 [0x41, 0] (Some [0, 0, 0]) 3 = Inr (2, [0x41, 0, 0]) \<and>
   Convert_isLegalUTF8 [0xED, 0xA0, 0x80, 0] = Inr True \<and>
   Convert_UTF8toUCS2 [0xED, 0xA0, 0x80, 0] (Some [0, 0]) 2 = Inr (2, [0xD800, 0])"
  by code_simp

end
