(* ===== verification/Comparison.thy ===== *)
theory Comparison
  imports Prelude "HOL-Library.List_Lexorder"
begin

section \<open>Comparison functions\<close>

text \<open>
  The interface between keys and indexes: a function with the sign convention of
  \<^verbatim>\<open>strcmp\<close> that is an order on the values in \<open>R\<close>.  Descending order, comparison field by field and
  comparison of a part of a value keep it.
\<close>

locale comparison =
  fixes cmp :: "'a \<Rightarrow> 'a \<Rightarrow> int" and R :: "'a set"
  assumes opposite: "a \<in> R \<Longrightarrow> b \<in> R \<Longrightarrow> sgn (cmp b a) = - sgn (cmp a b)"
    and le_trans: "a \<in> R \<Longrightarrow> b \<in> R \<Longrightarrow> c \<in> R \<Longrightarrow> cmp a b \<le> 0 \<Longrightarrow> cmp b c \<le> 0 \<Longrightarrow> cmp a c \<le> 0"
begin

lemma turn: "a \<in> R \<Longrightarrow> b \<in> R \<Longrightarrow> 0 \<le> cmp a b \<longleftrightarrow> cmp b a \<le> 0"
  using opposite [of a b] by (auto simp: sgn_if split: if_splits)

lemma itself: "a \<in> R \<Longrightarrow> cmp a a = 0"
  using opposite [of a a] by (auto simp: sgn_if split: if_splits)

lemma equal_trans: "a \<in> R \<Longrightarrow> b \<in> R \<Longrightarrow> c \<in> R \<Longrightarrow> cmp a b = 0 \<Longrightarrow> cmp b c = 0 \<Longrightarrow> cmp a c = 0"
  using le_trans [of a b c] le_trans [of c b a] turn [of a b] turn [of b c] turn [of a c] by auto

lemma profile:
  assumes "r \<in> R" and "a \<in> R" and "b \<in> R" and "cmp a b \<le> 0"
  shows "sgn (cmp r b) \<le> sgn (cmp r a)"
proof -
  have "0 \<le> cmp r b \<Longrightarrow> 0 \<le> cmp r a" using assms turn [of r a] turn [of r b] le_trans [of a b r] by blast
  moreover have "0 < cmp r b \<Longrightarrow> 0 < cmp r a" using assms le_trans [of r a b] by force
  ultimately show ?thesis by (auto simp: sgn_if)
qed

lemma congruent: "a \<in> R \<Longrightarrow> b \<in> R \<Longrightarrow> c \<in> R \<Longrightarrow> cmp a b = 0 \<Longrightarrow> sgn (cmp a c) = sgn (cmp b c)"
  using profile [of c a b] profile [of c b a] opposite [of a b] opposite [of c a] opposite [of c b] by (auto simp: sgn_if split: if_splits)

end

lemma comparison_key:
  fixes k :: "'a \<Rightarrow> 'b::linorder"
  assumes "\<And>a b. a \<in> R \<Longrightarrow> b \<in> R \<Longrightarrow> sgn (cmp a b) = (if k a < k b then -1 else if k a = k b then 0 else 1)"
  shows "comparison cmp R"
proof
  show "sgn (cmp b a) = - sgn (cmp a b)" if "a \<in> R" "b \<in> R" for a b
    using that assms by auto
  have le: "cmp a b \<le> 0 \<longleftrightarrow> k a \<le> k b" if "a \<in> R" "b \<in> R" for a b
    using assms [OF that] by (auto simp: sgn_if split: if_splits)
  show "cmp a c \<le> 0" if "a \<in> R" "b \<in> R" "c \<in> R" "cmp a b \<le> 0" "cmp b c \<le> 0" for a b c
    using that le by (meson order_trans)
qed

lemma comparison_part: "comparison cmp S \<Longrightarrow> (\<And>a. a \<in> R \<Longrightarrow> f a \<in> S) \<Longrightarrow> comparison (\<lambda>a b. cmp (f a) (f b)) R"
  unfolding comparison_def by blast

lemma comparison_subset: "comparison cmp S \<Longrightarrow> R \<subseteq> S \<Longrightarrow> comparison cmp R"
  using comparison_part [of cmp S R "\<lambda>a. a"] by auto

lemma comparison_minus:
  assumes "comparison cmp R"
  shows "comparison (\<lambda>a b. - cmp a b) R"
proof
  fix a b c assume R: "a \<in> R" "b \<in> R"
  show "sgn (- cmp b a) = - sgn (- cmp a b)" using comparison.opposite [OF assms R] by (simp add: sgn_minus)
  assume "c \<in> R" "- cmp a b \<le> 0" "- cmp b c \<le> 0"
  with R comparison.turn [OF assms] comparison.le_trans [OF assms, of c b a] show "- cmp a c \<le> 0" by simp
qed

lemma comparison_lex:
  assumes f: "comparison f R" and g: "comparison g R"
  shows "comparison (\<lambda>a b. if f a b \<noteq> 0 then f a b else g a b) R"
proof
  fix a b c assume R: "a \<in> R" "b \<in> R"
  show "sgn (if f b a \<noteq> 0 then f b a else g b a) = - sgn (if f a b \<noteq> 0 then f a b else g a b)"
    using comparison.opposite [OF f R] comparison.opposite [OF g R] by (auto simp: sgn_if split: if_splits)
  assume c: "c \<in> R" and ab: "(if f a b \<noteq> 0 then f a b else g a b) \<le> 0" and bc: "(if f b c \<noteq> 0 then f b c else g b c) \<le> 0"
  then have "f a b \<le> 0" "f b c \<le> 0" by (auto split: if_splits)
  then have "f a c \<le> 0" using comparison.le_trans [OF f R c] by blast
  moreover have "g a c \<le> 0" if ac: "f a c = 0"
  proof -
    have "f c a = 0" using comparison.opposite [OF f, of a c] R c ac by (auto simp: sgn_if split: if_splits)
    then have "f b a \<le> 0" "f c b \<le> 0"
      using comparison.le_trans [OF f, of b c a] comparison.le_trans [OF f, of c a b] R c \<open>f a b \<le> 0\<close> \<open>f b c \<le> 0\<close> by auto
    with \<open>f a b \<le> 0\<close> \<open>f b c \<le> 0\<close> comparison.turn [OF f] R c have "f a b = 0" "f b c = 0"
      by (metis antisym)+
    with ab bc show ?thesis using comparison.le_trans [OF g R c] by simp
  qed
  ultimately show "(if f a c \<noteq> 0 then f a c else g a c) \<le> 0" by simp
qed

lemma comparison_sgn:
  assumes cmp: "comparison cmp R" and same: "\<And>a b. a \<in> R \<Longrightarrow> b \<in> R \<Longrightarrow> sgn (cmp' a b) = sgn (cmp a b)"
  shows "comparison cmp' R"
proof
  fix a b c assume R: "a \<in> R" "b \<in> R"
  show "sgn (cmp' b a) = - sgn (cmp' a b)" using comparison.opposite [OF cmp R] same R by simp
  have le: "cmp' x y \<le> 0 \<longleftrightarrow> cmp x y \<le> 0" if "x \<in> R" "y \<in> R" for x y
    using same [OF that] by (auto simp: sgn_if split: if_splits)
  assume "c \<in> R" "cmp' a b \<le> 0" "cmp' b c \<le> 0"
  with R comparison.le_trans [OF cmp, of a b c] show "cmp' a c \<le> 0" by (simp add: le)
qed

lemma comparison_zero: "comparison (\<lambda>a b. 0) R"
  by unfold_locales simp_all

fun with_null :: "int \<Rightarrow> ('a \<Rightarrow> 'a \<Rightarrow> int) \<Rightarrow> 'a option \<Rightarrow> 'a option \<Rightarrow> int" where
  "with_null n d None None = 0"
| "with_null n d None (Some y) = n"
| "with_null n d (Some x) None = - n"
| "with_null n d (Some x) (Some y) = d x y"

lemma comparison_with_null:
  assumes d: "comparison d R" and n: "n = 1 \<or> n = - 1"
  shows "comparison (with_null n d) {v. \<forall>x. v = Some x \<longrightarrow> x \<in> R}"
proof
  fix u v w assume uv: "u \<in> {v. \<forall>x. v = Some x \<longrightarrow> x \<in> R}" "v \<in> {v. \<forall>x. v = Some x \<longrightarrow> x \<in> R}"
  show "sgn (with_null n d v u) = - sgn (with_null n d u v)"
    using uv comparison.opposite [OF d, of "the u" "the v"] n by (cases u; cases v; auto)
  assume w: "w \<in> {v. \<forall>x. v = Some x \<longrightarrow> x \<in> R}" and le: "with_null n d u v \<le> 0" "with_null n d v w \<le> 0"
  show "with_null n d u w \<le> 0"
  proof (cases u)
    case u: (Some x)
    show ?thesis
    proof (cases v)
      case v: (Some y)
      show ?thesis
      proof (cases w)
        case (Some z)
        with u v uv w le comparison.le_trans [OF d, of x y z] show ?thesis by simp
      qed (use u v le n in auto)
    qed (use u le n in \<open>cases w; auto\<close>)
  qed (use le n in \<open>cases v; cases w; auto\<close>)
qed

end
