(* ===== verification/Collation.thy ===== *)
theory Collation
  imports Comparison
begin

section \<open>Collations\<close>

text \<open>
  The comparison functions of character columns: the macros of
  \<^verbatim>\<open>openML/src/server/include/mdb_compat.h\<close>, the functions of
  \<^verbatim>\<open>mdb_compat.c\<close>, \<^verbatim>\<open>sc_default_main.c\<close> and
  \<^verbatim>\<open>sc_collation_main.c\<close> in \<^verbatim>\<open>openML/src/server/common\<close>, and the tables of
  \<^verbatim>\<open>mdb_charset.c\<close>.  A string is the list of its characters (bytes, or 16-bit units of the
  \<open>NCHAR\<close> types); it ends at the first 0 or with the list.  The functions of the C library, with their result for
  different characters and the ASCII letters of the C locale, are \<open>strcmp\<close>, \<open>strncmp\<close>, \<open>strcasecmp\<close>
  and \<open>strncasecmp\<close>.  Lengths are not negative; allocation failures in
  \<^verbatim>\<open>sc_strncmp_user1\<close>, which make all strings equal, are left out.
\<close>

subsection \<open>Characters and the C library\<close>

type_synonym chars = "nat list"

fun chr_at :: "chars \<Rightarrow> nat \<Rightarrow> nat" where
  "chr_at [] i = 0"
| "chr_at (c # s) 0 = c"
| "chr_at (c # s) (Suc i) = chr_at s i"

abbreviation hd0 :: "chars \<Rightarrow> nat" where "hd0 s \<equiv> chr_at s 0"

fun strncmp :: "nat \<Rightarrow> chars \<Rightarrow> chars \<Rightarrow> int" where
  "strncmp 0 s t = 0"
| "strncmp (Suc n) s t =
     (if hd0 s \<noteq> hd0 t then int (hd0 s) - int (hd0 t) else if hd0 s = 0 then 0 else strncmp n (tl s) (tl t))"

fun strcmp :: "chars \<Rightarrow> chars \<Rightarrow> int" where
  "strcmp [] t = - int (hd0 t)"
| "strcmp (c # s) t = (if c \<noteq> hd0 t then int c - int (hd0 t) else if c = 0 then 0 else strcmp s (tl t))"

definition lower_array :: "nat \<Rightarrow> nat" where
  "lower_array c = (if 65 \<le> c \<and> c \<le> 90 then c + 32 else c)"

definition strcasecmp :: "chars \<Rightarrow> chars \<Rightarrow> int" where
  "strcasecmp s t = strcmp (map lower_array s) (map lower_array t)"

definition strncasecmp :: "nat \<Rightarrow> chars \<Rightarrow> chars \<Rightarrow> int" where
  "strncasecmp n s t = strncmp n (map lower_array s) (map lower_array t)"

fun sc_memcmp :: "nat \<Rightarrow> chars \<Rightarrow> chars \<Rightarrow> int" where
  "sc_memcmp 0 s t = 0"
| "sc_memcmp (Suc n) s t = (if hd0 s \<noteq> hd0 t then int (hd0 s) - int (hd0 t) else sc_memcmp n (tl s) (tl t))"

subsection \<open>The macros\<close>

definition mdb_strcmp :: "chars \<Rightarrow> chars \<Rightarrow> int" where
  "mdb_strcmp s t = (if hd0 s = hd0 t then strcmp s t else int (hd0 s) - int (hd0 t))"

definition mdb_strncmp :: "nat \<Rightarrow> chars \<Rightarrow> chars \<Rightarrow> int" where
  "mdb_strncmp n s t =
     (if n < 1 then 0 else if n > 1 \<and> hd0 s = hd0 t then strncmp n s t else int (hd0 s) - int (hd0 t))"

definition mdb_strcasecmp :: "chars \<Rightarrow> chars \<Rightarrow> int" where
  "mdb_strcasecmp s t =
     (if lower_array (hd0 s) = lower_array (hd0 t) then strcasecmp s t
      else int (lower_array (hd0 s)) - int (lower_array (hd0 t)))"

definition mdb_strncasecmp :: "nat \<Rightarrow> chars \<Rightarrow> chars \<Rightarrow> int" where
  "mdb_strncasecmp n s t =
     (if n < 1 then 0
      else if n > 1 \<and> lower_array (hd0 s) = lower_array (hd0 t) then strncasecmp n s t
      else int (lower_array (hd0 s)) - int (lower_array (hd0 t)))"

subsection \<open>Dictionary order and wide characters\<close>

definition sc_memdcmp :: "nat \<Rightarrow> chars \<Rightarrow> chars \<Rightarrow> int" where
  "sc_memdcmp n s t = (let nCmp = mdb_strncasecmp n s t in if nCmp = 0 then mdb_strncmp n s t else nCmp)"

definition sc_strdcmp :: "chars \<Rightarrow> chars \<Rightarrow> int" where
  "sc_strdcmp s t = (let nCmp = mdb_strcasecmp s t in if nCmp = 0 then mdb_strcmp s t else nCmp)"

definition sc_strndcmp :: "nat \<Rightarrow> chars \<Rightarrow> chars \<Rightarrow> int" where
  "sc_strndcmp n s t = (let nCmp = mdb_strncasecmp n s t in if nCmp = 0 then mdb_strncmp n s t else nCmp)"

function sc_wcscmp :: "chars \<Rightarrow> chars \<Rightarrow> int" where
  "sc_wcscmp s t =
     (if hd0 s \<noteq> 0 \<and> hd0 t \<noteq> 0 then
        (if hd0 s < hd0 t then -1 else if hd0 s > hd0 t then 1 else sc_wcscmp (tl s) (tl t))
      else if hd0 s = 0 \<and> hd0 t = 0 then 0
      else if hd0 s = 0 then -1
      else if hd0 t = 0 then 1
      else 0)"
  by pat_completeness auto
termination
proof (relation "measure (\<lambda>(s, t). length s)")
  show "((tl s, tl t), (s, t)) \<in> measure (\<lambda>(s, t). length s)" if "hd0 s \<noteq> 0 \<and> hd0 t \<noteq> 0" for s t
    using that by (cases s) auto
qed simp

fun sc_wcsncmp :: "nat \<Rightarrow> chars \<Rightarrow> chars \<Rightarrow> int" where
  "sc_wcsncmp n s t =
     (if n > 0 \<and> hd0 s \<noteq> 0 \<and> hd0 t \<noteq> 0 then
        (if hd0 s < hd0 t then -1 else if hd0 s > hd0 t then 1 else sc_wcsncmp (n - 1) (tl s) (tl t))
      else if n = 0 then 0
      else if hd0 s = 0 \<and> hd0 t = 0 then 0
      else if hd0 s = 0 then -1
      else if hd0 t = 0 then 1
      else 0)"

definition sc_strcmp_user1 :: "chars \<Rightarrow> chars \<Rightarrow> int" where
  \<comment> \<open>\<^verbatim>\<open>wcscasecmp\<close> of the units of the two strings\<close>
  "sc_strcmp_user1 s t = strcasecmp s t"

definition sc_strncmp_user1 :: "nat \<Rightarrow> chars \<Rightarrow> chars \<Rightarrow> int" where
  "sc_strncmp_user1 n s t = strncasecmp n s t"

subsection \<open>Reverse order\<close>

definition IS_REVERSE_DELIMITER :: "nat \<Rightarrow> bool" where
  "IS_REVERSE_DELIMITER c \<longleftrightarrow> c = 112 \<or> c = 80"

fun delimiter_offset :: "chars \<Rightarrow> nat" where
  \<comment> \<open>the first delimiter or the end of the string\<close>
  "delimiter_offset [] = 0"
| "delimiter_offset (c # s) = (if c \<noteq> 0 \<and> \<not> IS_REVERSE_DELIMITER c then Suc (delimiter_offset s) else 0)"

definition reverse_start :: "chars \<Rightarrow> nat" where
  "reverse_start s = (let offset = delimiter_offset s in if 0 < offset then offset - 1 else offset)"

fun reverse_loop :: "nat \<Rightarrow> chars \<Rightarrow> nat \<Rightarrow> chars \<Rightarrow> nat \<Rightarrow> nat \<times> nat \<times> nat" where
  \<comment> \<open>\<open>n\<close> is the count after \<^verbatim>\<open>--n\<close>\<close>
  "reverse_loop n s a t b =
     (if n > 0 \<and> chr_at s a = chr_at t b \<and> a > 0 \<and> b > 0 then reverse_loop (n - 1) s (a - 1) t (b - 1) else (n, a, b))"

fun mdb_strrcmp_loop :: "chars \<Rightarrow> nat \<Rightarrow> chars \<Rightarrow> nat \<Rightarrow> nat \<times> nat" where
  "mdb_strrcmp_loop s a t b =
     (if chr_at s a = chr_at t b \<and> a > 0 \<and> b > 0 then mdb_strrcmp_loop s (a - 1) t (b - 1) else (a, b))"

definition mdb_strrcmp :: "chars \<Rightarrow> chars \<Rightarrow> int" where
  "mdb_strrcmp s t =
     (let (a, b) = mdb_strrcmp_loop s (reverse_start s) t (reverse_start t); x = chr_at s a; y = chr_at t b in
      if x \<noteq> y \<and> \<not> IS_REVERSE_DELIMITER x \<and> \<not> IS_REVERSE_DELIMITER y then (if x > y then 1 else -1)
      else if x = y then 0
      else if x \<noteq> 0 \<and> y \<noteq> 0 \<and> IS_REVERSE_DELIMITER x \<and> \<not> IS_REVERSE_DELIMITER y then -1
      else if y \<noteq> 0 \<and> y \<noteq> 0 \<and> IS_REVERSE_DELIMITER y \<and> \<not> IS_REVERSE_DELIMITER x then 1
      else 0)"

definition reverse_result :: "chars \<Rightarrow> chars \<Rightarrow> nat \<times> nat \<times> nat \<Rightarrow> int" where
  \<comment> \<open>the end of \<^verbatim>\<open>mdb_strnrcmp\<close> and \<^verbatim>\<open>mdb_strnrcmp2\<close>\<close>
  "reverse_result s t = (\<lambda>(n, a, b). let x = chr_at s a; y = chr_at t b in
     if x \<noteq> y \<and> \<not> IS_REVERSE_DELIMITER x \<and> \<not> IS_REVERSE_DELIMITER y then int x - int y
     else if n = 0 \<and> \<not> IS_REVERSE_DELIMITER x \<and> \<not> IS_REVERSE_DELIMITER y then int x - int y
     else if a > 0 \<and> b = 0 then
       (if IS_REVERSE_DELIMITER y \<and> \<not> IS_REVERSE_DELIMITER x then int x else int (chr_at s (a - 1)))
     else if b > 0 \<and> a = 0 then
       (if IS_REVERSE_DELIMITER x \<and> \<not> IS_REVERSE_DELIMITER y then - int y else - int (chr_at t (b - 1)))
     else if IS_REVERSE_DELIMITER y \<and> \<not> IS_REVERSE_DELIMITER x then int x
     else if IS_REVERSE_DELIMITER x \<and> \<not> IS_REVERSE_DELIMITER y then - int y
     else 0)"

definition mdb_strnrcmp :: "nat \<Rightarrow> chars \<Rightarrow> chars \<Rightarrow> int" where
  "mdb_strnrcmp n s t = reverse_result s t (reverse_loop (n - 1) s (reverse_start s) t (reverse_start t))"

definition clip_offset :: "nat \<Rightarrow> nat \<Rightarrow> nat" where
  "clip_offset len a = (if 0 < len - 1 \<and> len - 1 < a then len - 1 else a)"

definition mdb_strnrcmp2 :: "nat \<Rightarrow> chars \<Rightarrow> nat \<Rightarrow> chars \<Rightarrow> nat \<Rightarrow> int" where
  "mdb_strnrcmp2 n s s_len t t_len =
     reverse_result s t (reverse_loop (n - 1) s (clip_offset s_len (reverse_start s)) t (clip_offset t_len (reverse_start t)))"

declare sc_wcscmp.simps [simp del] sc_wcsncmp.simps [simp del] reverse_loop.simps [simp del] mdb_strrcmp_loop.simps [simp del]

subsection \<open>The tables\<close>

datatype MDB_COL_TYPE =
  MDB_COL_NONE | MDB_COL_NUMERIC | MDB_COL_CHAR_NOCASE | MDB_COL_CHAR_CASE | MDB_COL_CHAR_DICORDER |
  MDB_COL_NCHAR_NOCASE | MDB_COL_NCHAR_CASE | MDB_COL_BYTE | MDB_COL_USER_TYPE1 | MDB_COL_USER_TYPE2 |
  MDB_COL_USER_TYPE3 | MDB_COL_CHAR_REVERSE | MDB_COL_MAX

fun sc_collate_func :: "MDB_COL_TYPE \<Rightarrow> (chars \<Rightarrow> chars \<Rightarrow> int) option" where
  "sc_collate_func MDB_COL_CHAR_NOCASE = Some strcasecmp"
| "sc_collate_func MDB_COL_CHAR_CASE = Some mdb_strcmp"
| "sc_collate_func MDB_COL_CHAR_DICORDER = Some sc_strdcmp"
| "sc_collate_func MDB_COL_NCHAR_NOCASE = Some sc_wcscmp"
| "sc_collate_func MDB_COL_NCHAR_CASE = Some sc_wcscmp"
| "sc_collate_func MDB_COL_USER_TYPE1 = Some sc_strcmp_user1"
| "sc_collate_func MDB_COL_USER_TYPE2 = Some sc_strdcmp"
| "sc_collate_func MDB_COL_USER_TYPE3 = Some sc_strdcmp"
| "sc_collate_func MDB_COL_CHAR_REVERSE = Some mdb_strrcmp"
| "sc_collate_func _ = None"

fun sc_ncollate_func :: "MDB_COL_TYPE \<Rightarrow> (nat \<Rightarrow> chars \<Rightarrow> chars \<Rightarrow> int) option" where
  "sc_ncollate_func MDB_COL_CHAR_NOCASE = Some strncasecmp"
| "sc_ncollate_func MDB_COL_CHAR_CASE = Some mdb_strncmp"
| "sc_ncollate_func MDB_COL_CHAR_DICORDER = Some sc_strndcmp"
| "sc_ncollate_func MDB_COL_NCHAR_NOCASE = Some sc_wcsncmp"
| "sc_ncollate_func MDB_COL_NCHAR_CASE = Some sc_wcsncmp"
| "sc_ncollate_func MDB_COL_BYTE = Some sc_memcmp"
| "sc_ncollate_func MDB_COL_USER_TYPE1 = Some sc_strncmp_user1"
| "sc_ncollate_func MDB_COL_USER_TYPE2 = Some sc_strndcmp"
| "sc_ncollate_func MDB_COL_USER_TYPE3 = Some sc_strndcmp"
| "sc_ncollate_func MDB_COL_CHAR_REVERSE = Some mdb_strnrcmp"
| "sc_ncollate_func _ = None"

definition db_find_collation :: "chars \<Rightarrow> MDB_COL_TYPE" where
  "db_find_collation identifier =
     (let is = (\<lambda>name. mdb_strcasecmp identifier (map of_char name) = 0) in
      if is ''char_ci'' then MDB_COL_CHAR_NOCASE
      else if is ''char_cs'' then MDB_COL_CHAR_CASE
      else if is ''char_dic'' then MDB_COL_CHAR_DICORDER
      else if is ''nchar_cs'' then MDB_COL_NCHAR_CASE
      else if is ''user1'' then MDB_COL_USER_TYPE1
      else if is ''user2'' then MDB_COL_USER_TYPE2
      else if is ''user3'' then MDB_COL_USER_TYPE3
      else if is ''char_reverse'' then MDB_COL_CHAR_REVERSE
      else MDB_COL_NONE)"

end
