(* ===== verification/CollationOrder.thy ===== *)
theory CollationOrder
  imports Collation
begin

section \<open>Collations are orders\<close>

text \<open>
  Every collation of bounded strings is the lexicographic order of a key: the characters up to the bound
  or the end, in lower case for \<open>NOCASE\<close>, the same and then the characters themselves for
  \<open>DICORDER\<close>, the characters before a delimiter from right to left for \<open>REVERSE\<close>.  The unbounded
  reverse comparison is no order.
\<close>

definition lex_sign :: "nat list \<Rightarrow> nat list \<Rightarrow> int" where
  "lex_sign u v = (if u < v then -1 else if u = v then 0 else 1)"

lemma lex_sign_simps [simp]:
  "lex_sign [] [] = 0" "lex_sign [] (x # u) = -1" "lex_sign (x # u) [] = 1"
  "lex_sign (x # u) (y # v) = (if x < y then -1 else if x = y then lex_sign u v else 1)"
  by (auto simp: lex_sign_def)

lemma comparison_lex_sign: "(\<And>a b. sgn (cmp a b) = lex_sign (k a) (k b)) \<Longrightarrow> comparison cmp R"
  by (rule comparison_key [of R cmp k]) (simp add: lex_sign_def)

lemma sgn_diff: "sgn (int a - int b) = (if a < b then -1 else if a = b then 0 else 1)"
  by (simp add: sgn_if)

subsection \<open>Strings up to a bound\<close>

definition cut :: "nat \<Rightarrow> chars \<Rightarrow> chars" where
  "cut n s = takeWhile (\<lambda>c. c \<noteq> 0) (take n s)"

lemma cut_simps [simp]: "cut 0 s = []" "cut n [] = []" "cut (Suc n) (c # s) = (if c = 0 then [] else c # cut n s)"
  by (simp_all add: cut_def)

lemma strncmp_sign: "sgn (strncmp n s t) = lex_sign (cut n s) (cut n t)"
proof (induction n arbitrary: s t)
  case (Suc n)
  then show ?case by (cases s; cases t) (auto simp: sgn_diff)
qed simp

lemma strcmp_sign: "sgn (strcmp s t) = lex_sign (takeWhile (\<lambda>c. c \<noteq> 0) s) (takeWhile (\<lambda>c. c \<noteq> 0) t)"
proof (induction s t rule: strcmp.induct)
  case (1 t)
  then show ?case by (cases t) (auto simp: sgn_diff)
next
  case (2 c s t)
  then show ?case by (cases t) (auto simp: sgn_diff)
qed

lemma lower_zero [simp]: "lower_array c = 0 \<longleftrightarrow> c = 0" "lower_array 0 = 0"
  by (auto simp: lower_array_def)

lemma hd0_lower [simp]: "hd0 (map lower_array s) = lower_array (hd0 s)"
  by (cases s) auto

lemma strncmp_hd: "strncmp n s t = (if n = 0 then 0 else if hd0 s \<noteq> hd0 t then int (hd0 s) - int (hd0 t) else strncmp n s t)"
  by (cases n) auto

lemma mdb_strncmp_eq: "mdb_strncmp n s t = strncmp n s t"
proof (cases "n = 1")
  case True
  then have "n = Suc 0" by simp
  then show ?thesis by (simp add: mdb_strncmp_def)
next
  case False
  then show ?thesis by (cases n) (auto simp: mdb_strncmp_def)
qed

lemma mdb_strncasecmp_eq: "mdb_strncasecmp n s t = strncasecmp n s t"
proof -
  have "mdb_strncasecmp n s t = mdb_strncmp n (map lower_array s) (map lower_array t)"
    unfolding mdb_strncasecmp_def mdb_strncmp_def strncasecmp_def hd0_lower by (rule refl)
  then show ?thesis by (simp add: mdb_strncmp_eq strncasecmp_def)
qed

lemma strcmp_hd: "hd0 s \<noteq> hd0 t \<Longrightarrow> strcmp s t = int (hd0 s) - int (hd0 t)"
  by (cases s) auto

lemma mdb_strcmp_eq: "mdb_strcmp s t = strcmp s t"
  by (simp add: mdb_strcmp_def strcmp_hd)

lemma mdb_strcasecmp_eq: "mdb_strcasecmp s t = strcasecmp s t"
  by (simp add: mdb_strcasecmp_def strcasecmp_def strcmp_hd)

lemma sc_wcsncmp_sign: "sgn (sc_wcsncmp n s t) = lex_sign (cut n s) (cut n t)"
proof (induction n arbitrary: s t)
  case 0
  then show ?case by (simp add: sc_wcsncmp.simps)
next
  case (Suc n)
  then show ?case by (cases s; cases t) (auto simp: sc_wcsncmp.simps [of "Suc n"])
qed

lemma sc_wcscmp_sign: "sgn (sc_wcscmp s t) = lex_sign (takeWhile (\<lambda>c. c \<noteq> 0) s) (takeWhile (\<lambda>c. c \<noteq> 0) t)"
proof (induction s arbitrary: t)
  case Nil
  then show ?case by (cases t) (auto simp: sc_wcscmp.simps)
next
  case (Cons c s)
  then show ?case by (cases t) (auto simp: sc_wcscmp.simps [of "c # s"])
qed

lemma sc_memcmp_sign: "sgn (sc_memcmp n s t) = lex_sign (map (chr_at s) [0 ..< n]) (map (chr_at t) [0 ..< n])"
proof (induction n arbitrary: s t)
  case (Suc n)
  have "map (chr_at s) [0 ..< Suc n] = hd0 s # map (chr_at (tl s)) [0 ..< n]" for s :: chars
    by (cases s) (auto simp: upt_conv_Cons map_Suc_upt [symmetric] simp del: upt_Suc)
  with Suc show ?case by (simp add: sgn_diff del: upt_Suc)
qed simp

lemma comparison_strncmp: "comparison (strncmp n) R"
  by (rule comparison_lex_sign) (rule strncmp_sign)

lemma comparison_strcmp: "comparison strcmp R"
  by (rule comparison_lex_sign) (rule strcmp_sign)

lemma comparison_strncasecmp: "comparison (strncasecmp n) R"
  unfolding strncasecmp_def by (rule comparison_part [OF comparison_strncmp [where R = UNIV]]) simp

lemma comparison_strcasecmp: "comparison strcasecmp R"
  unfolding strcasecmp_def by (rule comparison_part [OF comparison_strcmp [where R = UNIV]]) simp

lemma if_zero: "(let x = a in if x = 0 then b else x) = (if a \<noteq> 0 then a else b :: int)"
  by (simp add: Let_def)

lemma comparison_sc_strndcmp: "comparison (sc_strndcmp n) R"
  unfolding sc_strndcmp_def if_zero mdb_strncasecmp_eq mdb_strncmp_eq
  by (rule comparison_lex [OF comparison_strncasecmp comparison_strncmp])

lemma comparison_sc_strdcmp: "comparison sc_strdcmp R"
  unfolding sc_strdcmp_def if_zero mdb_strcasecmp_eq mdb_strcmp_eq
  by (rule comparison_lex [OF comparison_strcasecmp comparison_strcmp])

subsection \<open>Reverse order\<close>

abbreviation in_body :: "nat \<Rightarrow> bool" where
  "in_body c \<equiv> c \<noteq> 0 \<and> \<not> IS_REVERSE_DELIMITER c"

definition body :: "chars \<Rightarrow> chars" where
  \<comment> \<open>the characters before the delimiter\<close>
  "body s = takeWhile in_body s"

lemma delimiter_offset_eq: "delimiter_offset s = length (body s)"
  by (induction s) (auto simp: body_def)

lemma chr_at_nth: "chr_at s i = (if i < length s then s ! i else 0)"
  by (induction s i rule: chr_at.induct) auto

lemma body_nth: "i < length (body s) \<Longrightarrow> chr_at s i = body s ! i \<and> in_body (body s ! i)"
proof -
  assume i: "i < length (body s)"
  then have "body s ! i \<in> set (body s)" by simp
  then have "in_body (body s ! i)" unfolding body_def by (rule set_takeWhileD [THEN conjunct2])
  moreover have "i < length s" using i length_takeWhile_le [of in_body s] by (simp add: body_def)
  ultimately show ?thesis using i by (simp add: chr_at_nth body_def takeWhile_nth)
qed

lemma body_end: "\<not> in_body (chr_at s (length (body s)))"
  using nth_length_takeWhile [of in_body s] by (auto simp: chr_at_nth body_def)

lemma reverse_start_eq: "reverse_start s = length (body s) - 1"
  by (simp add: reverse_start_def delimiter_offset_eq Let_def)

lemma take_Suc_rev: "i < length u \<Longrightarrow> rev (take (Suc i) u) = u ! i # rev (take i u)"
  by (simp add: take_Suc_conv_app_nth)

lemma reverse_loop_sign:
  assumes "a < length (body s)" and "b < length (body t)"
  shows "sgn (reverse_result s t (reverse_loop m s a t b)) =
    lex_sign (take (Suc m) (rev (take (Suc a) (body s)))) (take (Suc m) (rev (take (Suc b) (body t))))"
  using assms
proof (induction m s a t b rule: reverse_loop.induct)
  case (1 m s a t b)
  note x = body_nth [OF 1(2)] and y = body_nth [OF 1(3)]
  note lists = take_Suc_rev [OF 1(2)] take_Suc_rev [OF 1(3)]
  show ?case
  proof (cases "m > 0 \<and> chr_at s a = chr_at t b \<and> a > 0 \<and> b > 0")
    case True
    then obtain m' a' b' where p: "m = Suc m'" "a = Suc a'" "b = Suc b'" by (meson gr0_implies_Suc)
    then have "reverse_loop m s a t b = reverse_loop m' s a' t b'" using True by (subst reverse_loop.simps) simp
    moreover have "sgn (reverse_result s t (reverse_loop m' s a' t b')) =
        lex_sign (take (Suc m') (rev (take (Suc a') (body s)))) (take (Suc m') (rev (take (Suc b') (body t))))"
      using 1(1) [OF True] 1(2,3) p by simp
    ultimately show ?thesis using lists x y True p by simp
  next
    case False
    then have stop: "reverse_loop m s a t b = (m, a, b)" by (subst reverse_loop.simps) auto
    consider "chr_at s a \<noteq> chr_at t b" | "chr_at s a = chr_at t b" "m = 0" | "chr_at s a = chr_at t b" "m > 0" "a = 0" "b = 0"
      | "chr_at s a = chr_at t b" "m > 0" "a > 0" "b = 0" | "chr_at s a = chr_at t b" "m > 0" "a = 0" "b > 0"
      using False by auto
    then show ?thesis
    proof cases
      case 4
      then have "a - 1 < length (body s)" using 1(2) by simp
      note z = body_nth [OF this] take_Suc_rev [OF this]
      obtain m' where m: "m = Suc m'" using 4(2) by (meson gr0_implies_Suc)
      show ?thesis using 4 lists x y z stop m by (simp add: reverse_result_def Let_def)
    next
      case 5
      then have "b - 1 < length (body t)" using 1(3) by simp
      note z = body_nth [OF this] take_Suc_rev [OF this]
      obtain m' where m: "m = Suc m'" using 5(2) by (meson gr0_implies_Suc)
      show ?thesis using 5 lists x y z stop m by (simp add: reverse_result_def Let_def)
    qed (use lists x y stop in \<open>simp_all add: reverse_result_def Let_def sgn_diff\<close>)
  qed
qed

lemma mdb_strnrcmp_sign:
  assumes "0 < n"
  shows "sgn (mdb_strnrcmp n s t) = lex_sign (take n (rev (body s))) (take n (rev (body t)))"
proof (cases "body s = [] \<or> body t = []")
  case False
  then have "length (body s) - 1 < length (body s)" "length (body t) - 1 < length (body t)" by auto
  from reverse_loop_sign [OF this, of "n - 1"] False assms show ?thesis
    by (simp add: mdb_strnrcmp_def reverse_start_eq)
next
  case True
  have none: "chr_at s 0 = 0 \<or> IS_REVERSE_DELIMITER (chr_at s 0)" if "body s = []" for s
    using body_end [of s] that by auto
  have some: "in_body (chr_at s (length (body s) - 1))" "rev (body s) \<noteq> []" if "body s \<noteq> []" for s
    using body_nth [of "length (body s) - 1" s] that by auto
  have stop: "reverse_loop (n - 1) s (reverse_start s) t (reverse_start t) = (n - 1, reverse_start s, reverse_start t)"
    using True by (subst reverse_loop.simps) (auto simp: reverse_start_eq)
  have run: "mdb_strnrcmp n s t = reverse_result s t (n - 1, length (body s) - 1, length (body t) - 1)"
    unfolding mdb_strnrcmp_def stop by (simp only: reverse_start_eq)
  have zero: "\<not> IS_REVERSE_DELIMITER 0" by (simp add: IS_REVERSE_DELIMITER_def)
  obtain n' where n: "n = Suc n'" using assms by (cases n) auto
  have pos: "lex_sign (take n u) [] = (if u = [] then 0 else 1)" "lex_sign [] (take n u) = (if u = [] then 0 else -1)" for u
    by (cases u; simp add: n)+
  consider "body s = []" "body t = []" | "body s = []" "body t \<noteq> []" | "body s \<noteq> []" "body t = []"
    using True by blast
  then show ?thesis
  proof cases
    case 1
    with none [of s] none [of t] zero show ?thesis by (auto simp: run reverse_result_def Let_def)
  next
    case 2
    define y where "y = chr_at t (length (body t) - 1)"
    have y: "y \<noteq> 0" "\<not> IS_REVERSE_DELIMITER y" using some(1) [OF 2(2)] by (simp_all add: y_def)
    have "mdb_strnrcmp n s t = - int y"
      using none [OF 2(1)] y zero unfolding run reverse_result_def Let_def prod.case 2(1) y_def [symmetric] by auto
    with y 2 pos(2) [of "rev (body t)"] show ?thesis by simp
  next
    case 3
    define x where "x = chr_at s (length (body s) - 1)"
    have x: "x \<noteq> 0" "\<not> IS_REVERSE_DELIMITER x" using some(1) [OF 3(1)] by (simp_all add: x_def)
    have "mdb_strnrcmp n s t = int x"
      using none [OF 3(2)] x zero unfolding run reverse_result_def Let_def prod.case 3(2) x_def [symmetric] by auto
    with x 3 pos(1) [of "rev (body s)"] show ?thesis by simp
  qed
qed

end
