(* ===== verification/KeyOrder.thy ===== *)
theory KeyOrder
  imports CollationOrder SqlExpr "HOL-Library.Monad_Syntax"
begin

section \<open>The order of index keys\<close>

text \<open>
  The comparison of two records by the key of an index:
  \<^verbatim>\<open>mdb_KeyDesc.c\<close> and \<^verbatim>\<open>FieldDesc_Compare\<close> of
  \<^verbatim>\<open>mdb_FieldDesc.c\<close> in \<^verbatim>\<open>openML/src/server/storage\<close>, and
  \<^verbatim>\<open>dbi_strncmp_variable\<close> of \<^verbatim>\<open>openML/src/server/API/mdb_dbi_str.c\<close>.
  A record maps the position of a field to its value, nothing for NULL; a value is what the bytes at
  \<^verbatim>\<open>h_offset_\<close> mean for the type of the field.  A result is \<open>None\<close> where the code calls
  through a NULL entry of the table of collations or stops at an assertion.

  A variable string is in the record (\<open>InPlace\<close>, with its length byte) or split into a head in the
  record and an extended part, which \<open>ext\<close> looks up: its stored byte length and its characters;
  \<open>bad\<close> is \<^verbatim>\<open>isInvalidRid\<close>.  The code also erases a field whose extended part is
  invalid; only the value of the comparison is modelled.  A floating-point number is a number, an infinity or
  not a number.
\<close>

subsection \<open>Values\<close>

datatype cfloat = NaN | MInf | Fin int int | PInf \<comment> \<open>\<open>Fin m e\<close> is \<open>m * 2 ^ e\<close>\<close>

definition fin_diff :: "int \<Rightarrow> int \<Rightarrow> int \<Rightarrow> int \<Rightarrow> int" where
  "fin_diff a d b e = a * 2 ^ nat (d - min d e) - b * 2 ^ nat (e - min d e)"

fun flt_less :: "cfloat \<Rightarrow> cfloat \<Rightarrow> bool" where
  "flt_less NaN y = False"
| "flt_less MInf y = (y \<noteq> NaN \<and> y \<noteq> MInf)"
| "flt_less (Fin a d) y = (case y of Fin b e \<Rightarrow> fin_diff a d b e < 0 | PInf \<Rightarrow> True | _ \<Rightarrow> False)"
| "flt_less PInf y = False"

fun flt_eq :: "cfloat \<Rightarrow> cfloat \<Rightarrow> bool" where
  "flt_eq (Fin a d) (Fin b e) = (fin_diff a d b e = 0)"
| "flt_eq x y = (x \<noteq> NaN \<and> x = y)"

datatype varstr = InPlace chars nat | Extended chars oid

datatype field_value = Num int | Flt cfloat | Bytes chars | Str chars | Dec chars | Var varstr

type_synonym key_record = "nat \<Rightarrow> field_value option"

record KEY_FIELDDESC =
  fd_order :: char
  fd_type :: DataType
  fd_position :: nat
  fd_length :: nat
  fd_fixed_part :: int
  fd_collation :: MDB_COL_TYPE

definition FIXED_VARIABLE :: int where "FIXED_VARIABLE = - 1"
definition OID_SIZE :: nat where "OID_SIZE = 8"
definition WCHAR_SIZE :: nat where "WCHAR_SIZE = 2"

definition SizeOfString :: "DataType \<Rightarrow> nat" where
  "SizeOfString t = (if IS_NBS t then WCHAR_SIZE else 1)"

subsection \<open>Variable strings\<close>

definition ncollate :: "MDB_COL_TYPE \<Rightarrow> nat \<Rightarrow> chars \<Rightarrow> chars \<Rightarrow> int option" where
  "ncollate col n s t = do { f \<leftarrow> sc_ncollate_func col; Some (f n s t) }"

definition head_collate :: "KEY_FIELDDESC \<Rightarrow> nat \<Rightarrow> chars \<Rightarrow> chars \<Rightarrow> int option" where
  \<comment> \<open>the comparison of the parts in the record\<close>
  "head_collate fd n s t =
     (if fd_type fd = DT_VARCHAR \<and> fd_collation fd = MDB_COL_CHAR_DICORDER then ncollate MDB_COL_CHAR_NOCASE n s t
      else ncollate (fd_collation fd) n s t)"

definition erase_invalid :: "(oid \<Rightarrow> bool) \<Rightarrow> chars \<Rightarrow> oid \<Rightarrow> chars \<times> oid" where
  "erase_invalid bad s i = (if i = NULL_OID \<or> bad i then ([], NULL_OID) else (s, i))"

definition rest_length :: "DataType \<Rightarrow> nat \<Rightarrow> nat \<Rightarrow> nat" where
  \<comment> \<open>of an in-place string after the head; the variable is a byte\<close>
  "rest_length t blen within = nat ((int (blen div SizeOfString t) - int within) mod 256)"

definition ext_length :: "DataType \<Rightarrow> nat \<Rightarrow> nat" where
  "ext_length t ext_blength = ext_blength div SizeOfString t - 1"

definition longer :: "int \<Rightarrow> nat \<Rightarrow> nat \<Rightarrow> int" where
  "longer r m n = (if r = 0 then (if m > n then 1 else if m < n then -1 else 0) else r)"

definition S_PAGE_SIZE :: nat where "S_PAGE_SIZE = 2 ^ 13"

definition dbi_strcpy_variable ::
    "(oid \<Rightarrow> (nat \<times> chars) option) \<Rightarrow> (oid \<Rightarrow> bool) \<Rightarrow> varstr \<Rightarrow> int \<Rightarrow> DataType \<Rightarrow> nat \<Rightarrow> chars \<times> int" where
  \<comment> \<open>the copy, and its length or an error\<close>
  "dbi_strcpy_variable ext bad v fixed_part ty buflen =
     (case v of
        InPlace s blen \<Rightarrow> (let n = blen div SizeOfString ty in (take n s @ [0], int n))
      | Extended s i \<Rightarrow>
          if i = NULL_OID \<or> bad i then ([0, 0], 0)
          else
            (case ext i of
               None \<Rightarrow> (s, DB_E_OIDPOINTER)
             | Some (blen, u) \<Rightarrow>
                 if blen = 0 \<or> blen \<ge> S_PAGE_SIZE \<or> int blen > (int buflen - (fixed_part - int OID_SIZE) + 2) mod 2 ^ 64 then ([0, 0], 0)
                 else
                   (let n = (blen + (nat fixed_part - OID_SIZE)) div SizeOfString ty - 1 in
                    (take n (s @ take (blen div SizeOfString ty) u) @ [0], int n))))"

definition dbi_strncmp_variable ::
    "(oid \<Rightarrow> (nat \<times> chars) option) \<Rightarrow> (oid \<Rightarrow> bool) \<Rightarrow> KEY_FIELDDESC \<Rightarrow> varstr \<Rightarrow> varstr \<Rightarrow> int option" where
  "dbi_strncmp_variable ext bad fd str1 str2 =
     (let ty = fd_type fd; col = fd_collation fd;
          within_len = (nat (fd_fixed_part fd) - OID_SIZE) div SizeOfString ty in
      case (str1, str2) of
        (InPlace s1 n1, InPlace s2 n2) \<Rightarrow> ncollate col (nat (fd_fixed_part fd) div SizeOfString ty) s1 s2
      | (InPlace s1 n1, Extended s2 i2) \<Rightarrow>
          (let (s2, i2) = erase_invalid bad s2 i2 in
           do {
             ret \<leftarrow> head_collate fd within_len s1 s2;
             if ret \<noteq> 0 then Some ret
             else
               (case (if i2 = NULL_OID then None else ext i2) of
                  None \<Rightarrow> Some DB_E_OIDPOINTER
                | Some (blen, u2) \<Rightarrow>
                    (let e = ext_length ty blen; r = rest_length ty n1 within_len in
                     do { ret \<leftarrow> ncollate col (min r e) (drop within_len s1) u2; Some (longer ret r e) }))
           })
      | (Extended s1 i1, InPlace s2 n2) \<Rightarrow>
          (let (s1, i1) = erase_invalid bad s1 i1 in
           do {
             ret \<leftarrow> head_collate fd within_len s1 s2;
             if ret \<noteq> 0 then Some ret
             else
               (case (if i1 = NULL_OID then None else ext i1) of
                  None \<Rightarrow> Some DB_E_OIDPOINTER
                | Some (blen, u1) \<Rightarrow>
                    (let e = ext_length ty blen; r = rest_length ty n2 within_len in
                     do { ret \<leftarrow> ncollate col (min e r) u1 (drop within_len s2); Some (longer ret e r) }))
           })
      | (Extended s1 i1, Extended s2 i2) \<Rightarrow>
          (let (s1, i1) = erase_invalid bad s1 i1; (s2, i2) = erase_invalid bad s2 i2 in
           if i1 = NULL_OID \<and> i2 = NULL_OID then Some 0
           else if i1 = NULL_OID then Some (- 1)
           else if i2 = NULL_OID then Some 1
           else
             do {
               ret \<leftarrow> (if ty = DT_VARCHAR \<and> col = MDB_COL_CHAR_DICORDER then Some (mdb_strncasecmp within_len s1 s2)
                       else ncollate col within_len s1 s2);
               if ret \<noteq> 0 then Some ret
               else if ty = DT_VARCHAR \<and> col = MDB_COL_CHAR_DICORDER then
                 (let copy = (\<lambda>v. fst (dbi_strcpy_variable ext bad v (fd_fixed_part fd) ty (fd_length fd))) in
                  ncollate col (fd_length fd) (copy (Extended s1 i1)) (copy (Extended s2 i2)))
               else
                 (case (ext i1, ext i2) of
                    (Some (m1, u1), Some (m2, u2)) \<Rightarrow> ncollate col (fd_length fd - within_len) u1 u2
                  | _ \<Rightarrow> Some DB_E_OIDPOINTER)
             }))"

subsection \<open>Fields and keys\<close>

definition three_way :: "bool \<Rightarrow> bool \<Rightarrow> int" where
  \<comment> \<open>\<^verbatim>\<open>less ? -1 : equal ? 0 : 1\<close>\<close>
  "three_way lt eq = (if lt then -1 else if eq then 0 else 1)"

definition decimal_compare :: "chars \<Rightarrow> chars \<Rightarrow> int" where
  \<comment> \<open>a sign character and the digits\<close>
  "decimal_compare s t =
     (if hd0 s \<noteq> hd0 t then (if hd0 s = of_char (CHR ''-'') then -1 else 1)
      else if hd0 s = of_char (CHR ''-'') then - mdb_strcmp (tl s) (tl t)
      else mdb_strcmp (tl s) (tl t))"

definition fixed_compare :: "KEY_FIELDDESC \<Rightarrow> chars \<Rightarrow> chars \<Rightarrow> int option" where
  "fixed_compare fd s t =
     (if fd_collation fd = MDB_COL_CHAR_REVERSE
      then Some (mdb_strnrcmp2 (fd_length fd) s (fd_length fd) t (fd_length fd))
      else ncollate (fd_collation fd) (fd_length fd) s t)"

definition value_compare ::
    "(oid \<Rightarrow> (nat \<times> chars) option) \<Rightarrow> (oid \<Rightarrow> bool) \<Rightarrow> KEY_FIELDDESC \<Rightarrow> field_value \<Rightarrow> field_value \<Rightarrow> int option" where
  "value_compare ext bad fd v1 v2 =
     (case (v1, v2) of
        (Num a, Num b) \<Rightarrow>
          Some (if fd_type fd \<in> {DT_TINYINT, DT_SMALLINT, DT_INTEGER, DT_BIGINT, DT_TIMESTAMP, DT_OID}
                then three_way (a < b) (a = b) else 0)
      | (Bytes s, Bytes t) \<Rightarrow>
          (if fd_type fd = DT_DATETIME then Some (sc_memcmp 7 s t)
           else if fd_type fd \<in> {DT_DATE, DT_TIME} then Some (sc_memcmp 4 s t)
           else if fd_type fd \<in> {DT_BYTE, DT_VARBYTE} then None
           else Some 0)
      | (Flt x, Flt y) \<Rightarrow> Some (if fd_type fd \<in> {DT_FLOAT, DT_DOUBLE} then three_way (flt_less x y) (flt_eq x y) else 0)
      | (Var x, Var y) \<Rightarrow>
          (if fd_type fd \<in> {DT_VARCHAR, DT_NVARCHAR} then dbi_strncmp_variable ext bad fd x y else Some 0)
      | (Str s, Str t) \<Rightarrow>
          (if fd_type fd \<in> {DT_VARCHAR, DT_NVARCHAR} then ncollate (fd_collation fd) (fd_length fd) s t
           else if fd_type fd \<in> {DT_CHAR, DT_NCHAR} then fixed_compare fd s t
           else Some 0)
      | (Dec s, Dec t) \<Rightarrow> Some (if fd_type fd = DT_DECIMAL then decimal_compare s t else 0)
      | _ \<Rightarrow> Some 0)"

definition FieldDesc_Compare ::
    "(oid \<Rightarrow> (nat \<times> chars) option) \<Rightarrow> (oid \<Rightarrow> bool) \<Rightarrow> KEY_FIELDDESC \<Rightarrow> field_value \<Rightarrow> field_value \<Rightarrow> int option" where
  "FieldDesc_Compare ext bad fd v1 v2 =
     do { result \<leftarrow> value_compare ext bad fd v1 v2; Some (if fd_order fd = CHR ''D'' then - result else result) }"

definition null_compare :: "KEY_FIELDDESC \<Rightarrow> bool \<Rightarrow> bool \<Rightarrow> int" where
  \<comment> \<open>when one of the two is NULL: NULL is the greatest value\<close>
  "null_compare fd isnull1 isnull2 =
     (if isnull1 \<and> isnull2 then 0
      else if isnull1 then (if fd_order fd = CHR ''D'' then -1 else 1)
      else if fd_order fd = CHR ''D'' then 1 else -1)"

fun KeyDesc_Compare ::
    "(oid \<Rightarrow> (nat \<times> chars) option) \<Rightarrow> (oid \<Rightarrow> bool) \<Rightarrow> KEY_FIELDDESC list \<Rightarrow> key_record \<Rightarrow> key_record \<Rightarrow> int option" where
  "KeyDesc_Compare ext bad [] r1 r2 = Some 0"
| "KeyDesc_Compare ext bad (fd # fds) r1 r2 =
     do {
       r \<leftarrow> (case (r1 (fd_position fd), r2 (fd_position fd)) of
              (Some v1, Some v2) \<Rightarrow> FieldDesc_Compare ext bad fd v1 v2
            | (v1, v2) \<Rightarrow> Some (null_compare fd (v1 = None) (v2 = None)));
       if r \<noteq> 0 then Some r else KeyDesc_Compare ext bad fds r1 r2
     }"

fun KeyDesc_Compare2 ::
    "(oid \<Rightarrow> (nat \<times> chars) option) \<Rightarrow> (oid \<Rightarrow> bool) \<Rightarrow> KEY_FIELDDESC list \<Rightarrow> key_record \<Rightarrow> key_record \<Rightarrow>
      bool list \<Rightarrow> int option" where
  \<comment> \<open>the last argument says which key fields of the first record are NULL\<close>
  "KeyDesc_Compare2 ext bad [] r1 r2 isnull1 = Some 0"
| "KeyDesc_Compare2 ext bad (fd # fds) r1 r2 isnull1 =
     do {
       r \<leftarrow> (if hd isnull1 \<or> r2 (fd_position fd) = None
            then Some (null_compare fd (hd isnull1) (r2 (fd_position fd) = None))
            else (case (r1 (fd_position fd), r2 (fd_position fd)) of
                    (Some v1, Some v2) \<Rightarrow> FieldDesc_Compare ext bad fd v1 v2
                  | _ \<Rightarrow> None));
       if r \<noteq> 0 then Some r else KeyDesc_Compare2 ext bad fds r1 r2 (tl isnull1)
     }"

end
