(* ===== verification/KeyCompare.thy ===== *)
theory KeyCompare
  imports KeyOrder
begin

section \<open>The key order is an order\<close>

text \<open>
  The comparison of records by an index key satisfies the contract \<open>comparison\<close> on records whose
  fields have values of their types: every type has an order, descending fields turn it around, NULL is the
  greatest value, and the fields are compared one after the other.  Left out are not-a-number, which
  is neither less nor equal, and strings with an extended part, whose dictionary order is none.
\<close>

subsection \<open>Floating-point numbers\<close>

lemma fin_diff_scale:
  assumes "m \<le> d" and "m \<le> e"
  shows "sgn (fin_diff a d b e) = sgn (a * 2 ^ nat (d - m) - b * 2 ^ nat (e - m))"
proof -
  let ?k = "nat (min d e - m)"
  have "nat (d - m) = nat (d - min d e) + ?k" "nat (e - m) = nat (e - min d e) + ?k" using assms by auto
  then have "a * 2 ^ nat (d - m) - b * 2 ^ nat (e - m) = fin_diff a d b e * 2 ^ ?k"
    by (simp add: fin_diff_def power_add algebra_simps)
  then show ?thesis by (simp add: sgn_mult)
qed

definition flt_compare :: "cfloat \<Rightarrow> cfloat \<Rightarrow> int" where
  "flt_compare x y = three_way (flt_less x y) (flt_eq x y)"

lemma flt_compare_simps:
  "flt_compare (Fin a d) (Fin b e) = sgn (fin_diff a d b e)"
  "flt_compare MInf MInf = 0" "flt_compare MInf (Fin b e) = -1" "flt_compare MInf PInf = -1"
  "flt_compare (Fin a d) MInf = 1" "flt_compare (Fin a d) PInf = -1"
  "flt_compare PInf MInf = 1" "flt_compare PInf (Fin b e) = 1" "flt_compare PInf PInf = 0"
  by (simp_all add: flt_compare_def three_way_def sgn_if)

lemma fin_diff_swap: "fin_diff b e a d = - fin_diff a d b e"
  by (simp add: fin_diff_def min.commute)

lemma fin_diff_trans:
  assumes "fin_diff a d b e \<le> 0" and "fin_diff b e c f \<le> 0"
  shows "fin_diff a d c f \<le> 0"
proof -
  define m where "m = min d (min e f)"
  have m: "m \<le> d" "m \<le> e" "m \<le> f" by (simp_all add: m_def)
  have le: "fin_diff x i y j \<le> 0 \<longleftrightarrow> x * 2 ^ nat (i - m) \<le> y * 2 ^ nat (j - m)" if "m \<le> i" "m \<le> j" for x i y j
    using fin_diff_scale [OF that, of x y] by (auto simp: sgn_if split: if_splits)
  show ?thesis using assms m by (auto simp: le)
qed

lemma comparison_flt: "comparison flt_compare {x. x \<noteq> NaN}"
proof
  fix x y z assume "x \<in> {x. x \<noteq> NaN}" "y \<in> {x. x \<noteq> NaN}"
  then show "sgn (flt_compare y x) = - sgn (flt_compare x y)"
  proof (cases x; cases y)
    fix a d b e assume "x = Fin a d" "y = Fin b e"
    then show ?thesis using fin_diff_swap [of b e a d] by (simp add: flt_compare_simps sgn_minus)
  qed (simp_all add: flt_compare_simps)
  assume "z \<in> {x. x \<noteq> NaN}" "flt_compare x y \<le> 0" "flt_compare y z \<le> 0"
  with \<open>x \<in> {x. x \<noteq> NaN}\<close> \<open>y \<in> {x. x \<noteq> NaN}\<close> show "flt_compare x z \<le> 0"
  proof (cases x; cases y; cases z)
    fix a d b e c f
    assume "x = Fin a d" "y = Fin b e" "z = Fin c f" "flt_compare x y \<le> 0" "flt_compare y z \<le> 0"
    then show "flt_compare x z \<le> 0"
      using fin_diff_trans [of a d b e c f] by (simp add: flt_compare_simps sgn_if split: if_splits)
  qed (simp_all add: flt_compare_simps)
qed

subsection \<open>Strings\<close>

lemma comparison_reverse:
  assumes "0 < n"
  shows "comparison (mdb_strnrcmp n) R"
  by (rule comparison_lex_sign) (rule mdb_strnrcmp_sign [OF assms])

lemma comparison_ncollate:
  assumes "sc_ncollate_func col = Some f" and "0 < n"
  shows "comparison (f n) R"
proof -
  have "comparison sc_wcsncmp' R" if "\<And>s t. sgn (sc_wcsncmp' s t) = lex_sign (cut n s) (cut n t)" for sc_wcsncmp'
    by (rule comparison_lex_sign) (rule that)
  moreover have "comparison (sc_memcmp n) R" by (rule comparison_lex_sign) (rule sc_memcmp_sign)
  ultimately show ?thesis
    using assms comparison_reverse [OF assms(2)] sc_wcsncmp_sign
    by (cases col) (auto simp: sc_strncmp_user1_def [abs_def] mdb_strncmp_eq [abs_def]
        intro: comparison_strncmp comparison_strncasecmp comparison_sc_strndcmp)
qed

lemma reverse_loop_cong:
  assumes "\<And>i. i \<le> a \<Longrightarrow> chr_at s' i = chr_at s i" and "\<And>i. i \<le> b \<Longrightarrow> chr_at t' i = chr_at t i"
  shows "reverse_result s' t' (reverse_loop n s' a t' b) = reverse_result s t (reverse_loop n s a t b)"
  using assms
proof (induction n s a t b rule: reverse_loop.induct)
  case (1 n s a t b)
  show ?case
  proof (cases "n > 0 \<and> chr_at s a = chr_at t b \<and> a > 0 \<and> b > 0")
    case True
    with 1(2,3) have "n > 0 \<and> chr_at s' a = chr_at t' b \<and> a > 0 \<and> b > 0" by simp
    with True 1 show ?thesis
      by (subst (1 2) reverse_loop.simps) simp
  next
    case False
    with 1(2,3) have "\<not> (n > 0 \<and> chr_at s' a = chr_at t' b \<and> a > 0 \<and> b > 0)" by simp
    with False have stop: "reverse_loop n s a t b = (n, a, b)" "reverse_loop n s' a t' b = (n, a, b)"
      by (subst reverse_loop.simps, auto)+
    have same: "chr_at s' a = chr_at s a" "chr_at t' b = chr_at t b" "chr_at s' (a - 1) = chr_at s (a - 1)"
      "chr_at t' (b - 1) = chr_at t (b - 1)"
      using 1(2,3) by simp_all
    show ?thesis unfolding stop reverse_result_def prod.case same by (rule refl)
  qed
qed

lemma body_take: "body (take n s) = take n (body s)"
proof (induction s arbitrary: n)
  case (Cons c s)
  then show ?case by (cases n) (auto simp: body_def)
qed (simp add: body_def)

lemma clip_start: "2 \<le> len \<Longrightarrow> clip_offset len (reverse_start s) = reverse_start (take len s)"
  by (auto simp: clip_offset_def reverse_start_eq body_take min_def)

lemma reverse_start_take: "reverse_start (take len s) < len \<or> len = 0"
  using length_takeWhile_le [of in_body "take len s"] by (cases len) (auto simp: reverse_start_eq body_def less_Suc_eq_le)

lemma mdb_strnrcmp2_eq:
  assumes "2 \<le> m" and "2 \<le> k"
  shows "mdb_strnrcmp2 n s m t k = mdb_strnrcmp n (take m s) (take k t)"
proof -
  have "chr_at (take m s) i = chr_at s i" if "i \<le> reverse_start (take m s)" for i
    using that reverse_start_take [of m s] assms(1) by (simp add: chr_at_nth)
  moreover have "chr_at (take k t) i = chr_at t i" if "i \<le> reverse_start (take k t)" for i
    using that reverse_start_take [of k t] assms(2) by (simp add: chr_at_nth)
  ultimately show ?thesis
    using reverse_loop_cong [of "reverse_start (take m s)" "take m s" s "reverse_start (take k t)" "take k t" t "n - 1"]
    by (simp add: mdb_strnrcmp2_def mdb_strnrcmp_def clip_start assms)
qed

subsection \<open>Values of a field\<close>

definition field_ok :: "KEY_FIELDDESC \<Rightarrow> bool" where
  \<comment> \<open>a string field has a collation and a length; the bound of a reverse collation needs two characters\<close>
  "field_ok fd \<longleftrightarrow>
     (fd_type fd \<in> {DT_CHAR, DT_NCHAR, DT_VARCHAR, DT_NVARCHAR} \<longrightarrow>
        sc_ncollate_func (fd_collation fd) \<noteq> None \<and> 0 < fd_length fd \<and>
        (fd_collation fd = MDB_COL_CHAR_REVERSE \<longrightarrow> 2 \<le> fd_length fd))"

fun typed :: "KEY_FIELDDESC \<Rightarrow> field_value \<Rightarrow> bool" where
  "typed fd (Num a) = (fd_type fd \<in> {DT_TINYINT, DT_SMALLINT, DT_INTEGER, DT_BIGINT, DT_TIMESTAMP, DT_OID})"
| "typed fd (Flt x) = (fd_type fd \<in> {DT_FLOAT, DT_DOUBLE} \<and> x \<noteq> NaN)"
| "typed fd (Bytes s) = (fd_type fd \<in> {DT_DATETIME, DT_DATE, DT_TIME})"
| "typed fd (Str s) = (fd_type fd \<in> {DT_CHAR, DT_NCHAR, DT_VARCHAR, DT_NVARCHAR})"
| "typed fd (Dec s) = (fd_type fd = DT_DECIMAL \<and> hd0 s \<in> {32, 45})"
| "typed fd (Var x) = False"

lemma comparison_decimal: "comparison decimal_compare {s. hd0 s \<in> {32, 45}}"
proof -
  have tl: "comparison (\<lambda>s t. mdb_strcmp (tl s) (tl t)) R" for R
    using comparison_part [of mdb_strcmp UNIV R tl] comparison_strcmp by (simp add: mdb_strcmp_eq [abs_def])
  have minus: "of_char (CHR ''-'') = (45 :: nat)" by simp
  show ?thesis
  proof
    fix s t u :: chars assume st: "s \<in> {s. hd0 s \<in> {32, 45}}" "t \<in> {s. hd0 s \<in> {32, 45}}"
    then show "sgn (decimal_compare t s) = - sgn (decimal_compare s t)"
      using comparison.opposite [OF tl [of UNIV], of s t] by (auto simp: decimal_compare_def minus sgn_minus)
    assume "u \<in> {s. hd0 s \<in> {32, 45}}" "decimal_compare s t \<le> 0" "decimal_compare t u \<le> 0"
    with st show "decimal_compare s u \<le> 0"
      using comparison.le_trans [OF tl [of UNIV], of s t u] comparison.le_trans [OF comparison_minus [OF tl [of UNIV]], of s t u]
      by (auto simp: decimal_compare_def minus split: if_splits)
  qed
qed

abbreviation val_cmp :: "(oid \<Rightarrow> (nat \<times> chars) option) \<Rightarrow> (oid \<Rightarrow> bool) \<Rightarrow> KEY_FIELDDESC \<Rightarrow> field_value \<Rightarrow> field_value \<Rightarrow> int" where
  "val_cmp ext bad fd v w \<equiv> the (value_compare ext bad fd v w)"

lemma fixed_compare_ok:
  assumes "field_ok fd" and "fd_type fd \<in> {DT_CHAR, DT_NCHAR, DT_VARCHAR, DT_NVARCHAR}"
  shows "fixed_compare fd s t \<noteq> None" "comparison (\<lambda>s t. the (fixed_compare fd s t)) R"
    "ncollate (fd_collation fd) (fd_length fd) s t \<noteq> None"
    "comparison (\<lambda>s t. the (ncollate (fd_collation fd) (fd_length fd) s t)) R"
proof -
  from assms obtain f where f: "sc_ncollate_func (fd_collation fd) = Some f" "0 < fd_length fd"
    "fd_collation fd = MDB_COL_CHAR_REVERSE \<longrightarrow> 2 \<le> fd_length fd" by (auto simp: field_ok_def)
  then show n: "ncollate (fd_collation fd) (fd_length fd) s t \<noteq> None" "fixed_compare fd s t \<noteq> None"
    by (simp_all add: ncollate_def fixed_compare_def)
  show c: "comparison (\<lambda>s t. the (ncollate (fd_collation fd) (fd_length fd) s t)) R"
    using comparison_ncollate [OF f(1,2)] f(1) by (simp add: ncollate_def)
  show "comparison (\<lambda>s t. the (fixed_compare fd s t)) R"
  proof (cases "fd_collation fd = MDB_COL_CHAR_REVERSE")
    case True
    then show ?thesis
      using comparison_part [OF comparison_reverse [OF f(2), of UNIV], of R "take (fd_length fd)"] f(3)
      by (simp add: fixed_compare_def mdb_strnrcmp2_eq)
  next
    case False
    with c show ?thesis by (simp add: fixed_compare_def)
  qed
qed

lemma value_compare_ok:
  assumes ok: "field_ok fd"
  shows "typed fd v \<Longrightarrow> typed fd w \<Longrightarrow> value_compare ext bad fd v w \<noteq> None" "comparison (val_cmp ext bad fd) {v. typed fd v}"
proof -
  let ?R = "{v. typed fd v}"
  note eq = value_compare_def three_way_def flt_compare_def
  show "typed fd v \<Longrightarrow> typed fd w \<Longrightarrow> value_compare ext bad fd v w \<noteq> None"
    using fixed_compare_ok(1,3) [OF ok] by (cases v; cases w) (auto simp: eq)
  consider (num) "fd_type fd \<in> {DT_TINYINT, DT_SMALLINT, DT_INTEGER, DT_BIGINT, DT_TIMESTAMP, DT_OID}"
    | (flt) "fd_type fd \<in> {DT_FLOAT, DT_DOUBLE}" | (long) "fd_type fd = DT_DATETIME" | (date) "fd_type fd \<in> {DT_DATE, DT_TIME}"
    | (fixed) "fd_type fd \<in> {DT_CHAR, DT_NCHAR}" | (var) "fd_type fd \<in> {DT_VARCHAR, DT_NVARCHAR}" | (dec) "fd_type fd = DT_DECIMAL"
    | (other) "fd_type fd \<in> {DT_NULL_TYPE, DT_BOOL, DT_LONG, DT_BYTE, DT_VARBYTE, DT_TEXT, DT_BLOB, DT_HEX}"
    by (cases "fd_type fd") auto
  then show "comparison (val_cmp ext bad fd) ?R"
  proof cases
    case num
    have "sgn (val_cmp ext bad fd v w) = (if (case v of Num a \<Rightarrow> a) < (case w of Num a \<Rightarrow> a) then -1
        else if (case v of Num a \<Rightarrow> a) = (case w of Num a \<Rightarrow> a) then 0 else 1)" if "v \<in> ?R" "w \<in> ?R" for v w
      using that num by (cases v; cases w) (auto simp: eq)
    then show ?thesis by (rule comparison_key)
  next
    case flt
    define g where "g = (\<lambda>v. case v of Flt x \<Rightarrow> x | _ \<Rightarrow> NaN)"
    have "comparison (\<lambda>v w. flt_compare (g v) (g w)) ?R"
      by (rule comparison_part [OF comparison_flt]) (use flt in \<open>auto simp: g_def split: field_value.splits\<close>)
    then show ?thesis
    proof (rule comparison_sgn)
      show "sgn (val_cmp ext bad fd v w) = sgn (flt_compare (g v) (g w))" if "v \<in> ?R" "w \<in> ?R" for v w
        using that flt by (cases v; cases w) (auto simp: eq g_def)
    qed
  next
    case long
    have "comparison (sc_memcmp 7) UNIV" by (rule comparison_lex_sign) (rule sc_memcmp_sign)
    from comparison_part [OF this, of ?R "\<lambda>v. case v of Bytes s \<Rightarrow> s | _ \<Rightarrow> []"] show ?thesis
    proof (rule comparison_sgn)
      show "sgn (val_cmp ext bad fd v w) = sgn (sc_memcmp 7 (case v of Bytes s \<Rightarrow> s | _ \<Rightarrow> []) (case w of Bytes s \<Rightarrow> s | _ \<Rightarrow> []))"
        if "v \<in> ?R" "w \<in> ?R" for v w using that long by (cases v; cases w) (auto simp: eq)
    qed simp
  next
    case date
    have "comparison (sc_memcmp 4) UNIV" by (rule comparison_lex_sign) (rule sc_memcmp_sign)
    from comparison_part [OF this, of ?R "\<lambda>v. case v of Bytes s \<Rightarrow> s | _ \<Rightarrow> []"] show ?thesis
    proof (rule comparison_sgn)
      show "sgn (val_cmp ext bad fd v w) = sgn (sc_memcmp 4 (case v of Bytes s \<Rightarrow> s | _ \<Rightarrow> []) (case w of Bytes s \<Rightarrow> s | _ \<Rightarrow> []))"
        if "v \<in> ?R" "w \<in> ?R" for v w using that date by (cases v; cases w) (auto simp: eq)
    qed simp
  next
    case fixed
    let ?g = "\<lambda>v. case v of Str s \<Rightarrow> s | _ \<Rightarrow> []"
    have "comparison (\<lambda>s t. the (fixed_compare fd s t)) UNIV" using fixed fixed_compare_ok(2) [OF ok] by auto
    from comparison_part [OF this, of ?R ?g] show ?thesis
    proof (rule comparison_sgn)
      show "sgn (val_cmp ext bad fd v w) = sgn (the (fixed_compare fd (?g v) (?g w)))"
        if "v \<in> ?R" "w \<in> ?R" for v w using that fixed by (cases v; cases w) (auto simp: eq)
    qed simp
  next
    case var
    let ?g = "\<lambda>v. case v of Str s \<Rightarrow> s | _ \<Rightarrow> []"
    have "comparison (\<lambda>s t. the (ncollate (fd_collation fd) (fd_length fd) s t)) UNIV"
      using var fixed_compare_ok(4) [OF ok] by auto
    from comparison_part [OF this, of ?R ?g] show ?thesis
    proof (rule comparison_sgn)
      show "sgn (val_cmp ext bad fd v w) = sgn (the (ncollate (fd_collation fd) (fd_length fd) (?g v) (?g w)))"
        if "v \<in> ?R" "w \<in> ?R" for v w using that var by (cases v; cases w) (auto simp: eq)
    qed simp
  next
    case dec
    let ?g = "\<lambda>v. case v of Dec s \<Rightarrow> s | _ \<Rightarrow> []"
    have "comparison (\<lambda>v w. decimal_compare (?g v) (?g w)) ?R"
      by (rule comparison_part [OF comparison_decimal]) (use dec in \<open>auto split: field_value.splits\<close>)
    then show ?thesis
    proof (rule comparison_sgn)
      show "sgn (val_cmp ext bad fd v w) = sgn (decimal_compare (?g v) (?g w))"
        if "v \<in> ?R" "w \<in> ?R" for v w using that dec by (cases v; cases w) (auto simp: eq)
    qed
  next
    case other
    have "\<not> typed fd v" for v using other by (cases v) auto
    then show ?thesis by (simp add: comparison_def)
  qed
qed

subsection \<open>Keys\<close>

definition field_compare :: "(oid \<Rightarrow> (nat \<times> chars) option) \<Rightarrow> (oid \<Rightarrow> bool) \<Rightarrow> KEY_FIELDDESC \<Rightarrow>
    field_value option \<Rightarrow> field_value option \<Rightarrow> int option" where
  "field_compare ext bad fd v w =
     (case (v, w) of (Some v, Some w) \<Rightarrow> FieldDesc_Compare ext bad fd v w
      | (v, w) \<Rightarrow> Some (null_compare fd (v = None) (w = None)))"

definition typed_or_null :: "KEY_FIELDDESC \<Rightarrow> field_value option \<Rightarrow> bool" where
  "typed_or_null fd v = (case v of None \<Rightarrow> True | Some x \<Rightarrow> typed fd x)"

lemma field_compare_ok:
  assumes ok: "field_ok fd"
  shows "typed_or_null fd v \<Longrightarrow> typed_or_null fd w \<Longrightarrow> field_compare ext bad fd v w \<noteq> None"
    "comparison (\<lambda>v w. the (field_compare ext bad fd v w)) {v. typed_or_null fd v}"
proof -
  let ?c = "\<lambda>v w. the (field_compare ext bad fd v w)" and ?d = "\<lambda>x y. the (FieldDesc_Compare ext bad fd x y)"
  have some: "FieldDesc_Compare ext bad fd x y = Some (if fd_order fd = CHR ''D'' then - val_cmp ext bad fd x y else val_cmp ext bad fd x y)"
    if "typed fd x" "typed fd y" for x y
    using value_compare_ok(1) [OF ok that, of ext bad] by (auto simp: FieldDesc_Compare_def)
  then show "typed_or_null fd v \<Longrightarrow> typed_or_null fd w \<Longrightarrow> field_compare ext bad fd v w \<noteq> None"
    by (auto simp: field_compare_def typed_or_null_def split: option.splits)
  note base = value_compare_ok(2) [OF ok, of ext bad]
  have d: "comparison ?d {x. typed fd x}"
  proof (cases "fd_order fd = CHR ''D''")
    case True
    from comparison_minus [OF base] show ?thesis by (rule comparison_sgn) (simp add: some True)
  next
    case False
    from base show ?thesis by (rule comparison_sgn) (simp add: some False)
  qed
  define n :: int where "n = (if fd_order fd = CHR ''D'' then -1 else 1)"
  have "comparison (with_null n ?d) {v. \<forall>x. v = Some x \<longrightarrow> x \<in> {x. typed fd x}}"
    by (rule comparison_with_null [OF d]) (simp add: n_def)
  moreover have "{v. \<forall>x. v = Some x \<longrightarrow> x \<in> {x. typed fd x}} = {v. typed_or_null fd v}"
    by (auto simp: typed_or_null_def split: option.splits)
  moreover have "?c = with_null n ?d"
  proof (intro ext)
    show "?c u v = with_null n ?d u v" for u v
      by (cases u; cases v) (auto simp: field_compare_def null_compare_def n_def)
  qed
  ultimately show "comparison ?c {v. typed_or_null fd v}" by simp
qed

definition key_records :: "KEY_FIELDDESC list \<Rightarrow> key_record set" where
  \<comment> \<open>records with a key of the types of its fields\<close>
  "key_records fds = {r. \<forall>fd \<in> set fds. field_ok fd \<and> typed_or_null fd (r (fd_position fd))}"

definition key_compare :: "(oid \<Rightarrow> (nat \<times> chars) option) \<Rightarrow> (oid \<Rightarrow> bool) \<Rightarrow> KEY_FIELDDESC list \<Rightarrow> key_record \<Rightarrow> key_record \<Rightarrow> int" where
  "key_compare ext bad fds r1 r2 = the (KeyDesc_Compare ext bad fds r1 r2)"

lemma KeyDesc_Compare_Cons:
  "KeyDesc_Compare ext bad (fd # fds) r1 r2 =
     do { r \<leftarrow> field_compare ext bad fd (r1 (fd_position fd)) (r2 (fd_position fd));
          if r \<noteq> 0 then Some r else KeyDesc_Compare ext bad fds r1 r2 }"
  by (simp add: field_compare_def)

lemma KeyDesc_Compare_some:
  "r1 \<in> key_records fds \<Longrightarrow> r2 \<in> key_records fds \<Longrightarrow> KeyDesc_Compare ext bad fds r1 r2 = Some (key_compare ext bad fds r1 r2)"
proof (induction fds)
  case (Cons fd fds)
  then have "field_ok fd" "typed_or_null fd (r1 (fd_position fd))" "typed_or_null fd (r2 (fd_position fd))"
    "r1 \<in> key_records fds" "r2 \<in> key_records fds" by (simp_all add: key_records_def)
  moreover from this obtain y where "field_compare ext bad fd (r1 (fd_position fd)) (r2 (fd_position fd)) = Some y"
    using field_compare_ok(1) by blast
  ultimately show ?case using Cons(1)
    by (auto simp: KeyDesc_Compare_Cons key_compare_def simp del: KeyDesc_Compare.simps)
qed (simp add: key_compare_def)

lemma comparison_key_compare: "comparison (key_compare ext bad fds) (key_records fds)"
proof (induction fds)
  case Nil
  then show ?case by (simp add: key_compare_def comparison_zero)
next
  case (Cons fd fds)
  show ?case
  proof (cases "field_ok fd")
    case True
    let ?f = "\<lambda>r1 r2. the (field_compare ext bad fd (r1 (fd_position fd)) (r2 (fd_position fd)))"
    have "comparison ?f (key_records (fd # fds))"
      by (rule comparison_part [OF field_compare_ok(2) [OF True]]) (auto simp: key_records_def)
    moreover have "comparison (key_compare ext bad fds) (key_records (fd # fds))"
      by (rule comparison_subset [OF Cons]) (auto simp: key_records_def)
    ultimately have "comparison (\<lambda>r1 r2. if ?f r1 r2 \<noteq> 0 then ?f r1 r2 else key_compare ext bad fds r1 r2) (key_records (fd # fds))"
      by (rule comparison_lex)
    then show ?thesis
    proof (rule comparison_sgn)
      fix r1 r2 assume r: "r1 \<in> key_records (fd # fds)" "r2 \<in> key_records (fd # fds)"
      then have "typed_or_null fd (r1 (fd_position fd))" "typed_or_null fd (r2 (fd_position fd))"
        "r1 \<in> key_records fds" "r2 \<in> key_records fds" by (simp_all add: key_records_def)
      moreover from this obtain y where "field_compare ext bad fd (r1 (fd_position fd)) (r2 (fd_position fd)) = Some y"
        using field_compare_ok(1) [OF True] by blast
      ultimately show "sgn (key_compare ext bad (fd # fds) r1 r2) = sgn (if ?f r1 r2 \<noteq> 0 then ?f r1 r2 else key_compare ext bad fds r1 r2)"
        using KeyDesc_Compare_some [of r1 fds r2 ext bad]
        by (auto simp: key_compare_def [of ext bad "fd # fds"] KeyDesc_Compare_Cons simp del: KeyDesc_Compare.simps)
    qed
  next
    case False
    then have "key_records (fd # fds) = {}" by (auto simp: key_records_def)
    then show ?thesis by (simp add: comparison_def)
  qed
qed

definition key_nulls :: "KEY_FIELDDESC list \<Rightarrow> key_record \<Rightarrow> bool list" where
  "key_nulls fds r = map (\<lambda>fd. r (fd_position fd) = None) fds"

lemma KeyDesc_Compare2_eq: "KeyDesc_Compare2 ext bad fds r1 r2 (key_nulls fds r1) = KeyDesc_Compare ext bad fds r1 r2"
proof (induction fds)
  case (Cons fd fds)
  then show ?case
    by (cases "r1 (fd_position fd)"; cases "r2 (fd_position fd)") (auto simp: key_nulls_def null_compare_def cong: if_cong)
qed (simp add: key_nulls_def)

interpretation key_order: comparison "key_compare ext bad fds" "key_records fds"
  for ext bad fds by (rule comparison_key_compare)

end
