(* ===== verification/KeyValue.thy ===== *)
theory KeyValue
  imports KeyCompare
begin

section \<open>Search keys (\<^verbatim>\<open>openML/src/server/storage/mdb_KeyValue.c\<close>)\<close>

text \<open>
  A search key has a mode and a value for each field of an index.  \<open>KeyValue_Create\<close> takes it from
  a record, \<open>KeyValue_Compare\<close> compares it with the records of the index.  The functions
  \<^verbatim>\<open>compare_*\<close> of the file are \<open>compare_func\<close>; the LIKE modes, which \<open>KeyValue_Compare\<close>
  does not pass on, are left out, as are failing allocations.  A result is \<open>None\<close> as in \<open>KeyOrder\<close>.
\<close>

datatype MDB_MODE = MDB_NN | MDB_NU | MDB_GT | MDB_LT | MDB_BLANK | MDB_OTHER nat \<comment> \<open>\<open>MDB_AL\<close> and the others\<close>

record FieldValue =
  fv_mode :: MDB_MODE
  fv_desc :: KEY_FIELDDESC \<comment> \<open>type, position, length, collation and order\<close>
  fv_value :: field_value
  fv_value_length :: int \<comment> \<open>unsigned\<close>

definition strlen :: "chars \<Rightarrow> nat" where "strlen s = length (takeWhile (\<lambda>c. c \<noteq> 0) s)"

subsection \<open>Creation\<close>

definition string_value :: "nat \<Rightarrow> chars \<Rightarrow> field_value \<times> int" where
  \<comment> \<open>a copy with a terminating 0\<close>
  "string_value len s = (let p = take len s @ [0] in (Str p, int (strlen p)))"

definition value_of_field ::
    "(oid \<Rightarrow> (nat \<times> chars) option) \<Rightarrow> (oid \<Rightarrow> bool) \<Rightarrow> KEY_FIELDDESC \<Rightarrow> field_value \<Rightarrow> (field_value \<times> int) option" where
  \<comment> \<open>by type; nothing for a type that a search key cannot have\<close>
  "value_of_field ext bad fd v =
     (if fd_type fd \<in> {DT_TINYINT, DT_SMALLINT, DT_INTEGER, DT_BIGINT, DT_DATETIME, DT_DATE, DT_TIME, DT_TIMESTAMP,
          DT_FLOAT, DT_DOUBLE, DT_DECIMAL} then Some (v, int (fd_length fd))
      else if fd_type fd \<in> {DT_VARCHAR, DT_CHAR, DT_NVARCHAR, DT_NCHAR} then
        (case v of
           Str s \<Rightarrow> Some (string_value (fd_length fd) s)
         | Var x \<Rightarrow>
             (let (p, n) = dbi_strcpy_variable ext bad x (fd_fixed_part fd) (fd_type fd) (fd_length fd * SizeOfString (fd_type fd)) in
              Some (Str p, n))
         | _ \<Rightarrow> None)
      else None)"

fun KeyValue_Create ::
    "(oid \<Rightarrow> (nat \<times> chars) option) \<Rightarrow> (oid \<Rightarrow> bool) \<Rightarrow> KEY_FIELDDESC list \<Rightarrow> key_record \<Rightarrow> int + FieldValue list" where
  "KeyValue_Create ext bad [] r = Inr []"
| "KeyValue_Create ext bad (fd # fds) r =
     (let (mode, v) = (case r (fd_position fd) of None \<Rightarrow> (MDB_NU, Num 0) | Some v \<Rightarrow> (MDB_NN, v));
          v = (if mode = MDB_NU then
                 (if fd_type fd \<in> {DT_NULL_TYPE, DT_BOOL, DT_LONG, DT_BYTE, DT_VARBYTE, DT_TEXT, DT_BLOB, DT_HEX, DT_OID}
                  then None else Some (v, int (fd_length fd)))
               else value_of_field ext bad fd v) in
      case v of
        None \<Rightarrow> Inl (DB_FAIL 438)
      | Some (v, n) \<Rightarrow>
          (case KeyValue_Create ext bad fds r of
             Inl e \<Rightarrow> Inl e
           | Inr kv \<Rightarrow> Inr (\<lparr>fv_mode = mode, fv_desc = fd, fv_value = v, fv_value_length = n mod 2 ^ 32\<rparr> # kv)))"

subsection \<open>Comparison\<close>

definition over_length :: "int \<Rightarrow> int \<Rightarrow> int \<Rightarrow> int" where
  \<comment> \<open>\<^verbatim>\<open>if (ret == 0 && value_length > n) ret = 1\<close>\<close>
  "over_length ret n value_length = (if ret = 0 \<and> value_length > n then 1 else ret)"

definition compare_CHAR :: "FieldValue \<Rightarrow> chars \<Rightarrow> chars \<Rightarrow> int option" where
  \<comment> \<open>and \<^verbatim>\<open>compare_NCHAR\<close>, which does not look for the reverse collation\<close>
  "compare_CHAR field p s =
     (let fd = fv_desc field in
      do {
        ret \<leftarrow> (if fd_type fd = DT_CHAR \<and> fd_collation fd = MDB_COL_CHAR_REVERSE
               then Some (mdb_strnrcmp2 (fd_length fd) p (fd_length fd) s (fd_length fd))
               else ncollate (fd_collation fd) (fd_length fd) p s);
        Some (over_length ret (int (fd_length fd)) (fv_value_length field))
      })"

definition compare_VARCHAR ::
    "(oid \<Rightarrow> (nat \<times> chars) option) \<Rightarrow> (oid \<Rightarrow> bool) \<Rightarrow> FieldValue \<Rightarrow> chars \<Rightarrow> field_value \<Rightarrow> int option" where
  "compare_VARCHAR ext bad field p v =
     (let fd = fv_desc field; col = fd_collation fd; fixed = nat (fd_fixed_part fd); head = fixed - OID_SIZE; len = fv_value_length field in
      do {
        ret \<leftarrow>
          (case v of
             Var (InPlace s blen) \<Rightarrow>
               do { ret \<leftarrow> ncollate col fixed p s; Some (over_length ret (int fixed) len) }
           | Var (Extended s i) \<Rightarrow>
               do {
                 ret \<leftarrow> (if col = MDB_COL_CHAR_DICORDER then Some (mdb_strncasecmp head p s) else ncollate col head p s);
                 if ret \<noteq> 0 then Some ret
                 else if col = MDB_COL_CHAR_DICORDER then
                   (let copy = fst (dbi_strcpy_variable ext bad (Extended s i) (fd_fixed_part fd) (fd_type fd) (fd_length fd)) in
                    do { ret \<leftarrow> ncollate col (fd_length fd) p copy; Some (over_length ret (int (fd_length fd)) len) })
                 else
                   (case ext i of
                      None \<Rightarrow> Some DB_E_OIDPOINTER
                    | Some (blen, u) \<Rightarrow>
                        do { ret \<leftarrow> ncollate col blen (drop head p) u; Some (over_length ret (int head + int blen) len) })
               }
           | Str s \<Rightarrow> ncollate col (fd_length fd) p s
           | _ \<Rightarrow> None);
        Some (over_length ret (int (fd_length fd)) len)
      })"

definition compare_NVARCHAR ::
    "(oid \<Rightarrow> (nat \<times> chars) option) \<Rightarrow> FieldValue \<Rightarrow> chars \<Rightarrow> field_value \<Rightarrow> int option" where
  "compare_NVARCHAR ext field p v =
     (let fd = fv_desc field; col = fd_collation fd; fixed = nat (fd_fixed_part fd); head = fixed - OID_SIZE; len = fv_value_length field in
      do {
        ret \<leftarrow>
          (case v of
             Var (InPlace s blen) \<Rightarrow>
               do { ret \<leftarrow> ncollate col (fixed div WCHAR_SIZE) p s; Some (over_length ret (int (fixed div WCHAR_SIZE)) len) }
           | Var (Extended s i) \<Rightarrow>
               do {
                 ret \<leftarrow> ncollate col (head div WCHAR_SIZE) p s;
                 if ret \<noteq> 0 then Some ret
                 else
                   (case ext i of
                      None \<Rightarrow> Some DB_E_OIDPOINTER
                    | Some (blen, u) \<Rightarrow>
                        do { ret \<leftarrow> ncollate col (blen div WCHAR_SIZE) (drop (head div WCHAR_SIZE) p) u;
                             Some (over_length ret (int ((head + blen) div WCHAR_SIZE)) len) })
               }
           | Str s \<Rightarrow> ncollate col (fd_length fd) p s
           | _ \<Rightarrow> None);
        Some (over_length ret (int (fd_length fd)) len)
      })"

definition compare_TINYINT :: "int \<Rightarrow> int \<Rightarrow> int" where
  \<comment> \<open>and \<^verbatim>\<open>compare_SMALLINT\<close>, \<^verbatim>\<open>compare_BIGINT\<close>, \<^verbatim>\<open>compare_TIMESTAMP\<close>\<close>
  "compare_TINYINT a b = three_way (a < b) (b = a)"

definition compare_INTEGER :: "int \<Rightarrow> int \<Rightarrow> int" where
  "compare_INTEGER a b = (if a = b then 0 else if a > b then 1 else if a < b then - 1 else 0)"

definition compare_FLOAT :: "cfloat \<Rightarrow> cfloat \<Rightarrow> int" where
  "compare_FLOAT x y = (if flt_less x y then - 1 else if flt_less y x then 1 else 0)"

definition compare_DOUBLE :: "cfloat \<Rightarrow> cfloat \<Rightarrow> int" where
  "compare_DOUBLE x y = three_way (flt_less x y) (flt_eq x y)"

definition compare_DATETIME :: "FieldValue \<Rightarrow> chars \<Rightarrow> chars \<Rightarrow> int" where
  \<comment> \<open>and \<^verbatim>\<open>compare_DATE\<close>, \<^verbatim>\<open>compare_TIME\<close>\<close>
  "compare_DATETIME field s t = sc_memcmp (fd_length (fv_desc field)) s t"

definition compare_DECIMAL :: "chars \<Rightarrow> chars \<Rightarrow> int" where
  "compare_DECIMAL s t =
     (if hd0 s \<noteq> hd0 t then (if hd0 s = of_char (CHR ''-'') then - 1 else 1)
      else (let result = mdb_strcmp (tl s) (tl t) in if hd0 s = of_char (CHR ''-'') then - result else result))"

definition compare_func ::
    "(oid \<Rightarrow> (nat \<times> chars) option) \<Rightarrow> (oid \<Rightarrow> bool) \<Rightarrow> FieldValue \<Rightarrow> field_value \<Rightarrow> int option" where
  "compare_func ext bad field v =
     (let ty = fd_type (fv_desc field) in
      case (fv_value field, v) of
        (Num a, Num b) \<Rightarrow> Some (if ty = DT_INTEGER then compare_INTEGER a b else compare_TINYINT a b)
      | (Flt x, Flt y) \<Rightarrow> Some (if ty = DT_FLOAT then compare_FLOAT x y else compare_DOUBLE x y)
      | (Bytes s, Bytes t) \<Rightarrow> Some (compare_DATETIME field s t)
      | (Dec s, Dec t) \<Rightarrow> Some (compare_DECIMAL s t)
      | (Str p, v) \<Rightarrow>
          if ty = DT_VARCHAR then compare_VARCHAR ext bad field p v
          else if ty = DT_NVARCHAR then compare_NVARCHAR ext field p v
          else (case v of Str s \<Rightarrow> compare_CHAR field p s | _ \<Rightarrow> None)
      | _ \<Rightarrow> None)"

fun KeyValue_Compare ::
    "(oid \<Rightarrow> (nat \<times> chars) option) \<Rightarrow> (oid \<Rightarrow> bool) \<Rightarrow> FieldValue list \<Rightarrow> key_record \<Rightarrow> int option" where
  "KeyValue_Compare ext bad [] r = Some 0"
| "KeyValue_Compare ext bad (fieldval # kv) r =
     (let v = r (fd_position (fv_desc fieldval)); mode = fv_mode fieldval in
      if mode \<in> {MDB_NN, MDB_GT, MDB_LT, MDB_BLANK, MDB_NU} then
        do {
          result \<leftarrow>
            (if mode = MDB_NU then Some (if v = None then 0 else 1)
             else
               (case v of
                  None \<Rightarrow> Some (- 1)
                | Some v \<Rightarrow>
                    do {
                      result \<leftarrow> compare_func ext bad fieldval v;
                      Some (if result = 0 \<and> mode = MDB_GT then 1 else if result = 0 \<and> mode = MDB_LT then - 1 else result)
                    }));
          if result = 0 then KeyValue_Compare ext bad kv r
          else Some (if fd_order (fv_desc fieldval) = CHR ''D'' then - result else result)
        }
      else Some 0)"

end
