(* ===== verification/KeyAgree.thy ===== *)
theory KeyAgree
  imports KeyValue
begin

section \<open>Search keys compare as records do\<close>

text \<open>
  A search key created from a record compares with every record of the index as the record itself does, so the
  two orders an index uses, \<^verbatim>\<open>KeyDesc_Compare2\<close> when it inserts and \<^verbatim>\<open>KeyValue_Compare\<close>
  when it searches, are one.
\<close>

subsection \<open>The terminating 0\<close>

lemma cut_take: "cut n (take m s) = cut (min n m) s"
  by (simp add: cut_def)

lemma cut_end [simp]: "cut n (s @ [0]) = cut n s"
proof (induction s arbitrary: n)
  case Nil
  then show ?case by (cases n) auto
next
  case (Cons c s)
  then show ?case by (cases n) auto
qed

lemma body_end_0 [simp]: "body (s @ [0]) = body s"
  unfolding body_def by (induction s) auto

lemma chr_at_end_0 [simp]: "chr_at (s @ [0]) = chr_at s"
  by (rule ext) (auto simp: chr_at_nth nth_append)

lemma lower_end: "map lower_array (s @ [0]) = map lower_array s @ [0]"
  by simp

lemma ncollate_end:
  assumes "sc_ncollate_func col = Some f" and "0 < n"
  shows "sgn (f n (s @ [0]) t) = sgn (f n s t)"
proof -
  have "sgn (strncasecmp n (s @ [0]) t) = sgn (strncasecmp n s t)"
    unfolding strncasecmp_def lower_end by (simp only: strncmp_sign cut_end)
  moreover have "sgn (sc_strndcmp n (s @ [0]) t) = sgn (sc_strndcmp n s t)"
    using calculation strncmp_sign [of n "s @ [0]" t] strncmp_sign [of n s t]
    unfolding sc_strndcmp_def if_zero mdb_strncasecmp_eq mdb_strncmp_eq
    by (auto simp: sgn_if split: if_splits)
  ultimately show ?thesis
    using assms
    by (cases col) (auto simp: sc_strncmp_user1_def mdb_strncmp_eq mdb_strncasecmp_eq strncmp_sign sc_wcsncmp_sign
        sc_memcmp_sign mdb_strnrcmp_sign)
qed

subsection \<open>Values\<close>

definition stored :: "KEY_FIELDDESC \<Rightarrow> field_value \<Rightarrow> bool" where
  \<comment> \<open>the bytes of a field: a date and time has seven and an unused one\<close>
  "stored fd v =
     (case v of
        Bytes s \<Rightarrow> (fd_type fd = DT_DATETIME \<longrightarrow> fd_length fd = 8 \<and> chr_at s 7 = 0) \<and>
          (fd_type fd \<in> {DT_DATE, DT_TIME} \<longrightarrow> fd_length fd = 4)
      | Str s \<Rightarrow> length s \<le> fd_length fd
      | _ \<Rightarrow> True)"

definition stored_record :: "KEY_FIELDDESC list \<Rightarrow> key_record \<Rightarrow> bool" where
  "stored_record fds r \<longleftrightarrow> (\<forall>fd \<in> set fds. \<forall>v. r (fd_position fd) = Some v \<longrightarrow> stored fd v)"

definition search_types :: "DataType set" where
  "search_types = {DT_TINYINT, DT_SMALLINT, DT_INTEGER, DT_BIGINT, DT_DATETIME, DT_DATE, DT_TIME, DT_TIMESTAMP,
     DT_FLOAT, DT_DOUBLE, DT_DECIMAL, DT_VARCHAR, DT_CHAR, DT_NVARCHAR, DT_NCHAR}"

lemma strlen_le: "strlen (s @ [0]) \<le> length s"
  unfolding strlen_def by (induction s) auto

lemma sc_memcmp_datetime:
  assumes "chr_at s 7 = 0" and "chr_at t 7 = 0"
  shows "sgn (sc_memcmp 8 s t) = sgn (sc_memcmp 7 s t)"
proof -
  have app: "lex_sign (u @ [0]) (v @ [0]) = lex_sign u v" if "length u = length v" for u v :: chars
    using that by (induction u v rule: list_induct2) auto
  have "[0 ..< 8] = [0 ..< 7] @ [7 :: nat]" by (simp add: upt_rec)
  then show ?thesis using assms by (simp only: sc_memcmp_sign map_append list.map app length_map)
qed

lemma compare_CHAR_some:
  assumes ok: "field_ok fd" and ty: "fd_type fd \<in> {DT_CHAR, DT_NCHAR}" and len: "length s \<le> fd_length fd" "length t \<le> fd_length fd"
    and n: "n \<le> int (fd_length fd)"
  shows "\<exists>c. compare_CHAR \<lparr>fv_mode = m, fv_desc = fd, fv_value = v, fv_value_length = n\<rparr> (s @ [0]) t = Some c \<and>
    sgn c = sgn (the (fixed_compare fd s t))"
proof -
  from ok ty obtain f where f: "sc_ncollate_func (fd_collation fd) = Some f" "0 < fd_length fd"
    "fd_collation fd = MDB_COL_CHAR_REVERSE \<longrightarrow> 2 \<le> fd_length fd" by (auto simp: field_ok_def)
  have b: "body (take (fd_length fd) (s @ [0])) = body s" "body (take (fd_length fd) t) = body t" "body (take (fd_length fd) s) = body s"
    using len by (cases "length s < fd_length fd"; simp)+
  have over: "over_length c (int (fd_length fd)) n = c" for c using n by (simp add: over_length_def)
  show ?thesis
  proof (cases "fd_collation fd = MDB_COL_CHAR_REVERSE")
    case True
    then have "sgn (mdb_strnrcmp2 (fd_length fd) (s @ [0]) (fd_length fd) t (fd_length fd)) =
        sgn (mdb_strnrcmp2 (fd_length fd) s (fd_length fd) t (fd_length fd))"
      using f by (simp only: mdb_strnrcmp2_eq mdb_strnrcmp_sign b)
    moreover have "compare_CHAR \<lparr>fv_mode = m, fv_desc = fd, fv_value = v, fv_value_length = n\<rparr> (s @ [0]) t =
        Some (if fd_type fd = DT_CHAR then mdb_strnrcmp2 (fd_length fd) (s @ [0]) (fd_length fd) t (fd_length fd)
              else mdb_strnrcmp (fd_length fd) (s @ [0]) t)"
      by (simp add: compare_CHAR_def True over ncollate_def)
    moreover have "sgn (mdb_strnrcmp (fd_length fd) (s @ [0]) t) = sgn (mdb_strnrcmp2 (fd_length fd) s (fd_length fd) t (fd_length fd))"
      using f True by (simp only: mdb_strnrcmp2_eq mdb_strnrcmp_sign b) (simp add: b mdb_strnrcmp2_eq mdb_strnrcmp_sign)
    ultimately show ?thesis using True by (simp add: fixed_compare_def)
  next
    case False
    then show ?thesis using ncollate_end [OF f(1,2), of s t] f(1)
      by (simp add: compare_CHAR_def fixed_compare_def over ncollate_def)
  qed
qed

lemma compare_func_some:
  assumes ok: "field_ok fd" and v: "typed fd v" "stored fd v" and w: "typed fd w" "stored fd w"
    and create: "value_of_field ext bad fd v = Some (x, n)"
  shows "\<exists>c. compare_func ext bad \<lparr>fv_mode = m, fv_desc = fd, fv_value = x, fv_value_length = n mod 2 ^ 32\<rparr> w = Some c \<and>
    sgn c = sgn (val_cmp ext bad fd v w)"
proof (cases v)
  case v': (Str s)
  with v w ok obtain t where t: "w = Str t" by (cases w) auto
  have len: "length s \<le> fd_length fd" "length t \<le> fd_length fd" using v w v' t by (auto simp: stored_def)
  have x: "x = Str (s @ [0])" "0 \<le> n" "n \<le> int (fd_length fd)"
    using create v v' len strlen_le [of s] by (auto simp: value_of_field_def string_value_def Let_def split: if_splits)
  have n: "n mod 2 ^ 32 \<le> int (fd_length fd)" using zmod_le_nonneg_dividend [OF x(2), of "2 ^ 32"] x(3) by linarith
  show ?thesis
  proof (cases "fd_type fd \<in> {DT_CHAR, DT_NCHAR}")
    case True
    then show ?thesis using compare_CHAR_some [OF ok True len n, of m x]
      by (auto simp: compare_func_def x(1) t v' value_compare_def)
  next
    case False
    with v v' have ty: "fd_type fd \<in> {DT_VARCHAR, DT_NVARCHAR}" by auto
    with ok obtain f where f: "sc_ncollate_func (fd_collation fd) = Some f" "0 < fd_length fd" by (auto simp: field_ok_def)
    with ty ncollate_end [OF f, of s t] n show ?thesis
      by (auto simp: compare_func_def compare_VARCHAR_def compare_NVARCHAR_def Let_def x(1) t v' value_compare_def ncollate_def over_length_def)
  qed
next
  case v': (Bytes s)
  with v w obtain t where t: "w = Bytes t" by (cases w) auto
  have "x = v" using create v v' by (auto simp: value_of_field_def split: if_splits)
  then show ?thesis using v w v' t sc_memcmp_datetime [of s t]
    by (auto simp: compare_func_def compare_DATETIME_def value_compare_def stored_def)
next
  case v': (Flt a)
  with v w obtain b where b: "w = Flt b" by (cases w) auto
  have x: "x = v" using create v v' by (auto simp: value_of_field_def split: if_splits)
  have "flt_less a b \<or> (flt_eq a b \<longleftrightarrow> \<not> flt_less b a)"
    using v w v' b comparison.opposite [OF comparison_flt, of a b] by (auto simp: flt_compare_def three_way_def split: if_splits)
  then show ?thesis using v w v' b
    by (auto simp: compare_func_def compare_FLOAT_def compare_DOUBLE_def value_compare_def three_way_def x)
next
  case v': (Num a)
  with v w obtain b where b: "w = Num b" by (cases w) auto
  have x: "x = v" using create v v' by (auto simp: value_of_field_def split: if_splits)
  then show ?thesis using v w v' b
    by (auto simp: compare_func_def compare_INTEGER_def compare_TINYINT_def value_compare_def three_way_def)
next
  case v': (Dec s)
  with v w obtain t where t: "w = Dec t" by (cases w) auto
  have x: "x = v" using create v v' by (auto simp: value_of_field_def split: if_splits)
  then show ?thesis using v w v' t
    by (auto simp: compare_func_def compare_DECIMAL_def decimal_compare_def value_compare_def)
qed (use v in simp)

subsection \<open>Keys\<close>

lemma value_of_field_some: "typed fd v \<Longrightarrow> fd_type fd \<noteq> DT_OID \<longleftrightarrow> value_of_field ext bad fd v \<noteq> None"
  by (cases v) (auto simp: value_of_field_def split: prod.splits)

lemma KeyValue_agrees:
  assumes "r \<in> key_records fds" and "r' \<in> key_records fds" and "stored_record fds r" and "stored_record fds r'"
    and "KeyValue_Create ext bad fds r = Inr kv"
  shows "\<exists>c. KeyValue_Compare ext bad kv r' = Some c \<and> sgn c = sgn (key_compare ext bad fds r r')"
  using assms
proof (induction fds arbitrary: kv)
  case (Cons fd fds)
  let ?v = "r (fd_position fd)" and ?w = "r' (fd_position fd)" and ?D = "fd_order fd = CHR ''D''"
  have R: "field_ok fd" "typed_or_null fd ?v" "typed_or_null fd ?w" "r \<in> key_records fds" "r' \<in> key_records fds"
    using Cons.prems(1,2) by (auto simp: key_records_def)
  have St: "stored_record fds r" "stored_record fds r'" "\<And>v. ?v = Some v \<Longrightarrow> stored fd v" "\<And>v. ?w = Some v \<Longrightarrow> stored fd v"
    using Cons.prems(3,4) by (auto simp: stored_record_def)
  obtain kvs x n where kv: "kv = \<lparr>fv_mode = (if ?v = None then MDB_NU else MDB_NN), fv_desc = fd, fv_value = x, fv_value_length = n mod 2 ^ 32\<rparr> # kvs"
    and kvs: "KeyValue_Create ext bad fds r = Inr kvs" and x: "\<And>v. ?v = Some v \<Longrightarrow> value_of_field ext bad fd v = Some (x, n)"
    using Cons.prems(5) by (cases ?v) (auto simp: Let_def split: if_splits option.splits sum.splits)
  from Cons.IH [OF R(4,5) St(1,2) kvs] obtain c where
    c: "KeyValue_Compare ext bad kvs r' = Some c" "sgn c = sgn (key_compare ext bad fds r r')" by blast
  have rest: "KeyDesc_Compare ext bad fds r r' = Some (key_compare ext bad fds r r')" using R by (simp add: KeyDesc_Compare_some)
  show ?case
  proof (cases "?v = None \<or> ?w = None")
    case True
    then show ?thesis using c rest
      by (auto simp: kv key_compare_def [of ext bad "fd # fds"] KeyDesc_Compare_Cons field_compare_def null_compare_def simp del: KeyDesc_Compare.simps)
  next
    case False
    then obtain v w where vw: "?v = Some v" "?w = Some w" by auto
    have ty: "typed fd v" "typed fd w" using R(2,3) vw by (auto simp: typed_or_null_def)
    from compare_func_some [OF R(1) ty(1) St(3) [OF vw(1)] ty(2) St(4) [OF vw(2)] x [OF vw(1)], of MDB_NN]
    obtain d where d: "compare_func ext bad \<lparr>fv_mode = MDB_NN, fv_desc = fd, fv_value = x, fv_value_length = n mod 2 ^ 32\<rparr> w = Some d"
      "sgn d = sgn (val_cmp ext bad fd v w)" by blast
    from value_compare_ok(1) [OF R(1) ty] obtain e where e: "value_compare ext bad fd v w = Some e" by blast
    with d(2) have "d = 0 \<longleftrightarrow> e = 0" "sgn (- d) = sgn (- e)" by (auto simp: sgn_if split: if_splits)
    then show ?thesis using c rest d e vw
      by (auto simp: kv key_compare_def [of ext bad "fd # fds"] KeyDesc_Compare_Cons field_compare_def FieldDesc_Compare_def simp del: KeyDesc_Compare.simps)
  qed
qed (simp add: key_compare_def)

lemma KeyValue_Create_some:
  assumes "r \<in> key_records fds"
  shows "(\<exists>kv. KeyValue_Create ext bad fds r = Inr kv) \<longleftrightarrow>
    (\<forall>fd \<in> set fds. if r (fd_position fd) = None then fd_type fd \<in> search_types else fd_type fd \<noteq> DT_OID)"
  using assms
proof (induction fds)
  case (Cons fd fds)
  then have ih: "(\<exists>kv. KeyValue_Create ext bad fds r = Inr kv) \<longleftrightarrow>
      (\<forall>fd \<in> set fds. if r (fd_position fd) = None then fd_type fd \<in> search_types else fd_type fd \<noteq> DT_OID)"
    and ty: "typed_or_null fd (r (fd_position fd))" by (auto simp: key_records_def)
  show ?case
  proof (cases "r (fd_position fd)")
    case None
    have "fd_type fd \<in> {DT_NULL_TYPE, DT_BOOL, DT_LONG, DT_BYTE, DT_VARBYTE, DT_TEXT, DT_BLOB, DT_HEX, DT_OID} \<longleftrightarrow>
        fd_type fd \<notin> search_types" by (cases "fd_type fd") (simp_all add: search_types_def)
    then have "(\<exists>kv. KeyValue_Create ext bad (fd # fds) r = Inr kv) \<longleftrightarrow>
        fd_type fd \<in> search_types \<and> (\<exists>kv. KeyValue_Create ext bad fds r = Inr kv)"
      using None by (auto simp: Let_def split: sum.splits simp del: insert_iff)
    with None ih show ?thesis by simp
  next
    case (Some v)
    with ty have "fd_type fd \<noteq> DT_OID \<longleftrightarrow> value_of_field ext bad fd v \<noteq> None" using value_of_field_some [of fd v ext bad] by (simp add: typed_or_null_def)
    then have "(\<exists>kv. KeyValue_Create ext bad (fd # fds) r = Inr kv) \<longleftrightarrow>
        fd_type fd \<noteq> DT_OID \<and> (\<exists>kv. KeyValue_Create ext bad fds r = Inr kv)"
      using Some by (cases "value_of_field ext bad fd v") (auto simp: Let_def split: sum.splits)
    with Some ih show ?thesis by simp
  qed
qed simp

end
