(* ===== verification/KeyClaims.thy ===== *)
theory KeyClaims
  imports KeyAgree
begin

section \<open>Properties of collations and keys\<close>

text \<open>
  The orders an index can have, and where the code leaves them: string functions that are no order, and strings
  of a variable length under the dictionary order.
\<close>



text \<open>The bounded reverse comparison orders strings by the reversed part before the delimiter or the end, of
which it looks at \<open>n\<close> characters.\<close>

theorem mdb_strnrcmp_reversed:
  assumes "0 < n"
  shows "sgn (mdb_strnrcmp n s t) = lex_sign (take n (rev (body s))) (take n (rev (body t)))"
  by (rule mdb_strnrcmp_sign [OF assms])

theorem mdb_strnrcmp_reversed_witness: "sgn (mdb_strnrcmp 3 [97, 98] [98, 97]) = 1"
  by (subst mdb_strnrcmp_reversed) (simp_all add: body_def IS_REVERSE_DELIMITER_def)

lemma strrcmp_loop_suffix:
  "(\<And>i. i \<le> a \<Longrightarrow> chr_at s i = chr_at t (k + i)) \<Longrightarrow> mdb_strrcmp_loop s a t (k + a) = (0, k)"
proof (induction a)
  case 0
  then show ?case by (subst mdb_strrcmp_loop.simps) simp
next
  case (Suc a)
  then have "mdb_strrcmp_loop s a t (k + a) = (0, k)" by simp
  moreover have "chr_at s (Suc a) = chr_at t (k + Suc a)" using Suc.prems [of "Suc a"] by simp
  ultimately show ?case by (subst mdb_strrcmp_loop.simps) simp
qed

text \<open>C38: The unbounded reverse comparison takes a string and a longer one that ends in it for equal, where the
bounded one finds the shorter string less: it is not the same order, and no order.\<close>

theorem mdb_strrcmp_suffix_equal:
  assumes "body s \<noteq> []" and "body t = u @ body s" and "u \<noteq> []" and "length (body s) < n"
  shows "mdb_strrcmp s t = 0 \<and> mdb_strnrcmp n s t < 0"
proof
  obtain a where a: "length (body s) = Suc a" using assms(1) by (cases "body s") auto
  have "chr_at s i = chr_at t (length u + i)" if "i \<le> a" for i
    using body_nth [of i s] body_nth [of "length u + i" t] that a assms(2) by simp
  from strrcmp_loop_suffix [OF this] have "mdb_strrcmp_loop s a t (length u + a) = (0, length u)" .
  moreover have "reverse_start s = a" "reverse_start t = length u + a" using a assms(2) by (simp_all add: reverse_start_eq)
  moreover have "chr_at s 0 = chr_at t (length u)"
    using body_nth [of 0 s] body_nth [of "length u" t] a assms(2) by (simp add: nth_append)
  ultimately show "mdb_strrcmp s t = 0" by (simp add: mdb_strrcmp_def)
  have "lex_sign xs (xs @ ys) = -1" if "ys \<noteq> []" for xs ys :: "nat list"
    using that by (induction xs) (auto simp: neq_Nil_conv)
  moreover have "take n (rev (body t)) = rev (body s) @ take (n - length (body s)) (rev u)" "take (n - length (body s)) (rev u) \<noteq> []"
    "take n (rev (body s)) = rev (body s)"
    using assms by simp_all
  ultimately have "sgn (mdb_strnrcmp n s t) = -1" using assms(4) mdb_strnrcmp_sign [of n s t] by simp
  then show "mdb_strnrcmp n s t < 0" by (simp add: sgn_if split: if_splits)
qed

theorem mdb_strrcmp_suffix_equal_witness:
  "mdb_strrcmp [97] [98, 97] = 0 \<and> mdb_strrcmp [97] [99, 97] = 0 \<and> mdb_strrcmp [98, 97] [99, 97] \<noteq> 0"
  using mdb_strrcmp_suffix_equal [of "[97]" "[98, 97]" "[98]" 2] mdb_strrcmp_suffix_equal [of "[97]" "[99, 97]" "[99]" 2]
  by (simp add: body_def IS_REVERSE_DELIMITER_def mdb_strrcmp_def reverse_start_def Let_def mdb_strrcmp_loop.simps split: prod.splits)




definition name_and_age :: "KEY_FIELDDESC list" where
  "name_and_age =
     [\<lparr>fd_order = CHR ''D'', fd_type = DT_CHAR, fd_position = 0, fd_length = 2, fd_fixed_part = FIXED_VARIABLE,
       fd_collation = MDB_COL_CHAR_NOCASE\<rparr>,
      \<lparr>fd_order = CHR ''A'', fd_type = DT_INTEGER, fd_position = 1, fd_length = 4, fd_fixed_part = FIXED_VARIABLE,
       fd_collation = MDB_COL_NONE\<rparr>]"

definition person :: "chars \<Rightarrow> int option \<Rightarrow> key_record" where
  "person s a = (\<lambda>p. if p = 0 then Some (Str s) else if p = 1 then map_option Num a else None)"

lemma person_key: "person s a \<in> key_records name_and_age" "length s \<le> 2 \<Longrightarrow> stored_record name_and_age (person s a)"
  by (cases a; simp add: key_records_def name_and_age_def person_def field_ok_def typed_or_null_def stored_record_def stored_def)+






definition dic_field :: KEY_FIELDDESC where
  "dic_field = \<lparr>fd_order = CHR ''A'', fd_type = DT_VARCHAR, fd_position = 0, fd_length = 20, fd_fixed_part = 9,
     fd_collation = MDB_COL_CHAR_DICORDER\<rparr>"

definition dic_rest :: "oid \<Rightarrow> (nat \<times> chars) option" where
  "dic_rest = [1 \<mapsto> (3, [98, 88, 0]), 2 \<mapsto> (3, [66, 89, 0])]"


end
