(* ===== verification/IndexSlots.thy ===== *)
theory IndexSlots
  imports Prelude "HOL-Library.Monad_Syntax"
begin

section \<open>Slots for index nodes (\<^verbatim>\<open>openML/src/server/storage/mdb_Index_Collect.c\<close>)\<close>

text \<open>
  The nodes of all indexes live in slots of index pages.  A page chains its free slots; the
  collection of the index catalogue chains the pages that may have free slots.  Both chains run
  through the memory they describe and are lists here: \<open>free_nodes\<close> of a page and
  \<open>free_page_list\<close>; \<^verbatim>\<open>free_page_next_ == FULL_PID\<close> is the flag \<open>page_full\<close>.  The state
  byte of a slot is \<open>slot_used\<close>.  \<^verbatim>\<open>Index_MemMgr_AllocatePage\<close> is a sequence of answers:
  the result code and the page id of the \<open>n\<close>-th call.  A result is \<open>None\<close> where the code follows
  a wild pointer or does not return.  The numbers are those of the default configuration on a 64-bit
  machine; nothing is proved from them but that the slots of a page are different and lie in the page.
\<close>

definition DB_E_PIDPOINTER :: int where "DB_E_PIDPOINTER = - 124"

definition PAGE_HEADER_SIZE :: nat where "PAGE_HEADER_SIZE = 56"
definition TTREE_SLOT_SIZE :: nat where "TTREE_SLOT_SIZE = 1016"
definition SLOT_PER_IPAGE :: nat where "SLOT_PER_IPAGE = 8"
definition TEMPSEG_BASE_NO :: nat where "TEMPSEG_BASE_NO = 2729"

definition Index_getSegmentNo :: "oid \<Rightarrow> nat" where "Index_getSegmentNo i = i div 2 ^ 16"
definition OID_GetOffSet :: "oid \<Rightarrow> nat" where "OID_GetOffSet i = i mod 2 ^ 14"
definition page_of :: "oid \<Rightarrow> oid" where
  \<comment> \<open>segment and page number of an OID\<close>
  "page_of i = i - i mod 2 ^ 14"

definition Index_OID_Point :: "oid \<Rightarrow> oid" where
  \<comment> \<open>a pointer to a slot is the OID of the slot, NULL is 0\<close>
  "Index_OID_Point i = (if i = NULL_OID then 0 else if Index_getSegmentNo i < TEMPSEG_BASE_NO then 0 else i)"

record ipage =
  free_nodes :: "oid list"
  node_count_in_page :: int
  page_full :: bool

record islots =
  ipages :: "oid \<Rightarrow> ipage option"
  slot_used :: "oid \<Rightarrow> bool"
  free_page_list :: "oid list"
  icol_item_count :: int
  page_calls :: nat
  page_results :: "nat \<Rightarrow> int \<times> oid"

definition Index_PageID_Pointer :: "islots \<Rightarrow> oid \<Rightarrow> ipage option" where
  "Index_PageID_Pointer s i = (if Index_getSegmentNo i < TEMPSEG_BASE_NO then None else ipages s (page_of i))"

definition set_page :: "oid \<Rightarrow> ipage \<Rightarrow> islots \<Rightarrow> islots" where
  "set_page p pg s = s\<lparr>ipages := (ipages s)(p \<mapsto> pg)\<rparr>"

definition page_slots :: "oid \<Rightarrow> oid list" where
  "page_slots p = map (\<lambda>k. p + PAGE_HEADER_SIZE + k * TTREE_SLOT_SIZE) [0 ..< SLOT_PER_IPAGE]"

definition Index_Collect_InitializePage :: "oid \<Rightarrow> islots \<Rightarrow> islots" where
  "Index_Collect_InitializePage p s =
     (if Index_getSegmentNo p < TEMPSEG_BASE_NO then s
      else set_page p \<lparr>free_nodes = page_slots p, node_count_in_page = 0, page_full = False\<rparr>
        (s\<lparr>slot_used := (\<lambda>i. if i \<in> set (page_slots p) then False else slot_used s i)\<rparr>))"

fun free_page_search :: "oid list \<Rightarrow> islots \<Rightarrow> oid \<times> islots" where
  "free_page_search [] s = (0, s\<lparr>free_page_list := []\<rparr>)"
| "free_page_search (p # ps) s =
     (case Index_PageID_Pointer s p of
        None \<Rightarrow> (0, s\<lparr>free_page_list := p # ps\<rparr>)
      | Some pg \<Rightarrow>
          if free_nodes pg \<noteq> [] then (p, s\<lparr>free_page_list := p # ps\<rparr>)
          else free_page_search ps (set_page p (pg\<lparr>page_full := True\<rparr>) s))"

definition Index_Free_Page_Search :: "islots \<Rightarrow> oid \<times> islots" where
  "Index_Free_Page_Search s = free_page_search (free_page_list s) s"

definition Collect_RecoverIPage :: "oid \<Rightarrow> ipage \<Rightarrow> islots \<Rightarrow> islots" where
  "Collect_RecoverIPage p pg s =
     set_page p (pg\<lparr>free_nodes := filter (\<lambda>i. \<not> slot_used s i) (page_slots p),
        node_count_in_page := int (length (filter (slot_used s) (page_slots p)))\<rparr>) s"

definition slot_bad :: "islots \<Rightarrow> oid \<Rightarrow> oid \<Rightarrow> bool" where
  "slot_bad s p i \<longleftrightarrow> page_of i \<noteq> page_of p \<or> OID_GetOffSet i < PAGE_HEADER_SIZE \<or> slot_used s i"

partial_function (option) search_slot :: "islots \<Rightarrow> (int \<times> oid \<times> islots) option" where
  \<comment> \<open>from \<^verbatim>\<open>Try_Search_Again\<close> on; the page with the slot, 0 for no page\<close>
  "search_slot s =
     (let (p, s) = Index_Free_Page_Search s in
      if p = 0 then Some (DB_SUCCESS, 0, s)
      else
        do {
          pg \<leftarrow> Index_PageID_Pointer s p;
          let i = hd (free_nodes pg);
          if Index_OID_Point (i + (TTREE_SLOT_SIZE - 1)) = 0 then Some (DB_E_OIDPOINTER, 0, s)
          else if slot_bad s p i then search_slot (Collect_RecoverIPage p pg s)
          else Some (DB_SUCCESS, p, s)
        })"

definition take_slot :: "oid \<Rightarrow> islots \<Rightarrow> (int \<times> oid \<times> islots) option" where
  "take_slot p s =
     do {
       pg \<leftarrow> Index_PageID_Pointer s p;
       let i = hd (free_nodes pg);
       if Index_OID_Point i = 0 then Some (DB_E_OIDPOINTER, i, s)
       else
         (let rest = tl (free_nodes pg);
              s = s\<lparr>slot_used := (slot_used s)(i := True)\<rparr>;
              pg = pg\<lparr>free_nodes := rest, node_count_in_page := node_count_in_page pg + 1,
                page_full := rest = [] \<or> page_full pg\<rparr>;
              s = set_page p pg s;
              s = (if rest = [] then s\<lparr>free_page_list := tl (free_page_list s)\<rparr> else s) in
          Some (DB_SUCCESS, i, s\<lparr>icol_item_count := icol_item_count s + 1\<rparr>))
     }"

definition new_ipage :: "islots \<Rightarrow> (int \<times> oid \<times> islots) option" where
  "new_ipage s =
     (let (ret, p) = page_results s (page_calls s); s = s\<lparr>page_calls := page_calls s + 1\<rparr> in
      if ret < 0 then Some (ret, NULL_OID, s)
      else
        (let s = Index_Collect_InitializePage p s in
         if Index_getSegmentNo p < TEMPSEG_BASE_NO then Some (DB_E_PIDPOINTER, NULL_OID, s)
         else take_slot p (s\<lparr>free_page_list := [p]\<rparr>)))"

definition Index_Collect_AllocateSlot :: "islots \<Rightarrow> (int \<times> oid \<times> islots) option" where
  \<comment> \<open>the OID is meaningful with \<^verbatim>\<open>DB_SUCCESS\<close> only\<close>
  "Index_Collect_AllocateSlot s =
     do {
       (ret, p, s) \<leftarrow> search_slot s;
       if ret < 0 then Some (ret, NULL_OID, s)
       else if p \<noteq> 0 then take_slot p s
       else if free_page_list s \<noteq> [] then Some (DB_E_PIDPOINTER, NULL_OID, s)
       else new_ipage s
     }"

definition Index_Col_Remove :: "oid \<Rightarrow> islots \<Rightarrow> (int \<times> islots) option" where
  "Index_Col_Remove i s =
     do {
       pg \<leftarrow> Index_PageID_Pointer s i;
       let p = page_of i;
       let s = s\<lparr>slot_used := (slot_used s)(i := False)\<rparr>;
       let s = s\<lparr>icol_item_count := icol_item_count s - 1\<rparr>;
       let s = (if page_full pg then s\<lparr>free_page_list := p # free_page_list s\<rparr> else s);
       Some (DB_SUCCESS, set_page p (pg\<lparr>free_nodes := i # free_nodes pg,
         node_count_in_page := node_count_in_page pg - 1, page_full := False\<rparr>) s)
     }"

subsection \<open>Where slots are\<close>

definition ipage_id :: "oid \<Rightarrow> bool" where
  "ipage_id p \<longleftrightarrow> p mod 2 ^ 14 = 0 \<and> TEMPSEG_BASE_NO \<le> Index_getSegmentNo p"

lemma in_page:
  assumes "ipage_id p" and "r < 2 ^ 14"
  shows "page_of (p + r) = p" "OID_GetOffSet (p + r) = r" "Index_getSegmentNo (p + r) = Index_getSegmentNo p"
proof -
  from assms obtain k where p: "p = 2 ^ 14 * k" by (auto simp: ipage_id_def)
  then show "page_of (p + r) = p" "OID_GetOffSet (p + r) = r"
    using assms(2) by (simp_all add: page_of_def OID_GetOffSet_def)
  have "(2 ^ 14 * k + r) div 2 ^ 14 = k" "(2 ^ 14 * k) div 2 ^ 14 = k" using assms(2) by simp_all
  moreover have "x div 2 ^ 16 = x div 2 ^ 14 div 2 ^ 2" for x :: nat by (simp add: div_mult2_eq [symmetric])
  ultimately show "Index_getSegmentNo (p + r) = Index_getSegmentNo p"
    unfolding Index_getSegmentNo_def p by metis
qed

lemma page_slots_in:
  assumes "i \<in> set (page_slots p)"
  obtains r where "i = p + r" "PAGE_HEADER_SIZE \<le> r" "r + TTREE_SLOT_SIZE \<le> 2 ^ 14"
proof -
  from assms obtain k where k: "k < SLOT_PER_IPAGE" "i = p + PAGE_HEADER_SIZE + k * TTREE_SLOT_SIZE"
    by (auto simp: page_slots_def)
  then have "k * TTREE_SLOT_SIZE \<le> 7 * TTREE_SLOT_SIZE" by (simp add: SLOT_PER_IPAGE_def)
  then have "PAGE_HEADER_SIZE + k * TTREE_SLOT_SIZE + TTREE_SLOT_SIZE \<le> 2 ^ 14"
    by (simp add: PAGE_HEADER_SIZE_def TTREE_SLOT_SIZE_def)
  with k(2) show ?thesis by (intro that [of "PAGE_HEADER_SIZE + k * TTREE_SLOT_SIZE"]) simp_all
qed

lemma page_slot:
  assumes "ipage_id p" and "i \<in> set (page_slots p)"
  shows "page_of i = p" "\<not> OID_GetOffSet i < PAGE_HEADER_SIZE" "Index_OID_Point i = i" "i \<noteq> 0"
    "Index_OID_Point (i + (TTREE_SLOT_SIZE - 1)) \<noteq> 0" "TEMPSEG_BASE_NO \<le> Index_getSegmentNo i"
proof -
  from page_slots_in [OF assms(2)] obtain r
    where r: "i = p + r" "PAGE_HEADER_SIZE \<le> r" "r + TTREE_SLOT_SIZE \<le> 2 ^ 14" by blast
  then have r2: "r < 2 ^ 14" "r + (TTREE_SLOT_SIZE - 1) < 2 ^ 14" by (simp_all add: TTREE_SLOT_SIZE_def)
  note in_r = in_page [OF assms(1) r2(1)] and in_e = in_page [OF assms(1) r2(2)]
  from in_r r show "page_of i = p" "\<not> OID_GetOffSet i < PAGE_HEADER_SIZE" by simp_all
  have seg: "TEMPSEG_BASE_NO \<le> Index_getSegmentNo p" using assms(1) by (simp add: ipage_id_def)
  from r in_r seg show "i \<noteq> 0" "TEMPSEG_BASE_NO \<le> Index_getSegmentNo i" "Index_OID_Point i = i"
    by (auto simp: PAGE_HEADER_SIZE_def Index_OID_Point_def NULL_OID_def)
  have "Index_getSegmentNo (i + (TTREE_SLOT_SIZE - 1)) = Index_getSegmentNo p"
    unfolding r(1) add.assoc by (rule in_e(3))
  with r seg show "Index_OID_Point (i + (TTREE_SLOT_SIZE - 1)) \<noteq> 0"
    by (auto simp: PAGE_HEADER_SIZE_def Index_OID_Point_def NULL_OID_def)
qed

lemma distinct_page_slots: "distinct (page_slots p)"
  by (auto simp: page_slots_def distinct_map inj_on_def TTREE_SLOT_SIZE_def)

lemma ipage_id_page [simp]: "ipage_id p \<Longrightarrow> page_of p = p"
  using in_page(1) [of p 0] by simp

subsection \<open>The invariant\<close>

definition page_ok :: "islots \<Rightarrow> oid \<Rightarrow> ipage \<Rightarrow> bool" where
  "page_ok s p pg \<longleftrightarrow> ipage_id p \<and> distinct (free_nodes pg) \<and>
     set (free_nodes pg) \<subseteq> {i \<in> set (page_slots p). \<not> slot_used s i} \<and>
     (page_full pg \<longleftrightarrow> p \<notin> set (free_page_list s))"

definition pages_ok :: "islots \<Rightarrow> bool" where
  "pages_ok s \<longleftrightarrow> distinct (free_page_list s) \<and> (\<forall>p \<in> set (free_page_list s). ipages s p \<noteq> None) \<and>
     (\<forall>p pg. ipages s p = Some pg \<longrightarrow> page_ok s p pg) \<and>
     (\<forall>i. slot_used s i \<longrightarrow> ipages s (page_of i) \<noteq> None \<and> i \<in> set (page_slots (page_of i)))"

definition answers_ok :: "islots \<Rightarrow> bool" where
  \<comment> \<open>\<^verbatim>\<open>Index_MemMgr_AllocatePage\<close> hands out index pages that are not in use\<close>
  "answers_ok s \<longleftrightarrow>
     (\<forall>n \<ge> page_calls s. fst (page_results s n) \<ge> 0 \<longrightarrow>
        ipage_id (snd (page_results s n)) \<and> ipages s (snd (page_results s n)) = None \<and>
        (\<forall>m > n. fst (page_results s m) \<ge> 0 \<longrightarrow> snd (page_results s m) \<noteq> snd (page_results s n)))"

definition slots_ok :: "islots \<Rightarrow> bool" where
  "slots_ok s \<longleftrightarrow> pages_ok s \<and> answers_ok s"

definition live_slots :: "islots \<Rightarrow> oid set" where
  "live_slots s = {i. slot_used s i}"

lemma slots_okD:
  assumes "slots_ok s"
  shows "distinct (free_page_list s)" "p \<in> set (free_page_list s) \<Longrightarrow> \<exists>pg. ipages s p = Some pg"
    "ipages s p = Some pg \<Longrightarrow> page_ok s p pg"
    "slot_used s i \<Longrightarrow> ipages s (page_of i) \<noteq> None \<and> i \<in> set (page_slots (page_of i))"
  using assms by (auto simp: slots_ok_def pages_ok_def)

lemma page_pointer: "slots_ok s \<Longrightarrow> ipages s p = Some pg \<Longrightarrow> Index_PageID_Pointer s p = Some pg"
  using slots_okD(3) [of s p pg]
  by (auto simp: Index_PageID_Pointer_def page_ok_def ipage_id_def not_le)

lemma set_page_fields [simp]:
  "slot_used (set_page p pg s) = slot_used s" "free_page_list (set_page p pg s) = free_page_list s"
  "page_calls (set_page p pg s) = page_calls s" "page_results (set_page p pg s) = page_results s"
  "ipages (set_page p pg s) = (ipages s)(p \<mapsto> pg)"
  by (simp_all add: set_page_def)

lemma answers_ok_weaken:
  assumes "answers_ok s" and "page_results t = page_results s" and "page_calls s \<le> page_calls t"
    and "\<And>p. ipages s p = None \<Longrightarrow> ipages t p = None"
  shows "answers_ok t"
  using assms unfolding answers_ok_def by (metis order_trans)

subsection \<open>Taking and giving back\<close>

lemma free_page_search_ok:
  "slots_ok (s\<lparr>free_page_list := ps\<rparr>) \<Longrightarrow> free_page_search ps s = (p, t) \<Longrightarrow>
   slots_ok t \<and> slot_used t = slot_used s \<and>
   (if p = 0 then free_page_list t = [] else \<exists>pg. ipages t p = Some pg \<and> free_nodes pg \<noteq> [] \<and> hd (free_page_list t) = p \<and> free_page_list t \<noteq> [])"
proof (induction ps s arbitrary: p t rule: free_page_search.induct)
  case (1 s)
  then show ?case by auto
next
  case (2 q ps s)
  let ?s = "s\<lparr>free_page_list := q # ps\<rparr>"
  obtain pg where pg: "ipages ?s q = Some pg" using slots_okD(2) [OF 2(2)] by fastforce
  have ptr: "Index_PageID_Pointer s q = Some pg"
    using page_pointer [OF 2(2) pg] by (simp add: Index_PageID_Pointer_def split: if_splits)
  have ok: "page_ok ?s q pg" using slots_okD(3) [OF 2(2) pg] .
  show ?case
  proof (cases "free_nodes pg = []")
    case False
    with 2 ptr pg ok show ?thesis by (auto simp: page_ok_def ipage_id_def Index_getSegmentNo_def TEMPSEG_BASE_NO_def)
  next
    case True
    let ?t = "set_page q (pg\<lparr>page_full := True\<rparr>) s"
    have "pages_ok (?t\<lparr>free_page_list := ps\<rparr>)"
      using 2(2) pg True unfolding slots_ok_def pages_ok_def page_ok_def by auto
    moreover have "answers_ok (?t\<lparr>free_page_list := ps\<rparr>)"
      using 2(2) pg unfolding slots_ok_def by (auto elim!: answers_ok_weaken)
    ultimately show ?thesis using 2(1) [OF ptr] 2(3) ptr True by (simp add: slots_ok_def)
  qed
qed


lemma search_slot_ok:
  assumes "slots_ok s"
  obtains p t where "search_slot s = Some (DB_SUCCESS, p, t)" "slots_ok t" "slot_used t = slot_used s"
    "if p = 0 then free_page_list t = []
     else \<exists>pg. ipages t p = Some pg \<and> free_nodes pg \<noteq> [] \<and> hd (free_page_list t) = p \<and> free_page_list t \<noteq> []"
proof -
  obtain p t where f: "free_page_search (free_page_list s) s = (p, t)" by fastforce
  have "s\<lparr>free_page_list := free_page_list s\<rparr> = s" by simp
  with assms f free_page_search_ok [where s = s and ps = "free_page_list s" and p = p and t = t]
  have t: "slots_ok t" "slot_used t = slot_used s"
    "if p = 0 then free_page_list t = []
     else \<exists>pg. ipages t p = Some pg \<and> free_nodes pg \<noteq> [] \<and> hd (free_page_list t) = p \<and> free_page_list t \<noteq> []"
    by simp_all
  have "search_slot s = Some (DB_SUCCESS, p, t)"
  proof (cases "p = 0")
    case True
    with f show ?thesis by (simp add: search_slot.simps Index_Free_Page_Search_def)
  next
    case False
    with t(3) obtain pg where pg: "ipages t p = Some pg" "free_nodes pg \<noteq> []" by auto
    from slots_okD(3) [OF t(1) pg(1)] have ok: "page_ok t p pg" .
    then have id: "ipage_id p" by (simp add: page_ok_def)
    have slot: "hd (free_nodes pg) \<in> set (page_slots p)" "\<not> slot_used t (hd (free_nodes pg))"
      using ok hd_in_set [OF pg(2)] unfolding page_ok_def by blast+
    have "\<not> slot_bad t p (hd (free_nodes pg))"
      using page_slot(1,2) [OF id slot(1)] slot(2) id by (simp add: slot_bad_def)
    with f False page_pointer [OF t(1) pg(1)] page_slot(5) [OF id slot(1)] show ?thesis
      by (simp add: search_slot.simps Index_Free_Page_Search_def Let_def)
  qed
  with t that show ?thesis by blast
qed

lemma take_slot_ok:
  assumes ok: "slots_ok s" and pg: "ipages s p = Some pg" "free_nodes pg \<noteq> []"
    and hd: "hd (free_page_list s) = p" "free_page_list s \<noteq> []"
  obtains i t where "take_slot p s = Some (DB_SUCCESS, i, t)" "slots_ok t" "\<not> slot_used s i"
    "slot_used t = (slot_used s)(i := True)" "Index_OID_Point i = i" "i \<noteq> 0"
proof -
  obtain i rest where i: "free_nodes pg = i # rest" using pg(2) by (cases "free_nodes pg") auto
  obtain ps where ps: "free_page_list s = p # ps" using hd by (cases "free_page_list s") auto
  from slots_okD(3) [OF ok pg(1)] have pok: "page_ok s p pg" .
  then have id: "ipage_id p" and slot: "i \<in> set (page_slots p)" "\<not> slot_used s i" "i \<notin> set rest"
    and sub: "set rest \<subseteq> {i \<in> set (page_slots p). \<not> slot_used s i}" "distinct rest"
    and nf: "\<not> page_full pg"
    using i ps by (auto simp: page_ok_def)
  note page = page_slot [OF id slot(1)]
  define t where "t = snd (snd (the (take_slot p s)))"
  have run: "take_slot p s = Some (DB_SUCCESS, i, t)"
    using page_pointer [OF ok pg(1)] i page(3,4) by (simp add: take_slot_def Let_def t_def)
  have used: "slot_used t = (slot_used s)(i := True)"
    using page_pointer [OF ok pg(1)] i page(3,4) by (simp add: take_slot_def Let_def t_def)
  have pages: "ipages t = (ipages s)(p \<mapsto> pg\<lparr>free_nodes := rest, node_count_in_page := node_count_in_page pg + 1,
      page_full := rest = []\<rparr>)" "free_page_list t = (if rest = [] then ps else p # ps)"
    "page_results t = page_results s" "page_calls t = page_calls s"
    using page_pointer [OF ok pg(1)] i page(3,4) ps nf by (simp_all add: take_slot_def Let_def t_def)
  have other: "i \<notin> set (page_slots q)" if "ipage_id q" "q \<noteq> p" for q
    using page_slot(1) [OF that(1)] page(1) that(2) by blast
  have "page_ok t q pg'" if "ipages t q = Some pg'" for q pg'
  proof (cases "q = p")
    case True
    with that pages sub id slot slots_okD(1) [OF ok] ps show ?thesis by (auto simp: page_ok_def used)
  next
    case False
    with that have q: "ipages s q = Some pg'" by (simp add: pages)
    with slots_okD(3) [OF ok] have "page_ok s q pg'" by blast
    moreover from this other False have "i \<notin> set (page_slots q)" by (simp add: page_ok_def)
    ultimately show ?thesis using False ps by (auto simp: page_ok_def used pages)
  qed
  moreover have "distinct (free_page_list t)" "\<forall>q \<in> set (free_page_list t). ipages t q \<noteq> None"
    using slots_okD(1) [OF ok] slots_okD(2) [OF ok] ps by (auto simp: pages)
  moreover have "ipages t (page_of j) \<noteq> None \<and> j \<in> set (page_slots (page_of j))" if "slot_used t j" for j
    using that slots_okD(4) [OF ok, of j] page(1) slot(1) by (auto simp: used pages split: if_splits)
  ultimately have "pages_ok t" by (simp add: pages_ok_def)
  moreover have "answers_ok t"
    by (rule answers_ok_weaken [of s]) (use ok pg(1) in \<open>auto simp: slots_ok_def pages\<close>)
  ultimately show ?thesis using that [OF run] page(3,4) slot(2) used by (simp add: slots_ok_def)
qed


lemma new_ipage_ok:
  assumes ok: "slots_ok s" and none: "free_page_list s = []"
  obtains r i t where "new_ipage s = Some (r, i, t)" "slots_ok t"
    "r = DB_SUCCESS \<and> \<not> slot_used s i \<and> slot_used t = (slot_used s)(i := True) \<and> Index_OID_Point i = i \<and> i \<noteq> 0 \<or>
     r < 0 \<and> slot_used t = slot_used s"
proof -
  obtain ret p where a: "page_results s (page_calls s) = (ret, p)" by fastforce
  let ?s = "s\<lparr>page_calls := page_calls s + 1\<rparr>"
  have weak: "slots_ok ?s"
    using ok unfolding slots_ok_def pages_ok_def page_ok_def answers_ok_def by auto
  show ?thesis
  proof (cases "ret < 0")
    case True
    with a weak show ?thesis by (intro that [of ret NULL_OID ?s]) (simp_all add: new_ipage_def Let_def)
  next
    case False
    have "answers_ok s" using ok by (simp add: slots_ok_def)
    from this [unfolded answers_ok_def, rule_format, of "page_calls s"] a False
    have id: "ipage_id p" and new: "ipages s p = None"
      and later: "\<And>m. m > page_calls s \<Longrightarrow> fst (page_results s m) \<ge> 0 \<Longrightarrow> snd (page_results s m) \<noteq> p"
      by simp_all
    have seg: "\<not> Index_getSegmentNo p < TEMPSEG_BASE_NO" using id by (simp add: ipage_id_def)
    have unused: "\<not> slot_used s i" if "i \<in> set (page_slots p)" for i
      using slots_okD(4) [OF ok, of i] page_slot(1) [OF id that] new by auto
    define u where "u = (Index_Collect_InitializePage p ?s)\<lparr>free_page_list := [p]\<rparr>"
    let ?pg = "\<lparr>free_nodes = page_slots p, node_count_in_page = 0, page_full = False\<rparr>"
    have fields: "ipages u = (ipages s)(p \<mapsto> ?pg)" "slot_used u = slot_used s" "free_page_list u = [p]"
      "page_results u = page_results s" "page_calls u = page_calls s + 1"
      using seg unused by (auto simp: u_def Index_Collect_InitializePage_def set_page_def fun_eq_iff)
    have "page_ok u q pg" if "ipages u q = Some pg" for q pg
    proof (cases "q = p")
      case True
      with that id unused show ?thesis by (auto simp: fields page_ok_def distinct_page_slots)
    next
      case False
      with that slots_okD(3) [OF ok, of q pg] none show ?thesis
        by (auto simp: fields page_ok_def)
    qed
    then have "pages_ok u"
      using slots_okD(4) [OF ok] by (auto simp: pages_ok_def fields)
    moreover have "answers_ok u"
      using ok later unfolding slots_ok_def answers_ok_def fields by auto
    ultimately have "slots_ok u" by (simp add: slots_ok_def)
    then obtain i t where "take_slot p u = Some (DB_SUCCESS, i, t)" "slots_ok t" "\<not> slot_used u i"
      "slot_used t = (slot_used u)(i := True)" "Index_OID_Point i = i" "i \<noteq> 0"
      by (rule take_slot_ok [of u p ?pg]) (simp_all add: fields page_slots_def SLOT_PER_IPAGE_def)
    with a False seg fields(2) show ?thesis
      by (intro that [of DB_SUCCESS i t]) (simp_all add: new_ipage_def Let_def u_def)
  qed
qed

lemma AllocateSlot_ok:
  assumes ok: "slots_ok s"
  shows "\<exists>r i t. Index_Collect_AllocateSlot s = Some (r, i, t) \<and> slots_ok t \<and>
    (r = DB_SUCCESS \<and> i \<notin> live_slots s \<and> live_slots t = insert i (live_slots s) \<and> Index_OID_Point i = i \<and> i \<noteq> 0 \<or>
     r < 0 \<and> live_slots t = live_slots s)"
proof -
  obtain p u where u: "search_slot s = Some (DB_SUCCESS, p, u)" "slots_ok u" "slot_used u = slot_used s"
    "if p = 0 then free_page_list u = []
     else \<exists>pg. ipages u p = Some pg \<and> free_nodes pg \<noteq> [] \<and> hd (free_page_list u) = p \<and> free_page_list u \<noteq> []"
    using search_slot_ok [OF ok] by metis
  show ?thesis
  proof (cases "p = 0")
    case True
    with u obtain r i t where "new_ipage u = Some (r, i, t)" "slots_ok t"
      "r = DB_SUCCESS \<and> \<not> slot_used u i \<and> slot_used t = (slot_used u)(i := True) \<and> Index_OID_Point i = i \<and> i \<noteq> 0 \<or>
       r < 0 \<and> slot_used t = slot_used u"
      using new_ipage_ok [OF u(2)] by metis
    with True u show ?thesis
      by (auto simp: Index_Collect_AllocateSlot_def DB_SUCCESS_def live_slots_def)
  next
    case False
    with u obtain pg where "ipages u p = Some pg" "free_nodes pg \<noteq> []" "hd (free_page_list u) = p" "free_page_list u \<noteq> []"
      by auto
    with u(2) obtain i t where "take_slot p u = Some (DB_SUCCESS, i, t)" "slots_ok t" "\<not> slot_used u i"
      "slot_used t = (slot_used u)(i := True)" "Index_OID_Point i = i" "i \<noteq> 0"
      by (rule take_slot_ok)
    with False u show ?thesis
      by (auto simp: Index_Collect_AllocateSlot_def DB_SUCCESS_def live_slots_def)
  qed
qed

lemma Col_Remove_ok:
  assumes ok: "slots_ok s" and i: "i \<in> live_slots s"
  shows "\<exists>t. Index_Col_Remove i s = Some (DB_SUCCESS, t) \<and> slots_ok t \<and> live_slots t = live_slots s - {i}"
proof -
  from i slots_okD(4) [OF ok] obtain pg where pg: "ipages s (page_of i) = Some pg"
    and slot: "i \<in> set (page_slots (page_of i))" by (auto simp: live_slots_def)
  let ?p = "page_of i"
  from slots_okD(3) [OF ok pg] have pok: "page_ok s ?p pg" .
  then have id: "ipage_id ?p" by (simp add: page_ok_def)
  note page = page_slot [OF id slot]
  have ptr: "Index_PageID_Pointer s i = Some pg"
    using pg page(6) by (simp add: Index_PageID_Pointer_def)
  define t where "t = snd (the (Index_Col_Remove i s))"
  have run: "Index_Col_Remove i s = Some (DB_SUCCESS, t)"
    using ptr by (simp add: Index_Col_Remove_def Let_def t_def)
  have fields: "slot_used t = (slot_used s)(i := False)" "page_results t = page_results s" "page_calls t = page_calls s"
    "ipages t = (ipages s)(?p \<mapsto> pg\<lparr>free_nodes := i # free_nodes pg,
        node_count_in_page := node_count_in_page pg - 1, page_full := False\<rparr>)"
    "free_page_list t = (if page_full pg then ?p # free_page_list s else free_page_list s)"
    using ptr by (simp_all add: Index_Col_Remove_def Let_def t_def)
  have other: "i \<notin> set (page_slots q)" if "ipage_id q" "q \<noteq> ?p" for q
    using page_slot(1) [OF that(1)] that(2) by blast
  have notin: "i \<notin> set (free_nodes pg)" using pok i by (auto simp: page_ok_def live_slots_def)
  have "page_ok t q pg'" if "ipages t q = Some pg'" for q pg'
  proof (cases "q = ?p")
    case True
    with that pok notin slot show ?thesis by (auto simp: page_ok_def fields)
  next
    case False
    with that have "ipages s q = Some pg'" by (simp add: fields)
    with slots_okD(3) [OF ok] False show ?thesis by (auto simp: page_ok_def fields)
  qed
  moreover have "distinct (free_page_list t)" using slots_okD(1) [OF ok] pok by (auto simp: fields page_ok_def)
  moreover have "\<forall>q \<in> set (free_page_list t). ipages t q \<noteq> None" using slots_okD(2) [OF ok] by (auto simp: fields)
  moreover have "ipages t (page_of j) \<noteq> None \<and> j \<in> set (page_slots (page_of j))" if "slot_used t j" for j
    using that slots_okD(4) [OF ok, of j] by (auto simp: fields split: if_splits)
  ultimately have "pages_ok t" by (simp add: pages_ok_def)
  moreover have "answers_ok t"
    by (rule answers_ok_weaken [of s]) (use ok pg in \<open>auto simp: slots_ok_def fields\<close>)
  moreover have "live_slots t = live_slots s - {i}"
    unfolding live_slots_def fields by (simp add: fun_upd_def) blast
  ultimately show ?thesis using run by (auto simp: slots_ok_def)
qed

subsection \<open>The contract of the slots\<close>

text \<open>What an index relies on: a slot that is handed out was free and is not NULL, a failed request
  changes nothing, and a slot given back is free.\<close>

locale slot_store =
  fixes alloc :: "'s \<Rightarrow> (int \<times> oid \<times> 's) option" and remove :: "oid \<Rightarrow> 's \<Rightarrow> (int \<times> 's) option"
    and good :: "'s \<Rightarrow> bool" and live :: "'s \<Rightarrow> oid set"
  assumes alloc_law: "good s \<Longrightarrow> \<exists>r i t. alloc s = Some (r, i, t) \<and> good t \<and>
      (r = DB_SUCCESS \<and> i \<notin> live s \<and> live t = insert i (live s) \<and> Index_OID_Point i = i \<and> i \<noteq> 0 \<or>
       r < 0 \<and> live t = live s)"
    and remove_law: "good s \<Longrightarrow> i \<in> live s \<Longrightarrow>
      \<exists>t. remove i s = Some (DB_SUCCESS, t) \<and> good t \<and> live t = live s - {i}"
begin

lemma alloc_cases:
  assumes "good s"
  obtains (got) i t where "alloc s = Some (DB_SUCCESS, i, t)" "good t" "i \<notin> live s"
      "live t = insert i (live s)" "Index_OID_Point i = i" "i \<noteq> 0"
    | (failed) r i t where "alloc s = Some (r, i, t)" "good t" "r < 0" "live t = live s"
  using alloc_law [OF assms] by blast

lemma remove_run:
  assumes "good s" and "i \<in> live s"
  obtains t where "remove i s = Some (DB_SUCCESS, t)" "good t" "live t = live s - {i}"
  using remove_law [OF assms] by blast

end

interpretation islots: slot_store Index_Collect_AllocateSlot Index_Col_Remove slots_ok live_slots
  by unfold_locales (use AllocateSlot_ok Col_Remove_ok in blast)+

end
