(* ===== verification/TTreeNode.thy ===== *)
theory TTreeNode
  imports IndexSlots
begin

section \<open>Nodes of a T-tree (\<^verbatim>\<open>openML/src/server/storage/mdb_TTreeNode.c\<close>)\<close>

text \<open>
  An index is a T-tree: a balanced binary tree whose nodes hold up to \<^verbatim>\<open>TNODE_MAX_ITEM\<close> record
  ids in key order.  Nodes live in index slots and point to their parent and children by OID, so the
  tree is a heap \<open>nodes\<close> from OIDs to nodes; a C pointer to a node is the OID it was made from
  by \<^verbatim>\<open>Index_OID_Point\<close>, and 0 is NULL.  \<^verbatim>\<open>item_[TNODE_MAX_ITEM]\<close> is a list of this
  length.  A result is \<open>None\<close> where the code follows a NULL pointer, reads a slot that holds no
  node, leaves the array \<^verbatim>\<open>item_\<close> or loops.  Assignments to the fields of one node are
  grouped; index buffering (\<^verbatim>\<open>INDEX_BUFFERING\<close>, off by default), dirty flags and the
  recovery of a crashed database are left out.

  Records and keys are abstract.  \<open>index_env\<close> has what the tree asks about them: the record at an
  OID (\<^verbatim>\<open>OID_Point\<close>), the comparisons \<^verbatim>\<open>KeyDesc_Compare2\<close> of two records and
  \<^verbatim>\<open>KeyValue_Compare\<close> of a search key with a record, \<^verbatim>\<open>KeyValue_Create\<close>, which key
  fields of a record are NULL, and the flags of the index.
\<close>

definition TNODE_MAX_ITEM :: int where "TNODE_MAX_ITEM = 121"
definition TNODE_MIN_ITEM :: int where "TNODE_MIN_ITEM = TNODE_MAX_ITEM - 1"

definition DB_E_OUTOFMEMORY :: int where "DB_E_OUTOFMEMORY = - 120"
definition DB_E_DUPUNIQUEKEY :: int where "DB_E_DUPUNIQUEKEY = - 104"
definition DB_E_NOMORERECORDS :: int where "DB_E_NOMORERECORDS = - 113"
definition DB_W_ITEMMORETHANKEY :: int where "DB_W_ITEMMORETHANKEY = 108"
definition DB_E_NOTNULLFIELD :: int where "DB_E_NOTNULLFIELD = - 131"
definition DB_E_TTREEPOSITION :: int where "DB_E_TTREEPOSITION = - 132"
definition DB_E_REBALANCEINSERT :: int where "DB_E_REBALANCEINSERT = - 213"
definition DB_E_INDEXNODELOOP :: int where "DB_E_INDEXNODELOOP = - 263"
definition DB_E_CURSOROFFSET :: int where "DB_E_CURSOROFFSET = - 504"
definition DB_E_CURSORNODE :: int where "DB_E_CURSORNODE = - 505"
definition DB_E_NOTSUPPORTED :: int where "DB_E_NOTSUPPORTED = - 2"

lemmas index_codes =
  DB_E_OUTOFMEMORY_def DB_E_DUPUNIQUEKEY_def DB_E_NOMORERECORDS_def DB_W_ITEMMORETHANKEY_def
  DB_E_NOTNULLFIELD_def DB_E_TTREEPOSITION_def DB_E_REBALANCEINSERT_def DB_E_INDEXNODELOOP_def
  DB_E_CURSOROFFSET_def DB_E_CURSORNODE_def DB_E_NOTSUPPORTED_def DB_E_PIDPOINTER_def

datatype NodeType = ROOT_NODE | LEFT_CHILD | RIGHT_CHILD

record TTreeNode =
  tn_self :: oid
  tn_parent :: oid
  tn_left :: oid
  tn_right :: oid
  tn_count :: int
  tn_height :: nat
  tn_type :: NodeType
  tn_item :: "oid list"

record ttree =
  nodes :: "oid \<Rightarrow> TTreeNode option"
  root :: oid
  tt_item_count :: int
  modified_time :: nat
  slots :: islots
  mem_calls :: nat
  mem_ok :: "nat \<Rightarrow> bool"

record ('r, 'k) index_env =
  ie_point :: "oid \<Rightarrow> 'r option"
  ie_isnull :: "'r \<Rightarrow> bool list"
  ie_compare :: "'r \<Rightarrow> 'r \<Rightarrow> int"
  ie_key_compare :: "'k \<Rightarrow> 'r \<Rightarrow> int"
  ie_key_create :: "'r \<Rightarrow> int + 'k"
  ie_unique :: bool
  ie_primary :: bool

subsection \<open>Arrays and pointers\<close>

definition get_item :: "'a list \<Rightarrow> int \<Rightarrow> 'a option" where
  "get_item a i = (if 0 \<le> i \<and> i < int (length a) then Some (a ! nat i) else None)"

definition put_item :: "'a list \<Rightarrow> int \<Rightarrow> 'a \<Rightarrow> 'a list option" where
  "put_item a i v = (if 0 \<le> i \<and> i < int (length a) then Some (a[nat i := v]) else None)"

definition memmove :: "'a list \<Rightarrow> int \<Rightarrow> 'a list \<Rightarrow> int \<Rightarrow> int \<Rightarrow> 'a list option" where
  \<comment> \<open>\<open>n\<close> elements of \<open>src\<close> from \<open>s\<close> on go to \<open>dst\<close> from \<open>d\<close> on\<close>
  "memmove dst d src s n =
     (if 0 \<le> n \<and> 0 \<le> d \<and> 0 \<le> s \<and> d + n \<le> int (length dst) \<and> s + n \<le> int (length src)
      then Some (take (nat d) dst @ take (nat n) (drop (nat s) src) @ drop (nat (d + n)) dst)
      else None)"

definition clear_items :: "oid list \<Rightarrow> int \<Rightarrow> oid list option" where
  \<comment> \<open>\<^verbatim>\<open>sc_memset\<close> of everything from index \<open>i\<close> on\<close>
  "clear_items a i =
     (if 0 \<le> i \<and> i \<le> int (length a) then Some (take (nat i) a @ replicate (length a - nat i) NULL_OID) else None)"

definition deref :: "oid \<Rightarrow> ttree \<Rightarrow> TTreeNode option" where
  "deref p s = (if p = 0 then None else nodes s p)"

definition upd_node :: "oid \<Rightarrow> (TTreeNode \<Rightarrow> TTreeNode) \<Rightarrow> ttree \<Rightarrow> ttree option" where
  "upd_node p f s = do { nd \<leftarrow> deref p s; Some (s\<lparr>nodes := (nodes s)(p \<mapsto> f nd)\<rparr>) }"

definition set_node :: "oid \<Rightarrow> TTreeNode option \<Rightarrow> ttree \<Rightarrow> ttree option" where
  \<comment> \<open>an operation on one node has run\<close>
  "set_node p r s = do { nd \<leftarrow> r; Some (s\<lparr>nodes := (nodes s)(p \<mapsto> nd)\<rparr>) }"

subsection \<open>Operations on the items of a node\<close>

definition TTreeNode_Create :: "oid \<Rightarrow> oid \<Rightarrow> NodeType \<Rightarrow> oid \<Rightarrow> ttree \<Rightarrow> int \<times> ttree" where
  "TTreeNode_Create self_id parent_id node_type record_id s =
     (let ok = mem_ok s (mem_calls s); s = s\<lparr>mem_calls := mem_calls s + 1\<rparr> in
      if \<not> ok then (DB_E_OUTOFMEMORY, s)
      else
        (DB_SUCCESS,
         s\<lparr>nodes := (nodes s)(self_id \<mapsto>
             \<lparr>tn_self = self_id, tn_parent = parent_id, tn_left = NULL_OID, tn_right = NULL_OID,
              tn_count = 1, tn_height = 0, tn_type = node_type,
              tn_item = record_id # replicate (nat TNODE_MAX_ITEM - 1) NULL_OID\<rparr>)\<rparr>))"

definition TTreeNode_InsertKey :: "TTreeNode \<Rightarrow> int \<Rightarrow> oid \<Rightarrow> TTreeNode option" where
  "TTreeNode_InsertKey node index rec_id =
     do {
       its \<leftarrow> (if index < tn_count node
               then memmove (tn_item node) (index + 1) (tn_item node) index (tn_count node - index)
               else Some (tn_item node));
       its \<leftarrow> put_item its index rec_id;
       Some (node\<lparr>tn_item := its, tn_count := tn_count node + 1\<rparr>)
     }"

definition TTreeNode_InsertKey_DeleteFirst :: "TTreeNode \<Rightarrow> int \<Rightarrow> oid \<Rightarrow> TTreeNode option" where
  "TTreeNode_InsertKey_DeleteFirst node index rec_id =
     do {
       its \<leftarrow> (if index > 0 then memmove (tn_item node) 0 (tn_item node) 1 index else Some (tn_item node));
       its \<leftarrow> put_item its index rec_id;
       Some (node\<lparr>tn_item := its\<rparr>)
     }"

definition TTreeNode_DeleteKey :: "TTreeNode \<Rightarrow> int \<Rightarrow> (int \<times> TTreeNode) option" where
  "TTreeNode_DeleteKey node index =
     (if index \<ge> tn_count node then Some (DB_FAIL 168, node)
      else
        do {
          its \<leftarrow> memmove (tn_item node) index (tn_item node) (index + 1) (tn_count node - 1 - index);
          its \<leftarrow> put_item its (tn_count node - 1) NULL_OID;
          Some (DB_SUCCESS, node\<lparr>tn_item := its, tn_count := tn_count node - 1\<rparr>)
        })"

definition TTreeNode_MoveLeftToRight :: "oid \<Rightarrow> oid \<Rightarrow> int \<Rightarrow> ttree \<Rightarrow> ttree option" where
  "TTreeNode_MoveLeftToRight L R move_count s =
     do {
       r \<leftarrow> deref R s;
       l \<leftarrow> deref L s;
       its \<leftarrow> memmove (tn_item r) move_count (tn_item r) 0 (tn_count r);
       its \<leftarrow> memmove its 0 (tn_item l) (tn_count l - move_count) move_count;
       s \<leftarrow> upd_node R (\<lambda>n. n\<lparr>tn_item := its, tn_count := tn_count n + move_count\<rparr>) s;
       let c = tn_count l - move_count;
       its \<leftarrow> (if c > 0 then clear_items (tn_item l) c else Some (tn_item l));
       upd_node L (\<lambda>n. n\<lparr>tn_item := its, tn_count := c\<rparr>) s
     }"

definition TTreeNode_MoveRightToLeft :: "oid \<Rightarrow> oid \<Rightarrow> int \<Rightarrow> ttree \<Rightarrow> ttree option" where
  "TTreeNode_MoveRightToLeft L R move_count s =
     do {
       l \<leftarrow> deref L s;
       r \<leftarrow> deref R s;
       its \<leftarrow> memmove (tn_item l) (tn_count l) (tn_item r) 0 move_count;
       s \<leftarrow> upd_node L (\<lambda>n. n\<lparr>tn_item := its, tn_count := tn_count n + move_count\<rparr>) s;
       let c = tn_count r - move_count;
       its \<leftarrow> (if c > 0 then do { its \<leftarrow> memmove (tn_item r) 0 (tn_item r) move_count c; clear_items its c }
               else Some (tn_item r));
       upd_node R (\<lambda>n. n\<lparr>tn_item := its, tn_count := c\<rparr>) s
     }"

subsection \<open>Comparisons\<close>

text \<open>The six functions return the result of the comparison or the error code
  \<^verbatim>\<open>DB_E_OIDPOINTER\<close>, which their callers cannot tell from "less".\<close>

definition comp_item :: "('r, 'k) index_env \<Rightarrow> ('r \<Rightarrow> int) \<Rightarrow> TTreeNode \<Rightarrow> int \<Rightarrow> int option" where
  "comp_item env cmp node i =
     do {
       rid \<leftarrow> get_item (tn_item node) i;
       Some (case ie_point env rid of None \<Rightarrow> DB_E_OIDPOINTER | Some r \<Rightarrow> cmp r)
     }"

definition TTreeNode_CompRecordWithItem :: "('r, 'k) index_env \<Rightarrow> 'r \<Rightarrow> TTreeNode \<Rightarrow> int \<Rightarrow> int option" where
  "TTreeNode_CompRecordWithItem env rec = comp_item env (ie_compare env rec)"

definition TTreeNode_CompRecordWithMinimum :: "('r, 'k) index_env \<Rightarrow> 'r \<Rightarrow> TTreeNode \<Rightarrow> int option" where
  "TTreeNode_CompRecordWithMinimum env rec node = comp_item env (ie_compare env rec) node 0"

definition TTreeNode_CompRecordWithMaximum :: "('r, 'k) index_env \<Rightarrow> 'r \<Rightarrow> TTreeNode \<Rightarrow> int option" where
  "TTreeNode_CompRecordWithMaximum env rec node = comp_item env (ie_compare env rec) node (tn_count node - 1)"

definition TTreeNode_CompKeyValWithItem :: "('r, 'k) index_env \<Rightarrow> 'k \<Rightarrow> TTreeNode \<Rightarrow> int \<Rightarrow> int option" where
  "TTreeNode_CompKeyValWithItem env key = comp_item env (ie_key_compare env key)"

definition TTreeNode_CompKeyValWithMinimum :: "('r, 'k) index_env \<Rightarrow> 'k \<Rightarrow> TTreeNode \<Rightarrow> int option" where
  "TTreeNode_CompKeyValWithMinimum env key node = comp_item env (ie_key_compare env key) node 0"

definition TTreeNode_CompKeyValWithMaximum :: "('r, 'k) index_env \<Rightarrow> 'k \<Rightarrow> TTreeNode \<Rightarrow> int option" where
  "TTreeNode_CompKeyValWithMaximum env key node = comp_item env (ie_key_compare env key) node (tn_count node - 1)"

subsection \<open>Walking\<close>

partial_function (option) go_left :: "oid \<Rightarrow> ttree \<Rightarrow> oid option" where
  "go_left p s =
     do {
       nd \<leftarrow> deref p s;
       if tn_left nd = NULL_OID then Some p
       else (let p = Index_OID_Point (tn_left nd) in if p = 0 then Some 0 else go_left p s)
     }"

partial_function (option) go_right :: "oid \<Rightarrow> ttree \<Rightarrow> oid option" where
  \<comment> \<open>without a test for NULL\<close>
  "go_right p s =
     do {
       nd \<leftarrow> deref p s;
       if tn_right nd = NULL_OID then Some p else go_right (Index_OID_Point (tn_right nd)) s
     }"

definition TTree_LubChild :: "oid \<Rightarrow> ttree \<Rightarrow> oid option" where
  "TTree_LubChild node s =
     do {
       nd \<leftarrow> deref node s;
       if tn_right nd = NULL_OID then Some 0
       else (let p = Index_OID_Point (tn_right nd) in if p = 0 then Some 0 else go_left p s)
     }"

definition TTree_GlbChild :: "oid \<Rightarrow> ttree \<Rightarrow> oid option" where
  "TTree_GlbChild node s =
     do {
       nd \<leftarrow> deref node s;
       if tn_left nd = NULL_OID then Some 0
       else (let p = Index_OID_Point (tn_left nd) in if p = 0 then Some 0 else go_right p s)
     }"

partial_function (option) smallest_child :: "oid \<Rightarrow> int \<Rightarrow> ttree \<Rightarrow> oid option" where
  "smallest_child p count s =
     do {
       nd \<leftarrow> deref p s;
       if tn_left nd = NULL_OID then Some p
       else
         (let p = Index_OID_Point (tn_left nd) in
          if p = 0 then Some 0
          else if count + 1 > tt_item_count s + 1 then Some 0
          else smallest_child p (count + 1) s)
     }"

definition TTree_SmallestChild :: "ttree \<Rightarrow> oid option" where
  "TTree_SmallestChild s =
     (let p = Index_OID_Point (root s) in if p = 0 then Some 0 else smallest_child p 0 s)"

partial_function (option) up_right :: "oid \<Rightarrow> ttree \<Rightarrow> oid option" where
  "up_right p s =
     do {
       nd \<leftarrow> deref p s;
       if tn_type nd = RIGHT_CHILD
       then (let p = Index_OID_Point (tn_parent nd) in if p = 0 then Some 0 else up_right p s)
       else if tn_type nd = LEFT_CHILD then Some (Index_OID_Point (tn_parent nd))
       else Some 0
     }"

partial_function (option) up_left :: "oid \<Rightarrow> ttree \<Rightarrow> oid option" where
  \<comment> \<open>without a test for NULL\<close>
  "up_left p s =
     do {
       nd \<leftarrow> deref p s;
       if tn_type nd = LEFT_CHILD then up_left (Index_OID_Point (tn_parent nd)) s
       else if tn_type nd = RIGHT_CHILD then Some (Index_OID_Point (tn_parent nd))
       else Some 0
     }"

definition TTree_NextNode :: "oid \<Rightarrow> ttree \<Rightarrow> oid option" where
  "TTree_NextNode node s =
     do {
       nd \<leftarrow> deref node s;
       if tn_right nd \<noteq> NULL_OID then TTree_LubChild node s
       else
         (case tn_type nd of
            LEFT_CHILD \<Rightarrow> Some (Index_OID_Point (tn_parent nd))
          | RIGHT_CHILD \<Rightarrow>
              (let p = Index_OID_Point (tn_parent nd) in if p = 0 then Some 0 else up_right p s)
          | ROOT_NODE \<Rightarrow> Some 0)
     }"

definition TTree_PrevNode :: "oid \<Rightarrow> ttree \<Rightarrow> oid option" where
  "TTree_PrevNode node s =
     do {
       nd \<leftarrow> deref node s;
       if tn_left nd \<noteq> NULL_OID then TTree_GlbChild node s
       else
         (case tn_type nd of
            RIGHT_CHILD \<Rightarrow> Some (Index_OID_Point (tn_parent nd))
          | LEFT_CHILD \<Rightarrow>
              (let p = Index_OID_Point (tn_parent nd) in if p = 0 then Some 0 else up_left p s)
          | ROOT_NODE \<Rightarrow> Some 0)
     }"

end
