(* ===== verification/TTreeInsert.thy ===== *)
theory TTreeInsert
  imports TTreeNode
begin

section \<open>Insertion into a T-tree (\<^verbatim>\<open>openML/src/server/storage/mdb_TTree_Insert.c\<close>)\<close>

text \<open>
  The four rotations, the climb that restores the balance after an insertion, and
  \<^verbatim>\<open>TTree_InsertRecord\<close> itself: the descent, the search inside the bounding node and the
  overflow of a full node into its greatest lower bound.
\<close>

subsection \<open>Rotations\<close>

definition height_above :: "oid \<Rightarrow> ttree \<Rightarrow> nat option" where
  \<comment> \<open>\<^verbatim>\<open>(N == NULL) ? 0 : N->height_ + 1\<close>\<close>
  "height_above p s = (if p = 0 then Some 0 else do { nd \<leftarrow> deref p s; Some (tn_height nd + 1) })"

definition self_or_null :: "oid \<Rightarrow> ttree \<Rightarrow> oid option" where
  \<comment> \<open>\<^verbatim>\<open>(N == NULL) ? NULL_OID : N->self_\<close>\<close>
  "self_or_null p s = (if p = 0 then Some NULL_OID else do { nd \<leftarrow> deref p s; Some (tn_self nd) })"

definition adopt :: "oid \<Rightarrow> oid \<Rightarrow> NodeType \<Rightarrow> ttree \<Rightarrow> ttree option" where
  \<comment> \<open>\<^verbatim>\<open>if (N != NULL)\<close> set its parent and type\<close>
  "adopt p q ty s = (if p = 0 then Some s else upd_node p (\<lambda>n. n\<lparr>tn_parent := q, tn_type := ty\<rparr>) s)"

definition replace_child :: "oid \<Rightarrow> oid \<Rightarrow> oid \<Rightarrow> ttree \<Rightarrow> ttree option" where
  \<comment> \<open>the end of each rotation: \<open>N\<close> takes the place of \<open>N1\<close> below \<open>NP\<close>\<close>
  "replace_child NP N1 N s =
     do {
       n \<leftarrow> deref N s;
       if NP = 0 then Some (s\<lparr>root := tn_self n\<rparr>)
       else
         do {
           np \<leftarrow> deref NP s;
           n1 \<leftarrow> deref N1 s;
           if tn_left np = tn_self n1 then
             do {
               s \<leftarrow> upd_node NP (\<lambda>np. np\<lparr>tn_left := tn_self n\<rparr>) s;
               rh \<leftarrow> height_above (Index_OID_Point (tn_right np)) s;
               upd_node NP (\<lambda>np. np\<lparr>tn_height := max (tn_height n + 1) rh\<rparr>) s
             }
           else
             do {
               s \<leftarrow> upd_node NP (\<lambda>np. np\<lparr>tn_right := tn_self n\<rparr>) s;
               lh \<leftarrow> height_above (Index_OID_Point (tn_left np)) s;
               upd_node NP (\<lambda>np. np\<lparr>tn_height := max lh (tn_height n + 1)\<rparr>) s
             }
         }
     }"

definition TTree_LL_Rotate :: "oid \<Rightarrow> ttree \<Rightarrow> (int \<times> ttree) option" where
  "TTree_LL_Rotate N1 s =
     do {
       n1 \<leftarrow> deref N1 s;
       let NP = Index_OID_Point (tn_parent n1);
       let N2 = Index_OID_Point (tn_left n1);
       let N3 = Index_OID_Point (tn_right n1);
       n2 \<leftarrow> deref N2 s;
       let N4 = Index_OID_Point (tn_left n2);
       let N5 = Index_OID_Point (tn_right n2);
       i5 \<leftarrow> self_or_null N5 s;
       lh \<leftarrow> height_above N5 s;
       rh \<leftarrow> height_above N3 s;
       s \<leftarrow> upd_node N1 (\<lambda>n. n\<lparr>tn_parent := tn_self n2, tn_left := i5, tn_type := RIGHT_CHILD,
              tn_height := max lh rh\<rparr>) s;
       lh \<leftarrow> height_above N4 s;
       rh \<leftarrow> height_above N1 s;
       s \<leftarrow> upd_node N2 (\<lambda>n. n\<lparr>tn_parent := tn_parent n1, tn_right := tn_self n1, tn_type := tn_type n1,
              tn_height := max lh rh\<rparr>) s;
       s \<leftarrow> adopt N5 (tn_self n1) LEFT_CHILD s;
       s \<leftarrow> replace_child NP N1 N2 s;
       Some (DB_SUCCESS, s)
     }"

definition TTree_RR_Rotate :: "oid \<Rightarrow> ttree \<Rightarrow> (int \<times> ttree) option" where
  "TTree_RR_Rotate N1 s =
     do {
       n1 \<leftarrow> deref N1 s;
       let NP = Index_OID_Point (tn_parent n1);
       let N2 = Index_OID_Point (tn_left n1);
       let N3 = Index_OID_Point (tn_right n1);
       n3 \<leftarrow> deref N3 s;
       let N4 = Index_OID_Point (tn_left n3);
       let N5 = Index_OID_Point (tn_right n3);
       i4 \<leftarrow> self_or_null N4 s;
       lh \<leftarrow> height_above N2 s;
       rh \<leftarrow> height_above N4 s;
       s \<leftarrow> upd_node N1 (\<lambda>n. n\<lparr>tn_parent := tn_self n3, tn_right := i4, tn_type := LEFT_CHILD,
              tn_height := max lh rh\<rparr>) s;
       lh \<leftarrow> height_above N1 s;
       rh \<leftarrow> height_above N5 s;
       s \<leftarrow> upd_node N3 (\<lambda>n. n\<lparr>tn_parent := tn_parent n1, tn_left := tn_self n1, tn_type := tn_type n1,
              tn_height := max lh rh\<rparr>) s;
       s \<leftarrow> adopt N4 (tn_self n1) RIGHT_CHILD s;
       s \<leftarrow> replace_child NP N1 N3 s;
       Some (DB_SUCCESS, s)
     }"

definition TTree_LR_Rotate :: "oid \<Rightarrow> ttree \<Rightarrow> (int \<times> ttree) option" where
  "TTree_LR_Rotate N1 s =
     do {
       n1 \<leftarrow> deref N1 s;
       let NP = Index_OID_Point (tn_parent n1);
       let N2 = Index_OID_Point (tn_left n1);
       let N3 = Index_OID_Point (tn_right n1);
       n2 \<leftarrow> deref N2 s;
       let N4 = Index_OID_Point (tn_left n2);
       let N5 = Index_OID_Point (tn_right n2);
       n5 \<leftarrow> deref N5 s;
       let N6 = Index_OID_Point (tn_left n5);
       let N7 = Index_OID_Point (tn_right n5);
       i7 \<leftarrow> self_or_null N7 s;
       lh \<leftarrow> height_above N7 s;
       rh \<leftarrow> height_above N3 s;
       s \<leftarrow> upd_node N1 (\<lambda>n. n\<lparr>tn_parent := tn_self n5, tn_left := i7, tn_height := max lh rh,
              tn_type := RIGHT_CHILD\<rparr>) s;
       s \<leftarrow> adopt N6 (tn_self n2) RIGHT_CHILD s;
       s \<leftarrow> adopt N7 (tn_self n1) LEFT_CHILD s;
       i6 \<leftarrow> self_or_null N6 s;
       lh \<leftarrow> height_above N4 s;
       rh \<leftarrow> height_above N6 s;
       s \<leftarrow> upd_node N2 (\<lambda>n. n\<lparr>tn_parent := tn_self n5, tn_right := i6, tn_height := max lh rh,
              tn_type := LEFT_CHILD\<rparr>) s;
       lh \<leftarrow> height_above N2 s;
       rh \<leftarrow> height_above N1 s;
       s \<leftarrow> upd_node N5 (\<lambda>n. n\<lparr>tn_parent := tn_parent n1, tn_right := tn_self n1, tn_left := tn_self n2,
              tn_height := max lh rh, tn_type := tn_type n1\<rparr>) s;
       s \<leftarrow> (if tn_count n5 < TNODE_MIN_ITEM \<and> i6 = NULL_OID
             then TTreeNode_MoveLeftToRight N2 N5 (min (TNODE_MIN_ITEM - tn_count n5) (tn_count n2 - 1)) s
             else Some s);
       s \<leftarrow> replace_child NP N1 N5 s;
       Some (DB_SUCCESS, s)
     }"

definition TTree_RL_Rotate :: "oid \<Rightarrow> ttree \<Rightarrow> (int \<times> ttree) option" where
  "TTree_RL_Rotate N1 s =
     do {
       n1 \<leftarrow> deref N1 s;
       let NP = Index_OID_Point (tn_parent n1);
       let N2 = Index_OID_Point (tn_left n1);
       let N3 = Index_OID_Point (tn_right n1);
       n3 \<leftarrow> deref N3 s;
       let N4 = Index_OID_Point (tn_left n3);
       let N5 = Index_OID_Point (tn_right n3);
       n4 \<leftarrow> deref N4 s;
       let N6 = Index_OID_Point (tn_left n4);
       let N7 = Index_OID_Point (tn_right n4);
       i6 \<leftarrow> self_or_null N6 s;
       lh \<leftarrow> height_above N2 s;
       rh \<leftarrow> height_above N6 s;
       s \<leftarrow> upd_node N1 (\<lambda>n. n\<lparr>tn_parent := tn_self n4, tn_right := i6, tn_height := max lh rh,
              tn_type := LEFT_CHILD\<rparr>) s;
       s \<leftarrow> adopt N6 (tn_self n1) RIGHT_CHILD s;
       s \<leftarrow> adopt N7 (tn_self n3) LEFT_CHILD s;
       i7 \<leftarrow> self_or_null N7 s;
       lh \<leftarrow> height_above N7 s;
       rh \<leftarrow> height_above N5 s;
       s \<leftarrow> upd_node N3 (\<lambda>n. n\<lparr>tn_parent := tn_self n4, tn_left := i7, tn_height := max lh rh,
              tn_type := RIGHT_CHILD\<rparr>) s;
       lh \<leftarrow> height_above N1 s;
       rh \<leftarrow> height_above N3 s;
       s \<leftarrow> upd_node N4 (\<lambda>n. n\<lparr>tn_parent := tn_parent n1, tn_left := tn_self n1, tn_right := tn_self n3,
              tn_height := max lh rh, tn_type := tn_type n1\<rparr>) s;
       s \<leftarrow> (if tn_count n4 < TNODE_MIN_ITEM \<and> i7 = NULL_OID
             then TTreeNode_MoveRightToLeft N4 N3 (min (TNODE_MIN_ITEM - tn_count n4) (tn_count n3 - 1)) s
             else Some s);
       s \<leftarrow> replace_child NP N1 N4 s;
       Some (DB_SUCCESS, s)
     }"

subsection \<open>Restoring the balance\<close>

definition rotate_left_heavy :: "oid \<Rightarrow> oid \<Rightarrow> ttree \<Rightarrow> (int \<times> ttree) option" where
  "rotate_left_heavy node L s =
     do {
       l \<leftarrow> deref L s;
       let LR = Index_OID_Point (tn_right l);
       let LL = Index_OID_Point (tn_left l);
       if LR = 0 then TTree_LL_Rotate node s
       else if LL = 0 then TTree_LR_Rotate node s
       else
         do {
           ll \<leftarrow> deref LL s;
           lr \<leftarrow> deref LR s;
           if tn_height ll \<ge> tn_height lr then TTree_LL_Rotate node s else TTree_LR_Rotate node s
         }
     }"

definition rotate_right_heavy :: "oid \<Rightarrow> oid \<Rightarrow> ttree \<Rightarrow> (int \<times> ttree) option" where
  "rotate_right_heavy node R s =
     do {
       r \<leftarrow> deref R s;
       let RL = Index_OID_Point (tn_left r);
       let RR = Index_OID_Point (tn_right r);
       if RL = 0 then TTree_RR_Rotate node s
       else if RR = 0 then TTree_RL_Rotate node s
       else
         do {
           rr \<leftarrow> deref RR s;
           rl \<leftarrow> deref RL s;
           if tn_height rr \<ge> tn_height rl then TTree_RR_Rotate node s else TTree_RL_Rotate node s
         }
     }"

definition set_height :: "oid \<Rightarrow> nat \<Rightarrow> ttree \<Rightarrow> ttree option" where
  \<comment> \<open>\<^verbatim>\<open>if (node->height_ != height)\<close>\<close>
  "set_height p h s =
     do { nd \<leftarrow> deref p s; if tn_height nd \<noteq> h then upd_node p (\<lambda>n. n\<lparr>tn_height := h\<rparr>) s else Some s }"

partial_function (option) rebalance_insert :: "oid \<Rightarrow> ttree \<Rightarrow> (int \<times> ttree) option" where
  "rebalance_insert node s =
     do {
       nd \<leftarrow> deref node s;
       let L = Index_OID_Point (tn_left nd);
       let R = Index_OID_Point (tn_right nd);
       if tn_left nd \<noteq> NULL_OID \<and> L = 0 then Some (DB_E_OIDPOINTER, s)
       else if tn_right nd \<noteq> NULL_OID \<and> R = 0 then Some (DB_E_OIDPOINTER, s)
       else
         do {
           left_height \<leftarrow> height_above L s;
           right_height \<leftarrow> height_above R s;
           s \<leftarrow> set_height node (max left_height right_height) s;
           if \<bar>int left_height - int right_height\<bar> > 1 then
             (if left_height > right_height then rotate_left_heavy node L s else rotate_right_heavy node R s)
           else if tn_parent nd = NULL_OID then Some (DB_SUCCESS, s)
           else rebalance_insert (Index_OID_Point (tn_parent nd)) s
         }
     }"

definition TTree_Rebalance_For_Insert :: "oid \<Rightarrow> ttree \<Rightarrow> (int \<times> ttree) option" where
  "TTree_Rebalance_For_Insert node s = (if node = 0 then Some (DB_FAIL 584, s) else rebalance_insert node s)"

definition link_new_child :: "(TTreeNode \<Rightarrow> TTreeNode) \<Rightarrow> oid \<Rightarrow> oid \<Rightarrow> ttree \<Rightarrow> (int \<times> ttree) option" where
  \<comment> \<open>after the creation of a child: \<open>f\<close> links it\<close>
  "link_new_child f node c s =
     do {
       s \<leftarrow> upd_node node f s;
       let p = Index_OID_Point c;
       if p = 0 then Some (DB_E_OIDPOINTER, s)
       else
         do {
           (ret, s) \<leftarrow> TTree_Rebalance_For_Insert p s;
           Some (if ret < 0 then DB_E_REBALANCEINSERT else DB_SUCCESS, s)
         }
     }"

definition make_child :: "NodeType \<Rightarrow> (oid \<Rightarrow> TTreeNode \<Rightarrow> TTreeNode) \<Rightarrow> oid \<Rightarrow> oid \<Rightarrow> ttree \<Rightarrow> (int \<times> ttree) option" where
  "make_child ty link node insert_oid s =
     do {
       (ret, c, sl) \<leftarrow> Index_Collect_AllocateSlot (slots s);
       let s = s\<lparr>slots := sl\<rparr>;
       if ret < 0 then Some (ret, s)
       else
         do {
           let s = s\<lparr>tt_item_count := tt_item_count s + 1\<rparr>;
           nd \<leftarrow> deref node s;
           let (_, s) = TTreeNode_Create c (tn_self nd) ty insert_oid s;
           link_new_child (link c) node c s
         }
     }"

definition TTree_MakeLeftChild :: "oid \<Rightarrow> oid \<Rightarrow> ttree \<Rightarrow> (int \<times> ttree) option" where
  "TTree_MakeLeftChild = make_child LEFT_CHILD (\<lambda>c n. n\<lparr>tn_left := c, tn_height := 1\<rparr>)"

definition TTree_MakeRightChild :: "oid \<Rightarrow> oid \<Rightarrow> ttree \<Rightarrow> (int \<times> ttree) option" where
  "TTree_MakeRightChild = make_child RIGHT_CHILD (\<lambda>c n. n\<lparr>tn_right := c, tn_height := 1\<rparr>)"

subsection \<open>Inserting a record\<close>

definition CHECK_RANGE :: int where "CHECK_RANGE = 20"

definition insert_key :: "oid \<Rightarrow> int \<Rightarrow> oid \<Rightarrow> ttree \<Rightarrow> (int \<times> ttree) option" where
  "insert_key p index rec_id s =
     do {
       nd \<leftarrow> deref p s;
       s \<leftarrow> set_node p (TTreeNode_InsertKey nd index rec_id) s;
       Some (DB_SUCCESS, s)
     }"

function insert_skip :: "('r, 'k) index_env \<Rightarrow> 'r \<Rightarrow> TTreeNode \<Rightarrow> int \<Rightarrow> int option" where
  "insert_skip env rec nd n =
     (if n - (CHECK_RANGE - 1) < 0 then Some n
      else
        (case TTreeNode_CompRecordWithItem env rec nd (n - (CHECK_RANGE - 1)) of
           None \<Rightarrow> None
         | Some c \<Rightarrow> if c \<ge> 0 then Some n else insert_skip env rec nd (n - CHECK_RANGE)))"
  by pat_completeness auto
termination
  by (relation "measure (\<lambda>(env, rec, nd, n). nat n)") (auto simp: CHECK_RANGE_def)

function insert_scan :: "('r, 'k) index_env \<Rightarrow> 'r \<Rightarrow> bool \<Rightarrow> TTreeNode \<Rightarrow> int \<Rightarrow> (int \<times> bool) option" where
  \<comment> \<open>the flag is for a duplicate in a unique index\<close>
  "insert_scan env rec uniq nd n =
     (if n < 0 then Some (n, False)
      else
        (case TTreeNode_CompRecordWithItem env rec nd n of
           None \<Rightarrow> None
         | Some c \<Rightarrow>
             if c = 0 then Some (n, uniq)
             else if c > 0 then Some (n, False)
             else insert_scan env rec uniq nd (n - 1)))"
  by pat_completeness auto
termination
  by (relation "measure (\<lambda>(env, rec, uniq, nd, n). nat (n + 1))") auto

definition insert_overflow :: "oid \<Rightarrow> int \<Rightarrow> oid \<Rightarrow> ttree \<Rightarrow> (int \<times> ttree) option" where
  \<comment> \<open>the bounding node is full: its first item makes room\<close>
  "insert_overflow p n insert_id s =
     do {
       nd \<leftarrow> deref p s;
       new_insert_value \<leftarrow> get_item (tn_item nd) 0;
       let n = (if n < 0 then 0 else n);
       s \<leftarrow> set_node p (TTreeNode_InsertKey_DeleteFirst nd n insert_id) s;
       if tn_left nd = NULL_OID then TTree_MakeLeftChild p new_insert_value s
       else
         do {
           g \<leftarrow> TTree_GlbChild p s;
           gn \<leftarrow> deref g s;
           if tn_count gn < TNODE_MAX_ITEM then insert_key g (tn_count gn) new_insert_value s
           else TTree_MakeRightChild g new_insert_value s
         }
     }"

definition insert_bounded :: "('r, 'k) index_env \<Rightarrow> 'r \<Rightarrow> oid \<Rightarrow> bool \<Rightarrow> oid \<Rightarrow> ttree \<Rightarrow> (int \<times> ttree) option" where
  "insert_bounded env rec insert_id uniq p s =
     do {
       nd \<leftarrow> deref p s;
       n \<leftarrow> insert_skip env rec nd (tn_count nd - 1);
       (n, dup) \<leftarrow> insert_scan env rec uniq nd n;
       if dup then Some (DB_E_DUPUNIQUEKEY, s)
       else
         (let s = s\<lparr>modified_time := modified_time s + 1\<rparr> in
          if tn_count nd < TNODE_MAX_ITEM then insert_key p (n + 1) insert_id s
          else insert_overflow p n insert_id s)
     }"

partial_function (option) insert_loop ::
    "('r, 'k) index_env \<Rightarrow> 'r \<Rightarrow> oid \<Rightarrow> bool \<Rightarrow> oid \<Rightarrow> ttree \<Rightarrow> (int \<times> ttree) option" where
  "insert_loop env rec insert_id uniq p s =
     do {
       nd \<leftarrow> deref p s;
       c \<leftarrow> TTreeNode_CompRecordWithMinimum env rec nd;
       if c < 0 then
         (if tn_left nd \<noteq> NULL_OID then
            (let q = Index_OID_Point (tn_left nd) in
             if q = 0 then Some (DB_E_OIDPOINTER, s) else insert_loop env rec insert_id uniq q s)
          else if tn_count nd < TNODE_MAX_ITEM then insert_key p 0 insert_id s
          else TTree_MakeLeftChild p insert_id s)
       else
         do {
           c \<leftarrow> TTreeNode_CompRecordWithMaximum env rec nd;
           if c > 0 then
             (if tn_right nd \<noteq> NULL_OID then
                (let q = Index_OID_Point (tn_right nd) in
                 if q = 0 then Some (DB_E_OIDPOINTER, s) else insert_loop env rec insert_id uniq q s)
              else if tn_count nd < TNODE_MAX_ITEM then insert_key p (tn_count nd) insert_id s
              else TTree_MakeRightChild p insert_id s)
           else insert_bounded env rec insert_id uniq p s
         }
     }"

definition insert_first :: "oid \<Rightarrow> ttree \<Rightarrow> (int \<times> ttree) option" where
  \<comment> \<open>the tree has no root\<close>
  "insert_first insert_id s =
     do {
       (ret, c, sl) \<leftarrow> Index_Collect_AllocateSlot (slots s);
       let s = s\<lparr>slots := sl\<rparr>;
       if ret < 0 then Some (ret, s)
       else Some (TTreeNode_Create c NULL_OID ROOT_NODE insert_id
              (s\<lparr>root := c, tt_item_count := tt_item_count s + 1\<rparr>))
     }"

definition TTree_InsertRecord ::
    "('r, 'k) index_env \<Rightarrow> 'r \<Rightarrow> oid \<Rightarrow> bool \<Rightarrow> ttree \<Rightarrow> (int \<times> ttree) option" where
  "TTree_InsertRecord env new_record insert_id unique_check_flag s =
     (let null = True \<in> set (ie_isnull env new_record);
          check = ie_unique env \<and> unique_check_flag in
      if check \<and> ie_primary env \<and> null then Some (DB_E_NOTNULLFIELD, s)
      else if root s = NULL_OID then insert_first insert_id s
      else
        (let p = Index_OID_Point (root s) in
         if p = 0 then Some (DB_E_OIDPOINTER, s)
         else insert_loop env new_record insert_id (check \<and> \<not> null) p s))"

end
