(* ===== verification/TTreeShape.thy ===== *)
theory TTreeShape
  imports TTreeInsert
begin

section \<open>The tree behind the nodes\<close>

text \<open>
  The abstraction of the heap of nodes: a binary tree \<open>tt\<close> whose nodes carry their OID, the
  stored height and the list of their items, and paths from a node up to the root.  \<open>tree_at\<close>
  relates a heap to a tree, \<open>path_at\<close> to a path, \<open>zip_at\<close> to a tree at the end of a path,
  where no node occurs twice.  Updates outside a tree do not change it, so a rotation is a few updates
  around subtrees that stay what they are.
\<close>

subsection \<open>Trees and paths\<close>

datatype tt = Tip | Bin tt oid nat "oid list" tt

fun ptr :: "tt \<Rightarrow> oid" where
  "ptr Tip = 0"
| "ptr (Bin l p k xs r) = p"

fun ht_above :: "tt \<Rightarrow> nat" where
  "ht_above Tip = 0"
| "ht_above (Bin l p k xs r) = Suc k"

fun oids :: "tt \<Rightarrow> oid list" where
  "oids Tip = []"
| "oids (Bin l p k xs r) = oids l @ p # oids r"

fun entries :: "tt \<Rightarrow> oid list" where
  \<comment> \<open>the record ids in key order\<close>
  "entries Tip = []"
| "entries (Bin l p k xs r) = entries l @ xs @ entries r"

datatype frame =
  LeftHole oid nat "oid list" tt \<comment> \<open>came from the left child; the right subtree\<close>
| RightHole tt oid nat "oid list" \<comment> \<open>came from the right child; the left subtree\<close>

fun fill :: "frame \<Rightarrow> tt \<Rightarrow> tt" where
  "fill (LeftHole p k xs r) t = Bin t p k xs r"
| "fill (RightHole l p k xs) t = Bin l p k xs t"

fun plug :: "frame list \<Rightarrow> tt \<Rightarrow> tt" where
  "plug [] t = t"
| "plug (f # c) t = plug c (fill f t)"

fun frame_oids :: "frame \<Rightarrow> oid list" where
  "frame_oids (LeftHole p k xs r) = p # oids r"
| "frame_oids (RightHole l p k xs) = oids l @ [p]"

definition path_oids :: "frame list \<Rightarrow> oid list" where
  "path_oids c = concat (map frame_oids c)"

lemma path_oids_simps [simp]: "path_oids [] = []" "path_oids (f # c) = frame_oids f @ path_oids c"
  by (simp_all add: path_oids_def)

fun par :: "frame list \<Rightarrow> oid" where
  "par [] = NULL_OID"
| "par (LeftHole p k xs r # c) = p"
| "par (RightHole l p k xs # c) = p"

fun side :: "frame list \<Rightarrow> NodeType" where
  "side [] = ROOT_NODE"
| "side (LeftHole p k xs r # c) = LEFT_CHILD"
| "side (RightHole l p k xs # c) = RIGHT_CHILD"

subsection \<open>Heaps\<close>

type_synonym node_heap = "oid \<Rightarrow> TTreeNode option"

definition has_items :: "TTreeNode \<Rightarrow> oid list \<Rightarrow> bool" where
  "has_items nd xs \<longleftrightarrow> length (tn_item nd) = nat TNODE_MAX_ITEM \<and> tn_count nd = int (length xs) \<and>
     take (length xs) (tn_item nd) = xs"

definition valid_oid :: "oid \<Rightarrow> bool" where
  "valid_oid p \<longleftrightarrow> p \<noteq> 0 \<and> Index_OID_Point p = p"

definition node_is :: "TTreeNode \<Rightarrow> oid \<Rightarrow> oid \<Rightarrow> NodeType \<Rightarrow> oid \<Rightarrow> nat \<Rightarrow> oid list \<Rightarrow> oid \<Rightarrow> bool" where
  "node_is nd p q ty l k xs r \<longleftrightarrow> tn_self nd = p \<and> tn_parent nd = q \<and> tn_type nd = ty \<and>
     tn_left nd = l \<and> tn_height nd = k \<and> has_items nd xs \<and> tn_right nd = r"

definition node_at :: "node_heap \<Rightarrow> oid \<Rightarrow> oid \<Rightarrow> NodeType \<Rightarrow> oid \<Rightarrow> nat \<Rightarrow> oid list \<Rightarrow> oid \<Rightarrow> bool" where
  "node_at h p q ty l k xs r \<longleftrightarrow> valid_oid p \<and> (\<exists>nd. h p = Some nd \<and> node_is nd p q ty l k xs r)"

fun tree_at :: "node_heap \<Rightarrow> oid \<Rightarrow> NodeType \<Rightarrow> tt \<Rightarrow> bool" where
  "tree_at h q ty Tip = True"
| "tree_at h q ty (Bin l p k xs r) =
     (node_at h p q ty (ptr l) k xs (ptr r) \<and> tree_at h p LEFT_CHILD l \<and> tree_at h p RIGHT_CHILD r)"

fun path_at :: "node_heap \<Rightarrow> oid \<Rightarrow> oid \<Rightarrow> frame list \<Rightarrow> bool" where
  \<comment> \<open>from the root pointer down to the pointer in the hole\<close>
  "path_at h rt hole [] = (rt = hole)"
| "path_at h rt hole (LeftHole p k xs r # c) =
     (node_at h p (par c) (side c) hole k xs (ptr r) \<and> tree_at h p RIGHT_CHILD r \<and> path_at h rt p c)"
| "path_at h rt hole (RightHole l p k xs # c) =
     (node_at h p (par c) (side c) (ptr l) k xs hole \<and> tree_at h p LEFT_CHILD l \<and> path_at h rt p c)"

definition zip_at :: "ttree \<Rightarrow> frame list \<Rightarrow> tt \<Rightarrow> bool" where
  "zip_at s c t \<longleftrightarrow> tree_at (nodes s) (par c) (side c) t \<and> path_at (nodes s) (root s) (ptr t) c \<and>
     distinct (oids t @ path_oids c)"

lemma zip_at_fill: "zip_at s (f # c) t \<longleftrightarrow> zip_at s c (fill f t)"
  by (cases f) (auto simp: zip_at_def)

lemma zip_at_plug: "zip_at s c t \<longleftrightarrow> zip_at s [] (plug c t)"
proof (induction c arbitrary: t)
  case (Cons f c)
  show ?case unfolding zip_at_fill by (simp add: Cons)
qed simp

lemma entries_plug_cong: "entries t = entries u \<Longrightarrow> entries (plug c t) = entries (plug c u)"
proof (induction c arbitrary: t u)
  case (Cons f c)
  then show ?case by (cases f) simp_all
qed simp

text \<open>Trees and paths depend only on their nodes.\<close>

lemma tree_at_cong: "(\<And>p. p \<in> set (oids t) \<Longrightarrow> h p = h' p) \<Longrightarrow> tree_at h q ty t = tree_at h' q ty t"
  by (induction t arbitrary: q ty) (auto simp: node_at_def)

lemma path_at_cong:
  "(\<And>p. p \<in> set (path_oids c) \<Longrightarrow> h p = h' p) \<Longrightarrow> path_at h rt hole c = path_at h' rt hole c"
proof (induction c arbitrary: hole)
  case (Cons f c)
  show ?case
  proof (cases f)
    case (LeftHole p k xs r)
    then have "tree_at h p RIGHT_CHILD r = tree_at h' p RIGHT_CHILD r"
      using Cons.prems by (intro tree_at_cong) simp
    with LeftHole Cons show ?thesis by (simp add: node_at_def)
  next
    case (RightHole l p k xs)
    then have "tree_at h p LEFT_CHILD l = tree_at h' p LEFT_CHILD l"
      using Cons.prems by (intro tree_at_cong) simp
    with RightHole Cons show ?thesis by (simp add: node_at_def)
  qed
qed simp

lemma tree_at_keep: "tree_at h q ty t \<Longrightarrow> (\<And>p. p \<in> set (oids t) \<Longrightarrow> h' p = h p) \<Longrightarrow> tree_at h' q ty t"
  using tree_at_cong [of t h h'] by fastforce

lemma path_at_keep:
  "path_at h rt hole c \<Longrightarrow> (\<And>p. p \<in> set (path_oids c) \<Longrightarrow> h' p = h p) \<Longrightarrow> path_at h' rt hole c"
  using path_at_cong [of c h h'] by fastforce

lemma node_at_upd [simp]: "p' \<noteq> p \<Longrightarrow> node_at (h(p' := v)) p q ty l k xs r = node_at h p q ty l k xs r"
  by (simp add: node_at_def)

lemma tree_at_upd [simp]: "p \<notin> set (oids t) \<Longrightarrow> tree_at (h(p := v)) q ty t = tree_at h q ty t"
  by (rule tree_at_cong) auto

lemma path_at_upd [simp]:
  "p \<notin> set (path_oids c) \<Longrightarrow> path_at (h(p := v)) rt hole c = path_at h rt hole c"
  by (rule path_at_cong) auto

lemma ptr_point:
  "tree_at h q ty t \<Longrightarrow> Index_OID_Point (ptr t) = ptr t"
  by (cases t) (auto simp: node_at_def valid_oid_def Index_OID_Point_def NULL_OID_def)

lemma ptr_null: "tree_at h q ty t \<Longrightarrow> ptr t = 0 \<longleftrightarrow> t = Tip"
  by (cases t) (auto simp: node_at_def valid_oid_def)

lemma ptr_in_oids: "t \<noteq> Tip \<Longrightarrow> ptr t \<in> set (oids t)"
  by (cases t) auto

lemma par_point: "path_at h rt hole c \<Longrightarrow> Index_OID_Point (par c) = par c"
proof (cases c)
  case (Cons f c')
  then show "path_at h rt hole c \<Longrightarrow> ?thesis" by (cases f) (auto simp: node_at_def valid_oid_def)
qed (simp add: Index_OID_Point_def NULL_OID_def)

lemma par_null: "path_at h rt hole c \<Longrightarrow> par c = 0 \<longleftrightarrow> c = []"
proof (cases c)
  case (Cons f c')
  then show "path_at h rt hole c \<Longrightarrow> ?thesis" by (cases f) (auto simp: node_at_def valid_oid_def)
qed (simp add: NULL_OID_def)

lemma tree_at_oids: "tree_at h q ty t \<Longrightarrow> 0 \<notin> set (oids t)"
  by (induction t arbitrary: q ty) (auto simp: node_at_def valid_oid_def)

lemma height_above_ptr: "tree_at (nodes s) q ty t \<Longrightarrow> height_above (ptr t) s = Some (ht_above t)"
  by (cases t) (auto simp: height_above_def deref_def node_at_def valid_oid_def node_is_def)

lemma self_or_null_ptr: "tree_at (nodes s) q ty t \<Longrightarrow> self_or_null (ptr t) s = Some (ptr t)"
  by (cases t) (auto simp: self_or_null_def deref_def node_at_def valid_oid_def node_is_def NULL_OID_def)

lemma adopt_ptr:
  assumes "tree_at (nodes s) q ty t" and "distinct (oids t)"
  shows "\<exists>h. adopt (ptr t) q' ty' s = Some (s\<lparr>nodes := h\<rparr>) \<and> tree_at h q' ty' t \<and>
    (\<forall>p. p \<notin> set (oids t) \<longrightarrow> h p = nodes s p)"
proof (cases t)
  case Tip
  then show ?thesis by (intro exI [of _ "nodes s"]) (simp add: adopt_def)
next
  case (Bin l p k xs r)
  with assms obtain nd where nd: "nodes s p = Some nd" "p \<noteq> 0" "node_is nd p q ty (ptr l) k xs (ptr r)"
    by (auto simp: node_at_def valid_oid_def)
  let ?h = "(nodes s)(p \<mapsto> nd\<lparr>tn_parent := q', tn_type := ty'\<rparr>)"
  have "adopt (ptr t) q' ty' s = Some (s\<lparr>nodes := ?h\<rparr>)"
    using Bin nd by (simp add: adopt_def upd_node_def deref_def)
  moreover have "node_at ?h p q' ty' (ptr l) k xs (ptr r)"
    using Bin assms nd by (auto simp: node_at_def node_is_def has_items_def)
  ultimately show ?thesis using Bin assms by (intro exI [of _ ?h]) auto
qed

subsection \<open>The end of a rotation\<close>

fun fix_height :: "frame list \<Rightarrow> nat \<Rightarrow> frame list" where
  "fix_height [] a = []"
| "fix_height (LeftHole p k xs r # c) a = LeftHole p (max a (ht_above r)) xs r # c"
| "fix_height (RightHole l p k xs # c) a = RightHole l p (max (ht_above l) a) xs # c"

lemma fix_height_oids [simp]: "path_oids (fix_height c a) = path_oids c" "par (fix_height c a) = par c"
    "side (fix_height c a) = side c"
  by (induction c a rule: fix_height.induct) simp_all

lemma replace_child_path:
  assumes path: "path_at (nodes s) (root s) n1 c" and dist: "distinct (path_oids c)"
    and new: "n1 \<notin> set (path_oids c)" "n \<notin> set (path_oids c)" "n1 \<noteq> 0" "n \<noteq> 0"
    and nd: "nodes s n1 = Some nd1" "tn_self nd1 = n1" "nodes s n = Some nd" "tn_self nd = n" "tn_height nd = k"
  shows "\<exists>h rt. replace_child (par c) n1 n s = Some (s\<lparr>nodes := h, root := rt\<rparr>) \<and>
     path_at h rt n (fix_height c (Suc k)) \<and> (\<forall>p. p \<notin> set (path_oids c) \<longrightarrow> h p = nodes s p)"
proof (cases c)
  case Nil
  then show ?thesis using nd new
    by (intro exI [of _ "nodes s"] exI [of _ n]) (simp add: replace_child_def deref_def NULL_OID_def)
next
  case (Cons f c')
  show ?thesis
  proof (cases f)
    case (LeftHole p kp xs r)
    with Cons path obtain np where np: "nodes s p = Some np" "p \<noteq> 0" "Index_OID_Point p = p"
      "node_is np p (par c') (side c') n1 kp xs (ptr r)" and t: "tree_at (nodes s) p RIGHT_CHILD r"
      and up: "path_at (nodes s) (root s) p c'"
      by (auto simp: node_at_def valid_oid_def)
    have p: "p \<notin> set (oids r)" "p \<notin> set (path_oids c')" "p \<noteq> n" "p \<noteq> n1"
      using dist new Cons LeftHole by auto
    let ?np = "np\<lparr>tn_left := n\<rparr>"
    have "height_above (ptr r) (s\<lparr>nodes := (nodes s)(p \<mapsto> ?np)\<rparr>) = Some (ht_above r)"
      using t p by (intro height_above_ptr [where q = p and ty = RIGHT_CHILD]) simp
    then have "replace_child (par c) n1 n s =
        Some (s\<lparr>nodes := (nodes s)(p \<mapsto> ?np\<lparr>tn_height := max (Suc k) (ht_above r)\<rparr>)\<rparr>)"
      using Cons LeftHole np nd p new ptr_point [OF t]
      by (simp add: replace_child_def deref_def upd_node_def node_is_def)
    then show ?thesis
      using Cons LeftHole np t up p
      by (intro exI [of _ "(nodes s)(p \<mapsto> ?np\<lparr>tn_height := max (Suc k) (ht_above r)\<rparr>)"] exI [of _ "root s"])
        (auto simp: node_at_def node_is_def has_items_def valid_oid_def)
  next
    case (RightHole l p kp xs)
    with Cons path obtain np where np: "nodes s p = Some np" "p \<noteq> 0" "Index_OID_Point p = p"
      "node_is np p (par c') (side c') (ptr l) kp xs n1" and t: "tree_at (nodes s) p LEFT_CHILD l"
      and up: "path_at (nodes s) (root s) p c'"
      by (auto simp: node_at_def valid_oid_def)
    have p: "p \<notin> set (oids l)" "p \<notin> set (path_oids c')" "p \<noteq> n" "p \<noteq> n1" "n1 \<notin> set (oids l)"
      using dist new Cons RightHole by auto
    then have l: "ptr l \<noteq> n1" using ptr_in_oids [of l] new(3) by (cases "l = Tip") auto
    let ?np = "np\<lparr>tn_right := n\<rparr>"
    have "height_above (ptr l) (s\<lparr>nodes := (nodes s)(p \<mapsto> ?np)\<rparr>) = Some (ht_above l)"
      using t p by (intro height_above_ptr [where q = p and ty = LEFT_CHILD]) simp
    then have "replace_child (par c) n1 n s =
        Some (s\<lparr>nodes := (nodes s)(p \<mapsto> ?np\<lparr>tn_height := max (ht_above l) (Suc k)\<rparr>)\<rparr>)"
      using Cons RightHole np nd p l new ptr_point [OF t]
      by (simp add: replace_child_def deref_def upd_node_def node_is_def)
    then show ?thesis
      using Cons RightHole np t up p
      by (intro exI [of _ "(nodes s)(p \<mapsto> ?np\<lparr>tn_height := max (ht_above l) (Suc k)\<rparr>)"] exI [of _ "root s"])
        (auto simp: node_at_def node_is_def has_items_def valid_oid_def)
  qed
qed

end
