(* ===== verification/TTreeItems.thy ===== *)
theory TTreeItems
  imports TTreeShape
begin

section \<open>The items of a node as a list\<close>

text \<open>
  The operations on the array \<^verbatim>\<open>item_\<close> and its count are insertion, removal and moving of
  elements of a list; none of them leaves the array when the list stays within its bound.
\<close>

abbreviation max_items :: nat where "max_items \<equiv> nat TNODE_MAX_ITEM"

lemma max_items: "max_items = 121" "int max_items = TNODE_MAX_ITEM"
  by (simp_all add: TNODE_MAX_ITEM_def)

lemma has_items_length: "has_items nd xs \<Longrightarrow> length xs \<le> max_items"
  unfolding has_items_def by (metis length_take min.cobounded1 min.absorb_iff2 nat_le_linear min_def)

lemma has_itemsI:
  "length its = max_items \<Longrightarrow> its = xs @ ys \<Longrightarrow> n = int (length xs) \<Longrightarrow> has_items (nd\<lparr>tn_item := its, tn_count := n\<rparr>) xs"
  by (simp add: has_items_def)

lemma has_items_split:
  assumes "has_items nd xs"
  obtains ys where "tn_item nd = xs @ ys" "tn_count nd = int (length xs)" "length xs + length ys = max_items"
proof -
  have "tn_item nd = xs @ drop (length xs) (tn_item nd)"
    using assms append_take_drop_id [of "length xs" "tn_item nd"] by (simp add: has_items_def)
  with that assms show ?thesis by (metis has_items_def length_append)
qed

lemma memmove_eq:
  assumes "length a = d" "length b = n" "length u = s" "length v = n"
  shows "memmove (a @ b @ c) (int d) (u @ v @ w) (int s) (int n) = Some (a @ v @ c)"
proof -
  have "nat (int d + int n) = d + n" by linarith
  with assms show ?thesis by (simp add: memmove_def)
qed

lemma put_item_eq: "length a = n \<Longrightarrow> put_item (a @ x # b) (int n) v = Some (a @ v # b)"
  by (simp add: put_item_def list_update_append)

lemma get_item_eq: "has_items nd xs \<Longrightarrow> i < length xs \<Longrightarrow> get_item (tn_item nd) (int i) = Some (xs ! i)"
  by (erule has_items_split) (auto simp: get_item_def nth_append TNODE_MAX_ITEM_def)

definition keeps_links :: "TTreeNode \<Rightarrow> TTreeNode \<Rightarrow> bool" where
  "keeps_links nd nd' \<longleftrightarrow> tn_self nd' = tn_self nd \<and> tn_parent nd' = tn_parent nd \<and> tn_left nd' = tn_left nd \<and>
     tn_right nd' = tn_right nd \<and> tn_height nd' = tn_height nd \<and> tn_type nd' = tn_type nd"

lemma keeps_links_items [simp]: "keeps_links nd (nd\<lparr>tn_item := its, tn_count := n\<rparr>)"
    "keeps_links nd (nd\<lparr>tn_item := its\<rparr>)"
  by (simp_all add: keeps_links_def)

lemma InsertKey_items:
  assumes "has_items nd (xs @ ys)" and "length (xs @ ys) < max_items"
  shows "\<exists>nd'. TTreeNode_InsertKey nd (int (length xs)) r = Some nd' \<and> has_items nd' (xs @ r # ys) \<and> keeps_links nd nd'"
proof -
  from assms(1) obtain zs where z: "tn_item nd = (xs @ ys) @ zs" "tn_count nd = int (length (xs @ ys))"
    "length (xs @ ys) + length zs = max_items" by (rule has_items_split)
  with assms(2) obtain z' zs' where zs: "zs = z' # zs'" by (cases zs) auto
  show ?thesis
  proof (cases "ys = []")
    case True
    with z zs show ?thesis
      by (auto simp: TTreeNode_InsertKey_def put_item_eq intro: has_itemsI)
  next
    case False
    obtain y ys' where y: "ys @ [z'] = y # ys'" by (cases ys) auto
    then have len: "length ys' = length ys" by (metis length_Cons length_append_singleton nat.inject)
    have "memmove ((xs @ [y]) @ ys' @ zs') (int (length xs + 1)) (xs @ ys @ zs) (int (length xs)) (int (length ys)) =
        Some ((xs @ [y]) @ ys @ zs')"
      by (rule memmove_eq) (simp_all add: len)
    moreover have "(xs @ [y]) @ ys' @ zs' = tn_item nd" using z zs y by (metis append.assoc append_Cons append_Nil)
    ultimately have "memmove (tn_item nd) (int (length xs) + 1) (tn_item nd) (int (length xs)) (int (length ys)) =
        Some (xs @ y # ys @ zs')" using z by (simp add: add.commute)
    then show ?thesis
      using False z zs by (auto simp: TTreeNode_InsertKey_def put_item_eq intro: has_itemsI)
  qed
qed

lemma InsertKey_DeleteFirst_items:
  assumes "has_items nd (x # xs @ ys)"
  shows "\<exists>nd'. TTreeNode_InsertKey_DeleteFirst nd (int (length xs)) r = Some nd' \<and> has_items nd' (xs @ r # ys) \<and>
    keeps_links nd nd'"
proof -
  from assms obtain zs where z: "tn_item nd = (x # xs @ ys) @ zs" "tn_count nd = int (length (x # xs @ ys))"
    "length (x # xs @ ys) + length zs = max_items" by (rule has_items_split)
  have res: "has_items (nd\<lparr>tn_item := xs @ r # ys @ zs\<rparr>) (xs @ r # ys)"
    using z by (simp add: has_items_def)
  obtain u us where u: "x # xs = us @ [u]" by (metis append_butlast_last_id list.discI)
  then have len: "length us = length xs" by (metis length_Cons length_append_singleton nat.inject)
  show ?thesis
  proof (cases "xs = []")
    case True
    with z res show ?thesis by (simp add: TTreeNode_InsertKey_DeleteFirst_def put_item_def)
  next
    case False
    have "memmove ([] @ us @ (u # ys @ zs)) (int 0) ([x] @ xs @ (ys @ zs)) (int 1) (int (length xs)) =
        Some ([] @ xs @ (u # ys @ zs))"
      by (rule memmove_eq) (simp_all add: len)
    moreover have "us @ u # ys @ zs = tn_item nd" using z u by (metis append.assoc append_Cons append_Nil)
    ultimately have "memmove (tn_item nd) 0 (tn_item nd) 1 (int (length xs)) = Some (xs @ u # ys @ zs)"
      using z by simp
    with False res show ?thesis by (simp add: TTreeNode_InsertKey_DeleteFirst_def put_item_eq)
  qed
qed

lemma DeleteKey_items:
  assumes "has_items nd (xs @ x # ys)"
  shows "\<exists>nd'. TTreeNode_DeleteKey nd (int (length xs)) = Some (DB_SUCCESS, nd') \<and> has_items nd' (xs @ ys) \<and> keeps_links nd nd'"
proof -
  from assms obtain zs where z: "tn_item nd = (xs @ x # ys) @ zs" "tn_count nd = int (length (xs @ x # ys))"
    "length (xs @ x # ys) + length zs = max_items" by (rule has_items_split)
  obtain u us where u: "x # ys = us @ [u]" by (metis append_butlast_last_id list.discI)
  then have len: "length us = length ys" by (metis length_Cons length_append_singleton nat.inject)
  have "memmove (xs @ us @ (u # zs)) (int (length xs)) ((xs @ [x]) @ ys @ zs) (int (length xs + 1)) (int (length ys)) =
      Some (xs @ ys @ (u # zs))"
    by (rule memmove_eq) (simp_all add: len)
  moreover have "xs @ us @ u # zs = tn_item nd" using z u by (metis append.assoc append_Cons append_Nil)
  moreover have "tn_count nd - 1 - int (length xs) = int (length ys)" using z by simp
  ultimately have "memmove (tn_item nd) (int (length xs)) (tn_item nd) (int (length xs) + 1) (tn_count nd - 1 - int (length xs)) =
      Some (xs @ ys @ u # zs)"
    using z by (simp add: add.commute)
  moreover have "put_item (xs @ ys @ u # zs) (tn_count nd - 1) NULL_OID = Some (xs @ ys @ NULL_OID # zs)"
    using z put_item_eq [of "xs @ ys" "length xs + length ys" u zs NULL_OID] by simp
  ultimately show ?thesis
    using z by (auto simp: TTreeNode_DeleteKey_def intro: has_itemsI)
qed


lemma MoveLeftToRight_items:
  assumes l: "deref L s = Some l" "has_items l (xs @ ys)" and r: "deref R s = Some r" "has_items r zs"
    and ne: "L \<noteq> R" and fits: "length ys + length zs \<le> max_items"
  shows "\<exists>l' r'. TTreeNode_MoveLeftToRight L R (int (length ys)) s = Some (s\<lparr>nodes := (nodes s)(R \<mapsto> r', L \<mapsto> l')\<rparr>) \<and>
    has_items l' xs \<and> has_items r' (ys @ zs) \<and> keeps_links l l' \<and> keeps_links r r'"
proof -
  from l(2) obtain ls where ls: "tn_item l = (xs @ ys) @ ls" "tn_count l = int (length (xs @ ys))"
    "length (xs @ ys) + length ls = max_items" by (rule has_items_split)
  from r(2) obtain rs where rs: "tn_item r = zs @ rs" "tn_count r = int (length zs)" "length zs + length rs = max_items"
    by (rule has_items_split)
  define i where "i = tn_item r"
  have i: "length i = max_items" "take (length zs) i = zs" using rs by (simp_all add: i_def)
  define a where "a = take (length ys) i"
  define b where "b = take (length zs) (drop (length ys) i)"
  define c where "c = drop (length zs) (drop (length ys) i)"
  have abc: "i = a @ b @ c" unfolding a_def b_def c_def append_take_drop_id by (rule refl)
  have len: "length a = length ys" "length b = length zs" "length c = max_items - (length ys + length zs)"
    using i fits by (simp_all add: a_def b_def c_def)
  have m1: "memmove (tn_item r) (int (length ys)) (tn_item r) 0 (int (length zs)) = Some (a @ zs @ c)"
    using memmove_eq [of a "length ys" b "length zs" "[]" 0 zs c rs] len rs abc by (simp add: i_def)
  have m2: "memmove (a @ zs @ c) 0 (tn_item l) (int (length xs)) (int (length ys)) = Some (ys @ zs @ c)"
    using memmove_eq [of "[]" 0 a "length ys" xs "length xs" ys "zs @ c" ls] len ls by simp
  let ?r = "r\<lparr>tn_item := ys @ zs @ c, tn_count := tn_count r + int (length ys)\<rparr>"
  have r': "has_items ?r (ys @ zs)" using len rs fits by (simp add: has_items_def)
  obtain its where its: "(if int (length xs) > 0 then clear_items (tn_item l) (int (length xs)) else Some (tn_item l)) = Some its"
    "take (length xs) its = xs" "length its = max_items"
    using ls by (cases "xs = []") (simp_all add: clear_items_def)
  let ?l = "l\<lparr>tn_item := its, tn_count := int (length xs)\<rparr>"
  have "has_items ?l xs" using its ls by (simp add: has_items_def)
  moreover have "TTreeNode_MoveLeftToRight L R (int (length ys)) s = Some (s\<lparr>nodes := (nodes s)(R \<mapsto> ?r, L \<mapsto> ?l)\<rparr>)"
    using l(1) r(1) ne m1 m2 its ls rs
    by (simp add: TTreeNode_MoveLeftToRight_def Let_def upd_node_def deref_def split: if_splits)
  ultimately show ?thesis using r' by (intro exI [of _ ?l] exI [of _ ?r]) simp
qed

lemma MoveRightToLeft_items:
  assumes l: "deref L s = Some l" "has_items l zs" and r: "deref R s = Some r" "has_items r (xs @ ys)"
    and ne: "L \<noteq> R" and fits: "length zs + length xs \<le> max_items"
  shows "\<exists>l' r'. TTreeNode_MoveRightToLeft L R (int (length xs)) s = Some (s\<lparr>nodes := (nodes s)(L \<mapsto> l', R \<mapsto> r')\<rparr>) \<and>
    has_items l' (zs @ xs) \<and> has_items r' ys \<and> keeps_links l l' \<and> keeps_links r r'"
proof -
  from r(2) obtain rs where rs: "tn_item r = (xs @ ys) @ rs" "tn_count r = int (length (xs @ ys))"
    "length (xs @ ys) + length rs = max_items" by (rule has_items_split)
  from l(2) obtain ls where ls: "tn_item l = zs @ ls" "tn_count l = int (length zs)" "length zs + length ls = max_items"
    by (rule has_items_split)
  define a where "a = take (length xs) ls"
  define c where "c = drop (length xs) ls"
  have len: "length a = length xs" "ls = a @ c" using ls fits by (simp_all add: a_def c_def)
  have m1: "memmove (tn_item l) (int (length zs)) (tn_item r) 0 (int (length xs)) = Some (zs @ xs @ c)"
    using memmove_eq [of zs "length zs" a "length xs" "[]" 0 xs c "ys @ rs"] len ls rs by simp
  let ?l = "l\<lparr>tn_item := zs @ xs @ c, tn_count := tn_count l + int (length xs)\<rparr>"
  have l': "has_items ?l (zs @ xs)" using len ls by (simp add: has_items_def)
  obtain its where its: "ys = [] \<and> its = tn_item r \<or> ys \<noteq> [] \<and>
      (\<exists>z. memmove (tn_item r) 0 (tn_item r) (int (length xs)) (int (length ys)) = Some z \<and>
         clear_items z (int (length ys)) = Some its)"
    "take (length ys) its = ys" "length its = max_items"
  proof (cases "ys = []")
    case True
    with rs that show ?thesis by simp
  next
    case False
    define d where "d = take (length ys) (xs @ ys)"
    define e where "e = drop (length ys) (xs @ ys) @ rs"
    have "d @ drop (length ys) (xs @ ys) = xs @ ys" unfolding d_def by (rule append_take_drop_id)
    then have de: "length d = length ys" "tn_item r = d @ e" using rs(1) unfolding e_def
      by (simp add: d_def, metis append.assoc)
    have "memmove (tn_item r) 0 (tn_item r) (int (length xs)) (int (length ys)) = Some (ys @ e)"
      using memmove_eq [of "[]" 0 d "length ys" xs "length xs" ys e rs] rs de by simp
    moreover have "length (ys @ e) = max_items" using rs de by (metis length_append)
    ultimately show ?thesis using that False by (simp add: clear_items_def)
  qed
  let ?r = "r\<lparr>tn_item := its, tn_count := int (length ys)\<rparr>"
  have "has_items ?r ys" using its by (simp add: has_items_def)
  moreover have "TTreeNode_MoveRightToLeft L R (int (length xs)) s = Some (s\<lparr>nodes := (nodes s)(L \<mapsto> ?l, R \<mapsto> ?r)\<rparr>)"
    using l(1) r(1) ne m1 its ls rs
    by (auto simp: TTreeNode_MoveRightToLeft_def Let_def upd_node_def deref_def split: if_splits)
  ultimately show ?thesis using l' by (intro exI [of _ ?l] exI [of _ ?r]) simp
qed

end
