(* ===== verification/TTreeRotate.thy ===== *)
theory TTreeRotate
  imports TTreeItems
begin

section \<open>What the rotations do to the tree\<close>

text \<open>
  Each rotation is a function on trees (\<open>rot_LL\<close>, \<open>rot_RR\<close>, \<open>rot_LR\<close>, \<open>rot_RL\<close>), and the
  program's rotation of a node at the end of a path yields the rotated tree at the end of the path,
  whose last node has its height set.
\<close>

subsection \<open>On trees\<close>

definition join :: "tt \<Rightarrow> oid \<Rightarrow> oid list \<Rightarrow> tt \<Rightarrow> tt" where
  "join l p xs r = Bin l p (max (ht_above l) (ht_above r)) xs r"

lemma join_simps [simp]:
  "ptr (join l p xs r) = p" "oids (join l p xs r) = oids l @ p # oids r"
  "entries (join l p xs r) = entries l @ xs @ entries r"
  "ht_above (join l p xs r) = Suc (max (ht_above l) (ht_above r))" "join l p xs r \<noteq> Tip"
  by (simp_all add: join_def)

lemma tree_at_join [simp]:
  "tree_at h q ty (join l p xs r) \<longleftrightarrow>
     node_at h p q ty (ptr l) (max (ht_above l) (ht_above r)) xs (ptr r) \<and> tree_at h p LEFT_CHILD l \<and> tree_at h p RIGHT_CHILD r"
  by (simp add: join_def)

fun rot_LL :: "tt \<Rightarrow> tt" where
  "rot_LL (Bin (Bin t4 n2 k2 x2 t5) n1 k1 x1 t3) = join t4 n2 x2 (join t5 n1 x1 t3)"
| "rot_LL t = t"

fun rot_RR :: "tt \<Rightarrow> tt" where
  "rot_RR (Bin t2 n1 k1 x1 (Bin t4 n3 k3 x3 t5)) = join (join t2 n1 x1 t4) n3 x3 t5"
| "rot_RR t = t"

definition moved :: "oid list \<Rightarrow> tt \<Rightarrow> oid list \<Rightarrow> nat" where
  \<comment> \<open>how many items the new root \<open>x\<close> takes from the node \<open>y\<close>, whose inner child is \<open>t\<close>\<close>
  "moved x t y =
     (if int (length x) < TNODE_MIN_ITEM \<and> t = Tip
      then nat (min (TNODE_MIN_ITEM - int (length x)) (int (length y) - 1)) else 0)"

fun rot_LR :: "tt \<Rightarrow> tt" where
  "rot_LR (Bin (Bin t4 n2 k2 x2 (Bin t6 n5 k5 x5 t7)) n1 k1 x1 t3) =
     (let d = length x2 - moved x5 t6 x2 in
      join (join t4 n2 (take d x2) t6) n5 (drop d x2 @ x5) (join t7 n1 x1 t3))"
| "rot_LR t = t"

fun rot_RL :: "tt \<Rightarrow> tt" where
  "rot_RL (Bin t2 n1 k1 x1 (Bin (Bin t6 n4 k4 x4 t7) n3 k3 x3 t5)) =
     (let d = moved x4 t7 x3 in
      join (join t2 n1 x1 t6) n4 (x4 @ take d x3) (join t7 n3 (drop d x3) t5))"
| "rot_RL t = t"

lemma entries_rot [simp]:
  "entries (rot_LL t) = entries t" "entries (rot_RR t) = entries t"
  "entries (rot_LR t) = entries t" "entries (rot_RL t) = entries t"
proof -
  show "entries (rot_LL t) = entries t" by (cases t rule: rot_LL.cases) simp_all
  show "entries (rot_RR t) = entries t" by (cases t rule: rot_RR.cases) simp_all
  have split: "take d xs @ drop d xs @ ys = xs @ ys" for d and xs ys :: "oid list"
    by (simp flip: append_assoc)
  have none: "moved x t y = 0" if "t \<noteq> Tip" for x t y using that by (simp add: moved_def)
  show "entries (rot_LR t) = entries t" 
  proof (cases t rule: rot_LR.cases)
    case (1 t4 n2 k2 x2 t6 n5 k5 x5 t7 n1 k1 x1 t3)
    then show ?thesis by (cases "t6 = Tip") (simp_all add: Let_def split none)
  qed simp_all
  show "entries (rot_RL t) = entries t" 
  proof (cases t rule: rot_RL.cases)
    case (1 t2 n1 k1 x1 t6 n4 k4 x4 t7 n3 k3 x3 t5)
    then show ?thesis by (cases "t7 = Tip") (simp_all add: Let_def split none)
  qed simp_all
qed

subsection \<open>On the heap\<close>

definition rotated :: "(int \<times> ttree) option \<Rightarrow> ttree \<Rightarrow> frame list \<Rightarrow> tt \<Rightarrow> tt \<Rightarrow> bool" where
  "rotated r s c t u \<longleftrightarrow>
     (\<exists>h rt. r = Some (DB_SUCCESS, s\<lparr>nodes := h, root := rt\<rparr>) \<and>
        zip_at (s\<lparr>nodes := h, root := rt\<rparr>) (fix_height c (ht_above u)) u \<and>
        (\<forall>p. p \<notin> set (oids t) \<and> p \<notin> set (path_oids c) \<longrightarrow> h p = nodes s p))"

lemma node_at_deref:
  assumes "node_at (nodes s) p q ty l k xs r"
  obtains nd where "nodes s p = Some nd" "deref p s = Some nd" "tn_self nd = p" "tn_parent nd = q" "tn_type nd = ty" "tn_left nd = l"
    "tn_height nd = k" "has_items nd xs" "tn_right nd = r" "p \<noteq> 0" "Index_OID_Point p = p" "valid_oid p"
  using assms by (auto simp: node_at_def node_is_def valid_oid_def deref_def)

lemma tree_at_self:
  "tree_at h q ty t \<Longrightarrow> p \<in> set (oids t) \<Longrightarrow> \<exists>nd. h p = Some nd \<and> tn_self nd = p"
  by (induction t arbitrary: q ty) (auto simp: node_at_def node_is_def)

lemma rotation_end:
  assumes zip: "zip_at s c t" and ne: "t \<noteq> Tip" "u \<noteq> Tip" and same: "oids u = oids t"
    and u: "tree_at h (par c) (side c) u" and h: "\<And>p. p \<notin> set (oids t) \<Longrightarrow> h p = nodes s p"
  shows "rotated (do { s \<leftarrow> replace_child (par c) (ptr t) (ptr u) (s\<lparr>nodes := h\<rparr>); Some (DB_SUCCESS, s) }) s c t u"
proof -
  from zip have path: "path_at (nodes s) (root s) (ptr t) c" and dist: "distinct (oids t @ path_oids c)"
    by (simp_all add: zip_at_def)
  have in_t: "ptr t \<in> set (oids t)" "ptr u \<in> set (oids t)"
    using ptr_in_oids [OF ne(1)] ptr_in_oids [OF ne(2)] same by simp_all
  with dist have out: "ptr t \<notin> set (path_oids c)" "ptr u \<notin> set (path_oids c)" by auto
  obtain n1 where n1: "h (ptr t) = Some n1" "tn_self n1 = ptr t"
    using tree_at_self [OF u] in_t same by metis
  obtain l p k xs r where ub: "u = Bin l p k xs r" using ne(2) by (cases u) auto
  with u obtain n where n: "h (ptr u) = Some n" "tn_self n = ptr u" "tn_height n = k"
    by (auto simp: node_at_def node_is_def)
  have nz: "ptr t \<noteq> 0" "ptr u \<noteq> 0" using tree_at_oids [OF u] in_t same by metis+
  have "path_at h (root s) (ptr t) c"
    by (rule path_at_keep [OF path], rule h) (use dist in auto)
  with replace_child_path [of "s\<lparr>nodes := h\<rparr>" "ptr t" c "ptr u" n1 n k] dist out n1 n nz
  obtain h' rt where r: "replace_child (par c) (ptr t) (ptr u) (s\<lparr>nodes := h\<rparr>) = Some (s\<lparr>nodes := h', root := rt\<rparr>)"
    "path_at h' rt (ptr u) (fix_height c (Suc k))" "\<And>p. p \<notin> set (path_oids c) \<Longrightarrow> h' p = h p"
    by auto
  have "tree_at h' (par c) (side c) u"
    by (rule tree_at_keep [OF u], rule r(3)) (use dist same in auto)
  with r h dist same ub show ?thesis
    unfolding rotated_def by (intro exI [of _ h'] exI [of _ rt]) (simp add: zip_at_def)
qed

lemma LL_Rotate_ok:
  assumes zip: "zip_at s c t" and t: "t = Bin (Bin t4 n2 k2 x2 t5) n1 k1 x1 t3"
  shows "rotated (TTree_LL_Rotate n1 s) s c t (rot_LL t)"
proof -
  from zip t have path: "path_at (nodes s) (root s) n1 c" and dist: "distinct (oids t @ path_oids c)"
    and t4: "tree_at (nodes s) n2 LEFT_CHILD t4" and t5: "tree_at (nodes s) n2 RIGHT_CHILD t5"
    and t3: "tree_at (nodes s) n1 RIGHT_CHILD t3" and a1: "node_at (nodes s) n1 (par c) (side c) n2 k1 x1 (ptr t3)"
    and a2: "node_at (nodes s) n2 n1 LEFT_CHILD (ptr t4) k2 x2 (ptr t5)"
    by (simp_all add: zip_at_def)
  obtain m1 where m1: "nodes s n1 = Some m1" "deref n1 s = Some m1" "tn_self m1 = n1" "tn_parent m1 = par c" "tn_type m1 = side c"
    "tn_left m1 = n2" "has_items m1 x1" "tn_right m1 = ptr t3" "n1 \<noteq> 0" "valid_oid n1"
    by (rule node_at_deref [OF a1]) blast
  obtain m2 where m2: "nodes s n2 = Some m2" "deref n2 s = Some m2" "tn_self m2 = n2" "tn_left m2 = ptr t4" "has_items m2 x2"
    "tn_right m2 = ptr t5" "n2 \<noteq> 0" "Index_OID_Point n2 = n2" "valid_oid n2"
    by (rule node_at_deref [OF a2]) blast
  define a where "a = m1\<lparr>tn_parent := n2, tn_left := ptr t5, tn_type := RIGHT_CHILD, tn_height := max (ht_above t5) (ht_above t3)\<rparr>"
  define b where "b = m2\<lparr>tn_parent := par c, tn_right := n1, tn_type := side c,
    tn_height := max (ht_above t4) (Suc (tn_height a))\<rparr>"
  let ?h = "(nodes s)(n1 \<mapsto> a, n2 \<mapsto> b)"
  let ?s1 = "s\<lparr>nodes := (nodes s)(n1 \<mapsto> a)\<rparr>" and ?s2 = "s\<lparr>nodes := ?h\<rparr>"
  have ne: "n1 \<noteq> n2" and d5: "distinct (oids t5)" using dist t by auto
  have "tree_at (nodes ?s1) n2 LEFT_CHILD t4" "tree_at (nodes ?s2) n2 RIGHT_CHILD t5"
    using t4 t5 dist t by auto
  note hs = height_above_ptr [OF t5] height_above_ptr [OF t3] self_or_null_ptr [OF t5] height_above_ptr [OF this(1)]
  from adopt_ptr [OF \<open>tree_at (nodes ?s2) n2 RIGHT_CHILD t5\<close> d5, of n1 LEFT_CHILD]
  obtain h where h: "adopt (ptr t5) n1 LEFT_CHILD ?s2 = Some (s\<lparr>nodes := h\<rparr>)" "tree_at h n1 LEFT_CHILD t5"
    and off5: "\<And>p. p \<notin> set (oids t5) \<Longrightarrow> h p = ?h p"
    by auto
  have off: "h p = nodes s p" if "p \<notin> set (oids t5)" "p \<noteq> n1" "p \<noteq> n2" for p using off5 that by simp
  have "tree_at h n2 LEFT_CHILD t4" "tree_at h n1 RIGHT_CHILD t3"
    by (rule tree_at_keep [OF t4], rule off, use dist t in auto)
      (rule tree_at_keep [OF t3], rule off, use dist t in auto)
  moreover have "h n1 = Some a" "h n2 = Some b" using off5 dist t ne by auto
  ultimately have u: "tree_at h (par c) (side c) (rot_LL t)"
    using h(2) m1 m2 t by (simp add: node_at_def node_is_def a_def b_def has_items_def)
  have "TTree_LL_Rotate n1 s =
      do { s \<leftarrow> replace_child (par c) n1 n2 (s\<lparr>nodes := h\<rparr>); Some (DB_SUCCESS, s) }"
    using m1 m2 hs h(1) ne par_point [OF path] ptr_point [OF t5] ptr_point [OF t3] ptr_point [OF t4]
    by (simp add: TTree_LL_Rotate_def upd_node_def deref_def height_above_def [of n1] a_def b_def)
  with rotation_end [OF zip _ _ _ u] off t show ?thesis by simp
qed


lemma RR_Rotate_ok:
  assumes zip: "zip_at s c t" and t: "t = Bin t2 n1 k1 x1 (Bin t4 n3 k3 x3 t5)"
  shows "rotated (TTree_RR_Rotate n1 s) s c t (rot_RR t)"
proof -
  from zip t have path: "path_at (nodes s) (root s) n1 c" and dist: "distinct (oids t @ path_oids c)"
    and t4: "tree_at (nodes s) n3 LEFT_CHILD t4" and t5: "tree_at (nodes s) n3 RIGHT_CHILD t5"
    and t2: "tree_at (nodes s) n1 LEFT_CHILD t2" and a1: "node_at (nodes s) n1 (par c) (side c) (ptr t2) k1 x1 n3"
    and a3: "node_at (nodes s) n3 n1 RIGHT_CHILD (ptr t4) k3 x3 (ptr t5)"
    by (simp_all add: zip_at_def)
  obtain m1 where m1: "nodes s n1 = Some m1" "deref n1 s = Some m1" "tn_self m1 = n1" "tn_parent m1 = par c" "tn_type m1 = side c"
    "tn_left m1 = ptr t2" "has_items m1 x1" "tn_right m1 = n3" "n1 \<noteq> 0" "valid_oid n1"
    by (rule node_at_deref [OF a1]) blast
  obtain m3 where m3: "nodes s n3 = Some m3" "deref n3 s = Some m3" "tn_self m3 = n3" "tn_left m3 = ptr t4" "has_items m3 x3"
    "tn_right m3 = ptr t5" "n3 \<noteq> 0" "Index_OID_Point n3 = n3" "valid_oid n3"
    by (rule node_at_deref [OF a3]) blast
  define a where "a = m1\<lparr>tn_parent := n3, tn_right := ptr t4, tn_type := LEFT_CHILD, tn_height := max (ht_above t2) (ht_above t4)\<rparr>"
  define b where "b = m3\<lparr>tn_parent := par c, tn_left := n1, tn_type := side c,
    tn_height := max (Suc (tn_height a)) (ht_above t5)\<rparr>"
  let ?h = "(nodes s)(n1 \<mapsto> a, n3 \<mapsto> b)"
  let ?s1 = "s\<lparr>nodes := (nodes s)(n1 \<mapsto> a)\<rparr>" and ?s2 = "s\<lparr>nodes := ?h\<rparr>"
  have ne: "n1 \<noteq> n3" and d4: "distinct (oids t4)" using dist t by auto
  have "tree_at (nodes ?s1) n3 RIGHT_CHILD t5" "tree_at (nodes ?s2) n3 LEFT_CHILD t4"
    using t4 t5 dist t by auto
  note hs = height_above_ptr [OF t2] height_above_ptr [OF t4] self_or_null_ptr [OF t4] height_above_ptr [OF this(1)]
  from adopt_ptr [OF \<open>tree_at (nodes ?s2) n3 LEFT_CHILD t4\<close> d4, of n1 RIGHT_CHILD]
  obtain h where h: "adopt (ptr t4) n1 RIGHT_CHILD ?s2 = Some (s\<lparr>nodes := h\<rparr>)" "tree_at h n1 RIGHT_CHILD t4"
    and off4: "\<And>p. p \<notin> set (oids t4) \<Longrightarrow> h p = ?h p"
    by auto
  have off: "h p = nodes s p" if "p \<notin> set (oids t4)" "p \<noteq> n1" "p \<noteq> n3" for p using off4 that by simp
  have "tree_at h n3 RIGHT_CHILD t5" "tree_at h n1 LEFT_CHILD t2"
    by (rule tree_at_keep [OF t5], rule off, use dist t in auto)
      (rule tree_at_keep [OF t2], rule off, use dist t in auto)
  moreover have "h n1 = Some a" "h n3 = Some b" using off4 dist t ne by auto
  ultimately have u: "tree_at h (par c) (side c) (rot_RR t)"
    using h(2) m1 m3 t by (simp add: node_at_def node_is_def a_def b_def has_items_def)
  have "TTree_RR_Rotate n1 s =
      do { s \<leftarrow> replace_child (par c) n1 n3 (s\<lparr>nodes := h\<rparr>); Some (DB_SUCCESS, s) }"
    using m1 m3 hs h(1) ne par_point [OF path] ptr_point [OF t5] ptr_point [OF t2] ptr_point [OF t4]
    by (simp add: TTree_RR_Rotate_def upd_node_def deref_def height_above_def [of n1] a_def b_def)
  with rotation_end [OF zip _ _ _ u] off t show ?thesis by simp
qed

subsection \<open>Double rotations\<close>

lemma moved_bounds:
  assumes "y \<noteq> []"
  shows "moved x t y \<le> length y" "length x \<le> max_items \<Longrightarrow> moved x t y + length x \<le> max_items"
  using assms by (auto simp: moved_def TNODE_MIN_ITEM_def TNODE_MAX_ITEM_def)

lemma moved_min:
  assumes "y \<noteq> []" and "int (length x) < TNODE_MIN_ITEM"
  shows "min (TNODE_MIN_ITEM - int (length x)) (int (length y) - 1) = int (moved x Tip y)"
proof -
  have "1 \<le> length y" using assms(1) by (cases y) auto
  with assms show ?thesis by (auto simp: moved_def min_def)
qed

lemma LR_Rotate_ok:
  assumes zip: "zip_at s c t" and t: "t = Bin (Bin t4 n2 k2 x2 (Bin t6 n5 k5 x5 t7)) n1 k1 x1 t3"
    and x2: "x2 \<noteq> []"
  shows "rotated (TTree_LR_Rotate n1 s) s c t (rot_LR t)"
proof -
  from zip t have path: "path_at (nodes s) (root s) n1 c" and dist: "distinct (oids t @ path_oids c)"
    and t4: "tree_at (nodes s) n2 LEFT_CHILD t4" and t6: "tree_at (nodes s) n5 LEFT_CHILD t6"
    and t7: "tree_at (nodes s) n5 RIGHT_CHILD t7"
    and t3: "tree_at (nodes s) n1 RIGHT_CHILD t3" and a1: "node_at (nodes s) n1 (par c) (side c) n2 k1 x1 (ptr t3)"
    and a2: "node_at (nodes s) n2 n1 LEFT_CHILD (ptr t4) k2 x2 n5"
    and a5: "node_at (nodes s) n5 n2 RIGHT_CHILD (ptr t6) k5 x5 (ptr t7)"
    by (simp_all add: zip_at_def)
  obtain m1 where m1: "nodes s n1 = Some m1" "deref n1 s = Some m1" "tn_self m1 = n1" "tn_parent m1 = par c" "tn_type m1 = side c"
    "tn_left m1 = n2" "has_items m1 x1" "tn_right m1 = ptr t3" "n1 \<noteq> 0" "valid_oid n1"
    by (rule node_at_deref [OF a1]) blast
  obtain m2 where m2: "nodes s n2 = Some m2" "deref n2 s = Some m2" "tn_self m2 = n2" "tn_left m2 = ptr t4" "has_items m2 x2"
    "tn_right m2 = n5" "n2 \<noteq> 0" "Index_OID_Point n2 = n2" "valid_oid n2"
    by (rule node_at_deref [OF a2]) blast
  obtain m5 where m5: "nodes s n5 = Some m5" "deref n5 s = Some m5" "tn_self m5 = n5" "tn_left m5 = ptr t6" "has_items m5 x5"
    "tn_right m5 = ptr t7" "n5 \<noteq> 0" "Index_OID_Point n5 = n5" "valid_oid n5"
    by (rule node_at_deref [OF a5]) blast
  define a where "a = m1\<lparr>tn_parent := n5, tn_left := ptr t7, tn_height := max (ht_above t7) (ht_above t3), tn_type := RIGHT_CHILD\<rparr>"
  define b where "b = m2\<lparr>tn_parent := n5, tn_right := ptr t6, tn_height := max (ht_above t4) (ht_above t6), tn_type := LEFT_CHILD\<rparr>"
  define e where "e = m5\<lparr>tn_parent := par c, tn_right := n1, tn_left := n2,
     tn_height := max (Suc (tn_height b)) (Suc (tn_height a)), tn_type := side c\<rparr>"
  have ne: "n1 \<noteq> n2" "n1 \<noteq> n5" "n2 \<noteq> n5" and d67: "distinct (oids t6)" "distinct (oids t7)" using dist t by auto
  note hs = height_above_ptr [OF t7] height_above_ptr [OF t3] self_or_null_ptr [OF t7]
  let ?s1 = "s\<lparr>nodes := (nodes s)(n1 \<mapsto> a)\<rparr>"
  have "tree_at (nodes ?s1) n5 LEFT_CHILD t6" using t6 dist t by auto
  from adopt_ptr [OF this d67(1), of n2 RIGHT_CHILD] obtain h6 where
    h6: "adopt (ptr t6) n2 RIGHT_CHILD ?s1 = Some (s\<lparr>nodes := h6\<rparr>)" "tree_at h6 n2 RIGHT_CHILD t6"
    and off6: "\<And>p. p \<notin> set (oids t6) \<Longrightarrow> h6 p = nodes ?s1 p" by auto
  let ?s2 = "s\<lparr>nodes := h6\<rparr>"
  have off1: "h6 p = nodes s p" if "p \<notin> set (oids t6)" "p \<noteq> n1" for p using off6 that by simp
  have "tree_at h6 n5 RIGHT_CHILD t7"
    by (rule tree_at_keep [OF t7], rule off1) (use dist t in auto)
  then have "tree_at (nodes ?s2) n5 RIGHT_CHILD t7" by simp
  from adopt_ptr [OF this d67(2), of n1 LEFT_CHILD] obtain h7 where
    h7: "adopt (ptr t7) n1 LEFT_CHILD ?s2 = Some (s\<lparr>nodes := h7\<rparr>)" "tree_at h7 n1 LEFT_CHILD t7"
    and off7: "\<And>p. p \<notin> set (oids t7) \<Longrightarrow> h7 p = h6 p" by auto
  let ?s3 = "s\<lparr>nodes := h7\<rparr>"
  have off: "h7 p = (nodes s)p" if "p \<notin> set (oids t6)" "p \<notin> set (oids t7)" "p \<noteq> n1" for p
    using off6 off7 that by simp
  have out: "p \<notin> set (oids t6) \<and> p \<notin> set (oids t7)" if "p = n1 \<or> p = n2 \<or> p = n5" for p
    using that dist t by auto
  have at: "h7 n1 = Some a" "h7 n2 = Some m2" "h7 n5 = Some m5"
    using off off6 off7 out m2 m5 ne by simp_all
  have k6: "tree_at h7 n2 RIGHT_CHILD t6"
    by (rule tree_at_keep [OF h6(2)], rule off7) (use dist t in auto)
  have k4: "tree_at h7 n2 LEFT_CHILD t4" and k3: "tree_at h7 n1 RIGHT_CHILD t3"
    by (rule tree_at_keep [OF t4], rule off, use dist t in auto)
      (rule tree_at_keep [OF t3], rule off, use dist t in auto)
  have h3: "self_or_null (ptr t6) ?s3 = Some (ptr t6)" "height_above (ptr t4) ?s3 = Some (ht_above t4)"
    "height_above (ptr t6) ?s3 = Some (ht_above t6)"
    using self_or_null_ptr [of ?s3 n2 RIGHT_CHILD t6] height_above_ptr [of ?s3 n2 LEFT_CHILD t4]
      height_above_ptr [of ?s3 n2 RIGHT_CHILD t6] k6 k4 by simp_all
  let ?s4 = "s\<lparr>nodes := h7(n2 \<mapsto> b, n5 \<mapsto> e)\<rparr>"
  define d where "d = moved x5 t6 x2"
  have x5: "length x5 \<le> max_items" using m5(5) by (rule has_items_length)
  have dle: "d \<le> length x2" "d + length x5 \<le> max_items" unfolding d_def using moved_bounds [OF x2] x5 by blast+
  have xs: "take (length x2 - d) x2 @ drop (length x2 - d) x2 = x2" "length (drop (length x2 - d) x2) = d" using dle by simp_all
  have move: "\<exists>b' e'. (if tn_count m5 < TNODE_MIN_ITEM \<and> ptr t6 = NULL_OID
        then TTreeNode_MoveLeftToRight n2 n5 (min (TNODE_MIN_ITEM - tn_count m5) (tn_count m2 - 1)) ?s4 else Some ?s4) =
        Some (s\<lparr>nodes := h7(n5 \<mapsto> e', n2 \<mapsto> b')\<rparr>) \<and> has_items b' (take (length x2 - d) x2) \<and>
        has_items e' (drop (length x2 - d) x2 @ x5) \<and> keeps_links b b' \<and> keeps_links e e'"
  proof (cases "tn_count m5 < TNODE_MIN_ITEM \<and> ptr t6 = NULL_OID")
    case True
    then have tip: "t6 = Tip" using ptr_null [OF t6] by (simp add: NULL_OID_def)
    have cnt: "tn_count m5 = int (length x5)" "tn_count m2 = int (length x2)" using m5(5) m2(5) by (simp_all add: has_items_def)
    have "min (TNODE_MIN_ITEM - tn_count m5) (tn_count m2 - 1) = int (length (drop (length x2 - d) x2))"
      using moved_min [OF x2, of x5] True cnt xs(2) by (simp add: d_def tip)
    moreover have "has_items b (take (length x2 - d) x2 @ drop (length x2 - d) x2)" "has_items e x5"
      using m2(5) m5(5) xs(1) by (simp_all add: has_items_def b_def e_def)
    ultimately show ?thesis
      using MoveLeftToRight_items [of n2 ?s4 b "take (length x2 - d) x2" "drop (length x2 - d) x2" n5 e x5] True ne m2(7) m5(7) dle xs(2)
      by (auto simp: deref_def fun_upd_twist)
  next
    case False
    then have "d = 0" using ptr_null [OF t6] m5(5) by (auto simp: d_def moved_def has_items_def NULL_OID_def)
    with False m2(5) m5(5) ne show ?thesis
      by (intro exI [of _ b] exI [of _ e]) (auto simp: has_items_def b_def e_def keeps_links_def fun_upd_twist)
  qed
  then obtain b' e' where mv: "(if tn_count m5 < TNODE_MIN_ITEM \<and> ptr t6 = NULL_OID
        then TTreeNode_MoveLeftToRight n2 n5 (min (TNODE_MIN_ITEM - tn_count m5) (tn_count m2 - 1)) ?s4 else Some ?s4) =
        Some (s\<lparr>nodes := h7(n5 \<mapsto> e', n2 \<mapsto> b')\<rparr>)" and it: "has_items b' (take (length x2 - d) x2)"
        "has_items e' (drop (length x2 - d) x2 @ x5)" "keeps_links b b'" "keeps_links e e'"
    by blast
  let ?h = "h7(n5 \<mapsto> e', n2 \<mapsto> b')"
  have u: "tree_at ?h (par c) (side c) (rot_LR t)"
    using k4 k6 k3 h7(2) at m1 m2 m5 it ne dist t
    by (auto simp: node_at_def node_is_def a_def b_def e_def has_items_def keeps_links_def Let_def d_def)
  have runs:
    "upd_node n1 (\<lambda>n. n\<lparr>tn_parent := n5, tn_left := ptr t7, tn_height := max (ht_above t7) (ht_above t3),
        tn_type := RIGHT_CHILD\<rparr>) s = Some ?s1"
    "upd_node n2 (\<lambda>n. n\<lparr>tn_parent := n5, tn_right := ptr t6, tn_height := max (ht_above t4) (ht_above t6),
        tn_type := LEFT_CHILD\<rparr>) ?s3 = Some (s\<lparr>nodes := h7(n2 \<mapsto> b)\<rparr>)"
    "height_above n2 (s\<lparr>nodes := h7(n2 \<mapsto> b)\<rparr>) = Some (Suc (tn_height b))"
    "height_above n1 (s\<lparr>nodes := h7(n2 \<mapsto> b)\<rparr>) = Some (Suc (tn_height a))"
    "upd_node n5 (\<lambda>n. n\<lparr>tn_parent := par c, tn_right := n1, tn_left := n2,
        tn_height := max (Suc (tn_height b)) (Suc (tn_height a)), tn_type := side c\<rparr>)
      (s\<lparr>nodes := h7(n2 \<mapsto> b)\<rparr>) = Some ?s4"
    using m1(1,9) m2(7) m5(7) at ne
    by (simp_all add: upd_node_def deref_def height_above_def a_def b_def e_def)
  have "TTree_LR_Rotate n1 s =
      do { s \<leftarrow> replace_child (par c) n1 n5 (s\<lparr>nodes := ?h\<rparr>); Some (DB_SUCCESS, s) }"
    unfolding TTree_LR_Rotate_def
    by (simp only: m1(2-6,8) m2(2-4,6,8) m5(2-4,6,8) hs h3 h6(1) h7(1) runs mv bind.bind_lunit Let_def
        par_point [OF path] ptr_point [OF t4] ptr_point [OF t3] ptr_point [OF t6] ptr_point [OF t7])
  with rotation_end [OF zip _ _ _ u] off t show ?thesis by (simp add: Let_def)
qed


lemma RL_Rotate_ok:
  assumes zip: "zip_at s c t" and t: "t = Bin t2 n1 k1 x1 (Bin (Bin t6 n4 k4 x4 t7) n3 k3 x3 t5)"
    and x3: "x3 \<noteq> []"
  shows "rotated (TTree_RL_Rotate n1 s) s c t (rot_RL t)"
proof -
  from zip t have path: "path_at (nodes s) (root s) n1 c" and dist: "distinct (oids t @ path_oids c)"
    and t5: "tree_at (nodes s) n3 RIGHT_CHILD t5" and t6: "tree_at (nodes s) n4 LEFT_CHILD t6"
    and t7: "tree_at (nodes s) n4 RIGHT_CHILD t7"
    and t2: "tree_at (nodes s) n1 LEFT_CHILD t2" and a1: "node_at (nodes s) n1 (par c) (side c) (ptr t2) k1 x1 n3"
    and a3: "node_at (nodes s) n3 n1 RIGHT_CHILD n4 k3 x3 (ptr t5)"
    and a4: "node_at (nodes s) n4 n3 LEFT_CHILD (ptr t6) k4 x4 (ptr t7)"
    by (simp_all add: zip_at_def)
  obtain m1 where m1: "nodes s n1 = Some m1" "deref n1 s = Some m1" "tn_self m1 = n1" "tn_parent m1 = par c" "tn_type m1 = side c"
    "tn_left m1 = ptr t2" "has_items m1 x1" "tn_right m1 = n3" "n1 \<noteq> 0" "valid_oid n1"
    by (rule node_at_deref [OF a1]) blast
  obtain m3 where m3: "nodes s n3 = Some m3" "deref n3 s = Some m3" "tn_self m3 = n3" "tn_left m3 = n4" "has_items m3 x3"
    "tn_right m3 = ptr t5" "n3 \<noteq> 0" "Index_OID_Point n3 = n3" "valid_oid n3"
    by (rule node_at_deref [OF a3]) blast
  obtain m4 where m4: "nodes s n4 = Some m4" "deref n4 s = Some m4" "tn_self m4 = n4" "tn_left m4 = ptr t6" "has_items m4 x4"
    "tn_right m4 = ptr t7" "n4 \<noteq> 0" "Index_OID_Point n4 = n4" "valid_oid n4"
    by (rule node_at_deref [OF a4]) blast
  define a where "a = m1\<lparr>tn_parent := n4, tn_right := ptr t6, tn_height := max (ht_above t2) (ht_above t6), tn_type := LEFT_CHILD\<rparr>"
  define b where "b = m3\<lparr>tn_parent := n4, tn_left := ptr t7, tn_height := max (ht_above t7) (ht_above t5), tn_type := RIGHT_CHILD\<rparr>"
  define e where "e = m4\<lparr>tn_parent := par c, tn_left := n1, tn_right := n3,
     tn_height := max (Suc (tn_height a)) (Suc (tn_height b)), tn_type := side c\<rparr>"
  have ne: "n1 \<noteq> n3" "n1 \<noteq> n4" "n3 \<noteq> n4" and d67: "distinct (oids t6)" "distinct (oids t7)" using dist t by auto
  note hs = height_above_ptr [OF t2] height_above_ptr [OF t6] self_or_null_ptr [OF t6]
  let ?s1 = "s\<lparr>nodes := (nodes s)(n1 \<mapsto> a)\<rparr>"
  have "tree_at (nodes ?s1) n4 LEFT_CHILD t6" using t6 dist t by auto
  from adopt_ptr [OF this d67(1), of n1 RIGHT_CHILD] obtain h6 where
    h6: "adopt (ptr t6) n1 RIGHT_CHILD ?s1 = Some (s\<lparr>nodes := h6\<rparr>)" "tree_at h6 n1 RIGHT_CHILD t6"
    and off6: "\<And>p. p \<notin> set (oids t6) \<Longrightarrow> h6 p = nodes ?s1 p" by auto
  let ?s2 = "s\<lparr>nodes := h6\<rparr>"
  have off1: "h6 p = nodes s p" if "p \<notin> set (oids t6)" "p \<noteq> n1" for p using off6 that by simp
  have "tree_at h6 n4 RIGHT_CHILD t7"
    by (rule tree_at_keep [OF t7], rule off1) (use dist t in auto)
  then have "tree_at (nodes ?s2) n4 RIGHT_CHILD t7" by simp
  from adopt_ptr [OF this d67(2), of n3 LEFT_CHILD] obtain h7 where
    h7: "adopt (ptr t7) n3 LEFT_CHILD ?s2 = Some (s\<lparr>nodes := h7\<rparr>)" "tree_at h7 n3 LEFT_CHILD t7"
    and off7: "\<And>p. p \<notin> set (oids t7) \<Longrightarrow> h7 p = h6 p" by auto
  let ?s3 = "s\<lparr>nodes := h7\<rparr>"
  have off: "h7 p = nodes s p" if "p \<notin> set (oids t6)" "p \<notin> set (oids t7)" "p \<noteq> n1" for p
    using off6 off7 that by simp
  have out: "p \<notin> set (oids t6) \<and> p \<notin> set (oids t7)" if "p = n1 \<or> p = n3 \<or> p = n4" for p
    using that dist t by auto
  have at: "h7 n1 = Some a" "h7 n3 = Some m3" "h7 n4 = Some m4"
    using off off6 off7 out m3 m4 ne by simp_all
  have k6: "tree_at h7 n1 RIGHT_CHILD t6"
    by (rule tree_at_keep [OF h6(2)], rule off7) (use dist t in auto)
  have k5: "tree_at h7 n3 RIGHT_CHILD t5" and k2: "tree_at h7 n1 LEFT_CHILD t2"
    by (rule tree_at_keep [OF t5], rule off, use dist t in auto)
      (rule tree_at_keep [OF t2], rule off, use dist t in auto)
  have h3: "self_or_null (ptr t7) ?s3 = Some (ptr t7)" "height_above (ptr t7) ?s3 = Some (ht_above t7)"
    "height_above (ptr t5) ?s3 = Some (ht_above t5)"
    using self_or_null_ptr [of ?s3 n3 LEFT_CHILD t7] height_above_ptr [of ?s3 n3 LEFT_CHILD t7]
      height_above_ptr [of ?s3 n3 RIGHT_CHILD t5] h7(2) k5 by simp_all
  let ?s4 = "s\<lparr>nodes := h7(n3 \<mapsto> b, n4 \<mapsto> e)\<rparr>"
  define d where "d = moved x4 t7 x3"
  have x4: "length x4 \<le> max_items" using m4(5) by (rule has_items_length)
  have dle: "d \<le> length x3" "d + length x4 \<le> max_items" unfolding d_def using moved_bounds [OF x3] x4 by blast+
  have xs: "take d x3 @ drop d x3 = x3" "length (take d x3) = d" using dle by simp_all
  have "\<exists>b' e'. (if tn_count m4 < TNODE_MIN_ITEM \<and> ptr t7 = NULL_OID
        then TTreeNode_MoveRightToLeft n4 n3 (min (TNODE_MIN_ITEM - tn_count m4) (tn_count m3 - 1)) ?s4 else Some ?s4) =
        Some (s\<lparr>nodes := h7(n4 \<mapsto> e', n3 \<mapsto> b')\<rparr>) \<and> has_items b' (drop d x3) \<and>
        has_items e' (x4 @ take d x3) \<and> keeps_links b b' \<and> keeps_links e e'"
  proof (cases "tn_count m4 < TNODE_MIN_ITEM \<and> ptr t7 = NULL_OID")
    case True
    then have tip: "t7 = Tip" using ptr_null [OF t7] by (simp add: NULL_OID_def)
    have cnt: "tn_count m4 = int (length x4)" "tn_count m3 = int (length x3)" using m4(5) m3(5) by (simp_all add: has_items_def)
    have "min (TNODE_MIN_ITEM - tn_count m4) (tn_count m3 - 1) = int (length (take d x3))"
      using moved_min [OF x3, of x4] True cnt xs(2) by (simp add: d_def tip)
    moreover have "has_items b (take d x3 @ drop d x3)" "has_items e x4"
      using m3(5) m4(5) xs(1) by (simp_all add: has_items_def b_def e_def)
    ultimately show ?thesis
      using MoveRightToLeft_items [of n4 ?s4 e x4 n3 b "take d x3" "drop d x3"] True ne m3(7) m4(7) dle xs(2)
      by (auto simp: deref_def fun_upd_twist add.commute)
  next
    case False
    then have "d = 0" using ptr_null [OF t7] m4(5) by (auto simp: d_def moved_def has_items_def NULL_OID_def)
    with False m3(5) m4(5) ne show ?thesis
      by (intro exI [of _ b] exI [of _ e]) (auto simp: has_items_def b_def e_def keeps_links_def fun_upd_twist)
  qed
  then obtain b' e' where mv: "(if tn_count m4 < TNODE_MIN_ITEM \<and> ptr t7 = NULL_OID
        then TTreeNode_MoveRightToLeft n4 n3 (min (TNODE_MIN_ITEM - tn_count m4) (tn_count m3 - 1)) ?s4 else Some ?s4) =
        Some (s\<lparr>nodes := h7(n4 \<mapsto> e', n3 \<mapsto> b')\<rparr>)" and it: "has_items b' (drop d x3)"
        "has_items e' (x4 @ take d x3)" "keeps_links b b'" "keeps_links e e'"
    by blast
  let ?h = "h7(n4 \<mapsto> e', n3 \<mapsto> b')"
  have u: "tree_at ?h (par c) (side c) (rot_RL t)"
    using k5 k6 k2 h7(2) at m1 m3 m4 it ne dist t
    by (auto simp: node_at_def node_is_def a_def b_def e_def has_items_def keeps_links_def Let_def d_def)
  have runs:
    "upd_node n1 (\<lambda>n. n\<lparr>tn_parent := n4, tn_right := ptr t6, tn_height := max (ht_above t2) (ht_above t6),
        tn_type := LEFT_CHILD\<rparr>) s = Some ?s1"
    "upd_node n3 (\<lambda>n. n\<lparr>tn_parent := n4, tn_left := ptr t7, tn_height := max (ht_above t7) (ht_above t5),
        tn_type := RIGHT_CHILD\<rparr>) ?s3 = Some (s\<lparr>nodes := h7(n3 \<mapsto> b)\<rparr>)"
    "height_above n3 (s\<lparr>nodes := h7(n3 \<mapsto> b)\<rparr>) = Some (Suc (tn_height b))"
    "height_above n1 (s\<lparr>nodes := h7(n3 \<mapsto> b)\<rparr>) = Some (Suc (tn_height a))"
    "upd_node n4 (\<lambda>n. n\<lparr>tn_parent := par c, tn_left := n1, tn_right := n3,
        tn_height := max (Suc (tn_height a)) (Suc (tn_height b)), tn_type := side c\<rparr>)
      (s\<lparr>nodes := h7(n3 \<mapsto> b)\<rparr>) = Some ?s4"
    using m1(1,9) m3(7) m4(7) at ne
    by (simp_all add: upd_node_def deref_def height_above_def a_def b_def e_def)
  have "TTree_RL_Rotate n1 s =
      do { s \<leftarrow> replace_child (par c) n1 n4 (s\<lparr>nodes := ?h\<rparr>); Some (DB_SUCCESS, s) }"
    unfolding TTree_RL_Rotate_def
    by (simp only: m1(2-6,8) m3(2-4,6,8) m4(2-4,6,8) hs h3 h6(1) h7(1) runs mv bind.bind_lunit Let_def
        par_point [OF path] ptr_point [OF t5] ptr_point [OF t2] ptr_point [OF t6] ptr_point [OF t7])
  with rotation_end [OF zip _ _ _ u] off t show ?thesis by (simp add: Let_def)
qed

lemmas Rotate_ok = LL_Rotate_ok RR_Rotate_ok LR_Rotate_ok RL_Rotate_ok

end
