(* ===== verification/TTreeBalance.thy ===== *)
theory TTreeBalance
  imports TTreeRotate
begin

section \<open>Restoring the balance\<close>

text \<open>
  The invariant of the shape: stored heights are right, the two sides of a node differ by at most
  one, no node is empty.  \<open>avl_path c h\<close> is the invariant of a path whose hole had a tree of height
  \<open>h\<close>.  A climb after an insertion meets a tree that has grown by at most one; it stops at the first
  rotation, because the rotated tree has the height from before the insertion.
\<close>

subsection \<open>Balanced trees and paths\<close>

fun avl :: "tt \<Rightarrow> bool" where
  "avl Tip = True"
| "avl (Bin l p k xs r) \<longleftrightarrow> avl l \<and> avl r \<and> k = max (ht_above l) (ht_above r) \<and>
     ht_above l \<le> ht_above r + 1 \<and> ht_above r \<le> ht_above l + 1"

fun avl_path :: "frame list \<Rightarrow> nat \<Rightarrow> bool" where
  "avl_path [] h = True"
| "avl_path (LeftHole p k xs r # c) h \<longleftrightarrow> avl r \<and> k = max h (ht_above r) \<and> h \<le> ht_above r + 1 \<and> ht_above r \<le> h + 1 \<and>
     avl_path c (Suc k)"
| "avl_path (RightHole l p k xs # c) h \<longleftrightarrow> avl l \<and> k = max (ht_above l) h \<and> h \<le> ht_above l + 1 \<and> ht_above l \<le> h + 1 \<and>
     avl_path c (Suc k)"

lemma avl_plug: "avl (plug c t) \<longleftrightarrow> avl t \<and> avl_path c (ht_above t)"
proof (induction c arbitrary: t)
  case (Cons f c)
  then show ?case by (cases f) auto
qed simp

fun no_empty :: "tt \<Rightarrow> bool" where
  "no_empty Tip = True"
| "no_empty (Bin l p k xs r) \<longleftrightarrow> no_empty l \<and> xs \<noteq> [] \<and> no_empty r"

fun no_empty_frame :: "frame \<Rightarrow> bool" where
  "no_empty_frame (LeftHole p k xs r) \<longleftrightarrow> xs \<noteq> [] \<and> no_empty r"
| "no_empty_frame (RightHole l p k xs) \<longleftrightarrow> no_empty l \<and> xs \<noteq> []"

abbreviation no_empty_path :: "frame list \<Rightarrow> bool" where
  "no_empty_path c \<equiv> list_all no_empty_frame c"

lemma no_empty_plug: "no_empty (plug c t) \<longleftrightarrow> no_empty t \<and> no_empty_path c"
proof (induction c arbitrary: t)
  case (Cons f c)
  then show ?case by (cases f) auto
qed simp

lemma no_empty_join [simp]: "no_empty (join l p xs r) \<longleftrightarrow> no_empty l \<and> xs \<noteq> [] \<and> no_empty r"
  by (simp add: join_def)

lemma avl_join [simp]:
  "avl (join l p xs r) \<longleftrightarrow> avl l \<and> avl r \<and> ht_above l \<le> ht_above r + 1 \<and> ht_above r \<le> ht_above l + 1"
  by (simp add: join_def)

lemma moved_less: "y \<noteq> [] \<Longrightarrow> moved x t y < length y"
  by (cases y) (auto simp: moved_def)

lemma oids_plug: "set (oids (plug c t)) = set (oids t) \<union> set (path_oids c)"
proof (induction c arbitrary: t)
  case (Cons f c)
  then show ?case by (cases f) auto
qed simp

lemma oids_rot [simp]:
  "oids (rot_LL t) = oids t" "oids (rot_RR t) = oids t" "oids (rot_LR t) = oids t" "oids (rot_RL t) = oids t"
proof -
  show "oids (rot_LL t) = oids t" by (cases t rule: rot_LL.cases) simp_all
  show "oids (rot_RR t) = oids t" by (cases t rule: rot_RR.cases) simp_all
  show "oids (rot_LR t) = oids t" by (cases t rule: rot_LR.cases) (simp_all add: Let_def)
  show "oids (rot_RL t) = oids t" by (cases t rule: rot_RL.cases) (simp_all add: Let_def)
qed

subsection \<open>The choice of the rotation\<close>

fun fix_left :: "tt \<Rightarrow> tt" where
  "fix_left (Bin (Bin ll q kl xl lr) p k xs r) =
     (let t = Bin (Bin ll q kl xl lr) p k xs r in if ht_above lr \<le> ht_above ll then rot_LL t else rot_LR t)"
| "fix_left t = t"

fun fix_right :: "tt \<Rightarrow> tt" where
  "fix_right (Bin l p k xs (Bin rl q kr xr rr)) =
     (let t = Bin l p k xs (Bin rl q kr xr rr) in if ht_above rl \<le> ht_above rr then rot_RR t else rot_RL t)"
| "fix_right t = t"

lemma fix_simps [simp]:
  "entries (fix_left t) = entries t" "entries (fix_right t) = entries t"
  "oids (fix_left t) = oids t" "oids (fix_right t) = oids t"
proof -
  show "entries (fix_left t) = entries t" "oids (fix_left t) = oids t"
    by (cases t rule: fix_left.cases; simp add: Let_def del: rot_LL.simps rot_LR.simps)+
  show "entries (fix_right t) = entries t" "oids (fix_right t) = oids t"
    by (cases t rule: fix_right.cases; simp add: Let_def del: rot_RR.simps rot_RL.simps)+
qed

lemma fix_left_no_empty: "no_empty t \<Longrightarrow> no_empty (fix_left t)"
proof (cases t rule: fix_left.cases)
  case (1 ll q kl xl lr p k xs r)
  then show "no_empty t \<Longrightarrow> ?thesis"
    using moved_less [of xl] by (cases lr) (auto simp: Let_def not_le)
qed simp_all

lemma fix_right_no_empty: "no_empty t \<Longrightarrow> no_empty (fix_right t)"
proof (cases t rule: fix_right.cases)
  case (1 l p k xs rl q kr xr rr)
  then show "no_empty t \<Longrightarrow> ?thesis"
    using moved_less [of xr] by (cases rl) (auto simp: Let_def not_le)
qed simp_all

lemma fix_left_avl:
  assumes "t = Bin (Bin ll q kl xl lr) p k xs r" and "avl (Bin ll q kl xl lr)" and "avl r"
    and "Suc kl = ht_above r + 2"
  shows "avl (fix_left t) \<and> (if ht_above ll = ht_above lr then ht_above (fix_left t) = Suc (Suc kl) else ht_above (fix_left t) = Suc kl)"
proof (cases lr)
  case Tip
  with assms show ?thesis by (auto simp: Let_def)
next
  case (Bin a b c d e)
  with assms show ?thesis by (auto simp: Let_def max_def split: if_splits)
qed

lemma fix_right_avl:
  assumes "t = Bin l p k xs (Bin rl q kr xr rr)" and "avl (Bin rl q kr xr rr)" and "avl l"
    and "Suc kr = ht_above l + 2"
  shows "avl (fix_right t) \<and> (if ht_above rl = ht_above rr then ht_above (fix_right t) = Suc (Suc kr) else ht_above (fix_right t) = Suc kr)"
proof (cases rl)
  case Tip
  with assms show ?thesis by (auto simp: Let_def)
next
  case (Bin a b c d e)
  with assms show ?thesis by (auto simp: Let_def max_def split: if_splits)
qed

lemma rotate_left_heavy_ok:
  assumes zip: "zip_at s c t" and t: "t = Bin (Bin ll q kl xl lr) p k xs r" and "xl \<noteq> []"
  shows "rotated (rotate_left_heavy p q s) s c t (fix_left t)"
proof -
  from zip t have ll: "tree_at (nodes s) q LEFT_CHILD ll" and lr: "tree_at (nodes s) q RIGHT_CHILD lr"
    and q: "node_at (nodes s) q p LEFT_CHILD (ptr ll) kl xl (ptr lr)"
    by (simp_all add: zip_at_def)
  obtain m where m: "deref q s = Some m" "tn_left m = ptr ll" "tn_right m = ptr lr"
    by (rule node_at_deref [OF q]) blast
  note facts = m ptr_point [OF ll] ptr_point [OF lr] ptr_null [OF ll] ptr_null [OF lr]
  show ?thesis
  proof (cases "ht_above lr \<le> ht_above ll")
    case True
    have "rotate_left_heavy p q s = TTree_LL_Rotate p s"
    proof (cases lr)
      case Tip
      with facts show ?thesis by (simp add: rotate_left_heavy_def)
    next
      case (Bin a b c d e)
      with True obtain f g h i j where l: "ll = Bin f g h i j" by (cases ll) auto
      with ll lr Bin obtain m1 m2 where "deref b s = Some m1" "tn_height m1 = c" "deref g s = Some m2" "tn_height m2 = h"
        by (auto simp: node_at_def node_is_def deref_def valid_oid_def)
      with facts Bin l True show ?thesis by (simp add: rotate_left_heavy_def)
    qed
    with LL_Rotate_ok [OF zip t] True t show ?thesis by (simp add: Let_def)
  next
    case False
    then obtain a b c' d e where r: "lr = Bin a b c' d e" by (cases lr) auto
    have "rotate_left_heavy p q s = TTree_LR_Rotate p s"
    proof (cases ll)
      case Tip
      with facts r show ?thesis by (simp add: rotate_left_heavy_def)
    next
      case (Bin f g h i j)
      with ll lr r obtain m1 m2 where "deref b s = Some m1" "tn_height m1 = c'" "deref g s = Some m2" "tn_height m2 = h"
        by (auto simp: node_at_def node_is_def deref_def valid_oid_def)
      with facts Bin r False show ?thesis by (simp add: rotate_left_heavy_def)
    qed
    with LR_Rotate_ok [OF zip] False t assms(3) r show ?thesis by (simp add: Let_def del: rot_LR.simps)
  qed
qed

lemma rotate_right_heavy_ok:
  assumes zip: "zip_at s c t" and t: "t = Bin l p k xs (Bin rl q kr xr rr)" and "xr \<noteq> []"
  shows "rotated (rotate_right_heavy p q s) s c t (fix_right t)"
proof -
  from zip t have rl: "tree_at (nodes s) q LEFT_CHILD rl" and rr: "tree_at (nodes s) q RIGHT_CHILD rr"
    and q: "node_at (nodes s) q p RIGHT_CHILD (ptr rl) kr xr (ptr rr)"
    by (simp_all add: zip_at_def)
  obtain m where m: "deref q s = Some m" "tn_left m = ptr rl" "tn_right m = ptr rr"
    by (rule node_at_deref [OF q]) blast
  note facts = m ptr_point [OF rl] ptr_point [OF rr] ptr_null [OF rl] ptr_null [OF rr]
  show ?thesis
  proof (cases "ht_above rl \<le> ht_above rr")
    case True
    have "rotate_right_heavy p q s = TTree_RR_Rotate p s"
    proof (cases rl)
      case Tip
      with facts show ?thesis by (simp add: rotate_right_heavy_def)
    next
      case (Bin a b c d e)
      with True obtain f g h i j where r: "rr = Bin f g h i j" by (cases rr) auto
      with rl rr Bin obtain m1 m2 where "deref b s = Some m1" "tn_height m1 = c" "deref g s = Some m2" "tn_height m2 = h"
        by (auto simp: node_at_def node_is_def deref_def valid_oid_def)
      with facts Bin r True show ?thesis by (simp add: rotate_right_heavy_def)
    qed
    with RR_Rotate_ok [OF zip t] True t show ?thesis by (simp add: Let_def)
  next
    case False
    then obtain a b c' d e where l: "rl = Bin a b c' d e" by (cases rl) auto
    have "rotate_right_heavy p q s = TTree_RL_Rotate p s"
    proof (cases rr)
      case Tip
      with facts l show ?thesis by (simp add: rotate_right_heavy_def)
    next
      case (Bin f g h i j)
      with rl rr l obtain m1 m2 where "deref b s = Some m1" "tn_height m1 = c'" "deref g s = Some m2" "tn_height m2 = h"
        by (auto simp: node_at_def node_is_def deref_def valid_oid_def)
      with facts Bin l False show ?thesis by (simp add: rotate_right_heavy_def)
    qed
    with RL_Rotate_ok [OF zip] False t assms(3) l show ?thesis by (simp add: Let_def del: rot_RL.simps)
  qed
qed

end
