(* ===== verification/TTreeClimb.thy ===== *)
theory TTreeClimb
  imports TTreeBalance
begin

section \<open>The climb after an insertion\<close>

text \<open>
  \<open>grown\<close> is what a climb meets at a node: one side may have grown by one level, and then
  it is uneven.  \<open>climbed\<close> is what the climb reaches: a balanced tree with the same entries.
\<close>

lemma set_height_run:
  assumes zip: "zip_at s c (Bin l p k xs r)"
  obtains h where "set_height p m s = Some (s\<lparr>nodes := h\<rparr>)" "zip_at (s\<lparr>nodes := h\<rparr>) c (Bin l p m xs r)"
    "\<And>q. q \<noteq> p \<Longrightarrow> h q = nodes s q"
proof -
  from zip have path: "path_at (nodes s) (root s) p c" and dist: "distinct (oids (Bin l p k xs r) @ path_oids c)"
    and l: "tree_at (nodes s) p LEFT_CHILD l" and r: "tree_at (nodes s) p RIGHT_CHILD r"
    and a: "node_at (nodes s) p (par c) (side c) (ptr l) k xs (ptr r)"
    by (simp_all add: zip_at_def)
  obtain nd where nd: "nodes s p = Some nd" "deref p s = Some nd" "tn_self nd = p" "tn_parent nd = par c" "tn_type nd = side c"
    "tn_left nd = ptr l" "tn_height nd = k" "has_items nd xs" "tn_right nd = ptr r" "p \<noteq> 0" "valid_oid p"
    by (rule node_at_deref [OF a]) blast
  let ?h = "(nodes s)(p \<mapsto> nd\<lparr>tn_height := m\<rparr>)"
  have "node_at ?h p (par c) (side c) (ptr l) m xs (ptr r)"
    using nd by (simp add: node_at_def node_is_def has_items_def)
  with path l r dist have "zip_at (s\<lparr>nodes := ?h\<rparr>) c (Bin l p m xs r)" by (simp add: zip_at_def)
  moreover have "set_height p m s = Some (s\<lparr>nodes := if tn_height nd = m then nodes s else ?h\<rparr>)"
    using nd by (simp add: set_height_def upd_node_def)
  moreover have "?h = nodes s" if "tn_height nd = m" using that nd(1) by (auto simp: fun_eq_iff)
  ultimately show ?thesis using that [of ?h] by (auto split: if_splits)
qed

lemma fix_height_same: "avl_path c h \<Longrightarrow> fix_height c h = c"
  by (cases c; cases "hd c") auto

definition uneven :: "tt \<Rightarrow> bool" where
  "uneven t = (case t of Tip \<Rightarrow> False | Bin l p k xs r \<Rightarrow> ht_above l \<noteq> ht_above r)"

definition grown :: "nat \<Rightarrow> tt \<Rightarrow> tt \<Rightarrow> bool" where
  \<comment> \<open>the sides of a node whose tree had height \<open>h\<close> before one side may have grown\<close>
  "grown h l r \<longleftrightarrow> avl l \<and> avl r \<and>
     (let a = ht_above l; b = ht_above r; m = Suc (max a b) in
      a \<le> b + 1 \<and> b \<le> a + 1 \<and> (m = h \<or> m = Suc h \<and> (a \<noteq> b \<or> l = Tip \<and> r = Tip)) \<or>
      a = b + 2 \<and> m = Suc h \<and> uneven l \<or> b = a + 2 \<and> m = Suc h \<and> uneven r)"

definition climbed :: "(int \<times> ttree) option \<Rightarrow> ttree \<Rightarrow> tt \<Rightarrow> bool" where
  \<comment> \<open>the whole tree \<open>t\<close> has been balanced\<close>
  "climbed res s t \<longleftrightarrow>
     (\<exists>h rt u. res = Some (DB_SUCCESS, s\<lparr>nodes := h, root := rt\<rparr>) \<and> zip_at (s\<lparr>nodes := h, root := rt\<rparr>) [] u \<and> avl u \<and>
        entries u = entries t \<and> set (oids u) = set (oids t) \<and> no_empty u \<and>
        (\<forall>p. p \<notin> set (oids t) \<longrightarrow> h p = nodes s p))"

lemma rotated_climbed:
  assumes rot: "rotated res s c t u" and u: "avl u" "ht_above u = h" "entries u = entries t" "oids u = oids t" "no_empty u"
    and c: "avl_path c h" "no_empty_path c"
  shows "climbed res s (plug c t)"
proof -
  from rot u c obtain g rt where g: "res = Some (DB_SUCCESS, s\<lparr>nodes := g, root := rt\<rparr>)"
    "zip_at (s\<lparr>nodes := g, root := rt\<rparr>) c u" "\<forall>p. p \<notin> set (oids t) \<and> p \<notin> set (path_oids c) \<longrightarrow> g p = nodes s p"
    by (auto simp: rotated_def fix_height_same)
  with u c show ?thesis
    unfolding climbed_def
    by (intro exI [of _ g] exI [of _ rt] exI [of _ "plug c u"])
      (auto simp: zip_at_plug [symmetric] avl_plug no_empty_plug oids_plug intro: entries_plug_cong)
qed

lemma climbed_step:
  assumes "climbed res (s\<lparr>nodes := h\<rparr>) t" and "\<And>p. p \<notin> set (oids t) \<Longrightarrow> h p = nodes s p"
    and "entries t = entries t'" "set (oids t) = set (oids t')"
  shows "climbed res s t'"
proof -
  from assms(1) obtain g rt u where "res = Some (DB_SUCCESS, s\<lparr>nodes := g, root := rt\<rparr>)"
    "zip_at (s\<lparr>nodes := g, root := rt\<rparr>) [] u" "avl u" "entries u = entries t" "set (oids u) = set (oids t)" "no_empty u"
    "\<And>p. p \<notin> set (oids t) \<Longrightarrow> g p = h p"
    by (auto simp: climbed_def)
  with assms(2-4) show ?thesis
    unfolding climbed_def by (intro exI [of _ g] exI [of _ rt] exI [of _ u]) simp
qed

lemma rebalance_step:
  assumes zip: "zip_at s c (Bin l p k xs r)" 
  obtains h where "zip_at (s\<lparr>nodes := h\<rparr>) c (Bin l p (max (ht_above l) (ht_above r)) xs r)"
    "\<And>q. q \<noteq> p \<Longrightarrow> h q = nodes s q"
    "rebalance_insert p s =
       (if ht_above l > ht_above r + 1 then rotate_left_heavy p (ptr l) (s\<lparr>nodes := h\<rparr>)
        else if ht_above r > ht_above l + 1 then rotate_right_heavy p (ptr r) (s\<lparr>nodes := h\<rparr>)
        else if c = [] then Some (DB_SUCCESS, s\<lparr>nodes := h\<rparr>) else rebalance_insert (par c) (s\<lparr>nodes := h\<rparr>))"
proof -
  from zip have l: "tree_at (nodes s) p LEFT_CHILD l" and r: "tree_at (nodes s) p RIGHT_CHILD r"
    and a: "node_at (nodes s) p (par c) (side c) (ptr l) k xs (ptr r)" and path: "path_at (nodes s) (root s) p c"
    by (simp_all add: zip_at_def)
  obtain nd where nd: "deref p s = Some nd" "tn_parent nd = par c" "tn_left nd = ptr l" "tn_right nd = ptr r"
    by (rule node_at_deref [OF a]) blast
  obtain h where h: "set_height p (max (ht_above l) (ht_above r)) s = Some (s\<lparr>nodes := h\<rparr>)"
    "zip_at (s\<lparr>nodes := h\<rparr>) c (Bin l p (max (ht_above l) (ht_above r)) xs r)" "\<And>q. q \<noteq> p \<Longrightarrow> h q = nodes s q"
    by (rule set_height_run [OF zip, of "max (ht_above l) (ht_above r)"]) blast
  have "rebalance_insert p s =
      (if \<bar>int (ht_above l) - int (ht_above r)\<bar> > 1
       then if ht_above l > ht_above r then rotate_left_heavy p (ptr l) (s\<lparr>nodes := h\<rparr>)
            else rotate_right_heavy p (ptr r) (s\<lparr>nodes := h\<rparr>)
       else if par c = 0 then Some (DB_SUCCESS, s\<lparr>nodes := h\<rparr>) else rebalance_insert (par c) (s\<lparr>nodes := h\<rparr>))"
    by (subst rebalance_insert.simps)
      (simp only: nd h(1) ptr_point [OF l] ptr_point [OF r] par_point [OF path] height_above_ptr [OF l]
        height_above_ptr [OF r] NULL_OID_def Let_def bind.bind_lunit simp_thms if_False)
  then have "rebalance_insert p s =
       (if ht_above l > ht_above r + 1 then rotate_left_heavy p (ptr l) (s\<lparr>nodes := h\<rparr>)
        else if ht_above r > ht_above l + 1 then rotate_right_heavy p (ptr r) (s\<lparr>nodes := h\<rparr>)
        else if c = [] then Some (DB_SUCCESS, s\<lparr>nodes := h\<rparr>) else rebalance_insert (par c) (s\<lparr>nodes := h\<rparr>))"
    using par_null [OF path] by auto
  with h(2,3) that show ?thesis by blast
qed

lemma grown_left:
  assumes "grown h0 l r" and "avl_path (LeftHole q kq xq rq # c) h0"
    and "ht_above l \<le> ht_above r + 1" and "ht_above r \<le> ht_above l + 1"
  shows "grown (Suc kq) (Bin l p (max (ht_above l) (ht_above r)) xs r) rq"
  using assms by (auto simp: grown_def uneven_def Let_def max_def split: if_splits)

lemma grown_right:
  assumes "grown h0 l r" and "avl_path (RightHole lq q kq xq # c) h0"
    and "ht_above l \<le> ht_above r + 1" and "ht_above r \<le> ht_above l + 1"
  shows "grown (Suc kq) lq (Bin l p (max (ht_above l) (ht_above r)) xs r)"
  using assms by (auto simp: grown_def uneven_def Let_def max_def split: if_splits)

lemma climb_rotates:
  assumes zip: "zip_at s c (Bin l p k xs r)" and g: "grown h0 l r" and c: "avl_path c h0" "no_empty_path c"
    and ne: "no_empty (Bin l p k xs r)"
  shows "ht_above l > ht_above r + 1 \<Longrightarrow> climbed (rotate_left_heavy p (ptr l) s) s (plug c (Bin l p k xs r))"
    and "ht_above r > ht_above l + 1 \<Longrightarrow> climbed (rotate_right_heavy p (ptr r) s) s (plug c (Bin l p k xs r))"
proof -
  let ?t = "Bin l p k xs r"
  assume "ht_above l > ht_above r + 1"
  with g have h: "avl l" "avl r" "ht_above l = ht_above r + 2" "ht_above l = h0" "uneven l"
    by (auto simp: grown_def Let_def)
  then obtain ll q kl xl lr where l: "l = Bin ll q kl xl lr" "ht_above ll \<noteq> ht_above lr"
    by (cases l) (auto simp: uneven_def)
  have "avl (fix_left ?t)" "ht_above (fix_left ?t) = h0"
    using fix_left_avl [of ?t ll q kl xl lr p k xs r] h l by auto
  with rotate_left_heavy_ok [OF zip, of ll q kl xl lr p k xs r] l ne c fix_left_no_empty [OF ne]
  show "climbed (rotate_left_heavy p (ptr l) s) s (plug c ?t)"
    by (intro rotated_climbed [of _ s c ?t "fix_left ?t" h0]) (simp_all del: fix_left.simps)
next
  let ?t = "Bin l p k xs r"
  assume "ht_above r > ht_above l + 1"
  with g have h: "avl l" "avl r" "ht_above r = ht_above l + 2" "ht_above r = h0" "uneven r"
    by (auto simp: grown_def Let_def)
  then obtain rl q kr xr rr where r: "r = Bin rl q kr xr rr" "ht_above rl \<noteq> ht_above rr"
    by (cases r) (auto simp: uneven_def)
  have "avl (fix_right ?t)" "ht_above (fix_right ?t) = h0"
    using fix_right_avl [of ?t l p k xs rl q kr xr rr] h r by auto
  with rotate_right_heavy_ok [OF zip, of l p k xs rl q kr xr rr] r ne c fix_right_no_empty [OF ne]
  show "climbed (rotate_right_heavy p (ptr r) s) s (plug c ?t)"
    by (intro rotated_climbed [of _ s c ?t "fix_right ?t" h0]) (simp_all del: fix_right.simps)
qed

lemma plug_height:
  "entries (plug c (Bin l p k xs r)) = entries (plug c (Bin l p m xs r))"
  "set (oids (plug c (Bin l p k xs r))) = set (oids (plug c (Bin l p m xs r)))"
  by (rule entries_plug_cong) (simp_all add: oids_plug)

lemma climbed_height:
  assumes "climbed res (s\<lparr>nodes := h\<rparr>) (plug c (Bin l p m xs r))" and "\<And>q. q \<noteq> p \<Longrightarrow> h q = nodes s q"
  shows "climbed res s (plug c (Bin l p k xs r))"
  by (rule climbed_step [OF assms(1)]) (use assms(2) plug_height in \<open>auto simp: oids_plug simp del: plug.simps\<close>)

lemma rebalance_insert_run:
  assumes "zip_at s c (Bin l p k xs r)" and "grown h0 l r" and "avl_path c h0"
    and "no_empty (Bin l p k xs r)" and "no_empty_path c"
  shows "climbed (rebalance_insert p s) s (plug c (Bin l p k xs r))"
  using assms
proof (induction c arbitrary: s l p k xs r h0)
  case Nil
  let ?t = "Bin l p (max (ht_above l) (ht_above r)) xs r"
  obtain h where h: "zip_at (s\<lparr>nodes := h\<rparr>) [] ?t" "\<And>q. q \<noteq> p \<Longrightarrow> h q = nodes s q"
    "rebalance_insert p s =
       (if ht_above l > ht_above r + 1 then rotate_left_heavy p (ptr l) (s\<lparr>nodes := h\<rparr>)
        else if ht_above r > ht_above l + 1 then rotate_right_heavy p (ptr r) (s\<lparr>nodes := h\<rparr>)
        else Some (DB_SUCCESS, s\<lparr>nodes := h\<rparr>))"
    by (rule rebalance_step [OF Nil(1)]) simp
  have ne: "no_empty ?t" using Nil by simp
  have "climbed (Some (DB_SUCCESS, s\<lparr>nodes := h\<rparr>)) (s\<lparr>nodes := h\<rparr>) ?t"
    if "ht_above l \<le> ht_above r + 1" "ht_above r \<le> ht_above l + 1"
    unfolding climbed_def using that Nil(2) h(1) ne
    by (intro exI [of _ h] exI [of _ "root s"] exI [of _ ?t]) (simp add: grown_def)
  with climb_rotates [OF h(1) Nil(2) _ _ ne] h(3) have "climbed (rebalance_insert p s) (s\<lparr>nodes := h\<rparr>) (plug [] ?t)"
    by (simp add: not_less)
  then show ?case by (rule climbed_height) (rule h(2))
next
  case (Cons f c)
  let ?t = "Bin l p (max (ht_above l) (ht_above r)) xs r"
  obtain h where h: "zip_at (s\<lparr>nodes := h\<rparr>) (f # c) ?t" "\<And>q. q \<noteq> p \<Longrightarrow> h q = nodes s q"
    "rebalance_insert p s =
       (if ht_above l > ht_above r + 1 then rotate_left_heavy p (ptr l) (s\<lparr>nodes := h\<rparr>)
        else if ht_above r > ht_above l + 1 then rotate_right_heavy p (ptr r) (s\<lparr>nodes := h\<rparr>)
        else rebalance_insert (par (f # c)) (s\<lparr>nodes := h\<rparr>))"
    by (rule rebalance_step [OF Cons(2)]) simp
  have ne: "no_empty ?t" using Cons by simp
  have zip: "zip_at (s\<lparr>nodes := h\<rparr>) c (fill f ?t)" using h(1) by (simp only: zip_at_fill)
  have "climbed (rebalance_insert (par (f # c)) (s\<lparr>nodes := h\<rparr>)) (s\<lparr>nodes := h\<rparr>) (plug (f # c) ?t)"
    if bal: "ht_above l \<le> ht_above r + 1" "ht_above r \<le> ht_above l + 1"
  proof (cases f)
    case (LeftHole q kq xq rq)
    with zip have z: "zip_at (s\<lparr>nodes := h\<rparr>) c (Bin ?t q kq xq rq)" by simp
    have "grown (Suc kq) ?t rq" using grown_left [OF Cons(3) Cons(4) [unfolded LeftHole] bal] .
    moreover have "avl_path c (Suc kq)" "no_empty_path c" "no_empty (Bin ?t q kq xq rq)" using Cons LeftHole by auto
    ultimately show ?thesis using Cons(1) [OF z] LeftHole by simp
  next
    case (RightHole lq q kq xq)
    with zip have z: "zip_at (s\<lparr>nodes := h\<rparr>) c (Bin lq q kq xq ?t)" by simp
    have "grown (Suc kq) lq ?t" using grown_right [OF Cons(3) Cons(4) [unfolded RightHole] bal] .
    moreover have "avl_path c (Suc kq)" "no_empty_path c" "no_empty (Bin lq q kq xq ?t)" using Cons RightHole by auto
    ultimately show ?thesis using Cons(1) [OF z] RightHole by simp
  qed
  with climb_rotates [OF h(1) Cons(3,4,6) ne] h(3)
  have "climbed (rebalance_insert p s) (s\<lparr>nodes := h\<rparr>) (plug (f # c) ?t)" by (simp add: not_less)
  then show ?case by (rule climbed_height) (rule h(2))
qed

end
