(* ===== verification/TTreeGrow.thy ===== *)
theory TTreeGrow
  imports TTreeClimb
begin

section \<open>New items and new nodes\<close>

text \<open>
  \<open>index_ok s T\<close> is the invariant of an index: the nodes in the heap are the tree \<open>T\<close>, it is
  balanced, no node is empty, and its nodes are in slots that are in use.  Slots of other indexes are in
  the same store.  An item that is added to a node and a child that is added to a leaf keep it.
\<close>

subsection \<open>The invariant\<close>

definition index_ok :: "ttree \<Rightarrow> tt \<Rightarrow> bool" where
  "index_ok s t \<longleftrightarrow> zip_at s [] t \<and> avl t \<and> no_empty t \<and> slots_ok (slots s) \<and> set (oids t) \<subseteq> live_slots (slots s) \<and>
     int (length (oids t)) \<le> tt_item_count s"

definition keeps_others :: "ttree \<Rightarrow> tt \<Rightarrow> ttree \<Rightarrow> tt \<Rightarrow> bool" where
  \<comment> \<open>from the tree \<open>t\<close> to the tree \<open>t'\<close>: slots and nodes of other indexes stay\<close>
  "keeps_others s t s' t' \<longleftrightarrow>
     live_slots (slots s') = live_slots (slots s) - set (oids t) \<union> set (oids t') \<and>
     set (oids t') \<inter> (live_slots (slots s) - set (oids t)) = {} \<and>
     (\<forall>p \<in> live_slots (slots s) - set (oids t). nodes s' p = nodes s p)"

fun before :: "frame list \<Rightarrow> oid list" where
  "before [] = []"
| "before (LeftHole p k xs r # c) = before c"
| "before (RightHole l p k xs # c) = before c @ entries l @ xs"

fun after :: "frame list \<Rightarrow> oid list" where
  "after [] = []"
| "after (LeftHole p k xs r # c) = xs @ entries r @ after c"
| "after (RightHole l p k xs # c) = after c"

lemma entries_plug: "entries (plug c t) = before c @ entries t @ after c"
  by (induction c arbitrary: t rule: before.induct) simp_all

lemma length_oids_plug: "length (oids (plug c t)) = length (oids t) + length (path_oids c)"
proof (induction c arbitrary: t)
  case (Cons f c)
  then show ?case by (cases f) simp_all
qed simp

lemma index_ok_zip:
  "index_ok s (plug c t) \<longleftrightarrow> zip_at s c t \<and> avl (plug c t) \<and> no_empty (plug c t) \<and> slots_ok (slots s) \<and>
     set (oids (plug c t)) \<subseteq> live_slots (slots s) \<and> int (length (oids (plug c t))) \<le> tt_item_count s"
  by (simp add: index_ok_def zip_at_plug [of s c t])

lemma keeps_others_refl: "index_ok s t \<Longrightarrow> keeps_others s t s t"
  by (auto simp: keeps_others_def index_ok_def)

subsection \<open>An item in a node\<close>

lemma set_items:
  assumes zip: "zip_at s c (Bin l p k xs r)" and nd: "nodes s p = Some nd" "has_items nd' ys" "keeps_links nd nd'"
  shows "zip_at (s\<lparr>nodes := (nodes s)(p \<mapsto> nd')\<rparr>) c (Bin l p k ys r)"
proof -
  from zip have "node_at (nodes s) p (par c) (side c) (ptr l) k xs (ptr r)" "distinct (oids (Bin l p k xs r) @ path_oids c)"
    by (simp_all add: zip_at_def)
  moreover from this(1) nd have "node_at ((nodes s)(p \<mapsto> nd')) p (par c) (side c) (ptr l) k ys (ptr r)"
    by (auto simp: node_at_def node_is_def keeps_links_def)
  ultimately show ?thesis using zip by (auto simp: zip_at_def)
qed

lemma insert_key_run:
  assumes zip: "zip_at s c (Bin l p k (xs @ ys) r)" and len: "length (xs @ ys) < max_items"
  obtains h where "insert_key p (int (length xs)) i s = Some (DB_SUCCESS, s\<lparr>nodes := h\<rparr>)"
    "zip_at (s\<lparr>nodes := h\<rparr>) c (Bin l p k (xs @ i # ys) r)" "\<And>q. q \<noteq> p \<Longrightarrow> h q = nodes s q"
proof -
  from zip have a: "node_at (nodes s) p (par c) (side c) (ptr l) k (xs @ ys) (ptr r)" by (simp add: zip_at_def)
  obtain nd where nd: "nodes s p = Some nd" "deref p s = Some nd" "has_items nd (xs @ ys)"
    by (rule node_at_deref [OF a]) blast
  from InsertKey_items [OF nd(3) len, of i] obtain nd' where nd': "TTreeNode_InsertKey nd (int (length xs)) i = Some nd'"
    "has_items nd' (xs @ i # ys)" "keeps_links nd nd'" by blast
  show ?thesis
    by (rule that [of "(nodes s)(p \<mapsto> nd')"])
      (use nd nd' set_items [OF zip nd(1) nd'(2,3)] in \<open>simp_all add: insert_key_def set_node_def\<close>)
qed

lemma index_ok_items:
  assumes "index_ok s (plug c (Bin l p k xs r))" and "zip_at (s\<lparr>nodes := h\<rparr>) c (Bin l p k ys r)" and "ys \<noteq> []"
    and "\<And>q. q \<noteq> p \<Longrightarrow> h q = nodes s q"
  shows "index_ok (s\<lparr>nodes := h\<rparr>) (plug c (Bin l p k ys r))"
    and "keeps_others s (plug c (Bin l p k xs r)) (s\<lparr>nodes := h\<rparr>) (plug c (Bin l p k ys r))"
  using assms
  by (auto simp: index_ok_zip avl_plug no_empty_plug oids_plug length_oids_plug keeps_others_def)

lemma keeps_others_trans:
  assumes "keeps_others s t s1 t1" and "keeps_others s1 t1 s2 t2"
  shows "keeps_others s t s2 t2"
proof -
  have "live_slots (slots s1) - set (oids t1) = live_slots (slots s) - set (oids t)"
    using assms(1) by (auto simp: keeps_others_def)
  with assms show ?thesis by (simp add: keeps_others_def)
qed

subsection \<open>A new child\<close>

definition refused :: "ttree \<Rightarrow> int \<Rightarrow> bool" where
  \<comment> \<open>there is no slot for a node\<close>
  "refused s r \<longleftrightarrow> r < 0 \<and> (\<exists>i sl. Index_Collect_AllocateSlot (slots s) = Some (r, i, sl))"

definition gives :: "(int \<times> ttree) option \<Rightarrow> ttree \<Rightarrow> tt \<Rightarrow> oid list \<Rightarrow> oid list \<Rightarrow> bool" where
  \<comment> \<open>success with the entries \<open>es\<close>, or a refused slot with the entries \<open>fs\<close>\<close>
  "gives res s t es fs \<longleftrightarrow>
     (\<exists>ret s' t'. res = Some (ret, s') \<and> index_ok s' t' \<and> keeps_others s t s' t' \<and> mem_ok s' = mem_ok s \<and>
        (ret = DB_SUCCESS \<and> entries t' = es \<or> refused s ret \<and> entries t' = fs))"

definition new_node :: "oid \<Rightarrow> oid \<Rightarrow> NodeType \<Rightarrow> oid \<Rightarrow> TTreeNode" where
  "new_node i q ty rid =
     \<lparr>tn_self = i, tn_parent = q, tn_left = NULL_OID, tn_right = NULL_OID, tn_count = 1, tn_height = 0, tn_type = ty,
      tn_item = rid # replicate (nat TNODE_MAX_ITEM - 1) NULL_OID\<rparr>"

lemma new_node_is: "valid_oid i \<Longrightarrow> h i = Some (new_node i q ty rid) \<Longrightarrow> tree_at h q ty (Bin Tip i 0 [rid] Tip)"
  by (simp add: node_at_def node_is_def new_node_def has_items_def TNODE_MAX_ITEM_def NULL_OID_def)

lemma Create_run:
  "mem_ok s (mem_calls s) \<Longrightarrow> TTreeNode_Create i q ty rid s =
     (DB_SUCCESS, s\<lparr>mem_calls := mem_calls s + 1, nodes := (nodes s)(i \<mapsto> new_node i q ty rid)\<rparr>)"
  by (simp add: TTreeNode_Create_def new_node_def Let_def)

lemma make_child_gives:
  assumes idx: "index_ok s t" and mem: "\<And>n. mem_ok s n" and nd: "deref p s = Some nd" "tn_self nd = p"
    and climb: "\<And>j S. valid_oid j \<Longrightarrow> j \<notin> live_slots (slots s) \<Longrightarrow>
      nodes S = (nodes s)(j \<mapsto> new_node j p ty i, p \<mapsto> link j nd) \<Longrightarrow> root S = root s \<Longrightarrow>
      climbed (rebalance_insert j S) S (t1 j) \<and> entries (t1 j) = es \<and> set (oids (t1 j)) = insert j (set (oids t))"
    and in_t: "p \<in> set (oids t)"
  shows "gives (make_child ty link p i s) s t es (entries t)"
proof -
  from idx have ok: "slots_ok (slots s)" and sub: "set (oids t) \<subseteq> live_slots (slots s)" by (simp_all add: index_ok_def)
  from ok show ?thesis
  proof (cases rule: islots.alloc_cases)
    case (failed r j sl)
    then have "make_child ty link p i s = Some (r, s\<lparr>slots := sl\<rparr>)" by (simp add: make_child_def)
    moreover have "index_ok (s\<lparr>slots := sl\<rparr>) t" "keeps_others s t (s\<lparr>slots := sl\<rparr>) t" "refused s r"
      using idx failed by (auto simp: index_ok_def zip_at_def keeps_others_def refused_def)
    ultimately show ?thesis unfolding gives_def
      by (intro exI [of _ r] exI [of _ "s\<lparr>slots := sl\<rparr>"] exI [of _ t]) simp
  next
    case (got j sl)
    then have j: "valid_oid j" "j \<notin> set (oids t)" "j \<noteq> p" using sub in_t by (auto simp: valid_oid_def)
    define S where "S = s\<lparr>slots := sl, tt_item_count := tt_item_count s + 1, mem_calls := mem_calls s + 1,
      nodes := (nodes s)(j \<mapsto> new_node j p ty i, p \<mapsto> link j nd)\<rparr>"
    have "climbed (rebalance_insert j S) S (t1 j)" and es: "entries (t1 j) = es"
      and os: "set (oids (t1 j)) = insert j (set (oids t))"
      using climb [of j S] j got by (simp_all add: S_def)
    then obtain h rt u where r: "rebalance_insert j S = Some (DB_SUCCESS, S\<lparr>nodes := h, root := rt\<rparr>)"
      and u: "zip_at (S\<lparr>nodes := h, root := rt\<rparr>) [] u" "avl u" "no_empty u" "entries u = es"
        "set (oids u) = insert j (set (oids t))"
      and frame: "\<And>q. q \<notin> insert j (set (oids t)) \<Longrightarrow> h q = nodes S q"
      by (auto simp: climbed_def)
    have "length (oids u) = Suc (length (oids t))"
      using u(1,5) idx j(2) distinct_card [of "oids u"] distinct_card [of "oids t"] by (simp add: zip_at_def index_ok_def)
    then have "index_ok (S\<lparr>nodes := h, root := rt\<rparr>) u"
      using u got idx by (auto simp: index_ok_def S_def zip_at_def)
    moreover have keep: "h q = nodes s q" if "q \<in> live_slots (slots s)" "q \<notin> set (oids t)" for q
    proof -
      from that in_t got(3) have "q \<noteq> j" "q \<noteq> p" by auto
      with frame [of q] that show ?thesis by (simp add: S_def)
    qed
    moreover have "keeps_others s t (S\<lparr>nodes := h, root := rt\<rparr>) u"
      using u(5) got j keep sub by (auto simp: keeps_others_def S_def)
    moreover have "make_child ty link p i s = Some (DB_SUCCESS, S\<lparr>nodes := h, root := rt\<rparr>)"
    proof -
      have "deref p (s\<lparr>slots := sl, tt_item_count := tt_item_count s + 1\<rparr>) = Some nd"
        using nd by (simp add: deref_def split: if_splits)
      moreover have "upd_node p (link j) (s\<lparr>slots := sl, tt_item_count := tt_item_count s + 1, mem_calls := mem_calls s + 1,
          nodes := (nodes s)(j \<mapsto> new_node j p ty i)\<rparr>) = Some S"
        using nd j by (simp add: upd_node_def deref_def S_def split: if_splits)
      ultimately show ?thesis
        using got(1,5,6) nd mem r
        by (simp add: make_child_def Create_run link_new_child_def TTree_Rebalance_For_Insert_def Let_def DB_SUCCESS_def)
    qed
    ultimately show ?thesis using u(4) unfolding gives_def
      by (intro exI [of _ DB_SUCCESS] exI [of _ "S\<lparr>nodes := h, root := rt\<rparr>"] exI [of _ u]) (simp add: S_def)
  qed
qed

lemma leaf_climb:
  assumes zip: "zip_at S (f # c) (Bin Tip j 0 [i] Tip)" and f: "fill f (Bin Tip j 0 [i] Tip) = Bin l p k xs r"
    and grown: "grown h0 l r" "avl_path c h0" and ne: "no_empty (Bin l p k xs r)" "no_empty_path c"
  shows "climbed (rebalance_insert j S) S (plug c (Bin l p k xs r))"
proof -
  obtain h where h: "zip_at (S\<lparr>nodes := h\<rparr>) (f # c) (Bin Tip j 0 [i] Tip)" "\<And>q. q \<noteq> j \<Longrightarrow> h q = nodes S q"
    "rebalance_insert j S = rebalance_insert (par (f # c)) (S\<lparr>nodes := h\<rparr>)"
    by (rule rebalance_step [OF zip]) simp
  have j: "j \<in> set (oids (fill f (Bin Tip j 0 [i] Tip)))" by (cases f) simp_all
  have "par (f # c) = p" using f by (cases f) simp_all
  moreover have "zip_at (S\<lparr>nodes := h\<rparr>) c (Bin l p k xs r)" using h(1) f by (simp only: zip_at_fill)
  ultimately have "climbed (rebalance_insert j S) (S\<lparr>nodes := h\<rparr>) (plug c (Bin l p k xs r))"
    using rebalance_insert_run grown ne h(3) by metis
  then show ?thesis
  proof (rule climbed_step)
    show "h q = nodes S q" if "q \<notin> set (oids (plug c (Bin l p k xs r)))" for q
      using that j f by (intro h(2)) (auto simp: oids_plug simp del: oids.simps)
  qed simp_all
qed

lemma MakeLeftChild_gives:
  assumes idx: "index_ok s (plug c (Bin Tip p k xs r))" and mem: "\<And>n. mem_ok s n"
  shows "gives (TTree_MakeLeftChild p i s) s (plug c (Bin Tip p k xs r))
    (before c @ i # xs @ entries r @ after c) (before c @ xs @ entries r @ after c)"
proof -
  let ?t = "plug c (Bin Tip p k xs r)"
  from idx have zip: "zip_at s c (Bin Tip p k xs r)" and sub: "set (oids ?t) \<subseteq> live_slots (slots s)"
    and c: "avl_path c (Suc k)" "no_empty_path c" and r: "avl r" "no_empty r" "k = ht_above r" "ht_above r \<le> 1" "xs \<noteq> []"
    by (auto simp: index_ok_zip avl_plug no_empty_plug)
  from zip have a: "node_at (nodes s) p (par c) (side c) 0 k xs (ptr r)" and rt: "tree_at (nodes s) p RIGHT_CHILD r"
    and path: "path_at (nodes s) (root s) p c" and dist: "distinct (p # oids r @ path_oids c)"
    by (simp_all add: zip_at_def)
  obtain nd where nd: "nodes s p = Some nd" "deref p s = Some nd" "tn_self nd = p" "tn_parent nd = par c" "tn_type nd = side c"
    "has_items nd xs" "tn_right nd = ptr r" "valid_oid p"
    by (rule node_at_deref [OF a]) blast
  let ?link = "\<lambda>c n. n\<lparr>tn_left := c, tn_height := 1\<rparr>"
  have "climbed (rebalance_insert j S) S (plug c (Bin (Bin Tip j 0 [i] Tip) p 1 xs r))"
    if j: "valid_oid j" "j \<notin> live_slots (slots s)"
      and S: "nodes S = (nodes s)(j \<mapsto> new_node j p LEFT_CHILD i, p \<mapsto> ?link j nd)" "root S = root s" for j S
  proof -
    have off: "j \<noteq> p" "j \<notin> set (oids r)" "j \<notin> set (path_oids c)"
      using j(2) sub by (auto simp: oids_plug)
    have "node_at (nodes S) p (par c) (side c) j 1 xs (ptr r)"
      using nd S by (simp add: node_at_def node_is_def has_items_def)
    moreover have "tree_at (nodes S) p LEFT_CHILD (Bin Tip j 0 [i] Tip)"
      by (rule new_node_is) (use S off j in simp_all)
    ultimately have "zip_at S (LeftHole p 1 xs r # c) (Bin Tip j 0 [i] Tip)"
      using rt path dist off S by (auto simp: zip_at_def)
    moreover have "grown (Suc k) (Bin Tip j 0 [i] Tip) r" using r by (auto simp: grown_def Let_def max_def)
    ultimately show ?thesis using leaf_climb [of S _ c j i _ p 1 xs r] c r by simp
  qed
  then show ?thesis
    using make_child_gives [OF idx mem nd(2,3), of LEFT_CHILD i ?link "\<lambda>j. plug c (Bin (Bin Tip j 0 [i] Tip) p 1 xs r)"]
    by (simp add: TTree_MakeLeftChild_def entries_plug oids_plug)
qed

lemma MakeRightChild_gives:
  assumes idx: "index_ok s (plug c (Bin l p k xs Tip))" and mem: "\<And>n. mem_ok s n"
  shows "gives (TTree_MakeRightChild p i s) s (plug c (Bin l p k xs Tip))
    (before c @ entries l @ xs @ i # after c) (before c @ entries l @ xs @ after c)"
proof -
  let ?t = "plug c (Bin l p k xs Tip)"
  from idx have zip: "zip_at s c (Bin l p k xs Tip)" and sub: "set (oids ?t) \<subseteq> live_slots (slots s)"
    and c: "avl_path c (Suc k)" "no_empty_path c" and l: "avl l" "no_empty l" "k = ht_above l" "ht_above l \<le> 1" "xs \<noteq> []"
    by (auto simp: index_ok_zip avl_plug no_empty_plug)
  from zip have a: "node_at (nodes s) p (par c) (side c) (ptr l) k xs 0" and lt: "tree_at (nodes s) p LEFT_CHILD l"
    and path: "path_at (nodes s) (root s) p c" and dist: "distinct (oids l @ p # path_oids c)"
    by (simp_all add: zip_at_def)
  obtain nd where nd: "nodes s p = Some nd" "deref p s = Some nd" "tn_self nd = p" "tn_parent nd = par c" "tn_type nd = side c"
    "has_items nd xs" "tn_left nd = ptr l" "valid_oid p"
    by (rule node_at_deref [OF a]) blast
  let ?link = "\<lambda>c n. n\<lparr>tn_right := c, tn_height := 1\<rparr>"
  have "climbed (rebalance_insert j S) S (plug c (Bin l p 1 xs (Bin Tip j 0 [i] Tip)))"
    if j: "valid_oid j" "j \<notin> live_slots (slots s)"
      and S: "nodes S = (nodes s)(j \<mapsto> new_node j p RIGHT_CHILD i, p \<mapsto> ?link j nd)" "root S = root s" for j S
  proof -
    have off: "j \<noteq> p" "j \<notin> set (oids l)" "j \<notin> set (path_oids c)"
      using j(2) sub by (auto simp: oids_plug)
    have "node_at (nodes S) p (par c) (side c) (ptr l) 1 xs j"
      using nd S by (simp add: node_at_def node_is_def has_items_def)
    moreover have "tree_at (nodes S) p RIGHT_CHILD (Bin Tip j 0 [i] Tip)"
      by (rule new_node_is) (use S off j in simp_all)
    ultimately have "zip_at S (RightHole l p 1 xs # c) (Bin Tip j 0 [i] Tip)"
      using lt path dist off S by (auto simp: zip_at_def)
    moreover have "grown (Suc k) l (Bin Tip j 0 [i] Tip)" using l by (auto simp: grown_def Let_def max_def)
    ultimately show ?thesis using leaf_climb [of S _ c j i l p 1 xs] c l by simp
  qed
  then show ?thesis
    using make_child_gives [OF idx mem nd(2,3), of RIGHT_CHILD i ?link "\<lambda>j. plug c (Bin l p 1 xs (Bin Tip j 0 [i] Tip))"]
    by (simp add: TTree_MakeRightChild_def entries_plug oids_plug insert_commute)
qed

end
