(* ===== verification/TTreePlace.thy ===== *)
theory TTreePlace
  imports TTreeGrow
begin

section \<open>Where a record goes\<close>

text \<open>
  The comparison of the new record with the entries is an abstract profile: positive, then zero,
  then negative along the key order (\<open>descending\<close>).  The search in a node, the descent and the overflow of
  a full node put the record between the entries that are not greater and those that are not less.
\<close>

subsection \<open>The profile of a record\<close>

definition item_cmp :: "('r, 'k) index_env \<Rightarrow> ('r \<Rightarrow> int) \<Rightarrow> oid \<Rightarrow> int" where
  "item_cmp env cmp i = (case ie_point env i of None \<Rightarrow> DB_E_OIDPOINTER | Some r \<Rightarrow> cmp r)"

definition descending :: "(oid \<Rightarrow> int) \<Rightarrow> oid list \<Rightarrow> bool" where
  "descending f xs \<longleftrightarrow> sorted_wrt (\<lambda>x y. sgn (f y) \<le> sgn (f x)) xs"

lemma sgn_le:
  fixes a b :: int
  shows "sgn a \<le> sgn b \<longleftrightarrow> (0 \<le> a \<longrightarrow> 0 \<le> b) \<and> (0 < a \<longrightarrow> 0 < b)"
  by (auto simp: sgn_if)

lemma descending_append [simp]:
  "descending f (xs @ ys) \<longleftrightarrow> descending f xs \<and> descending f ys \<and> (\<forall>x \<in> set xs. \<forall>y \<in> set ys. sgn (f y) \<le> sgn (f x))"
  by (simp add: descending_def sorted_wrt_append)

lemma descending_nth: "descending f xs \<Longrightarrow> i \<le> j \<Longrightarrow> j < length xs \<Longrightarrow> sgn (f (xs ! j)) \<le> sgn (f (xs ! i))"
  unfolding descending_def by (cases "i = j") (auto simp: sorted_wrt_iff_nth_less)

lemma comp_item_at:
  assumes "has_items nd xs"
  shows "i < length xs \<Longrightarrow> comp_item env cmp nd (int i) = Some (item_cmp env cmp (xs ! i))"
    and "xs \<noteq> [] \<Longrightarrow> comp_item env cmp nd 0 = Some (item_cmp env cmp (hd xs))"
    and "xs \<noteq> [] \<Longrightarrow> comp_item env cmp nd (tn_count nd - 1) = Some (item_cmp env cmp (last xs))"
proof -
  have at: "comp_item env cmp nd (int i) = Some (item_cmp env cmp (xs ! i))" if "i < length xs" for i
    using get_item_eq [OF assms that] by (simp add: comp_item_def item_cmp_def)
  then show "i < length xs \<Longrightarrow> comp_item env cmp nd (int i) = Some (item_cmp env cmp (xs ! i))" .
  assume ne: "xs \<noteq> []"
  then show "comp_item env cmp nd 0 = Some (item_cmp env cmp (hd xs))" using at [of 0] by (simp add: hd_conv_nth)
  have "tn_count nd - 1 = int (length xs - 1)" using assms ne by (cases xs) (auto simp: has_items_def)
  then show "comp_item env cmp nd (tn_count nd - 1) = Some (item_cmp env cmp (last xs))"
    using at [of "length xs - 1"] ne by (simp add: last_conv_nth)
qed

subsection \<open>The search in a node\<close>

definition not_less_than :: "(oid \<Rightarrow> int) \<Rightarrow> oid list \<Rightarrow> nat" where
  \<comment> \<open>how many of the entries the record is not less than\<close>
  "not_less_than f xs = length (takeWhile (\<lambda>x. 0 \<le> f x) xs)"

lemma not_less_than_nth:
  assumes "descending f xs" and "i < length xs"
  shows "i < not_less_than f xs \<longleftrightarrow> 0 \<le> f (xs ! i)"
proof
  assume i: "i < not_less_than f xs"
  then have "takeWhile (\<lambda>x. 0 \<le> f x) xs ! i = xs ! i" by (simp add: not_less_than_def takeWhile_nth)
  moreover have "takeWhile (\<lambda>x. 0 \<le> f x) xs ! i \<in> set (takeWhile (\<lambda>x. 0 \<le> f x) xs)"
    using i by (simp add: not_less_than_def)
  ultimately show "0 \<le> f (xs ! i)" by (metis set_takeWhileD)
next
  assume le: "0 \<le> f (xs ! i)"
  have "\<not> not_less_than f xs \<le> i"
  proof
    assume "not_less_than f xs \<le> i"
    then have "not_less_than f xs < length xs" using assms(2) by simp
    then have "\<not> 0 \<le> f (xs ! not_less_than f xs)"
      unfolding not_less_than_def by (rule nth_length_takeWhile)
    with descending_nth [OF assms(1) \<open>not_less_than f xs \<le> i\<close> assms(2), unfolded sgn_le] le show False by blast
  qed
  then show "i < not_less_than f xs" by simp
qed

lemma not_less_than_le: "not_less_than f xs \<le> length xs"
  by (simp add: not_less_than_def length_takeWhile_le)

abbreviation rec_cmp :: "('r, 'k) index_env \<Rightarrow> 'r \<Rightarrow> oid \<Rightarrow> int" where
  "rec_cmp env rec \<equiv> item_cmp env (ie_compare env rec)"

declare insert_skip.simps [simp del] insert_scan.simps [simp del]

lemma insert_skip_ok:
  assumes items: "has_items nd xs" and desc: "descending (rec_cmp env rec) xs"
    and n: "int (not_less_than (rec_cmp env rec) xs) \<le> n + 1" "n < int (length xs)"
  shows "\<exists>m. insert_skip env rec nd n = Some m \<and> int (not_less_than (rec_cmp env rec) xs) \<le> m + 1 \<and> m \<le> n"
  using n
proof (induction "nat (n + 1)" arbitrary: n rule: less_induct)
  case less
  show ?case
  proof (cases "n - 19 < 0")
    case True
    with less(2) show ?thesis by (subst insert_skip.simps) (simp add: CHECK_RANGE_def)
  next
    case False
    define i where "i = nat (n - 19)"
    with False less(3) have i: "n - 19 = int i" "i < length xs" by auto
    have c: "TTreeNode_CompRecordWithItem env rec nd (n - (CHECK_RANGE - 1)) = Some (rec_cmp env rec (xs ! i))"
      using comp_item_at(1) [OF items i(2)] i(1) by (simp add: TTreeNode_CompRecordWithItem_def CHECK_RANGE_def)
    show ?thesis
    proof (cases "0 \<le> rec_cmp env rec (xs ! i)")
      case True
      with c less show ?thesis by (subst insert_skip.simps) (simp add: CHECK_RANGE_def)
    next
      case F: False
      then have "not_less_than (rec_cmp env rec) xs \<le> i" using not_less_than_nth [OF desc i(2)] by simp
      then have le: "int (not_less_than (rec_cmp env rec) xs) \<le> (n - 20) + 1" using i(1) by simp
      have "\<exists>m. insert_skip env rec nd (n - 20) = Some m \<and> int (not_less_than (rec_cmp env rec) xs) \<le> m + 1 \<and> m \<le> n - 20"
        by (rule less(1)) (use le False less(3) in auto)
      moreover have "insert_skip env rec nd n = insert_skip env rec nd (n - 20)"
        using c F False by (subst insert_skip.simps) (simp add: CHECK_RANGE_def)
      ultimately show ?thesis by auto
    qed
  qed
qed

lemma insert_scan_ok:
  assumes items: "has_items nd xs" and desc: "descending (rec_cmp env rec) xs"
    and n: "int (not_less_than (rec_cmp env rec) xs) \<le> n + 1" "n < int (length xs)"
  defines "m \<equiv> not_less_than (rec_cmp env rec) xs"
  shows "insert_scan env rec uniq nd n = Some (int m - 1, uniq \<and> 0 < m \<and> rec_cmp env rec (xs ! (m - 1)) = 0)"
  using n
proof (induction "nat (n + 1)" arbitrary: n rule: less_induct)
  case less
  show ?case
  proof (cases "n < 0")
    case True
    with less(2) show ?thesis by (subst insert_scan.simps) (simp add: m_def)
  next
    case False
    define i where "i = nat n"
    with False less(3) have i: "n = int i" "i < length xs" by auto
    have c: "TTreeNode_CompRecordWithItem env rec nd n = Some (rec_cmp env rec (xs ! i))"
      using comp_item_at(1) [OF items i(2)] i(1) by (simp add: TTreeNode_CompRecordWithItem_def)
    show ?thesis
    proof (cases "0 \<le> rec_cmp env rec (xs ! i)")
      case True
      then have "m = Suc i" using not_less_than_nth [OF desc i(2)] less(2) i(1) by (simp add: m_def)
      with c i True False show ?thesis by (subst insert_scan.simps) auto
    next
      case F: False
      then have "m \<le> i" using not_less_than_nth [OF desc i(2)] by (simp add: m_def)
      then have "insert_scan env rec uniq nd (n - 1) = Some (int m - 1, uniq \<and> 0 < m \<and> rec_cmp env rec (xs ! (m - 1)) = 0)"
        using less(3) i False by (intro less(1)) (auto simp: m_def)
      with c F False show ?thesis by (subst insert_scan.simps) simp
    qed
  qed
qed

subsection \<open>Outcomes\<close>

definition missing_one :: "oid list \<Rightarrow> oid list \<Rightarrow> bool" where
  "missing_one xs ys \<longleftrightarrow> (\<exists>us x vs. xs = us @ x # vs \<and> ys = us @ vs)"

lemma missing_oneI: "missing_one (us @ x # vs) (us @ vs)"
  unfolding missing_one_def by blast

definition placed :: "(int \<times> ttree) option \<Rightarrow> ttree \<Rightarrow> tt \<Rightarrow> (oid \<Rightarrow> int) \<Rightarrow> oid \<Rightarrow> bool" where
  \<comment> \<open>the id \<open>i\<close> got its place; if there was no slot, one of the entries is missing\<close>
  "placed res s t f i \<longleftrightarrow>
     (\<exists>us vs fs. entries t = us @ vs \<and> (\<forall>x \<in> set us. 0 \<le> f x) \<and> (\<forall>x \<in> set vs. f x \<le> 0) \<and>
        missing_one (us @ i # vs) fs \<and> gives res s t (us @ i # vs) fs)"

lemma gives_after:
  assumes "gives res s1 t1 es fs" and "keeps_others s t s1 t1" and "slots s1 = slots s" and "mem_ok s1 = mem_ok s"
  shows "gives res s t es fs"
proof -
  from assms(1) obtain ret s' t' where "res = Some (ret, s')" "index_ok s' t'" "keeps_others s1 t1 s' t'" "mem_ok s' = mem_ok s1"
    "ret = DB_SUCCESS \<and> entries t' = es \<or> refused s1 ret \<and> entries t' = fs"
    by (auto simp: gives_def)
  with assms(3,4) keeps_others_trans [OF assms(2)] show ?thesis
    unfolding gives_def refused_def by (intro exI [of _ ret] exI [of _ s'] exI [of _ t']) auto
qed

lemma gives_success:
  assumes "index_ok s' t'" and "keeps_others s t s' t'" and "mem_ok s' = mem_ok s" and "entries t' = es"
  shows "gives (Some (DB_SUCCESS, s')) s t es fs"
  using assms by (auto simp: gives_def)

lemma insert_key_gives:
  assumes idx: "index_ok s (plug c (Bin l p k (xs @ ys) r))" and len: "length (xs @ ys) < max_items"
  shows "gives (insert_key p (int (length xs)) i s) s (plug c (Bin l p k (xs @ ys) r))
    (before c @ entries l @ xs @ i # ys @ entries r @ after c) fs"
proof -
  from idx have zip: "zip_at s c (Bin l p k (xs @ ys) r)" and ne: "xs @ ys \<noteq> []" by (simp_all add: index_ok_zip no_empty_plug)
  obtain h where h: "insert_key p (int (length xs)) i s = Some (DB_SUCCESS, s\<lparr>nodes := h\<rparr>)"
    "zip_at (s\<lparr>nodes := h\<rparr>) c (Bin l p k (xs @ i # ys) r)" "\<And>q. q \<noteq> p \<Longrightarrow> h q = nodes s q"
    by (rule insert_key_run [OF zip len, of i]) blast
  note idx' = index_ok_items [OF idx h(2) _ h(3), simplified]
  show ?thesis unfolding h(1) by (rule gives_success [OF idx']) (simp_all add: entries_plug)
qed

subsection \<open>The greatest item of a subtree\<close>

lemma go_right_ok:
  assumes "zip_at s c t" and "t \<noteq> Tip"
  shows "\<exists>c' l p k xs. go_right (ptr t) s = Some p \<and> zip_at s c' (Bin l p k xs Tip) \<and>
    plug c' (Bin l p k xs Tip) = plug c t \<and> before c' @ entries l @ xs = before c @ entries t \<and> after c' = after c"
  using assms
proof (induction t arbitrary: c)
  case Tip
  then show ?case by simp
next
  case (Bin l p k xs r)
  from Bin(3) have a: "node_at (nodes s) p (par c) (side c) (ptr l) k xs (ptr r)" and rt: "tree_at (nodes s) p RIGHT_CHILD r"
    by (simp_all add: zip_at_def)
  obtain nd where nd: "deref p s = Some nd" "tn_right nd = ptr r" by (rule node_at_deref [OF a])
  show ?case
  proof (cases "r = Tip")
    case True
    with nd Bin(3) show ?thesis
      by (intro exI [of _ c] exI [of _ l] exI [of _ p] exI [of _ k] exI [of _ xs]) (simp add: go_right.simps NULL_OID_def)
  next
    case False
    with rt have "ptr r \<noteq> 0" using ptr_null by blast
    with nd have "go_right p s = go_right (ptr r) s" by (simp add: go_right.simps [of p] NULL_OID_def ptr_point [OF rt])
    moreover have "zip_at s (RightHole l p k xs # c) r" using Bin(3) by (simp add: zip_at_fill)
    ultimately show ?thesis using Bin(2) [of "RightHole l p k xs # c"] False by simp
  qed
qed

lemma GlbChild_ok:
  assumes zip: "zip_at s c (Bin l p k xs r)" and ne: "l \<noteq> Tip"
  obtains c' l' g k' ys where "TTree_GlbChild p s = Some g" "zip_at s c' (Bin l' g k' ys Tip)"
    "plug c' (Bin l' g k' ys Tip) = plug c (Bin l p k xs r)" "before c' @ entries l' @ ys = before c @ entries l"
    "after c' = xs @ entries r @ after c"
proof -
  have z: "zip_at s (LeftHole p k xs r # c) l" using zip by (simp add: zip_at_fill)
  from zip have a: "node_at (nodes s) p (par c) (side c) (ptr l) k xs (ptr r)" and lt: "tree_at (nodes s) p LEFT_CHILD l"
    by (simp_all add: zip_at_def)
  obtain nd where "deref p s = Some nd" "tn_left nd = ptr l" by (rule node_at_deref [OF a])
  moreover from lt ne have "ptr l \<noteq> 0" using ptr_null by blast
  ultimately have "TTree_GlbChild p s = go_right (ptr l) s"
    by (simp add: TTree_GlbChild_def NULL_OID_def ptr_point [OF lt])
  with go_right_ok [OF z ne] that show ?thesis by auto
qed

subsection \<open>A full node\<close>

lemma overflow_gives:
  assumes idx: "index_ok s (plug c (Bin l p k (x # us @ vs) r))" and full: "length (x # us @ vs) = max_items"
    and mem: "\<And>n. mem_ok s n"
  shows "gives (insert_overflow p (int (length us)) i s) s (plug c (Bin l p k (x # us @ vs) r))
    (before c @ entries l @ x # us @ i # vs @ entries r @ after c) (before c @ entries l @ us @ i # vs @ entries r @ after c)"
proof -
  from idx have zip: "zip_at s c (Bin l p k (x # us @ vs) r)" by (simp add: index_ok_zip)
  then have a: "node_at (nodes s) p (par c) (side c) (ptr l) k (x # us @ vs) (ptr r)"
    and lt: "tree_at (nodes s) p LEFT_CHILD l" by (simp_all add: zip_at_def)
  obtain nd where nd: "nodes s p = Some nd" "deref p s = Some nd" "has_items nd (x # us @ vs)" "tn_left nd = ptr l"
    by (rule node_at_deref [OF a]) blast
  have x: "get_item (tn_item nd) 0 = Some x" using get_item_eq [OF nd(3), of 0] by simp
  from InsertKey_DeleteFirst_items [OF nd(3), of i] obtain nd' where nd':
    "TTreeNode_InsertKey_DeleteFirst nd (int (length us)) i = Some nd'" "has_items nd' (us @ i # vs)" "keeps_links nd nd'" by blast
  define s1 where "s1 = s\<lparr>nodes := (nodes s)(p \<mapsto> nd')\<rparr>"
  have zip1: "zip_at s1 c (Bin l p k (us @ i # vs) r)" unfolding s1_def by (rule set_items [OF zip nd(1) nd'(2,3)])
  have idx1: "index_ok s1 (plug c (Bin l p k (us @ i # vs) r))"
    and keep1: "keeps_others s (plug c (Bin l p k (x # us @ vs) r)) s1 (plug c (Bin l p k (us @ i # vs) r))"
    using index_ok_items [OF idx, of "(nodes s)(p \<mapsto> nd')" "us @ i # vs"] zip1 by (simp_all add: s1_def)
  have same: "slots s1 = slots s" "mem_ok s1 = mem_ok s" and mem1: "\<And>n. mem_ok s1 n" using mem by (simp_all add: s1_def)
  note after = gives_after [OF _ keep1 same]
  show ?thesis
  proof (cases "l = Tip")
    case True
    then have "insert_overflow p (int (length us)) i s = TTree_MakeLeftChild p x s1"
      using nd x nd'(1) by (simp add: insert_overflow_def set_node_def s1_def NULL_OID_def)
    with after [OF MakeLeftChild_gives [OF idx1 [unfolded True] mem1, of x, folded True]] True show ?thesis by simp
  next
    case False
    with lt have "ptr l \<noteq> 0" using ptr_null by blast
    obtain c' l' g k' ys where g: "TTree_GlbChild p s1 = Some g" "zip_at s1 c' (Bin l' g k' ys Tip)"
      "plug c' (Bin l' g k' ys Tip) = plug c (Bin l p k (us @ i # vs) r)" "before c' @ entries l' @ ys = before c @ entries l"
      "after c' = (us @ i # vs) @ entries r @ after c"
      by (rule GlbChild_ok [OF zip1 False])
    then have ga: "node_at (nodes s1) g (par c') (side c') (ptr l') k' ys 0" by (simp add: zip_at_def)
    obtain gn where gn: "deref g s1 = Some gn" "has_items gn ys" by (rule node_at_deref [OF ga])
    have run: "insert_overflow p (int (length us)) i s =
        (if length ys < max_items then insert_key g (int (length ys)) x s1 else TTree_MakeRightChild g x s1)"
      using nd x nd'(1) g(1) gn \<open>ptr l \<noteq> 0\<close>
      by (simp add: insert_overflow_def set_node_def s1_def NULL_OID_def has_items_def TNODE_MAX_ITEM_def)
    have "before c' @ entries l' @ ys @ zs = before c @ entries l @ zs" for zs
      using arg_cong [OF g(4), of "\<lambda>u. u @ zs"] by simp
    note lists = this g(5)
    note idx2 = idx1 [folded g(3)]
    show ?thesis
    proof (cases "length ys < max_items")
      case True
      with after [folded g(3), OF insert_key_gives [where ys = "[]" and i = x, simplified, OF idx2]] run lists
      show ?thesis by simp
    next
      case False
      with after [folded g(3), OF MakeRightChild_gives [OF idx2 mem1, of x]] run lists show ?thesis by simp
    qed
  qed
qed

end
