(* ===== verification/TTreeAdd.thy ===== *)
theory TTreeAdd
  imports TTreePlace
begin

section \<open>The insertion of a record\<close>

text \<open>
  The descent ends in the node that bounds the record, or at the edge of the tree.  Along the
  key order the record compares positive, zero, negative with the entries, so the branch of the descent decides
  where it goes among all entries, and a duplicate is in the bounding node if there is one.
\<close>

definition settled :: "(int \<times> ttree) option \<Rightarrow> ttree \<Rightarrow> tt \<Rightarrow> (oid \<Rightarrow> int) \<Rightarrow> oid \<Rightarrow> bool \<Rightarrow> bool" where
  \<comment> \<open>a duplicate is refused, everything else gets its place\<close>
  "settled res s t f i uniq \<longleftrightarrow>
     (if uniq \<and> (\<exists>x \<in> set (entries t). f x = 0) then res = Some (DB_E_DUPUNIQUEKEY, s) else placed res s t f i)"

lemma placedI:
  assumes "gives res s t (us @ i # vs) fs" and "entries t = us @ vs" and "missing_one (us @ i # vs) fs"
    and "\<And>x. x \<in> set us \<Longrightarrow> 0 \<le> f x" and "\<And>x. x \<in> set vs \<Longrightarrow> f x \<le> 0"
  shows "placed res s t f i"
  unfolding placed_def using assms by (intro exI [of _ us] exI [of _ vs] exI [of _ fs]) simp

lemma descending_split:
  assumes "descending f (us @ x # vs)"
  shows "0 \<le> f x \<Longrightarrow> u \<in> set us \<Longrightarrow> 0 \<le> f u" "0 < f x \<Longrightarrow> u \<in> set us \<Longrightarrow> 0 < f u"
    "f x \<le> 0 \<Longrightarrow> v \<in> set vs \<Longrightarrow> f v \<le> 0" "f x < 0 \<Longrightarrow> v \<in> set vs \<Longrightarrow> f v < 0"
proof -
  from assms have all: "\<forall>u \<in> set us. sgn (f x) \<le> sgn (f u)" "\<forall>v \<in> set vs. sgn (f v) \<le> sgn (f x)"
    by (auto simp: descending_def sorted_wrt_append)
  then show "0 \<le> f x \<Longrightarrow> u \<in> set us \<Longrightarrow> 0 \<le> f u" "0 < f x \<Longrightarrow> u \<in> set us \<Longrightarrow> 0 < f u"
    unfolding sgn_le by blast+
  show "f x \<le> 0 \<Longrightarrow> v \<in> set vs \<Longrightarrow> f v \<le> 0" "f x < 0 \<Longrightarrow> v \<in> set vs \<Longrightarrow> f v < 0"
    using all(2) unfolding sgn_le by force+
qed

lemma take_not_less:
  assumes "descending f xs"
  shows "x \<in> set (take (not_less_than f xs) xs) \<Longrightarrow> 0 \<le> f x" "x \<in> set (drop (not_less_than f xs) xs) \<Longrightarrow> f x < 0"
proof -
  assume "x \<in> set (take (not_less_than f xs) xs)"
  then obtain i where "i < not_less_than f xs" "i < length xs" "x = xs ! i" by (auto simp: in_set_conv_nth)
  then show "0 \<le> f x" using not_less_than_nth [OF assms] by simp
next
  assume "x \<in> set (drop (not_less_than f xs) xs)"
  then obtain i where i: "i < length xs - not_less_than f xs" "x = xs ! (not_less_than f xs + i)"
    by (auto simp: in_set_conv_nth)
  then have "not_less_than f xs + i < length xs" by simp
  with i(2) show "f x < 0" using not_less_than_nth [OF assms, of "not_less_than f xs + i"] by simp
qed

subsection \<open>The bounding node\<close>

lemma bounded_settles:
  assumes idx: "index_ok s (plug c (Bin l p k xs r))" and mem: "\<And>n. mem_ok s n"
    and desc: "descending (rec_cmp env rec) (entries (plug c (Bin l p k xs r)))"
    and bound: "0 \<le> rec_cmp env rec (hd xs)" "rec_cmp env rec (last xs) \<le> 0"
  shows "settled (insert_bounded env rec i uniq p s) s (plug c (Bin l p k xs r)) (rec_cmp env rec) i uniq"
proof -
  let ?t = "plug c (Bin l p k xs r)" and ?f = "rec_cmp env rec"
  define m where "m = not_less_than ?f xs"
  from idx have zip: "zip_at s c (Bin l p k xs r)" and ne: "xs \<noteq> []" by (simp_all add: index_ok_zip no_empty_plug)
  then have a: "node_at (nodes s) p (par c) (side c) (ptr l) k xs (ptr r)" by (simp add: zip_at_def)
  obtain nd where nd: "deref p s = Some nd" "has_items nd xs" by (rule node_at_deref [OF a]) blast
  have count: "tn_count nd = int (length xs)" using nd(2) by (simp add: has_items_def)
  have dx: "descending ?f xs" using desc by (simp add: entries_plug)
  have m: "m \<le> length xs" "0 < m" 
    using not_less_than_le [of ?f xs] not_less_than_nth [OF dx, of 0] bound(1) ne by (simp_all add: m_def hd_conv_nth)
  obtain n where n: "insert_skip env rec nd (tn_count nd - 1) = Some n" "int m \<le> n + 1" "n < int (length xs)"
    using insert_skip_ok [OF nd(2) dx, of "tn_count nd - 1"] m count by (auto simp: m_def)
  have scan: "insert_scan env rec uniq nd n = Some (int m - 1, uniq \<and> ?f (xs ! (m - 1)) = 0)"
    using insert_scan_ok [OF nd(2) dx, of n uniq] n m(2) by (simp add: m_def)
  have xs: "xs = take m xs @ drop m xs" by simp
  then have xs_app: "xs @ zs = take m xs @ drop m xs @ zs" for zs by (metis append.assoc)
  have left: "0 \<le> ?f x" if "x \<in> set (before c @ entries l @ take m xs)" for x
  proof -
    have "entries ?t = (before c @ entries l) @ hd xs # tl xs @ entries r @ after c"
      using ne by (simp add: entries_plug)
    from descending_split(1) [OF desc [unfolded this] bound(1)] that take_not_less(1) [OF dx] show ?thesis by (auto simp: m_def)
  qed
  have right: "?f x \<le> 0" if "x \<in> set (drop m xs @ entries r @ after c)" for x
  proof -
    have "entries ?t = (before c @ entries l @ butlast xs) @ last xs # entries r @ after c"
      using ne by (simp add: entries_plug)
    from descending_split(3) [OF desc [unfolded this] bound(2)] that take_not_less(2) [OF dx, of x] show ?thesis
      by (auto simp: m_def dest: less_imp_le)
  qed
  show ?thesis
  proof (cases "uniq \<and> ?f (xs ! (m - 1)) = 0")
    case True
    then have "xs ! (m - 1) \<in> set (entries ?t)" using m by (simp add: entries_plug)
    with True n(1) scan nd show ?thesis
      by (auto simp: settled_def insert_bounded_def)
  next
    case False
    have no_dup: "\<not> (uniq \<and> (\<exists>x \<in> set (entries ?t). ?f x = 0))"
    proof
      assume dup: "uniq \<and> (\<exists>x \<in> set (entries ?t). ?f x = 0)"
      have "0 \<le> ?f (xs ! (m - 1))"
        using not_less_than_nth [OF dx, of "m - 1", folded m_def] m by linarith
      with dup False have pos: "0 < ?f (xs ! (m - 1))" by auto
      have "xs ! (m - 1) \<noteq> last xs" using pos bound(2) by auto
      then have less: "m < length xs" using m ne by (metis One_nat_def last_conv_nth le_neq_implies_less)
      then have neg: "?f (xs ! m) < 0" using not_less_than_nth [OF dx less] by (simp add: m_def)
      have "xs = take (m - 1) xs @ xs ! (m - 1) # xs ! m # drop (Suc m) xs"
        using id_take_nth_drop [of "m - 1" xs] Cons_nth_drop_Suc [OF less] less m(2) by simp
      then have split: "entries ?t = (before c @ entries l @ take (m - 1) xs) @ xs ! (m - 1) #
          xs ! m # drop (Suc m) xs @ entries r @ after c"
        "entries ?t = (before c @ entries l @ take (m - 1) xs @ [xs ! (m - 1)]) @ xs ! m #
          drop (Suc m) xs @ entries r @ after c"
        by (simp_all add: entries_plug) 
      from dup obtain x where "x \<in> set (entries ?t)" "?f x = 0" by blast
      with descending_split(2) [OF desc [unfolded split(1)] pos, of x]
        descending_split(4) [OF desc [unfolded split(2)] neg, of x] pos neg split(1)
      show False by auto
    qed
    let ?s = "s\<lparr>modified_time := modified_time s + 1\<rparr>"
    have run: "insert_bounded env rec i uniq p s =
        (if length xs < max_items then insert_key p (int m) i ?s else insert_overflow p (int m - 1) i ?s)"
      using n(1) scan nd False count by (auto simp: insert_bounded_def TNODE_MAX_ITEM_def)
    have idx1: "index_ok ?s ?t" and keep1: "keeps_others s ?t ?s ?t"
      using idx keeps_others_refl [OF idx] by (simp_all add: index_ok_def zip_at_def keeps_others_def)
    have mem1: "\<And>n. mem_ok ?s n" using mem by simp
    have "placed (insert_bounded env rec i uniq p s) s ?t ?f i"
    proof (cases "length xs < max_items")
      case True
      have "gives (insert_key p (int m) i ?s) ?s ?t
          (before c @ entries l @ take m xs @ i # drop m xs @ entries r @ after c) (entries ?t)"
        using insert_key_gives [of ?s c l p k "take m xs" "drop m xs" r i "entries ?t"] idx1 True m by (simp add: min_absorb2)
      then have "gives (insert_bounded env rec i uniq p s) s ?t
          ((before c @ entries l @ take m xs) @ i # drop m xs @ entries r @ after c) (entries ?t)"
        using gives_after [OF _ keep1] run True by simp
      then show ?thesis
        by (rule placedI) (use left right missing_oneI [of "before c @ entries l @ take m xs" i "drop m xs @ entries r @ after c"]
            in \<open>simp_all add: entries_plug xs_app\<close>)
    next
      case full: False
      obtain x us where us: "take m xs = x # us" using m ne by (cases xs; cases m) auto
      then have len: "length us = m - 1" using m by (metis diff_Suc_1 length_Cons length_take min.absorb2)
      have xs': "xs = x # us @ drop m xs" using us xs by (metis append_Cons)
      have "length xs = max_items" using full has_items_length [OF nd(2)] by simp
      then have "length (x # us @ drop m xs) = max_items" using xs' by simp
      from overflow_gives [OF _ this, of ?s c l p k r i] idx1 mem1 xs'
      have "gives (insert_overflow p (int (length us)) i ?s) ?s ?t
          (before c @ entries l @ x # us @ i # drop m xs @ entries r @ after c)
          (before c @ entries l @ us @ i # drop m xs @ entries r @ after c)" by simp
      then have "gives (insert_bounded env rec i uniq p s) s ?t
          ((before c @ entries l @ take m xs) @ i # drop m xs @ entries r @ after c)
          (before c @ entries l @ us @ i # drop m xs @ entries r @ after c)"
        using gives_after [OF _ keep1] run full len m us by (simp add: of_nat_diff)
      then show ?thesis
        by (rule placedI) (use left right us missing_oneI [of "before c @ entries l" x "us @ i # drop m xs @ entries r @ after c"]
            in \<open>simp_all add: entries_plug xs_app\<close>)
    qed
    then show ?thesis unfolding settled_def if_not_P [OF no_dup] .
  qed
qed

subsection \<open>The descent\<close>

lemma insert_loop_settles:
  assumes "index_ok s (plug c t)" and "t \<noteq> Tip" and mem: "\<And>n. mem_ok s n"
    and "descending (rec_cmp env rec) (entries (plug c t))"
    and "\<And>x. x \<in> set (before c) \<Longrightarrow> 0 < rec_cmp env rec x" "\<And>x. x \<in> set (after c) \<Longrightarrow> rec_cmp env rec x < 0"
  shows "settled (insert_loop env rec i uniq (ptr t) s) s (plug c t) (rec_cmp env rec) i uniq"
  using assms(1,2,4-)
proof (induction t arbitrary: c)
  case Tip
  then show ?case by simp
next
  case (Bin l p k xs r)
  let ?t = "plug c (Bin l p k xs r)" and ?f = "rec_cmp env rec"
  from Bin(3) have zip: "zip_at s c (Bin l p k xs r)" and ne: "xs \<noteq> []" by (simp_all add: index_ok_zip no_empty_plug)
  then have a: "node_at (nodes s) p (par c) (side c) (ptr l) k xs (ptr r)" 
    and lt: "tree_at (nodes s) p LEFT_CHILD l" and rt: "tree_at (nodes s) p RIGHT_CHILD r" by (simp_all add: zip_at_def)
  obtain nd where nd: "deref p s = Some nd" "has_items nd xs" "tn_left nd = ptr l" "tn_right nd = ptr r"
    by (rule node_at_deref [OF a]) blast
  have count: "tn_count nd = int (length xs)" using nd(2) by (simp add: has_items_def)
  have cmps: "TTreeNode_CompRecordWithMinimum env rec nd = Some (?f (hd xs))"
    "TTreeNode_CompRecordWithMaximum env rec nd = Some (?f (last xs))"
    using comp_item_at(2,3) [OF nd(2) ne]
    by (simp_all add: TTreeNode_CompRecordWithMinimum_def TTreeNode_CompRecordWithMaximum_def)
  have ents: "entries ?t = (before c @ entries l) @ hd xs # tl xs @ entries r @ after c"
    "entries ?t = (before c @ entries l @ butlast xs) @ last xs # entries r @ after c"
    using ne by (simp_all add: entries_plug)
  note sides = descending_split [OF Bin(5) [unfolded ents(1)]] descending_split [OF Bin(5) [unfolded ents(2)]]
  have in_xs: "x = hd xs \<or> x \<in> set (tl xs)" "x \<in> set (butlast xs) \<or> x = last xs" if "x \<in> set xs" for x
    using that ne by (metis list.collapse set_ConsD, metis append_butlast_last_id in_set_conv_decomp rotate1.simps(2) set_ConsD set_rotate1)
  show ?case
  proof (cases "?f (hd xs) < 0")
    case less: True
    have neg: "?f x < 0" if "x \<in> set (xs @ entries r @ after c)" for x
      using sides(4) [OF less, of x] less in_xs(1) [of x] that by auto
    show ?thesis
    proof (cases "l = Tip")
      case False
      with lt have "ptr l \<noteq> 0" using ptr_null by blast
      then have "insert_loop env rec i uniq p s = insert_loop env rec i uniq (ptr l) s"
        using nd cmps less by (subst insert_loop.simps) (simp add: NULL_OID_def ptr_point [OF lt])
      moreover have "settled (insert_loop env rec i uniq (ptr l) s) s (plug (LeftHole p k xs r # c) l) ?f i uniq"
        by (rule Bin(1)) (use Bin(3,5,6) False neg in auto)
      ultimately show ?thesis by simp
    next
      case True
      have ent: "entries ?t = before c @ xs @ entries r @ after c" by (simp add: True entries_plug)
      have no_dup: "?f x \<noteq> 0" if "x \<in> set (entries ?t)" for x
        using that neg [of x] Bin(6) [of x] by (auto simp: ent)
      have run: "insert_loop env rec i uniq p s =
          (if length xs < max_items then insert_key p 0 i s else TTree_MakeLeftChild p i s)"
        using nd cmps less True count by (subst insert_loop.simps) (simp add: NULL_OID_def TNODE_MAX_ITEM_def)
      have "gives (insert_loop env rec i uniq p s) s ?t (before c @ i # xs @ entries r @ after c) (entries ?t)"
        unfolding run using MakeLeftChild_gives [OF Bin(3) [unfolded True] mem, of i]
          insert_key_gives [of s c l p k "[]" xs r i "entries ?t"] Bin(3) True by (simp add: entries_plug)
      then have "placed (insert_loop env rec i uniq p s) s ?t ?f i"
        by (rule placedI) (use neg Bin(6) missing_oneI in \<open>auto simp: ent dest: less_imp_le\<close>)
      with no_dup show ?thesis by (auto simp: settled_def)
    qed
  next
    case ge: False
    show ?thesis
    proof (cases "0 < ?f (last xs)")
      case greater: True
      have pos: "0 < ?f x" if "x \<in> set (before c @ entries l @ xs)" for x
        using sides(6) [OF greater, of x] greater in_xs(2) [of x] that by auto
      show ?thesis
      proof (cases "r = Tip")
        case False
        with rt have "ptr r \<noteq> 0" using ptr_null by blast
        then have "insert_loop env rec i uniq p s = insert_loop env rec i uniq (ptr r) s"
          using nd cmps ge greater by (subst insert_loop.simps) (simp add: NULL_OID_def ptr_point [OF rt])
        moreover have "settled (insert_loop env rec i uniq (ptr r) s) s (plug (RightHole l p k xs # c) r) ?f i uniq"
          by (rule Bin(2)) (use Bin(3,5,7) False pos in auto)
        ultimately show ?thesis by simp
      next
        case True
        have ent: "entries ?t = before c @ entries l @ xs @ after c" by (simp add: True entries_plug)
        have no_dup: "?f x \<noteq> 0" if "x \<in> set (entries ?t)" for x
          using that pos [of x] Bin(7) [of x] by (auto simp: ent)
        have run: "insert_loop env rec i uniq p s =
            (if length xs < max_items then insert_key p (int (length xs)) i s else TTree_MakeRightChild p i s)"
          using nd cmps ge greater True count by (subst insert_loop.simps) (simp add: NULL_OID_def TNODE_MAX_ITEM_def)
        have "gives (insert_loop env rec i uniq p s) s ?t ((before c @ entries l @ xs) @ i # after c) (entries ?t)"
          unfolding run using MakeRightChild_gives [OF Bin(3) [unfolded True] mem, of i]
            insert_key_gives [of s c l p k xs "[]" r i "entries ?t"] Bin(3) True by (simp add: entries_plug)
        then have "placed (insert_loop env rec i uniq p s) s ?t ?f i"
          by (rule placedI) (use pos Bin(7) missing_oneI [of "before c @ entries l @ xs" i "after c"]
              in \<open>auto simp: ent dest: less_imp_le\<close>)
        with no_dup show ?thesis by (auto simp: settled_def)
      qed
    next
      case False
      then have "insert_loop env rec i uniq p s = insert_bounded env rec i uniq p s"
        using nd cmps ge by (subst insert_loop.simps) simp
      then show ?thesis using bounded_settles [OF Bin(3) mem Bin(5)] ge False by simp
    qed
  qed
qed

end
