(* ===== verification/TTreeIndex.thy ===== *)
theory TTreeIndex
  imports TTreeAdd Comparison "HOL-Library.Multiset"
begin

section \<open>An index as a sorted list of record ids\<close>

text \<open>
  \<open>index_of s es\<close> relates the state of a T-tree to the list of its record ids in key order, which
  is all that its clients see.  The order of records is an interface: a \<open>comparison\<close> on the records of
  the table.  Then an insertion is an insertion into a sorted list.
\<close>

subsection \<open>Sorted record ids\<close>

definition sorted_index :: "('r, 'k) index_env \<Rightarrow> 'r set \<Rightarrow> oid list \<Rightarrow> bool" where
  \<comment> \<open>the records are there and in key order\<close>
  "sorted_index env R es \<longleftrightarrow> (\<forall>i \<in> set es. \<exists>r \<in> R. ie_point env i = Some r) \<and>
     sorted_wrt (\<lambda>i j. ie_compare env (the (ie_point env i)) (the (ie_point env j)) \<le> 0) es"

lemma sorted_index_append:
  "sorted_index env R (us @ vs) \<longleftrightarrow> sorted_index env R us \<and> sorted_index env R vs \<and>
     (\<forall>i \<in> set us. \<forall>j \<in> set vs. ie_compare env (the (ie_point env i)) (the (ie_point env j)) \<le> 0)"
  by (auto simp: sorted_index_def sorted_wrt_append)

lemma sorted_index_Cons:
  "sorted_index env R (i # vs) \<longleftrightarrow> (\<exists>r \<in> R. ie_point env i = Some r) \<and> sorted_index env R vs \<and>
     (\<forall>j \<in> set vs. ie_compare env (the (ie_point env i)) (the (ie_point env j)) \<le> 0)"
  by (auto simp: sorted_index_def)

lemma sorted_index_missing: "sorted_index env R xs \<Longrightarrow> missing_one xs ys \<Longrightarrow> sorted_index env R ys"
  by (auto simp: missing_one_def sorted_index_append sorted_index_Cons)

lemma sorted_index_descending:
  assumes ord: "comparison (ie_compare env) R" and es: "sorted_index env R es" and rec: "rec \<in> R"
  shows "descending (rec_cmp env rec) es"
  unfolding descending_def
proof (rule sorted_wrt_mono_rel)
  show "sorted_wrt (\<lambda>i j. ie_compare env (the (ie_point env i)) (the (ie_point env j)) \<le> 0) es"
    using es by (simp add: sorted_index_def)
next
  fix i j
  assume "i \<in> set es" "j \<in> set es" and le: "ie_compare env (the (ie_point env i)) (the (ie_point env j)) \<le> 0"
  with es obtain a b where "a \<in> R" "b \<in> R" "ie_point env i = Some a" "ie_point env j = Some b"
    unfolding sorted_index_def by blast
  with comparison.profile [OF ord rec, of a b] le show "sgn (rec_cmp env rec j) \<le> sgn (rec_cmp env rec i)"
    by (simp add: item_cmp_def)
qed

lemma sorted_index_insert:
  assumes ord: "comparison (ie_compare env) R" and es: "sorted_index env R (us @ vs)"
    and i: "ie_point env i = Some rec" "rec \<in> R"
    and pos: "\<forall>x \<in> set us. 0 \<le> rec_cmp env rec x" "\<forall>x \<in> set vs. rec_cmp env rec x \<le> 0"
  shows "sorted_index env R (us @ i # vs)"
proof -
  have "ie_compare env (the (ie_point env u)) rec \<le> 0" if "u \<in> set us" for u
  proof -
    from es that obtain a where "a \<in> R" "ie_point env u = Some a" by (auto simp: sorted_index_append sorted_index_def)
    with pos that comparison.turn [OF ord i(2), of a] show ?thesis by (auto simp: item_cmp_def)
  qed
  moreover have "ie_compare env rec (the (ie_point env v)) \<le> 0" if "v \<in> set vs" for v
  proof -
    from es that obtain a where "a \<in> R" "ie_point env v = Some a" by (auto simp: sorted_index_append sorted_index_def)
    with pos that show ?thesis by (auto simp: item_cmp_def)
  qed
  ultimately show ?thesis using es i by (auto simp: sorted_index_append sorted_index_Cons)
qed

subsection \<open>The list of an index\<close>

definition index_of :: "ttree \<Rightarrow> oid list \<Rightarrow> bool" where
  "index_of s es \<longleftrightarrow> (\<exists>t. index_ok s t \<and> entries t = es)"

lemma index_root: "index_ok s t \<Longrightarrow> root s = ptr t"
  by (auto simp: index_ok_def zip_at_def)

lemma index_root_point: "index_ok s t \<Longrightarrow> Index_OID_Point (root s) = ptr t"
  using index_root [of s t] ptr_point [of "nodes s" "par []" "side []" t]
  by (simp add: index_ok_def zip_at_def)

lemma index_root_null: "index_ok s t \<Longrightarrow> root s = 0 \<longleftrightarrow> t = Tip"
  using index_root [of s t] ptr_null [of "nodes s" "par []" "side []" t] by (simp add: index_ok_def zip_at_def)

lemma insert_first_gives:
  assumes idx: "index_ok s Tip" and mem: "\<And>n. mem_ok s n"
  shows "gives (insert_first i s) s Tip [i] []"
proof -
  from idx have ok: "slots_ok (slots s)" by (simp add: index_ok_def)
  from ok show ?thesis
  proof (cases rule: islots.alloc_cases)
    case (failed r j sl)
    then have "index_ok (s\<lparr>slots := sl\<rparr>) Tip" "keeps_others s Tip (s\<lparr>slots := sl\<rparr>) Tip" "refused s r"
      using idx by (auto simp: index_ok_def zip_at_def keeps_others_def refused_def)
    with failed show ?thesis unfolding gives_def
      by (intro exI [of _ r] exI [of _ "s\<lparr>slots := sl\<rparr>"] exI [of _ Tip]) (simp add: insert_first_def)
  next
    case (got j sl)
    define S where "S = s\<lparr>slots := sl, root := j, tt_item_count := tt_item_count s + 1, mem_calls := mem_calls s + 1,
      nodes := (nodes s)(j \<mapsto> new_node j NULL_OID ROOT_NODE i)\<rparr>"
    have "tree_at (nodes S) NULL_OID ROOT_NODE (Bin Tip j 0 [i] Tip)"
      using got by (intro new_node_is) (simp_all add: valid_oid_def S_def)
    then have "index_ok S (Bin Tip j 0 [i] Tip)"
      using got idx by (simp add: index_ok_def zip_at_def S_def)
    moreover have "keeps_others s Tip S (Bin Tip j 0 [i] Tip)" using got by (auto simp: keeps_others_def S_def)
    moreover have "insert_first i s = Some (DB_SUCCESS, S)"
      using got mem by (simp add: insert_first_def Create_run S_def Let_def DB_SUCCESS_def)
    ultimately show ?thesis unfolding gives_def
      by (intro exI [of _ DB_SUCCESS] exI [of _ S] exI [of _ "Bin Tip j 0 [i] Tip"]) (simp add: S_def)
  qed
qed

lemma InsertRecord_settles:
  fixes env :: "('r, 'k) index_env" and rec :: 'r and uc :: bool
  assumes idx: "index_ok s t" and mem: "\<And>n. mem_ok s n" and desc: "descending (rec_cmp env rec) (entries t)"
  defines "check \<equiv> ie_unique env \<and> uc" and "null \<equiv> True \<in> set (ie_isnull env rec)"
  shows "if check \<and> ie_primary env \<and> null then TTree_InsertRecord env rec i uc s = Some (DB_E_NOTNULLFIELD, s)
    else settled (TTree_InsertRecord env rec i uc s) s t (rec_cmp env rec) i (check \<and> \<not> null)"
proof (cases "t = Tip")
  case True
  with idx index_root_null have root: "root s = 0" by blast
  have "placed (insert_first i s) s Tip (rec_cmp env rec) i"
    using insert_first_gives [OF idx [unfolded True] mem] missing_oneI [of "[]" i "[]"]
    by (intro placedI [of _ _ _ "[]" i "[]" "[]"]) simp_all
  with True root show ?thesis
    by (simp add: TTree_InsertRecord_def Let_def settled_def NULL_OID_def check_def null_def)
next
  case False
  with idx index_root_null have root: "root s \<noteq> 0" by blast
  then have "ptr t \<noteq> 0" using index_root [OF idx] by simp
  have "settled (insert_loop env rec i (check \<and> \<not> null) (ptr t) s) s t (rec_cmp env rec) i (check \<and> \<not> null)"
    using insert_loop_settles [of s "[]" t env rec i "check \<and> \<not> null"] idx False mem desc by simp
  with root \<open>ptr t \<noteq> 0\<close> show ?thesis
    by (simp add: TTree_InsertRecord_def Let_def index_root_point [OF idx] NULL_OID_def check_def null_def)
qed

end
