(* ===== verification/TTreeClaims.thy ===== *)
theory TTreeClaims
  imports TTreeIndex KeyAgree
begin

section \<open>Properties of keys and indexes\<close>

text \<open>
  What a table relies on when it keeps an index: the records in an index compare by the key of the index, an
  insertion adds the new record id where it belongs and nothing else, and a unique index refuses a second record
  with a key.  The properties are stated for \<open>key_env\<close>, the index on a list of key fields.
\<close>

definition key_env ::
    "(oid \<Rightarrow> (nat \<times> chars) option) \<Rightarrow> (oid \<Rightarrow> bool) \<Rightarrow> KEY_FIELDDESC list \<Rightarrow> bool \<Rightarrow> bool \<Rightarrow>
      (oid \<Rightarrow> key_record option) \<Rightarrow> (key_record, FieldValue list) index_env" where
  \<comment> \<open>the comparisons of \<^verbatim>\<open>mdb_TTreeNode.c\<close> by the key fields, for an index that is unique or primary\<close>
  "key_env ext bad fds uniq primary point =
     \<lparr>ie_point = point, ie_isnull = key_nulls fds,
      ie_compare = (\<lambda>r1 r2. the (KeyDesc_Compare2 ext bad fds r1 r2 (key_nulls fds r1))),
      ie_key_compare = (\<lambda>kv r. the (KeyValue_Compare ext bad kv r)),
      ie_key_create = KeyValue_Create ext bad fds,
      ie_unique = uniq, ie_primary = primary\<rparr>"

lemma key_env_simps [simp]:
  "ie_point (key_env ext bad fds uniq primary point) = point"
  "ie_isnull (key_env ext bad fds uniq primary point) = key_nulls fds"
  "ie_compare (key_env ext bad fds uniq primary point) = key_compare ext bad fds"
  "ie_key_create (key_env ext bad fds uniq primary point) = KeyValue_Create ext bad fds"
  "ie_unique (key_env ext bad fds uniq primary point) = uniq"
  "ie_primary (key_env ext bad fds uniq primary point) = primary"
  by (simp_all add: key_env_def KeyDesc_Compare2_eq key_compare_def [abs_def])

abbreviation in_key_order ::
    "(oid \<Rightarrow> (nat \<times> chars) option) \<Rightarrow> (oid \<Rightarrow> bool) \<Rightarrow> KEY_FIELDDESC list \<Rightarrow> (oid \<Rightarrow> key_record option) \<Rightarrow> oid list \<Rightarrow> bool" where
  "in_key_order ext bad fds point es \<equiv> sorted_index (key_env ext bad fds False False point) (key_records fds) es"

lemma in_key_order:
  "sorted_index (key_env ext bad fds uniq primary point) (key_records fds) es \<longleftrightarrow> in_key_order ext bad fds point es"
  by (simp add: sorted_index_def)

definition same_key ::
    "(oid \<Rightarrow> (nat \<times> chars) option) \<Rightarrow> (oid \<Rightarrow> bool) \<Rightarrow> KEY_FIELDDESC list \<Rightarrow> (oid \<Rightarrow> key_record option) \<Rightarrow> key_record \<Rightarrow> oid \<Rightarrow> bool" where
  "same_key ext bad fds point rec i \<longleftrightarrow> (\<exists>r. point i = Some r \<and> key_compare ext bad fds rec r = 0)"

lemma key_env_settles:
  fixes uniq primary uc :: bool
  assumes idx: "index_ok s t" and mem: "\<forall>n. mem_ok s n" and es: "in_key_order ext bad fds point (entries t)"
    and rec: "rec \<in> key_records fds"
  defines "env \<equiv> key_env ext bad fds uniq primary point" and "null \<equiv> True \<in> set (key_nulls fds rec)"
  shows "if uniq \<and> uc \<and> primary \<and> null then TTree_InsertRecord env rec i uc s = Some (DB_E_NOTNULLFIELD, s)
    else if uniq \<and> uc \<and> \<not> null \<and> (\<exists>j \<in> set (entries t). same_key ext bad fds point rec j)
    then TTree_InsertRecord env rec i uc s = Some (DB_E_DUPUNIQUEKEY, s)
    else placed (TTree_InsertRecord env rec i uc s) s t (rec_cmp env rec) i"
proof -
  have ord: "comparison (ie_compare env) (key_records fds)" by (simp add: env_def key_order.comparison_axioms)
  have "sorted_index env (key_records fds) (entries t)" using es by (simp add: env_def in_key_order [of ext bad fds uniq primary])
  from sorted_index_descending [OF ord this rec] have desc: "descending (rec_cmp env rec) (entries t)" .
  have "rec_cmp env rec j = 0 \<longleftrightarrow> same_key ext bad fds point rec j" for j
    by (cases "point j") (simp_all add: env_def item_cmp_def same_key_def DB_E_OIDPOINTER_def)
  then show ?thesis
    using InsertRecord_settles [OF idx mem [rule_format] desc, of uc i]
    by (auto simp: settled_def null_def env_def split: if_splits)
qed

text \<open>C22: Inserting a record into an index that is neither refused as a duplicate nor as NULL returns, and
leaves a balanced index in key order whose other slots and nodes are untouched.  With success it holds exactly one
record id more, the new one; if no slot for a node can be had, one id of them is missing.\<close>

theorem InsertRecord_refines:
  assumes idx: "index_ok s t" and mem: "\<forall>n. mem_ok s n" and es: "in_key_order ext bad fds point (entries t)"
    and rec: "point i = Some rec" "rec \<in> key_records fds"
    and accepted: "\<not> (uniq \<and> uc \<and> primary \<and> True \<in> set (key_nulls fds rec))"
      "\<not> (uniq \<and> uc \<and> True \<notin> set (key_nulls fds rec) \<and> (\<exists>j \<in> set (entries t). same_key ext bad fds point rec j))"
  shows "\<exists>ret s' t'. TTree_InsertRecord (key_env ext bad fds uniq primary point) rec i uc s = Some (ret, s') \<and>
    index_ok s' t' \<and> keeps_others s t s' t' \<and> in_key_order ext bad fds point (entries t') \<and>
    (ret = DB_SUCCESS \<and> mset (entries t') = add_mset i (mset (entries t)) \<or>
     refused s ret \<and> (\<exists>x. add_mset x (mset (entries t')) = add_mset i (mset (entries t))))"
proof -
  let ?env = "key_env ext bad fds uniq primary point"
  have ord: "comparison (ie_compare ?env) (key_records fds)" by (simp add: key_order.comparison_axioms)
  have "placed (TTree_InsertRecord ?env rec i uc s) s t (rec_cmp ?env rec) i"
    using key_env_settles [OF idx mem es rec(2), of uniq uc primary i] accepted by (simp split: if_splits)
  then obtain us vs fs ret s' t' where split: "entries t = us @ vs" "\<forall>x \<in> set us. 0 \<le> rec_cmp ?env rec x" "\<forall>x \<in> set vs. rec_cmp ?env rec x \<le> 0"
    and miss: "missing_one (us @ i # vs) fs"
    and run: "TTree_InsertRecord ?env rec i uc s = Some (ret, s')" "index_ok s' t'" "keeps_others s t s' t'"
    and last: "ret = DB_SUCCESS \<and> entries t' = us @ i # vs \<or> refused s ret \<and> entries t' = fs"
    unfolding placed_def gives_def by blast
  have "sorted_index ?env (key_records fds) (us @ i # vs)"
    by (rule sorted_index_insert [OF ord]) (use es rec split in \<open>simp_all add: in_key_order [of ext bad fds uniq primary]\<close>)
  moreover from this miss have "sorted_index ?env (key_records fds) fs" by (rule sorted_index_missing)
  moreover from miss obtain x where "add_mset x (mset fs) = add_mset i (mset (entries t))"
    by (auto simp: missing_one_def split(1)) (metis mset.simps(2) mset_append union_mset_add_mset_right)
  ultimately show ?thesis using run last split(1) in_key_order [of ext bad fds uniq primary point] by fastforce
qed

subsection \<open>An index with one record\<close>

definition one_page :: oid where "one_page = TEMPSEG_BASE_NO * 2 ^ 16"

definition one_slots :: islots where
  "one_slots =
     \<lparr>ipages = [one_page \<mapsto> \<lparr>free_nodes = tl (page_slots one_page), node_count_in_page = 1, page_full = False\<rparr>],
      slot_used = (\<lambda>i. i = hd (page_slots one_page)), free_page_list = [one_page], icol_item_count = 1,
      page_calls = 0, page_results = (\<lambda>n. (DB_E_OUTOFMEMORY, NULL_OID))\<rparr>"

definition one_index :: ttree where
  "one_index =
     \<lparr>nodes = [hd (page_slots one_page) \<mapsto> new_node (hd (page_slots one_page)) NULL_OID ROOT_NODE 5],
      root = hd (page_slots one_page), tt_item_count = 1, modified_time = 0, slots = one_slots,
      mem_calls = 0, mem_ok = (\<lambda>n. True)\<rparr>"

definition one_tree :: tt where "one_tree = Bin Tip (hd (page_slots one_page)) 0 [5] Tip"

definition int_key :: "KEY_FIELDDESC list" where
  "int_key = [\<lparr>fd_order = CHR ''A'', fd_type = DT_INTEGER, fd_position = 0, fd_length = 4,
     fd_fixed_part = FIXED_VARIABLE, fd_collation = MDB_COL_NONE\<rparr>]"

definition two_points :: "oid \<Rightarrow> key_record option" where
  "two_points = [5 \<mapsto> (\<lambda>p. Some (Num 10)), 6 \<mapsto> (\<lambda>p. Some (Num 20))]"

lemma one_page_id: "ipage_id one_page"
  by (simp add: ipage_id_def one_page_def Index_getSegmentNo_def)

lemma one_page_slot: "page_slots one_page \<noteq> []" "hd (page_slots one_page) \<in> set (page_slots one_page)"
proof -
  show ne: "page_slots one_page \<noteq> []" by (simp add: page_slots_def SLOT_PER_IPAGE_def)
  show "hd (page_slots one_page) \<in> set (page_slots one_page)" by (rule hd_in_set [OF ne])
qed

lemma one_slots_ok: "slots_ok one_slots" "live_slots one_slots = {hd (page_slots one_page)}"
proof -
  have ne: "page_slots one_page = hd (page_slots one_page) # tl (page_slots one_page)"
    using one_page_slot(1) by simp
  then have hd: "hd (page_slots one_page) \<in> set (page_slots one_page)"
    "set (tl (page_slots one_page)) \<subseteq> set (page_slots one_page) - {hd (page_slots one_page)}" "distinct (tl (page_slots one_page))"
    using distinct_page_slots [of one_page] by (metis list.set_intros(1), metis Diff_insert_absorb distinct.simps(2) list.simps(15) subset_refl, metis distinct_tl)
  show "slots_ok one_slots"
    using hd one_page_id page_slot(1) [OF one_page_id hd(1)]
    by (auto simp: slots_ok_def pages_ok_def page_ok_def answers_ok_def one_slots_def DB_E_OUTOFMEMORY_def split: if_splits)
  show "live_slots one_slots = {hd (page_slots one_page)}" by (auto simp: live_slots_def one_slots_def)
qed

lemma one_index_ok: "index_ok one_index one_tree" "\<forall>n. mem_ok one_index n"
  "in_key_order ext bad int_key two_points (entries one_tree)"
proof -
  have valid: "valid_oid (hd (page_slots one_page))" using page_slot(3,4) [OF one_page_id one_page_slot(2)] by (simp add: valid_oid_def)
  then have "tree_at (nodes one_index) NULL_OID ROOT_NODE one_tree"
    unfolding one_tree_def by (intro new_node_is) (simp_all add: one_index_def)
  then show "index_ok one_index one_tree"
    using one_slots_ok by (simp add: index_ok_def zip_at_def one_tree_def) (simp add: one_index_def)
  show "\<forall>n. mem_ok one_index n" by (simp add: one_index_def)
  show "in_key_order ext bad int_key two_points (entries one_tree)"
    by (simp add: sorted_index_def one_tree_def two_points_def key_records_def int_key_def field_ok_def typed_or_null_def)
qed

lemma two_points_ok:
  "two_points 6 = Some (\<lambda>p. Some (Num 20))" "(\<lambda>p. Some (Num a)) \<in> key_records int_key"
  "True \<notin> set (key_nulls int_key (\<lambda>p. Some (Num a)))"
  "same_key ext bad int_key two_points (\<lambda>p. Some (Num a)) 5 \<longleftrightarrow> a = 10"
  by (simp_all add: two_points_def key_records_def int_key_def field_ok_def typed_or_null_def key_nulls_def same_key_def
      key_compare_def FieldDesc_Compare_def value_compare_def three_way_def)

theorem InsertRecord_refines_witness:
  "\<exists>ret s' t'. TTree_InsertRecord (key_env (\<lambda>_. None) (\<lambda>_. False) int_key True True two_points) (\<lambda>p. Some (Num 20)) 6 True one_index =
     Some (ret, s') \<and> index_ok s' t' \<and> (ret = DB_SUCCESS \<and> mset (entries t') = {#5, 6#} \<or> refused one_index ret)"
proof -
  let ?r = "\<lambda>p :: nat. Some (Num 20)"
  have new: "\<not> (True \<and> True \<and> True \<in> set (key_nulls int_key ?r))"
    "\<not> (True \<and> True \<and> True \<notin> set (key_nulls int_key ?r) \<and>
       (\<exists>j \<in> set (entries one_tree). same_key (\<lambda>_. None) (\<lambda>_. False) int_key two_points ?r j))"
    using two_points_ok(3,4) by (simp_all add: one_tree_def)
  have one: "add_mset 6 (mset (entries one_tree)) = {#5, 6#}" by (simp add: one_tree_def)
  from InsertRecord_refines [OF one_index_ok(1,2) one_index_ok(3) two_points_ok(1,2), of True True True, unfolded one] new
  show ?thesis by simp blast
qed

text \<open>C32: With the uniqueness check, a record with a NULL in the key of a primary index is refused, and one whose
key has no NULL and equals the key of an indexed record is refused as a duplicate; nothing changes.\<close>

theorem InsertRecord_refuses:
  assumes idx: "index_ok s t" and mem: "\<forall>n. mem_ok s n" and es: "in_key_order ext bad fds point (entries t)"
    and rec: "rec \<in> key_records fds"
  shows "(primary \<and> True \<in> set (key_nulls fds rec) \<longrightarrow>
      TTree_InsertRecord (key_env ext bad fds True primary point) rec i True s = Some (DB_E_NOTNULLFIELD, s)) \<and>
    (True \<notin> set (key_nulls fds rec) \<and> (\<exists>j \<in> set (entries t). same_key ext bad fds point rec j) \<longrightarrow>
      TTree_InsertRecord (key_env ext bad fds True primary point) rec i True s = Some (DB_E_DUPUNIQUEKEY, s))"
  using key_env_settles [OF assms, of True True primary i] by auto

theorem InsertRecord_refuses_witness:
  "TTree_InsertRecord (key_env (\<lambda>_. None) (\<lambda>_. False) int_key True True two_points) (\<lambda>p. Some (Num 10)) 6 True one_index =
     Some (DB_E_DUPUNIQUEKEY, one_index)"
proof -
  have "\<exists>j \<in> set (entries one_tree). same_key (\<lambda>_. None) (\<lambda>_. False) int_key two_points (\<lambda>p. Some (Num 10)) j"
    by (simp add: one_tree_def two_points_ok(4))
  with InsertRecord_refuses [OF one_index_ok(1,2) one_index_ok(3) two_points_ok(2), of True] two_points_ok(3)
  show ?thesis by blast
qed

text \<open>C33: A slot that is handed out for a node was free and lies in an index page, a failed request takes none, and
a slot in use that is given back is free; the chains of free slots and pages stay consistent.\<close>

theorem slots_contract:
  assumes "slots_ok s"
  shows "(\<exists>r i s'. Index_Collect_AllocateSlot s = Some (r, i, s') \<and> slots_ok s' \<and>
      (r = DB_SUCCESS \<and> \<not> slot_used s i \<and> live_slots s' = insert i (live_slots s) \<and> i \<in> set (page_slots (page_of i)) \<or>
       r < 0 \<and> live_slots s' = live_slots s)) \<and>
    (\<forall>i. slot_used s i \<longrightarrow> (\<exists>s'. Index_Col_Remove i s = Some (DB_SUCCESS, s') \<and> slots_ok s' \<and> live_slots s' = live_slots s - {i}))"
proof
  from AllocateSlot_ok [OF assms] obtain r i s' where run: "Index_Collect_AllocateSlot s = Some (r, i, s')" "slots_ok s'"
    "r = DB_SUCCESS \<and> i \<notin> live_slots s \<and> live_slots s' = insert i (live_slots s) \<or> r < 0 \<and> live_slots s' = live_slots s" by blast
  moreover have "i \<in> live_slots s' \<Longrightarrow> i \<in> set (page_slots (page_of i))"
    using slots_okD(4) [OF run(2), of i] by (simp add: live_slots_def)
  ultimately show "\<exists>r i s'. Index_Collect_AllocateSlot s = Some (r, i, s') \<and> slots_ok s' \<and>
      (r = DB_SUCCESS \<and> \<not> slot_used s i \<and> live_slots s' = insert i (live_slots s) \<and> i \<in> set (page_slots (page_of i)) \<or>
       r < 0 \<and> live_slots s' = live_slots s)"
    by (intro exI [of _ r] exI [of _ i] exI [of _ s']) (auto simp: live_slots_def)
  show "\<forall>i. slot_used s i \<longrightarrow> (\<exists>s'. Index_Col_Remove i s = Some (DB_SUCCESS, s') \<and> slots_ok s' \<and> live_slots s' = live_slots s - {i})"
    using Col_Remove_ok [OF assms] by (simp add: live_slots_def)
qed

theorem slots_contract_witness:
  "\<exists>s'. Index_Col_Remove (hd (page_slots one_page)) one_slots = Some (DB_SUCCESS, s') \<and> slots_ok s' \<and> live_slots s' = {}"
proof -
  have "slot_used one_slots (hd (page_slots one_page))" by (simp add: one_slots_def)
  with slots_contract [OF one_slots_ok(1)] one_slots_ok(2) show ?thesis by fastforce
qed

end
