(* ===== verification/TTreeSearch.thy ===== *)
theory TTreeSearch
  imports TTreeNode
begin

section \<open>Searches in a T-tree (\<^verbatim>\<open>openML/src/server/storage/mdb_TTree.c\<close>)\<close>

text \<open>
  The six searches for a key, the steps from a position to the next and the previous one, offsets and counts, and
  the search for a record id of \<^verbatim>\<open>mdb_TTree_Remove.c\<close>.  A position is a node (0 is NULL) and an index
  into its items.  A loop over the nodes of the tree is a \<open>partial_function\<close>; \<open>None\<close> is as in
  \<open>TTreeNode\<close>.
\<close>

record TTreePosition =
  pos_node :: oid
  pos_idx :: int

definition DB_E_INVALIDPARAM :: int where "DB_E_INVALIDPARAM = - 3"

definition no_position :: "TTreePosition \<Rightarrow> TTreePosition" where "no_position p = p\<lparr>pos_node := 0\<rparr>"

subsection \<open>Binary searches\<close>

text \<open>\<open>cmp m\<close> is \<^verbatim>\<open>TTreeNode_CompKeyValWithItem(key, node, m, ttree)\<close>.\<close>

function scan_down :: "(int \<Rightarrow> int option) \<Rightarrow> int \<Rightarrow> int \<Rightarrow> int option" where
  \<comment> \<open>\<^verbatim>\<open>while (f <= m) { if (cmp(m) != 0) break; m--; }\<close>\<close>
  "scan_down cmp f m =
     (if f \<le> m then (case cmp m of None \<Rightarrow> None | Some c \<Rightarrow> if c \<noteq> 0 then Some m else scan_down cmp f (m - 1)) else Some m)"
  by pat_completeness auto
termination by (relation "measure (\<lambda>(cmp, f, m). nat (m - f + 1))") auto

function scan_up :: "(int \<Rightarrow> int option) \<Rightarrow> int \<Rightarrow> int \<Rightarrow> int option" where
  "scan_up cmp m t =
     (if m \<le> t then (case cmp m of None \<Rightarrow> None | Some c \<Rightarrow> if c \<noteq> 0 then Some m else scan_up cmp (m + 1) t) else Some m)"
  by pat_completeness auto
termination by (relation "measure (\<lambda>(cmp, m, t). nat (t - m + 1))") auto

function ge_search :: "(int \<Rightarrow> int option) \<Rightarrow> int \<Rightarrow> int \<Rightarrow> (int \<times> int) option option" where
  \<comment> \<open>the result code and the index, or nothing when the loop ends without them\<close>
  "ge_search cmp f t =
     (if f > t then Some None
      else
        (let m = (f + t) div 2 in
         case cmp m of
           None \<Rightarrow> None
         | Some c \<Rightarrow>
             if c = 0 then
               (case scan_down cmp f (m - 1) of None \<Rightarrow> None | Some m \<Rightarrow> Some (Some (DB_SUCCESS, m + 1)))
             else if c > 0 then (if f = t then Some (Some (DB_SUCCESS, m + 1)) else ge_search cmp (m + 1) t)
             else (if f = t \<or> f = m then Some (Some (DB_W_ITEMMORETHANKEY, m)) else ge_search cmp f (m - 1))))"
  by pat_completeness auto
termination by (relation "measure (\<lambda>(cmp, f, t). nat (t - f + 1))") auto

function le_search :: "(int \<Rightarrow> int option) \<Rightarrow> int \<Rightarrow> int \<Rightarrow> int option option" where
  "le_search cmp f t =
     (if f > t then Some None
      else
        (let m = (f + t) div 2 in
         case cmp m of
           None \<Rightarrow> None
         | Some c \<Rightarrow>
             if c = 0 then (case scan_up cmp (m + 1) t of None \<Rightarrow> None | Some m \<Rightarrow> Some (Some (m - 1)))
             else if c > 0 then (if f = t then Some (Some m) else le_search cmp (m + 1) t)
             else (if f = t \<or> f = m then Some (Some (m - 1)) else le_search cmp f (m - 1))))"
  by pat_completeness auto
termination by (relation "measure (\<lambda>(cmp, f, t). nat (t - f + 1))") auto

function eq_search :: "(int \<Rightarrow> int \<Rightarrow> int \<Rightarrow> int option) \<Rightarrow> (int \<Rightarrow> int option) \<Rightarrow> int \<Rightarrow> int \<Rightarrow> int option option" where
  \<comment> \<open>the three searches for an equal item differ in what they do when they have found one at \<open>m\<close>\<close>
  "eq_search found cmp f t =
     (if f > t then Some None
      else
        (let m = (f + t) div 2 in
         case cmp m of
           None \<Rightarrow> None
         | Some c \<Rightarrow>
             if c = 0 then (case found f t m of None \<Rightarrow> None | Some m \<Rightarrow> Some (Some m))
             else if c > 0 then eq_search found cmp (m + 1) t
             else eq_search found cmp f (m - 1)))"
  by pat_completeness auto
termination by (relation "measure (\<lambda>(found, cmp, f, t). nat (t - f + 1))") auto

definition first_eq_search :: "(int \<Rightarrow> int option) \<Rightarrow> int \<Rightarrow> int \<Rightarrow> int option option" where
  "first_eq_search cmp = eq_search (\<lambda>f t m. map_option (\<lambda>m. m + 1) (scan_down cmp f (m - 1))) cmp"

definition last_eq_search :: "(int \<Rightarrow> int option) \<Rightarrow> int \<Rightarrow> int \<Rightarrow> int option option" where
  "last_eq_search cmp = eq_search (\<lambda>f t m. map_option (\<lambda>m. m - 1) (scan_up cmp (m + 1) t)) cmp"

definition unique_eq_search :: "(int \<Rightarrow> int option) \<Rightarrow> int \<Rightarrow> int \<Rightarrow> int option option" where
  "unique_eq_search cmp = eq_search (\<lambda>f t m. Some m) cmp"

definition found_at :: "oid \<Rightarrow> int option \<Rightarrow> TTreePosition \<Rightarrow> int \<times> TTreePosition" where
  \<comment> \<open>the end of a search in a node\<close>
  "found_at node r p =
     (case r of None \<Rightarrow> (DB_E_NOMORERECORDS, no_position p) | Some m \<Rightarrow> (DB_SUCCESS, \<lparr>pos_node = node, pos_idx = m\<rparr>))"

subsection \<open>Searches for a key\<close>

definition ge_in_node :: "('r, 'k) index_env \<Rightarrow> 'k \<Rightarrow> oid \<Rightarrow> TTreeNode \<Rightarrow> TTreePosition \<Rightarrow> (int \<times> TTreePosition) option" where
  \<comment> \<open>the bounding node\<close>
  "ge_in_node env key node nd first =
     (if tn_count nd = 1 then Some (DB_E_NOMORERECORDS, no_position first)
      else
        do {
          comp_res \<leftarrow> TTreeNode_CompKeyValWithItem env key nd 1;
          if comp_res \<le> 0 then
            Some (if comp_res = 0 then DB_SUCCESS else DB_W_ITEMMORETHANKEY, \<lparr>pos_node = node, pos_idx = 1\<rparr>)
          else
            do {
              r \<leftarrow> ge_search (TTreeNode_CompKeyValWithItem env key nd) 2 (tn_count nd - 1);
              Some (case r of
                      None \<Rightarrow> (DB_E_NOMORERECORDS, no_position first)
                    | Some (ret, m) \<Rightarrow> (ret, \<lparr>pos_node = node, pos_idx = m\<rparr>))
            }
        })"

partial_function (option) get_first_ge ::
    "('r, 'k) index_env \<Rightarrow> 'k \<Rightarrow> ttree \<Rightarrow> TTreePosition \<Rightarrow> oid \<Rightarrow> (int \<times> TTreePosition) option" where
  "get_first_ge env key s first node =
     (if node = 0 then Some (DB_E_NOMORERECORDS, no_position first)
      else
        do {
          nd \<leftarrow> deref node s;
          comp_res \<leftarrow> TTreeNode_CompKeyValWithMinimum env key nd;
          if comp_res \<le> 0 then
            do {
              gld \<leftarrow> TTree_GlbChild node s;
              let here = (if comp_res = 0 then DB_SUCCESS else DB_W_ITEMMORETHANKEY, \<lparr>pos_node = node, pos_idx = 0\<rparr>);
              if gld = 0 then Some here
              else
                do {
                  g \<leftarrow> deref gld s;
                  c \<leftarrow> TTreeNode_CompKeyValWithMaximum env key g;
                  if c \<le> 0 then get_first_ge env key s first (Index_OID_Point (tn_left nd)) else Some here
                }
            }
          else
            do {
              c \<leftarrow> TTreeNode_CompKeyValWithMaximum env key nd;
              if c > 0 then get_first_ge env key s first (Index_OID_Point (tn_right nd))
              else ge_in_node env key node nd first
            }
        })"

definition TTree_Get_First_Ge ::
    "('r, 'k) index_env \<Rightarrow> 'k \<Rightarrow> ttree \<Rightarrow> TTreePosition \<Rightarrow> (int \<times> TTreePosition) option" where
  "TTree_Get_First_Ge env key s first =
     (if root s = NULL_OID then Some (DB_E_NOMORERECORDS, no_position first)
      else get_first_ge env key s first (Index_OID_Point (root s)))"

definition le_in_node :: "('r, 'k) index_env \<Rightarrow> 'k \<Rightarrow> oid \<Rightarrow> TTreeNode \<Rightarrow> TTreePosition \<Rightarrow> (int \<times> TTreePosition) option" where
  "le_in_node env key node nd lp =
     do {
       c \<leftarrow> TTreeNode_CompKeyValWithItem env key nd (tn_count nd - 2);
       if c \<ge> 0 then Some (DB_SUCCESS, \<lparr>pos_node = node, pos_idx = tn_count nd - 2\<rparr>)
       else
         do {
           r \<leftarrow> le_search (TTreeNode_CompKeyValWithItem env key nd) 0 (tn_count nd - 3);
           Some (found_at node r lp)
         }
     }"

partial_function (option) get_last_le ::
    "('r, 'k) index_env \<Rightarrow> 'k \<Rightarrow> ttree \<Rightarrow> TTreePosition \<Rightarrow> oid \<Rightarrow> (int \<times> TTreePosition) option" where
  "get_last_le env key s lp node =
     (if node = 0 then Some (DB_E_NOMORERECORDS, no_position lp)
      else
        do {
          nd \<leftarrow> deref node s;
          comp_res \<leftarrow> TTreeNode_CompKeyValWithMaximum env key nd;
          if comp_res \<ge> 0 then
            do {
              lub \<leftarrow> TTree_LubChild node s;
              let here = (DB_SUCCESS, \<lparr>pos_node = node, pos_idx = tn_count nd - 1\<rparr>);
              if lub = 0 then Some here
              else
                do {
                  l \<leftarrow> deref lub s;
                  c \<leftarrow> TTreeNode_CompKeyValWithMinimum env key l;
                  if c \<ge> 0 then get_last_le env key s lp (Index_OID_Point (tn_right nd)) else Some here
                }
            }
          else
            do {
              c \<leftarrow> TTreeNode_CompKeyValWithMinimum env key nd;
              if c < 0 then get_last_le env key s lp (Index_OID_Point (tn_left nd))
              else le_in_node env key node nd lp
            }
        })"

definition TTree_Get_Last_Le ::
    "('r, 'k) index_env \<Rightarrow> 'k \<Rightarrow> ttree \<Rightarrow> TTreePosition \<Rightarrow> (int \<times> TTreePosition) option" where
  "TTree_Get_Last_Le env key s lp = get_last_le env key s lp (Index_OID_Point (root s))"

partial_function (option) get_first_eq ::
    "('r, 'k) index_env \<Rightarrow> 'k \<Rightarrow> ttree \<Rightarrow> TTreePosition \<Rightarrow> oid \<Rightarrow> (int \<times> TTreePosition) option" where
  "get_first_eq env key s p node =
     (if node = 0 then Some (DB_E_NOMORERECORDS, no_position p)
      else
        do {
          nd \<leftarrow> deref node s;
          comp_res \<leftarrow> TTreeNode_CompKeyValWithMinimum env key nd;
          if comp_res < 0 then get_first_eq env key s p (Index_OID_Point (tn_left nd))
          else if comp_res = 0 then
            do {
              gld \<leftarrow> TTree_GlbChild node s;
              let here = (DB_SUCCESS, \<lparr>pos_node = node, pos_idx = 0\<rparr>);
              if gld = 0 then Some here
              else
                do {
                  g \<leftarrow> deref gld s;
                  c \<leftarrow> TTreeNode_CompKeyValWithMaximum env key g;
                  if c = 0 then get_first_eq env key s p (Index_OID_Point (tn_left nd)) else Some here
                }
            }
          else
            do {
              c \<leftarrow> TTreeNode_CompKeyValWithMaximum env key nd;
              if c > 0 then get_first_eq env key s p (Index_OID_Point (tn_right nd))
              else
                do {
                  r \<leftarrow> first_eq_search (TTreeNode_CompKeyValWithItem env key nd) 1 (tn_count nd - 1);
                  Some (found_at node r p)
                }
            }
        })"

partial_function (option) get_last_eq ::
    "('r, 'k) index_env \<Rightarrow> 'k \<Rightarrow> ttree \<Rightarrow> TTreePosition \<Rightarrow> oid \<Rightarrow> (int \<times> TTreePosition) option" where
  "get_last_eq env key s p node =
     (if node = 0 then Some (DB_E_NOMORERECORDS, no_position p)
      else
        do {
          nd \<leftarrow> deref node s;
          c \<leftarrow> TTreeNode_CompKeyValWithMinimum env key nd;
          if c < 0 then get_last_eq env key s p (Index_OID_Point (tn_left nd))
          else
            do {
              c \<leftarrow> TTreeNode_CompKeyValWithMaximum env key nd;
              if c > 0 then get_last_eq env key s p (Index_OID_Point (tn_right nd))
              else if c = 0 then
                do {
                  lub \<leftarrow> TTree_LubChild node s;
                  let here = (DB_SUCCESS, \<lparr>pos_node = node, pos_idx = tn_count nd - 1\<rparr>);
                  if lub = 0 then Some here
                  else
                    do {
                      l \<leftarrow> deref lub s;
                      c \<leftarrow> TTreeNode_CompKeyValWithMinimum env key l;
                      if c = 0 then get_last_eq env key s p (Index_OID_Point (tn_right nd)) else Some here
                    }
                }
              else
                do {
                  r \<leftarrow> last_eq_search (TTreeNode_CompKeyValWithItem env key nd) 0 (tn_count nd - 2);
                  Some (found_at node r p)
                }
            }
        })"

definition eq_from_root ::
    "(oid \<Rightarrow> (int \<times> TTreePosition) option) \<Rightarrow> int \<Rightarrow> ttree \<Rightarrow> TTreePosition \<Rightarrow> (int \<times> TTreePosition) option" where
  \<comment> \<open>the first lines of the two searches; \<open>line\<close> is where they find a crashed index\<close>
  "eq_from_root search line s p =
     (let node = Index_OID_Point (root s) in
      if node = 0 then Some (DB_E_NOMORERECORDS, no_position p)
      else
        do {
          nd \<leftarrow> deref node s;
          i \<leftarrow> get_item (tn_item nd) 0;
          if i = NULL_OID then Some (DB_FAIL line, no_position p) else search node
        })"

definition TTree_Get_First_Eq ::
    "('r, 'k) index_env \<Rightarrow> 'k \<Rightarrow> ttree \<Rightarrow> TTreePosition \<Rightarrow> (int \<times> TTreePosition) option" where
  "TTree_Get_First_Eq env key s p = eq_from_root (get_first_eq env key s p) 631 s p"

definition TTree_Get_Last_Eq ::
    "('r, 'k) index_env \<Rightarrow> 'k \<Rightarrow> ttree \<Rightarrow> TTreePosition \<Rightarrow> (int \<times> TTreePosition) option" where
  "TTree_Get_Last_Eq env key s p = eq_from_root (get_last_eq env key s p) 834 s p"

partial_function (option) get_first_eq_unique ::
    "('r, 'k) index_env \<Rightarrow> 'k \<Rightarrow> ttree \<Rightarrow> TTreePosition \<Rightarrow> oid \<Rightarrow> (int \<times> TTreePosition) option" where
  "get_first_eq_unique env key s p node =
     (if node = 0 then Some (DB_E_NOMORERECORDS, no_position p)
      else
        do {
          nd \<leftarrow> deref node s;
          comp_res \<leftarrow> TTreeNode_CompKeyValWithMinimum env key nd;
          if comp_res = 0 then Some (DB_SUCCESS, \<lparr>pos_node = node, pos_idx = 0\<rparr>)
          else if comp_res < 0 then get_first_eq_unique env key s p (Index_OID_Point (tn_left nd))
          else
            do {
              comp_res \<leftarrow> TTreeNode_CompKeyValWithMaximum env key nd;
              if comp_res = 0 then Some (DB_SUCCESS, \<lparr>pos_node = node, pos_idx = tn_count nd - 1\<rparr>)
              else if comp_res > 0 then get_first_eq_unique env key s p (Index_OID_Point (tn_right nd))
              else
                do {
                  r \<leftarrow> unique_eq_search (TTreeNode_CompKeyValWithItem env key nd) 1 (tn_count nd - 2);
                  Some (found_at node r p)
                }
            }
        })"

definition TTree_Get_First_Eq_Unique ::
    "('r, 'k) index_env \<Rightarrow> 'k \<Rightarrow> ttree \<Rightarrow> TTreePosition \<Rightarrow> (int \<times> TTreePosition) option" where
  "TTree_Get_First_Eq_Unique env key s p = get_first_eq_unique env key s p (Index_OID_Point (root s))"

subsection \<open>Positions\<close>

definition TTree_Increment :: "ttree \<Rightarrow> TTreePosition \<Rightarrow> (int \<times> TTreePosition) option" where
  "TTree_Increment s p =
     (if pos_node p = 0 then Some (DB_E_INVALIDPARAM, p)
      else
        do {
          nd \<leftarrow> deref (pos_node p) s;
          if pos_idx p < tn_count nd - 1 then Some (DB_SUCCESS, p\<lparr>pos_idx := pos_idx p + 1\<rparr>)
          else
            do {
              q \<leftarrow> TTree_NextNode (pos_node p) s;
              Some (if q = 0 then (DB_E_TTREEPOSITION, p\<lparr>pos_node := q\<rparr>) else (DB_SUCCESS, \<lparr>pos_node = q, pos_idx = 0\<rparr>))
            }
        })"

definition TTree_Decrement :: "ttree \<Rightarrow> TTreePosition \<Rightarrow> (int \<times> TTreePosition) option" where
  "TTree_Decrement s p =
     (if pos_node p = 0 then Some (DB_FAIL 1468, p)
      else if pos_idx p > 0 then Some (DB_SUCCESS, p\<lparr>pos_idx := pos_idx p - 1\<rparr>)
      else
        do {
          q \<leftarrow> TTree_PrevNode (pos_node p) s;
          if q = 0 then Some (DB_FAIL 1483, p\<lparr>pos_node := q\<rparr>)
          else do { nd \<leftarrow> deref q s; Some (DB_SUCCESS, \<lparr>pos_node = q, pos_idx = tn_count nd - 1\<rparr>) }
        })"

partial_function (option) get_offset :: "ttree \<Rightarrow> TTreePosition \<Rightarrow> int \<Rightarrow> oid \<Rightarrow> int option" where
  "get_offset s p item_count node =
     (if node = 0 then Some DB_E_CURSORNODE
      else if node = pos_node p then Some (item_count + pos_idx p)
      else
        do {
          nd \<leftarrow> deref node s;
          q \<leftarrow> TTree_NextNode node s;
          get_offset s p (item_count + tn_count nd) q
        })"

definition TTree_Get_Offset :: "ttree \<Rightarrow> TTreePosition \<Rightarrow> int option" where
  "TTree_Get_Offset s p = do { node \<leftarrow> TTree_SmallestChild s; get_offset s p 0 node }"

partial_function (option) seek_offset :: "ttree \<Rightarrow> TTreePosition \<Rightarrow> int \<Rightarrow> int \<Rightarrow> oid \<Rightarrow> (int \<times> TTreePosition) option" where
  "seek_offset s p offset item_count node =
     (if node = 0 then Some (DB_E_CURSOROFFSET, p)
      else
        do {
          nd \<leftarrow> deref node s;
          if item_count + tn_count nd > offset then Some (DB_SUCCESS, \<lparr>pos_node = node, pos_idx = offset - item_count\<rparr>)
          else do { q \<leftarrow> TTree_NextNode node s; seek_offset s p offset (item_count + tn_count nd) q }
        })"

definition TTree_Seek_Offset :: "ttree \<Rightarrow> TTreePosition \<Rightarrow> int \<Rightarrow> (int \<times> TTreePosition) option" where
  "TTree_Seek_Offset s p offset =
     (if offset < 0 then Some (DB_E_INVALIDPARAM, p)
      else do { node \<leftarrow> TTree_SmallestChild s; seek_offset s p offset 0 node })"

partial_function (option) node_count_loop :: "ttree \<Rightarrow> int \<Rightarrow> oid \<Rightarrow> int option" where
  "node_count_loop s n node =
     (if node = 0 then Some n else do { q \<leftarrow> TTree_NextNode node s; node_count_loop s (n + 1) q })"

definition TTree_Get_NodeCount :: "ttree \<Rightarrow> int option" where
  "TTree_Get_NodeCount s = do { node \<leftarrow> TTree_SmallestChild s; node_count_loop s 0 node }"

definition TTREE_FORWARD_CURSOR :: int where "TTREE_FORWARD_CURSOR = 1"

partial_function (option) interval_loop :: "ttree \<Rightarrow> TTreePosition \<Rightarrow> int \<Rightarrow> TTreePosition \<Rightarrow> int option" where
  "interval_loop s lp item_count p =
     (if pos_node p = 0 then Some item_count
      else if pos_node p = pos_node lp then Some (item_count + (pos_idx lp - pos_idx p + 1))
      else
        do {
          nd \<leftarrow> deref (pos_node p) s;
          q \<leftarrow> TTree_NextNode (pos_node p) s;
          interval_loop s lp (item_count + (tn_count nd - pos_idx p)) \<lparr>pos_node = q, pos_idx = 0\<rparr>
        })"

definition TTree_Get_ItemCount_Interval :: "ttree \<Rightarrow> TTreePosition \<Rightarrow> TTreePosition \<Rightarrow> int \<Rightarrow> int option" where
  \<comment> \<open>the branch for backward cursors tests for \<^verbatim>\<open>TTREE_FORWARD_CURSOR\<close> again and cannot be reached\<close>
  "TTree_Get_ItemCount_Interval s first lp type =
     (if type = TTREE_FORWARD_CURSOR then interval_loop s lp 0 first else Some DB_E_NOTSUPPORTED)"

definition TTree_Get_Position ::
    "('r, 'k) index_env \<Rightarrow> oid \<Rightarrow> int \<Rightarrow> ttree \<Rightarrow> TTreePosition \<Rightarrow> (int \<times> TTreePosition) option" where
  "TTree_Get_Position env rid type s cp =
     (case ie_point env rid of
        None \<Rightarrow> Some (DB_E_OIDPOINTER, cp)
      | Some r \<Rightarrow>
          (case ie_key_create env r of
             Inl e \<Rightarrow> Some (e, cp)
           | Inr key \<Rightarrow>
               if type = TTREE_FORWARD_CURSOR then TTree_Get_First_Ge env key s cp else TTree_Get_Last_Le env key s cp))"

subsection \<open>The check of an index\<close>

definition TTreeNode_Type_Check :: "oid \<Rightarrow> ttree \<Rightarrow> int option" where
  "TTreeNode_Type_Check node s =
     (if node = 0 then Some 0
      else
        do {
          nd \<leftarrow> deref node s;
          if tn_type nd = ROOT_NODE then Some (if tn_parent nd = NULL_OID then 0 else 1)
          else
            (let parent = Index_OID_Point (tn_parent nd) in
             if parent = 0 then Some 1
             else
               do {
                 pd \<leftarrow> deref parent s;
                 Some (if (if tn_type nd = LEFT_CHILD then tn_left pd else tn_right pd) = tn_self nd \<and> tn_parent nd = tn_self pd
                       then 0 else 1)
               })
        })"

partial_function (option) item_count_loop :: "(oid \<Rightarrow> bool) \<Rightarrow> int \<Rightarrow> ttree \<Rightarrow> int \<Rightarrow> int \<Rightarrow> int \<Rightarrow> oid \<Rightarrow> int option" where
  \<comment> \<open>\<open>bad\<close> is \<^verbatim>\<open>isInvalidRid\<close>\<close>
  "item_count_loop bad max_node s root_check ret item_count node =
     (let finish = (\<lambda>root_check ret item_count. Some (if root_check \<noteq> 1 then - 2 else if ret = 0 then item_count else - 1)) in
      if node = 0 then finish root_check ret item_count
      else
        do {
          nd \<leftarrow> deref node s;
          check \<leftarrow> (if tn_self nd = 0 then Some 1 else TTreeNode_Type_Check node s);
          if check \<noteq> 0 then Some (- 2)
          else
            (let root_check = (if tn_type nd = ROOT_NODE then root_check + 1 else root_check);
                 its = take (nat (tn_count nd)) (tn_item nd) in
             if root_check > 1 \<or> tn_count nd < 0 \<or> tn_count nd > TNODE_MAX_ITEM then Some (- 2)
             else if its \<noteq> [] \<and> List.last its = NULL_OID then finish root_check (- 1) item_count
             else
               (let ret = (if \<exists>i \<in> set its. bad i then - 1 else ret); item_count = item_count + tn_count nd in
                if item_count > max_node then Some (- 2)
                else
                  do {
                    q \<leftarrow> TTree_NextNode node s;
                    if q = 0 \<and> tn_type nd = LEFT_CHILD then Some (- 2)
                    else item_count_loop bad max_node s root_check ret item_count q
                  }))
        })"

definition TTree_Get_ItemCount :: "(oid \<Rightarrow> bool) \<Rightarrow> int \<Rightarrow> ttree \<Rightarrow> int option" where
  "TTree_Get_ItemCount bad max_node s =
     do {
       node \<leftarrow> TTree_SmallestChild s;
       if node = 0 then Some (if root s \<noteq> 0 then - 2 else 0) else item_count_loop bad max_node s 0 0 0 node
     }"

subsection \<open>Searches for a record id\<close>

partial_function (option) find_exaustive :: "oid \<Rightarrow> ttree \<Rightarrow> TTreePosition \<Rightarrow> oid \<Rightarrow> (int \<times> TTreePosition) option" where
  "find_exaustive record_id s p node =
     (if node = 0 then Some (DB_FAIL 93, no_position p)
      else
        do {
          nd \<leftarrow> deref node s;
          let its = take (nat (tn_count nd)) (tn_item nd);
          let n = length (takeWhile (\<lambda>i. i \<noteq> record_id) its);
          if n < length its then Some (DB_SUCCESS, \<lparr>pos_node = node, pos_idx = int n\<rparr>)
          else do { q \<leftarrow> TTree_NextNode node s; find_exaustive record_id s p q }
        })"

definition TTree_FindPositionWithID_Exaustive :: "oid \<Rightarrow> ttree \<Rightarrow> TTreePosition \<Rightarrow> (int \<times> TTreePosition) option" where
  "TTree_FindPositionWithID_Exaustive record_id s p = do { node \<leftarrow> TTree_SmallestChild s; find_exaustive record_id s p node }"

definition item_at :: "TTreePosition \<Rightarrow> ttree \<Rightarrow> oid option" where
  \<comment> \<open>\<^verbatim>\<open>p->node_->item_[p->idx_]\<close>\<close>
  "item_at p s = do { nd \<leftarrow> deref (pos_node p) s; get_item (tn_item nd) (pos_idx p) }"

partial_function (option) find_between :: "oid \<Rightarrow> ttree \<Rightarrow> TTreePosition \<Rightarrow> int \<Rightarrow> TTreePosition \<Rightarrow> (int \<times> TTreePosition) option" where
  \<comment> \<open>the loop from the first to the last record with the key\<close>
  "find_between record_id s p2 rec_count p =
     (if pos_node p = pos_node p2 \<and> pos_idx p = pos_idx p2 then Some (DB_E_NOMORERECORDS, no_position p)
      else
        do {
          (ret, p) \<leftarrow> TTree_Increment s p;
          if ret \<noteq> DB_SUCCESS then Some (DB_FAIL 217, no_position p)
          else
            do {
              i \<leftarrow> item_at p s;
              if i = record_id then Some (DB_SUCCESS, p)
              else if rec_count > tt_item_count s * TNODE_MAX_ITEM then Some (DB_E_INDEXNODELOOP, no_position p)
              else find_between record_id s p2 (rec_count + 1) p
            }
        })"

definition TTree_FindPositionWithValueAndID ::
    "('r, 'k) index_env \<Rightarrow> 'r \<Rightarrow> oid \<Rightarrow> ttree \<Rightarrow> TTreePosition \<Rightarrow> (int \<times> TTreePosition) option" where
  "TTree_FindPositionWithValueAndID env rec record_id s p =
     (case ie_key_create env rec of
        Inl e \<Rightarrow> Some (e, p)
      | Inr key \<Rightarrow>
          do {
            (result, p) \<leftarrow> TTree_Get_First_Eq env key s p;
            if result < 0 then Some (result, p)
            else
              do {
                i \<leftarrow> item_at p s;
                if i = record_id then Some (DB_SUCCESS, p)
                else
                  do {
                    (result, p2) \<leftarrow> TTree_Get_Last_Eq env key s p;
                    if result < 0 then Some (result, p)
                    else
                      do {
                        j \<leftarrow> item_at p2 s;
                        if j = record_id then Some (DB_SUCCESS, p2) else find_between record_id s p2 0 p
                      }
                  }
              }
          })"

definition TTree_FindRecord :: "('r, 'k) index_env \<Rightarrow> 'r \<Rightarrow> oid \<Rightarrow> ttree \<Rightarrow> (int \<times> bool option) option" where
  \<comment> \<open>the result and what is written to \<^verbatim>\<open>*found\<close>\<close>
  "TTree_FindRecord env rec record_id s =
     do {
       (ret, p) \<leftarrow> TTree_FindPositionWithValueAndID env rec record_id s \<lparr>pos_node = 0, pos_idx = 0\<rparr>;
       Some (if ret < 0 then (if ret = DB_E_NOMORERECORDS then (DB_SUCCESS, Some False) else (ret, None)) else (ret, Some True))
     }"

definition to_int32 :: "oid \<Rightarrow> int" where
  \<comment> \<open>a record id assigned to an \<^verbatim>\<open>int\<close>\<close>
  "to_int32 i = (int i + 2 ^ 31) mod 2 ^ 32 - 2 ^ 31"

definition TTree_IsExist :: "('r, 'k) index_env \<Rightarrow> 'r \<Rightarrow> oid \<Rightarrow> ttree \<Rightarrow> int option" where
  \<comment> \<open>0 is \<^verbatim>\<open>FALSE\<close>\<close>
  "TTree_IsExist env rec record_id s =
     (case ie_key_create env rec of
        Inl e \<Rightarrow> Some 0
      | Inr key \<Rightarrow>
          do {
            (result, p1) \<leftarrow> TTree_Get_First_Eq env key s \<lparr>pos_node = 0, pos_idx = 0\<rparr>;
            if result < 0 then Some 0
            else do { i \<leftarrow> item_at p1 s; Some (if record_id \<noteq> NULL_OID \<and> i = record_id then 0 else to_int32 i) }
          })"

end
