(* ===== verification/TTreeWalk.thy ===== *)
theory TTreeWalk
  imports TTreeSearch TTreePlace
begin

section \<open>Walking through an index\<close>

text \<open>
  The nodes of a tree in key order are the list \<open>chunks\<close>, and a position is a split of the list of
  entries (\<open>at_pos\<close>).  Then the next and the previous node and position, offsets and counts are what they are
  for lists.
\<close>

subsection \<open>Nodes in key order\<close>

fun chunks :: "tt \<Rightarrow> (oid \<times> oid list) list" where
  "chunks Tip = []"
| "chunks (Bin l p k xs r) = chunks l @ (p, xs) # chunks r"

fun chunks_before :: "frame list \<Rightarrow> (oid \<times> oid list) list" where
  "chunks_before [] = []"
| "chunks_before (LeftHole p k xs r # c) = chunks_before c"
| "chunks_before (RightHole l p k xs # c) = chunks_before c @ chunks l @ [(p, xs)]"

fun chunks_after :: "frame list \<Rightarrow> (oid \<times> oid list) list" where
  "chunks_after [] = []"
| "chunks_after (LeftHole p k xs r # c) = (p, xs) # chunks r @ chunks_after c"
| "chunks_after (RightHole l p k xs # c) = chunks_after c"

abbreviation items :: "(oid \<times> oid list) list \<Rightarrow> oid list" where "items cs \<equiv> concat (map snd cs)"

definition first_oid :: "(oid \<times> oid list) list \<Rightarrow> oid" where
  "first_oid cs = (if cs = [] then 0 else fst (hd cs))"

definition last_oid :: "(oid \<times> oid list) list \<Rightarrow> oid" where
  "last_oid cs = (if cs = [] then 0 else fst (List.last cs))"

lemma first_oid_simps [simp]: "first_oid [] = 0" "first_oid (x # cs) = fst x" "last_oid [] = 0" "last_oid (cs @ [x]) = fst x"
  "last_oid (cs @ x # ds) = last_oid (x # ds)" "last_oid [x] = fst x"
  by (simp_all add: first_oid_def last_oid_def)

lemma first_oid_append: "first_oid (cs @ ds) = (if cs = [] then first_oid ds else first_oid cs)"
  "last_oid (cs @ ds) = (if ds = [] then last_oid cs else last_oid ds)"
  by (simp_all add: first_oid_def last_oid_def)

lemma chunks_plug: "chunks (plug c t) = chunks_before c @ chunks t @ chunks_after c"
  by (induction c arbitrary: t rule: chunks_before.induct) simp_all

lemma chunks_maps [simp]: "map fst (chunks t) = oids t" "items (chunks t) = entries t"
  by (induction t) simp_all

lemma chunks_Nil [simp]: "chunks t = [] \<longleftrightarrow> t = Tip"
  by (cases t) simp_all

lemma items_path [simp]: "items (chunks_before c) = before c" "items (chunks_after c) = after c"
  by (induction c rule: before.induct) simp_all

lemma zip_exists: "p \<in> set (oids t) \<Longrightarrow> \<exists>c l k xs r. plug d t = plug c (Bin l p k xs r)"
proof (induction t arbitrary: d)
  case (Bin l q k xs r)
  consider "p = q" | "p \<in> set (oids l)" | "p \<in> set (oids r)" using Bin.prems by auto
  then show ?case
  proof cases
    case 1
    then show ?thesis by blast
  next
    case 2
    from Bin.IH(1) [OF this, of "LeftHole q k xs r # d"] show ?thesis by simp
  next
    case 3
    from Bin.IH(2) [OF this, of "RightHole l q k xs # d"] show ?thesis by simp
  qed
qed simp

lemma split_unique:
  "A @ (p, x) # B = A' @ (p, y) # B' \<Longrightarrow> distinct (map fst (A @ (p, x) # B)) \<Longrightarrow> A = A' \<and> x = y \<and> B = B'"
proof (induction A arbitrary: A')
  case Nil
  then show ?case by (cases A') auto
next
  case (Cons a A)
  show ?case
  proof (cases A')
    case Nil
    with Cons.prems show ?thesis by auto
  next
    case (Cons b A'')
    with Cons.prems Cons.IH [of A''] show ?thesis by simp
  qed
qed

lemma node_split:
  assumes idx: "index_ok s t" and cs: "chunks t = A @ (p, xs) # B"
  obtains c l k r where "t = plug c (Bin l p k xs r)" "zip_at s c (Bin l p k xs r)"
    "A = chunks_before c @ chunks l" "B = chunks r @ chunks_after c"
proof -
  have "p \<in> set (oids t)" using cs by (simp flip: chunks_maps(1))
  from zip_exists [OF this, of "[]"] obtain c l k ys r where t: "t = plug c (Bin l p k ys r)" by auto
  have dist: "distinct (map fst (A @ (p, xs) # B))" using idx cs by (simp flip: cs add: index_ok_def zip_at_def)
  have "A @ (p, xs) # B = (chunks_before c @ chunks l) @ (p, ys) # (chunks r @ chunks_after c)"
    using cs unfolding t by (simp add: chunks_plug)
  from split_unique [OF this dist] t idx that show ?thesis by (simp add: index_ok_zip)
qed

lemma chunk_node:
  assumes "index_ok s t" and "chunks t = A @ (p, xs) # B"
  obtains nd where "deref p s = Some nd" "has_items nd xs" "tn_self nd = p" "tn_count nd = int (length xs)" "p \<noteq> 0" "xs \<noteq> []"
proof -
  from node_split [OF assms] obtain c l k r where t: "t = plug c (Bin l p k xs r)" and z: "zip_at s c (Bin l p k xs r)" by metis
  then have a: "node_at (nodes s) p (par c) (side c) (ptr l) k xs (ptr r)" by (simp add: zip_at_def)
  then have p: "p \<noteq> 0" by (simp add: node_at_def valid_oid_def)
  have "xs \<noteq> []" using assms(1) t by (simp add: index_ok_zip no_empty_plug)
  moreover obtain nd where "deref p s = Some nd" "has_items nd xs" "tn_self nd = p"
    by (rule node_at_deref [OF a])
  ultimately show ?thesis using that p by (simp add: has_items_def)
qed

subsection \<open>The next and the previous node\<close>

lemma go_left_first: "tree_at (nodes s) q ty t \<Longrightarrow> t \<noteq> Tip \<Longrightarrow> go_left (ptr t) s = Some (first_oid (chunks t))"
proof (induction t arbitrary: q ty)
  case (Bin l p k xs r)
  then have a: "node_at (nodes s) p q ty (ptr l) k xs (ptr r)" and lt: "tree_at (nodes s) p LEFT_CHILD l" by simp_all
  obtain nd where nd: "deref p s = Some nd" "tn_left nd = ptr l" by (rule node_at_deref [OF a])
  show ?case
  proof (cases "l = Tip")
    case True
    with nd show ?thesis by (simp add: go_left.simps NULL_OID_def)
  next
    case False
    with lt have "ptr l \<noteq> 0" using ptr_null by blast
    with nd have "go_left p s = go_left (ptr l) s" by (subst go_left.simps) (simp add: NULL_OID_def ptr_point [OF lt])
    with Bin.IH(1) [OF lt False] False show ?thesis by (simp add: first_oid_append)
  qed
qed simp

lemma go_right_last: "tree_at (nodes s) q ty t \<Longrightarrow> t \<noteq> Tip \<Longrightarrow> go_right (ptr t) s = Some (last_oid (chunks t))"
proof (induction t arbitrary: q ty)
  case (Bin l p k xs r)
  then have a: "node_at (nodes s) p q ty (ptr l) k xs (ptr r)" and rt: "tree_at (nodes s) p RIGHT_CHILD r" by simp_all
  obtain nd where nd: "deref p s = Some nd" "tn_right nd = ptr r" by (rule node_at_deref [OF a])
  show ?case
  proof (cases "r = Tip")
    case True
    with nd show ?thesis by (simp add: go_right.simps NULL_OID_def)
  next
    case False
    with rt have "ptr r \<noteq> 0" using ptr_null by blast
    with nd have "go_right p s = go_right (ptr r) s" by (subst go_right.simps) (simp add: NULL_OID_def ptr_point [OF rt])
    with Bin.IH(2) [OF rt False] False show ?thesis
      using first_oid_append(2) [of "[(p, xs)]" "chunks r"] by simp
  qed
qed simp

lemma Glb_Lub_child:
  assumes "node_at (nodes s) p q ty (ptr l) k xs (ptr r)" and "tree_at (nodes s) p LEFT_CHILD l" and "tree_at (nodes s) p RIGHT_CHILD r"
  shows "TTree_GlbChild p s = Some (last_oid (chunks l))" "TTree_LubChild p s = Some (first_oid (chunks r))"
proof -
  obtain nd where nd: "deref p s = Some nd" "tn_left nd = ptr l" "tn_right nd = ptr r" by (rule node_at_deref [OF assms(1)])
  show "TTree_GlbChild p s = Some (last_oid (chunks l))"
    using nd go_right_last [OF assms(2)] ptr_null [OF assms(2)] ptr_point [OF assms(2)]
    by (cases "l = Tip") (simp_all add: TTree_GlbChild_def NULL_OID_def)
  show "TTree_LubChild p s = Some (first_oid (chunks r))"
    using nd go_left_first [OF assms(3)] ptr_null [OF assms(3)] ptr_point [OF assms(3)]
    by (cases "r = Tip") (simp_all add: TTree_LubChild_def NULL_OID_def)
qed

lemma up_ok:
  assumes "node_at (nodes s) p (par c) (side c) lp k xs rp" and "path_at (nodes s) rt p c"
  shows "up_right p s = Some (first_oid (chunks_after c))" "up_left p s = Some (last_oid (chunks_before c))"
proof -
  have "up_right p s = Some (first_oid (chunks_after c)) \<and> up_left p s = Some (last_oid (chunks_before c))" using assms
  proof (induction c arbitrary: p lp k xs rp)
    case Nil
    obtain nd where "deref p s = Some nd" "tn_type nd = ROOT_NODE" by (rule node_at_deref [OF Nil(1)]) simp
    then show ?case by (simp add: up_right.simps up_left.simps)
  next
    case (Cons f c)
    obtain nd where nd: "deref p s = Some nd" "tn_type nd = side (f # c)" "tn_parent nd = par (f # c)"
      by (rule node_at_deref [OF Cons.prems(1)])
    show ?case
    proof (cases f)
      case f: (LeftHole q k' ys r)
      with Cons.prems(2) have q: "q \<noteq> 0" "Index_OID_Point q = q" by (auto simp: node_at_def valid_oid_def)
      from f Cons have "up_left q s = Some (last_oid (chunks_before c))" by auto
      with f nd q show ?thesis by (simp add: up_right.simps [of p] up_left.simps [of p])
    next
      case f: (RightHole l q k' ys)
      with Cons.prems(2) have q: "q \<noteq> 0" "Index_OID_Point q = q" by (auto simp: node_at_def valid_oid_def)
      from f Cons have "up_right q s = Some (first_oid (chunks_after c))" by auto
      with f nd q show ?thesis by (simp add: up_right.simps [of p] up_left.simps [of p] first_oid_append)
    qed
  qed
  then show "up_right p s = Some (first_oid (chunks_after c))" "up_left p s = Some (last_oid (chunks_before c))" by simp_all
qed

lemma NextNode_ok:
  assumes idx: "index_ok s t" and cs: "chunks t = A @ (p, xs) # B"
  shows "TTree_NextNode p s = Some (first_oid B)" "TTree_PrevNode p s = Some (last_oid A)"
proof -
  obtain c l k r where t: "t = plug c (Bin l p k xs r)" "zip_at s c (Bin l p k xs r)"
    and AB: "A = chunks_before c @ chunks l" "B = chunks r @ chunks_after c" by (rule node_split [OF idx cs])
  then have a: "node_at (nodes s) p (par c) (side c) (ptr l) k xs (ptr r)"
    and lr: "tree_at (nodes s) p LEFT_CHILD l" "tree_at (nodes s) p RIGHT_CHILD r" and path: "path_at (nodes s) (root s) p c"
    by (simp_all add: zip_at_def)
  obtain nd where nd: "deref p s = Some nd" "tn_left nd = ptr l" "tn_right nd = ptr r" "tn_type nd = side c" "tn_parent nd = par c"
    by (rule node_at_deref [OF a])
  note child = Glb_Lub_child [OF a lr] ptr_null [OF lr(1)] ptr_null [OF lr(2)]
  have up: "c \<noteq> [] \<Longrightarrow> par c \<noteq> 0 \<and> Index_OID_Point (par c) = par c"
    using par_point [OF path] par_null [OF path] by simp
  show "TTree_NextNode p s = Some (first_oid B)"
  proof (cases "r = Tip")
    case True
    show ?thesis
    proof (cases c)
      case Nil
      with True nd AB child show ?thesis by (simp add: TTree_NextNode_def NULL_OID_def)
    next
      case (Cons f c')
      show ?thesis
      proof (cases f)
        case (LeftHole q k' ys u)
        with True nd AB child up Cons show ?thesis by (simp add: TTree_NextNode_def NULL_OID_def)
      next
        case f: (RightHole u q k' ys)
        with Cons path have "up_right q s = Some (first_oid (chunks_after c'))" by (auto intro: up_ok(1))
        with f True nd AB child up Cons show ?thesis by (simp add: TTree_NextNode_def NULL_OID_def)
      qed
    qed
  next
    case False
    with nd AB child show ?thesis by (simp add: TTree_NextNode_def NULL_OID_def first_oid_append)
  qed
  show "TTree_PrevNode p s = Some (last_oid A)"
  proof (cases "l = Tip")
    case True
    show ?thesis
    proof (cases c)
      case Nil
      with True nd AB child show ?thesis by (simp add: TTree_PrevNode_def NULL_OID_def)
    next
      case (Cons f c')
      show ?thesis
      proof (cases f)
        case (RightHole u q k' ys)
        with True nd AB child up Cons show ?thesis by (simp add: TTree_PrevNode_def NULL_OID_def first_oid_append)
      next
        case f: (LeftHole q k' ys u)
        with Cons path have "up_left q s = Some (last_oid (chunks_before c'))" by (auto intro: up_ok(2))
        with f True nd AB child up Cons show ?thesis by (simp add: TTree_PrevNode_def NULL_OID_def)
      qed
    qed
  next
    case False
    with nd AB child show ?thesis by (simp add: TTree_PrevNode_def NULL_OID_def first_oid_append)
  qed
qed

lemma smallest_child_ok:
  "tree_at (nodes s) q ty t \<Longrightarrow> t \<noteq> Tip \<Longrightarrow> n + int (length (oids t)) \<le> tt_item_count s + 1 \<Longrightarrow>
   smallest_child (ptr t) n s = Some (first_oid (chunks t))"
proof (induction t arbitrary: q ty n)
  case (Bin l p k xs r)
  then have a: "node_at (nodes s) p q ty (ptr l) k xs (ptr r)" and lt: "tree_at (nodes s) p LEFT_CHILD l" by simp_all
  obtain nd where nd: "deref p s = Some nd" "tn_left nd = ptr l" by (rule node_at_deref [OF a])
  show ?case
  proof (cases "l = Tip")
    case True
    with nd show ?thesis by (simp add: smallest_child.simps NULL_OID_def)
  next
    case False
    then have "0 < length (oids l)" by (cases l) auto
    moreover from False lt have "ptr l \<noteq> 0" using ptr_null by blast
    ultimately have "smallest_child p n s = smallest_child (ptr l) (n + 1) s" using nd Bin.prems(3)
      by (subst smallest_child.simps) (simp add: NULL_OID_def ptr_point [OF lt])
    with Bin.IH(1) [OF lt False, of "n + 1"] Bin.prems(3) False show ?thesis by (simp add: first_oid_append)
  qed
qed simp

lemma SmallestChild_ok: "index_ok s t \<Longrightarrow> TTree_SmallestChild s = Some (first_oid (chunks t))"
proof -
  assume idx: "index_ok s t"
  then have t: "tree_at (nodes s) NULL_OID ROOT_NODE t" "root s = ptr t" "int (length (oids t)) \<le> tt_item_count s"
    by (simp_all add: index_ok_def zip_at_def)
  then show ?thesis
    using smallest_child_ok [OF t(1), of 0] ptr_null [OF t(1)] ptr_point [OF t(1)]
    by (cases "t = Tip") (simp_all add: TTree_SmallestChild_def)
qed

subsection \<open>Positions\<close>

definition at_pos :: "tt \<Rightarrow> TTreePosition \<Rightarrow> oid list \<Rightarrow> oid \<Rightarrow> oid list \<Rightarrow> bool" where
  \<comment> \<open>the position of the entry \<open>x\<close> between \<open>us\<close> and \<open>vs\<close>\<close>
  "at_pos t p us x vs \<longleftrightarrow>
     (\<exists>A ys zs B. chunks t = A @ (pos_node p, ys @ x # zs) # B \<and> pos_idx p = int (length ys) \<and>
        us = items A @ ys \<and> vs = zs @ items B)"

lemma at_posI:
  "chunks t = A @ (n, ys @ x # zs) # B \<Longrightarrow> us = items A @ ys \<Longrightarrow> vs = zs @ items B \<Longrightarrow>
   at_pos t \<lparr>pos_node = n, pos_idx = int (length ys)\<rparr> us x vs"
  unfolding at_pos_def by auto

lemma at_pos_entries: "at_pos t p us x vs \<Longrightarrow> entries t = us @ x # vs"
proof -
  assume "at_pos t p us x vs"
  then obtain A ys zs B where "chunks t = A @ (pos_node p, ys @ x # zs) # B" "us = items A @ ys" "vs = zs @ items B"
    unfolding at_pos_def by blast
  then show "entries t = us @ x # vs" by (simp flip: chunks_maps(2))
qed

lemma at_pos_item: "index_ok s t \<Longrightarrow> at_pos t p us x vs \<Longrightarrow> item_at p s = Some x \<and> pos_node p \<noteq> 0"
proof -
  assume idx: "index_ok s t" and "at_pos t p us x vs"
  then obtain A ys zs B where cs: "chunks t = A @ (pos_node p, ys @ x # zs) # B" "pos_idx p = int (length ys)"
    unfolding at_pos_def by blast
  obtain nd where nd: "deref (pos_node p) s = Some nd" "has_items nd (ys @ x # zs)" "pos_node p \<noteq> 0"
    by (rule chunk_node [OF idx cs(1)])
  with get_item_eq [OF nd(2), of "length ys"] cs(2) show ?thesis by (simp add: item_at_def)
qed

lemma two_splits: "A @ a # B = A' @ b # B' \<Longrightarrow> length A < length A' \<Longrightarrow> \<exists>D. A' = A @ a # D"
proof (induction A arbitrary: A')
  case Nil
  then show ?case by (cases A') auto
next
  case (Cons c A)
  then show ?case by (cases A') auto
qed

lemma same_position:
  assumes "at_pos t p us x vs" and "at_pos t q us y ws"
  shows "p = q"
proof -
  obtain A ys zs B where p: "chunks t = A @ (pos_node p, ys @ x # zs) # B" "pos_idx p = int (length ys)" "us = items A @ ys"
    using assms(1) unfolding at_pos_def by blast
  obtain A' ys' zs' B' where q: "chunks t = A' @ (pos_node q, ys' @ y # zs') # B'" "pos_idx q = int (length ys')" "us = items A' @ ys'"
    using assms(2) unfolding at_pos_def by blast
  note eq = trans [OF p(1) [symmetric] q(1)]
  have "\<not> length A < length A'"
  proof
    assume "length A < length A'"
    from two_splits [OF eq this] obtain D where "A' = A @ (pos_node p, ys @ x # zs) # D" ..
    with p(3) q(3) show False by simp
  qed
  moreover have "\<not> length A' < length A"
  proof
    assume "length A' < length A"
    from two_splits [OF eq [symmetric] this] obtain D where "A = A' @ (pos_node q, ys' @ y # zs') # D" ..
    with p(3) q(3) show False by simp
  qed
  ultimately have "length A = length A'" by simp
  with eq have "A = A'" "pos_node p = pos_node q" by simp_all
  with p q show ?thesis by simp
qed

lemma Increment_ok:
  assumes idx: "index_ok s t" and p: "at_pos t p us x vs"
  shows "case vs of [] \<Rightarrow> TTree_Increment s p = Some (DB_E_TTREEPOSITION, no_position p)
    | y # ws \<Rightarrow> \<exists>q. TTree_Increment s p = Some (DB_SUCCESS, q) \<and> at_pos t q (us @ [x]) y ws"
proof -
  obtain A ys zs B where cs: "chunks t = A @ (pos_node p, ys @ x # zs) # B" "pos_idx p = int (length ys)"
    and uv: "us = items A @ ys" "vs = zs @ items B" using p unfolding at_pos_def by blast
  obtain nd where nd: "deref (pos_node p) s = Some nd" "tn_count nd = int (length (ys @ x # zs))" "pos_node p \<noteq> 0"
    by (rule chunk_node [OF idx cs(1)])
  note succ = NextNode_ok(1) [OF idx cs(1)]
  show ?thesis
  proof (cases zs)
    case zs: (Cons y zs')
    have "at_pos t \<lparr>pos_node = pos_node p, pos_idx = int (length (ys @ [x]))\<rparr> (us @ [x]) y (zs' @ items B)"
      by (rule at_posI [where A = A and zs = zs' and B = B]) (use cs uv zs in simp_all)
    with nd uv cs zs show ?thesis by (cases p) (simp add: TTree_Increment_def add.commute)
  next
    case zs: Nil
    show ?thesis
    proof (cases B)
      case Nil
      with nd uv cs zs succ show ?thesis by (simp add: TTree_Increment_def no_position_def)
    next
      case (Cons b B')
      obtain n bs where b: "b = (n, bs)" by fastforce
      from cs zs Cons b have cs': "chunks t = (A @ [(pos_node p, ys @ [x])]) @ (n, bs) # B'" by simp
      obtain nd' where "n \<noteq> 0" "bs \<noteq> []" by (rule chunk_node [OF idx cs'])
      then obtain y bs' where bs: "bs = y # bs'" by (cases bs) auto
      have "at_pos t \<lparr>pos_node = n, pos_idx = 0\<rparr> (us @ [x]) y (bs' @ items B')"
        using at_posI [of t "A @ [(pos_node p, ys @ [x])]" n "[]" y bs' B'] cs' uv bs zs by simp
      with nd uv cs zs succ Cons b bs \<open>n \<noteq> 0\<close> show ?thesis by (simp add: TTree_Increment_def)
    qed
  qed
qed

lemma Decrement_ok:
  assumes idx: "index_ok s t" and p: "at_pos t p us x vs"
  shows "if us = [] then TTree_Decrement s p = Some (DB_FAIL 1483, no_position p)
    else \<exists>q. TTree_Decrement s p = Some (DB_SUCCESS, q) \<and> at_pos t q (butlast us) (List.last us) (x # vs)"
proof -
  obtain A ys zs B where cs: "chunks t = A @ (pos_node p, ys @ x # zs) # B" "pos_idx p = int (length ys)"
    and uv: "us = items A @ ys" "vs = zs @ items B" using p unfolding at_pos_def by blast
  obtain nd where nd: "deref (pos_node p) s = Some nd" "pos_node p \<noteq> 0" by (rule chunk_node [OF idx cs(1)])
  note prev = NextNode_ok(2) [OF idx cs(1)]
  show ?thesis
  proof (cases ys rule: rev_cases)
    case ys: (snoc ys' y)
    have "at_pos t \<lparr>pos_node = pos_node p, pos_idx = int (length ys')\<rparr> (items A @ ys') y (x # vs)"
      by (rule at_posI [where A = A and zs = "x # zs" and B = B]) (use cs uv ys in simp_all)
    with nd uv cs ys show ?thesis by (cases p) (simp add: TTree_Decrement_def butlast_append)
  next
    case ys: Nil
    show ?thesis
    proof (cases A rule: rev_cases)
      case Nil
      with nd uv cs ys prev show ?thesis by (simp add: TTree_Decrement_def no_position_def)
    next
      case (snoc A' a)
      obtain n bs where a: "a = (n, bs)" by fastforce
      from cs ys snoc a have cs': "chunks t = A' @ (n, bs) # ((pos_node p, x # zs) # B)" by simp
      obtain nd' where nd': "deref n s = Some nd'" "tn_count nd' = int (length bs)" "n \<noteq> 0" "bs \<noteq> []" by (rule chunk_node [OF idx cs'])
      then obtain bs' y where bs: "bs = bs' @ [y]" by (cases bs rule: rev_cases) auto
      have "at_pos t \<lparr>pos_node = n, pos_idx = int (length bs')\<rparr> (items A' @ bs') y (x # vs)"
        by (rule at_posI [where zs = "[]" and B = "(pos_node p, x # zs) # B"]) (use cs' uv bs in simp_all)
      with nd nd' uv cs ys prev snoc a bs show ?thesis by (simp add: TTree_Decrement_def butlast_append)
    qed
  qed
qed

subsection \<open>Offsets and counts\<close>

definition sought :: "tt \<Rightarrow> nat \<Rightarrow> TTreePosition \<Rightarrow> (int \<times> TTreePosition) option \<Rightarrow> bool" where
  "sought t n p res \<longleftrightarrow>
     (if n < length (entries t) then \<exists>q us x vs. res = Some (DB_SUCCESS, q) \<and> at_pos t q us x vs \<and> length us = n
      else res = Some (DB_E_CURSOROFFSET, p))"

lemma seek_offset_ok:
  assumes idx: "index_ok s t"
  shows "chunks t = A @ B \<Longrightarrow> length (items A) \<le> n \<Longrightarrow>
    sought t n p (seek_offset s p (int n) (int (length (items A))) (first_oid B))"
proof (induction B arbitrary: A)
  case Nil
  then have "entries t = items A" by (simp flip: chunks_maps(2))
  with Nil show ?case by (simp add: seek_offset.simps sought_def)
next
  case (Cons b B)
  obtain m xs where b: "b = (m, xs)" by fastforce
  with Cons.prems have cs: "chunks t = A @ (m, xs) # B" by simp
  then have len: "length (entries t) = length (items A) + length xs + length (items B)" by (simp flip: chunks_maps(2))
  obtain nd where nd: "deref m s = Some nd" "tn_count nd = int (length xs)" "m \<noteq> 0" by (rule chunk_node [OF idx cs])
  show ?case
  proof (cases "n < length (items A) + length xs")
    case True
    define i where "i = n - length (items A)"
    with True Cons.prems(2) have i: "i < length xs" "n = length (items A) + i" by simp_all
    have "chunks t = A @ (m, take i xs @ xs ! i # drop (Suc i) xs) # B" using cs i(1) by (simp add: id_take_nth_drop [symmetric])
    from at_posI [OF this refl refl] have "at_pos t \<lparr>pos_node = m, pos_idx = int i\<rparr> (items A @ take i xs) (xs ! i) (drop (Suc i) xs @ items B)"
      using i(1) by simp
    moreover have "seek_offset s p (int n) (int (length (items A))) m = Some (DB_SUCCESS, \<lparr>pos_node = m, pos_idx = int i\<rparr>)"
      using nd i by (simp add: seek_offset.simps)
    moreover have "length (items A @ take i xs) = n" using i by simp
    ultimately have "\<exists>q us x vs. seek_offset s p (int n) (int (length (items A))) m = Some (DB_SUCCESS, q) \<and> at_pos t q us x vs \<and> length us = n"
      by blast
    then show ?thesis using b len True by (simp add: sought_def)
  next
    case False
    then have "seek_offset s p (int n) (int (length (items A))) m =
        seek_offset s p (int n) (int (length (items (A @ [(m, xs)])))) (first_oid B)"
      using nd NextNode_ok(1) [OF idx cs] by (subst seek_offset.simps) simp
    with Cons.IH [of "A @ [(m, xs)]"] cs False b show ?thesis by simp
  qed
qed

lemma Seek_Offset_ok: "index_ok s t \<Longrightarrow> 0 \<le> n \<Longrightarrow> sought t (nat n) p (TTree_Seek_Offset s p n)"
  using seek_offset_ok [of s t "[]" "chunks t" "nat n" p] SmallestChild_ok [of s t] by (simp add: TTree_Seek_Offset_def)

lemma length_chunks: "length (chunks t) = length (oids t)"
  by (induction t) simp_all

lemma get_offset_ok:
  assumes idx: "index_ok s t" and cs: "chunks t = C @ (pos_node p, xs) # D"
  shows "chunks t = A @ B \<Longrightarrow> length A \<le> length C \<Longrightarrow>
    get_offset s p (int (length (items A))) (first_oid B) = Some (int (length (items C)) + pos_idx p)"
proof (induction B arbitrary: A)
  case Nil
  with cs show ?case by simp
next
  case (Cons b B)
  obtain m ys where b: "b = (m, ys)" by fastforce
  with Cons.prems have split: "chunks t = A @ (m, ys) # B" by simp
  obtain nd where nd: "deref m s = Some nd" "tn_count nd = int (length ys)" "m \<noteq> 0" by (rule chunk_node [OF idx split])
  have dist: "distinct (map fst (chunks t))" using idx by (simp add: index_ok_def zip_at_def)
  show ?case
  proof (cases "length A = length C")
    case True
    with split cs have "A = C" "m = pos_node p" by simp_all
    with nd b show ?thesis by (simp add: get_offset.simps)
  next
    case False
    with Cons.prems(2) have lt: "length A < length C" by simp
    from two_splits [OF trans [OF split [symmetric] cs] lt] obtain E where "C = A @ (m, ys) # E" ..
    with dist cs have "m \<noteq> pos_node p" by auto
    then have "get_offset s p (int (length (items A))) m = get_offset s p (int (length (items (A @ [(m, ys)])))) (first_oid B)"
      using nd NextNode_ok(1) [OF idx split] by (subst get_offset.simps) simp
    with Cons.IH [of "A @ [(m, ys)]"] split lt b show ?thesis by simp
  qed
qed

lemma Get_Offset_ok:
  assumes "index_ok s t" and "at_pos t p us x vs"
  shows "TTree_Get_Offset s p = Some (int (length us))"
proof -
  obtain A ys zs B where cs: "chunks t = A @ (pos_node p, ys @ x # zs) # B" "pos_idx p = int (length ys)" "us = items A @ ys"
    using assms(2) unfolding at_pos_def by blast
  then show ?thesis
    using get_offset_ok [OF assms(1) cs(1), of "[]" "chunks t"] SmallestChild_ok [OF assms(1)] by (simp add: TTree_Get_Offset_def)
qed

lemma node_count_loop_ok:
  assumes idx: "index_ok s t"
  shows "chunks t = A @ B \<Longrightarrow> node_count_loop s n (first_oid B) = Some (n + int (length B))"
proof (induction B arbitrary: A n)
  case Nil
  then show ?case by (simp add: node_count_loop.simps)
next
  case (Cons b B)
  obtain m ys where b: "b = (m, ys)" by fastforce
  with Cons.prems have split: "chunks t = A @ (m, ys) # B" by simp
  have "m \<noteq> 0" by (rule chunk_node [OF idx split])
  then have "node_count_loop s n m = node_count_loop s (n + 1) (first_oid B)"
    using NextNode_ok(1) [OF idx split] by (subst node_count_loop.simps) simp
  with Cons.IH [of "A @ [(m, ys)]" "n + 1"] split b show ?case by simp
qed

lemma Get_NodeCount_ok: "index_ok s t \<Longrightarrow> TTree_Get_NodeCount s = Some (int (length (oids t)))"
  using node_count_loop_ok [of s t "[]" "chunks t" 0] SmallestChild_ok [of s t] length_chunks [of t]
  by (simp add: TTree_Get_NodeCount_def)

lemma interval_loop_ok:
  assumes idx: "index_ok s t" and lp: "chunks t = C @ (pos_node lp, ys) # D"
  shows "chunks t = A @ (pos_node p, xs) # B \<Longrightarrow> length A \<le> length C \<Longrightarrow>
    interval_loop s lp n p = Some (n + int (length (items C)) + pos_idx lp - (int (length (items A)) + pos_idx p) + 1)"
proof (induction B arbitrary: A p n xs)
  case Nil
  have "length A = length C" using Nil(2) arg_cong [OF trans [OF lp [symmetric] Nil(1)], of length] by simp
  with trans [OF Nil(1) [symmetric] lp] have "A = C" "pos_node p = pos_node lp" by simp_all
  moreover have "pos_node p \<noteq> 0" by (rule chunk_node [OF idx Nil(1)])
  ultimately show ?case by (simp add: interval_loop.simps)
next
  case (Cons b B)
  obtain nd where nd: "deref (pos_node p) s = Some nd" "tn_count nd = int (length xs)" "pos_node p \<noteq> 0"
    by (rule chunk_node [OF idx Cons.prems(1)])
  have dist: "distinct (map fst (chunks t))" using idx by (simp add: index_ok_def zip_at_def)
  show ?case
  proof (cases "length A = length C")
    case True
    with trans [OF Cons.prems(1) [symmetric] lp] have "A = C" "pos_node p = pos_node lp" by simp_all
    with nd show ?thesis by (simp add: interval_loop.simps)
  next
    case False
    with Cons.prems(2) have lt: "length A < length C" by simp
    from two_splits [OF trans [OF Cons.prems(1) [symmetric] lp] lt] obtain E where "C = A @ (pos_node p, xs) # E" ..
    with dist lp have "pos_node p \<noteq> pos_node lp" by auto
    moreover obtain m zs where b: "b = (m, zs)" by fastforce
    ultimately have "interval_loop s lp n p = interval_loop s lp (n + (int (length xs) - pos_idx p)) \<lparr>pos_node = m, pos_idx = 0\<rparr>"
      using nd NextNode_ok(1) [OF idx Cons.prems(1)] by (subst interval_loop.simps) simp
    with Cons.IH [of "A @ [(pos_node p, xs)]" "\<lparr>pos_node = m, pos_idx = 0\<rparr>" zs] Cons.prems(1) b lt show ?thesis by simp
  qed
qed

lemma Get_ItemCount_Interval_ok:
  assumes idx: "index_ok s t" and p: "at_pos t p us x vs" and q: "at_pos t q us' y ws" and le: "length us \<le> length us'"
  shows "TTree_Get_ItemCount_Interval s p q TTREE_FORWARD_CURSOR = Some (int (length us') - int (length us) + 1)"
proof -
  obtain A ys zs B where p': "chunks t = A @ (pos_node p, ys @ x # zs) # B" "pos_idx p = int (length ys)" "us = items A @ ys"
    using p unfolding at_pos_def by blast
  obtain C ys' zs' D where q': "chunks t = C @ (pos_node q, ys' @ y # zs') # D" "pos_idx q = int (length ys')" "us' = items C @ ys'"
    using q unfolding at_pos_def by blast
  have "length A \<le> length C"
  proof (rule ccontr)
    assume "\<not> length A \<le> length C"
    then have "length C < length A" by simp
    from two_splits [OF trans [OF q'(1) [symmetric] p'(1)] this] obtain E where "A = C @ (pos_node q, ys' @ y # zs') # E" ..
    with p'(3) q'(3) le show False by simp
  qed
  from interval_loop_ok [OF idx q'(1) p'(1) this, of 0] p' q' show ?thesis by (simp add: TTree_Get_ItemCount_Interval_def)
qed

lemma has_items_take: "has_items nd xs \<Longrightarrow> take (nat (tn_count nd)) (tn_item nd) = xs"
  by (simp add: has_items_def)

definition id_sought :: "tt \<Rightarrow> oid \<Rightarrow> TTreePosition \<Rightarrow> (int \<times> TTreePosition) option \<Rightarrow> bool" where
  "id_sought t i p res \<longleftrightarrow>
     (if i \<in> set (entries t) then \<exists>q us vs. res = Some (DB_SUCCESS, q) \<and> at_pos t q us i vs
      else res = Some (DB_FAIL 93, no_position p))"

lemma find_exaustive_ok:
  assumes idx: "index_ok s t"
  shows "chunks t = A @ B \<Longrightarrow> i \<notin> set (items A) \<Longrightarrow> id_sought t i p (find_exaustive i s p (first_oid B))"
proof (induction B arbitrary: A)
  case Nil
  then have "entries t = items A" by (simp flip: chunks_maps(2))
  with Nil show ?case by (simp add: find_exaustive.simps id_sought_def)
next
  case (Cons b B)
  obtain m xs where b: "b = (m, xs)" by fastforce
  with Cons.prems have cs: "chunks t = A @ (m, xs) # B" by simp
  then have ent: "entries t = items A @ xs @ items B" by (simp flip: chunks_maps(2))
  obtain nd where nd: "deref m s = Some nd" "has_items nd xs" "m \<noteq> 0" by (rule chunk_node [OF idx cs])
  show ?case
  proof (cases "i \<in> set xs")
    case True
    from split_list_first [OF this] obtain ys zs where xs: "xs = ys @ i # zs" "i \<notin> set ys" by blast
    then have "takeWhile (\<lambda>j. j \<noteq> i) xs = ys" by (simp add: takeWhile_append)
    then have "find_exaustive i s p m = Some (DB_SUCCESS, \<lparr>pos_node = m, pos_idx = int (length ys)\<rparr>)"
      using nd xs by (simp add: find_exaustive.simps has_items_take del: length_take)
    moreover have "at_pos t \<lparr>pos_node = m, pos_idx = int (length ys)\<rparr> (items A @ ys) i (zs @ items B)"
      by (rule at_posI) (use cs xs in simp_all)
    ultimately show ?thesis using b ent True by (auto simp: id_sought_def)
  next
    case False
    then have tw: "takeWhile (\<lambda>j. j \<noteq> i) xs = xs" by (simp add: takeWhile_eq_all_conv) blast
    have "find_exaustive i s p m = find_exaustive i s p (first_oid B)"
      using nd NextNode_ok(1) [OF idx cs] by (subst find_exaustive.simps) (simp add: has_items_take tw del: length_take)
    with Cons.IH [of "A @ [(m, xs)]"] cs False Cons.prems(2) b show ?thesis by simp
  qed
qed

lemma FindPositionWithID_Exaustive_ok:
  "index_ok s t \<Longrightarrow> id_sought t i p (TTree_FindPositionWithID_Exaustive i s p)"
  using find_exaustive_ok [of s t "[]" "chunks t" i p] SmallestChild_ok [of s t] by (simp add: TTree_FindPositionWithID_Exaustive_def)

subsection \<open>The check of an index\<close>

lemma ptr_plug: "ptr (plug (f # c) u) \<in> set (path_oids (f # c))"
proof (induction c arbitrary: f u)
  case Nil
  then show ?case by (cases f) simp_all
next
  case (Cons g c)
  then show ?case using Cons.IH [of g "fill f u"] by simp
qed

lemma chunk_type:
  assumes idx: "index_ok s t" and cs: "chunks t = A @ (p, xs) # B"
  obtains nd where "deref p s = Some nd" "has_items nd xs" "tn_self nd = p" "TTreeNode_Type_Check p s = Some 0"
    "tn_type nd = ROOT_NODE \<longleftrightarrow> p = ptr t" "tn_type nd = LEFT_CHILD \<longrightarrow> first_oid B \<noteq> 0" "p \<noteq> 0"
proof -
  obtain c l k r where t: "t = plug c (Bin l p k xs r)" "zip_at s c (Bin l p k xs r)"
    and AB: "A = chunks_before c @ chunks l" "B = chunks r @ chunks_after c" by (rule node_split [OF idx cs])
  then have a: "node_at (nodes s) p (par c) (side c) (ptr l) k xs (ptr r)" and path: "path_at (nodes s) (root s) p c"
    and dist: "p \<notin> set (path_oids c)" by (auto simp: zip_at_def)
  obtain nd where nd: "deref p s = Some nd" "has_items nd xs" "tn_self nd = p" "tn_type nd = side c" "tn_parent nd = par c" "p \<noteq> 0"
    by (rule node_at_deref [OF a])
  have next_ok: "first_oid B \<noteq> 0" if "B \<noteq> []"
  proof -
    from that obtain b B' where B: "B = b # B'" by (cases B) auto
    with cs have "chunks t = (A @ [(p, xs)]) @ (fst b, snd b) # B'" by simp
    from chunk_node [OF idx this] have "fst b \<noteq> 0" by metis
    with B show ?thesis by simp
  qed
  show ?thesis
  proof (cases c)
    case Nil
    with nd t show ?thesis by (intro that [of nd]) (simp_all add: TTreeNode_Type_Check_def NULL_OID_def)
  next
    case (Cons f c')
    have neq: "p \<noteq> ptr t" using ptr_plug [of f c' "Bin l p k xs r"] dist unfolding t Cons by auto
    show ?thesis
    proof (cases f)
      case f: (LeftHole q k' ys u)
      with path Cons have "node_at (nodes s) q (par c') (side c') p k' ys (ptr u)" by simp
      then obtain pd where "deref q s = Some pd" "tn_left pd = p" "tn_self pd = q" "q \<noteq> 0" "Index_OID_Point q = q"
        by (rule node_at_deref)
      with nd Cons f neq next_ok AB show ?thesis by (intro that [of nd]) (simp_all add: TTreeNode_Type_Check_def)
    next
      case f: (RightHole u q k' ys)
      with path Cons have "node_at (nodes s) q (par c') (side c') (ptr u) k' ys p" by simp
      then obtain pd where "deref q s = Some pd" "tn_right pd = p" "tn_self pd = q" "q \<noteq> 0" "Index_OID_Point q = q"
        by (rule node_at_deref)
      with nd Cons f neq show ?thesis by (intro that [of nd]) (simp_all add: TTreeNode_Type_Check_def)
    qed
  qed
qed

lemma item_count_loop_ok:
  assumes idx: "index_ok s t" and good: "\<forall>i \<in> set (entries t). i \<noteq> NULL_OID \<and> \<not> bad i" and max: "int (length (entries t)) \<le> max_node"
  shows "chunks t = A @ B \<Longrightarrow> A \<noteq> [] \<or> B \<noteq> [] \<Longrightarrow>
    item_count_loop bad max_node s (if ptr t \<in> set (map fst A) then 1 else 0) 0 (int (length (items A))) (first_oid B) =
      Some (int (length (entries t)))"
proof (induction B arbitrary: A)
  case Nil
  then have "entries t = items A" "map fst A = oids t" "t \<noteq> Tip" by (auto simp flip: chunks_maps)
  then show ?case using ptr_in_oids [of t] by (simp add: item_count_loop.simps)
next
  case (Cons b B)
  obtain m xs where b: "b = (m, xs)" by fastforce
  with Cons.prems have cs: "chunks t = A @ (m, xs) # B" by simp
  then have ent: "entries t = items A @ xs @ items B" by (simp flip: chunks_maps(2))
  obtain nd where nd: "deref m s = Some nd" "has_items nd xs" "tn_self nd = m" "TTreeNode_Type_Check m s = Some 0"
    "tn_type nd = ROOT_NODE \<longleftrightarrow> m = ptr t" "tn_type nd = LEFT_CHILD \<longrightarrow> first_oid B \<noteq> 0" "m \<noteq> 0"
    by (rule chunk_type [OF idx cs])
  have ne: "xs \<noteq> []" by (rule chunk_node [OF idx cs])
  have count: "tn_count nd = int (length xs)" "length xs \<le> max_items" using nd(2) has_items_length [OF nd(2)] by (simp_all add: has_items_def)
  then have maxi: "\<not> tn_count nd > TNODE_MAX_ITEM" using max_items by simp
  have "distinct (map fst (chunks t))" using idx by (simp add: index_ok_def zip_at_def)
  with cs have new: "m \<notin> fst ` set A" by auto
  have last: "List.last xs \<noteq> NULL_OID" "\<not> (\<exists>i \<in> set xs. bad i)" using good ent ne by auto
  define ra :: int where "ra = (if ptr t \<in> set (map fst A) then 1 else 0)"
  define rb :: int where "rb = (if ptr t \<in> set (map fst (A @ [(m, xs)])) then 1 else 0)"
  have rb: "rb = (if tn_type nd = ROOT_NODE then ra + 1 else ra)" "\<not> rb > 1" using new nd(5) by (auto simp: ra_def rb_def)
  have "item_count_loop bad max_node s ra 0 (int (length (items A))) m =
      item_count_loop bad max_node s rb 0 (int (length (items A)) + int (length xs)) (first_oid B)"
  proof -
    have "\<not> int (length (items A)) + int (length xs) > max_node" using max ent by simp
    moreover have tk: "take (length xs) (tn_item nd) = xs" using nd(2) by (simp add: has_items_def)
    ultimately show ?thesis
      using nd(1,3,4,6,7) ne count maxi last rb(2) NextNode_ok(1) [OF idx cs]
      by (subst item_count_loop.simps) (auto simp: tk Let_def rb(1) [symmetric] simp del: take_eq_Nil)
  qed
  with Cons.IH [of "A @ [(m, xs)]", folded rb_def] cs b show ?case unfolding ra_def [symmetric] by simp
qed

lemma Get_ItemCount_ok:
  assumes idx: "index_ok s t" and good: "\<forall>i \<in> set (entries t). i \<noteq> NULL_OID \<and> \<not> bad i" and max: "int (length (entries t)) \<le> max_node"
  shows "TTree_Get_ItemCount bad max_node s = Some (int (length (entries t)))"
proof (cases "t = Tip")
  case True
  with idx have "root s = 0" by (simp add: index_ok_def zip_at_def)
  with True SmallestChild_ok [OF idx] show ?thesis by (simp add: TTree_Get_ItemCount_def)
next
  case False
  then obtain b B where b: "chunks t = b # B" by (cases "chunks t") auto
  with chunk_node [OF idx, of "[]" "fst b" "snd b" B] have "first_oid (chunks t) \<noteq> 0" by auto
  with item_count_loop_ok [OF assms, of "[]" "chunks t"] SmallestChild_ok [OF idx] False show ?thesis by (simp add: TTree_Get_ItemCount_def)
qed

end
