(* ===== verification/TTreeFind.thy ===== *)
theory TTreeFind
  imports TTreeWalk
begin

section \<open>What a search finds\<close>

text \<open>
  The comparison of the key with the entries is a profile that descends along the key order, as in
  \<open>TTreePlace\<close>.  Each search returns the position where the profile changes its sign, and no position if there
  is none.
\<close>

abbreviation key_cmp :: "('r, 'k) index_env \<Rightarrow> 'k \<Rightarrow> oid \<Rightarrow> int" where
  "key_cmp env key \<equiv> item_cmp env (ie_key_compare env key)"

lemmas key_comparisons =
  TTreeNode_CompKeyValWithItem_def TTreeNode_CompKeyValWithMinimum_def TTreeNode_CompKeyValWithMaximum_def

subsection \<open>Binary searches\<close>

declare scan_down.simps [simp del] scan_up.simps [simp del] ge_search.simps [simp del] le_search.simps [simp del]
  eq_search.simps [simp del]

definition profiled :: "(int \<Rightarrow> int option) \<Rightarrow> (int \<Rightarrow> int) \<Rightarrow> int \<Rightarrow> bool" where
  \<comment> \<open>\<open>cmp\<close> reads the profile \<open>g\<close> of \<open>n\<close> items\<close>
  "profiled cmp g n \<longleftrightarrow> (\<forall>m. 0 \<le> m \<and> m < n \<longrightarrow> cmp m = Some (g m)) \<and>
     (\<forall>i j. 0 \<le> i \<and> i \<le> j \<and> j < n \<longrightarrow> sgn (g j) \<le> sgn (g i))"

lemma profiledD:
  assumes "profiled cmp g n"
  shows "0 \<le> m \<Longrightarrow> m < n \<Longrightarrow> cmp m = Some (g m)"
    and "0 < g j \<Longrightarrow> 0 \<le> i \<Longrightarrow> i \<le> j \<Longrightarrow> j < n \<Longrightarrow> 0 < g i" and "0 \<le> g j \<Longrightarrow> 0 \<le> i \<Longrightarrow> i \<le> j \<Longrightarrow> j < n \<Longrightarrow> 0 \<le> g i"
    and "g i < 0 \<Longrightarrow> 0 \<le> i \<Longrightarrow> i \<le> j \<Longrightarrow> j < n \<Longrightarrow> g j < 0" and "g i \<le> 0 \<Longrightarrow> 0 \<le> i \<Longrightarrow> i \<le> j \<Longrightarrow> j < n \<Longrightarrow> g j \<le> 0"
proof -
  from assms have "\<forall>m. 0 \<le> m \<and> m < n \<longrightarrow> cmp m = Some (g m)"
    and le: "\<forall>i j. 0 \<le> i \<and> i \<le> j \<and> j < n \<longrightarrow> (0 \<le> g j \<longrightarrow> 0 \<le> g i) \<and> (0 < g j \<longrightarrow> 0 < g i)"
    unfolding profiled_def sgn_le by blast+
  then show "0 \<le> m \<Longrightarrow> m < n \<Longrightarrow> cmp m = Some (g m)" by blast
  show "0 < g j \<Longrightarrow> 0 \<le> i \<Longrightarrow> i \<le> j \<Longrightarrow> j < n \<Longrightarrow> 0 < g i" "0 \<le> g j \<Longrightarrow> 0 \<le> i \<Longrightarrow> i \<le> j \<Longrightarrow> j < n \<Longrightarrow> 0 \<le> g i"
    using le by blast+
  show "g i < 0 \<Longrightarrow> 0 \<le> i \<Longrightarrow> i \<le> j \<Longrightarrow> j < n \<Longrightarrow> g j < 0" "g i \<le> 0 \<Longrightarrow> 0 \<le> i \<Longrightarrow> i \<le> j \<Longrightarrow> j < n \<Longrightarrow> g j \<le> 0"
    using le by force+
qed

lemma scan_down_ok:
  assumes pr: "profiled cmp g n" and f: "0 \<le> f" "\<And>j. 0 \<le> j \<Longrightarrow> j < f \<Longrightarrow> 0 < g j"
    and m: "f \<le> m + 1" "m + 1 < n" "g (m + 1) = 0"
  shows "\<exists>r. scan_down cmp f m = Some r \<and> f \<le> r + 1 \<and> r \<le> m \<and> g (r + 1) = 0 \<and> (\<forall>j. 0 \<le> j \<and> j \<le> r \<longrightarrow> 0 < g j)"
  using m
proof (induction "nat (m - f + 1)" arbitrary: m rule: less_induct)
  case less
  show ?case
  proof (cases "f \<le> m")
    case True
    with less.prems f have m: "0 \<le> m" "m < n" by simp_all
    show ?thesis
    proof (cases "g m = 0")
      case z: True
      with True less.prems m have "\<exists>r. scan_down cmp f (m - 1) = Some r \<and> f \<le> r + 1 \<and> r \<le> m - 1 \<and> g (r + 1) = 0 \<and> (\<forall>j. 0 \<le> j \<and> j \<le> r \<longrightarrow> 0 < g j)"
        by (intro less.hyps) simp_all
      moreover have "scan_down cmp f m = scan_down cmp f (m - 1)"
        using True z profiledD(1) [OF pr m] by (simp add: scan_down.simps [of cmp f m])
      ultimately show ?thesis by auto
    next
      case nz: False
      have "0 \<le> g m" using profiledD(3) [OF pr, of "m + 1" m] less.prems m by simp
      with nz have "0 < g m" by simp
      then have "\<forall>j. 0 \<le> j \<and> j \<le> m \<longrightarrow> 0 < g j" using profiledD(2) [OF pr, of m] m by blast
      with nz less.prems True profiledD(1) [OF pr m] show ?thesis by (simp add: scan_down.simps [of cmp f m])
    qed
  next
    case False
    with less.prems f show ?thesis by (simp add: scan_down.simps [of cmp f m])
  qed
qed

lemma scan_up_ok:
  assumes pr: "profiled cmp g n" and t: "t < n" "\<And>j. t < j \<Longrightarrow> j < n \<Longrightarrow> g j < 0"
    and m: "m \<le> t + 1" "0 < m" "g (m - 1) = 0"
  shows "\<exists>r. scan_up cmp m t = Some r \<and> m \<le> r \<and> r \<le> t + 1 \<and> g (r - 1) = 0 \<and> (\<forall>j. r \<le> j \<and> j < n \<longrightarrow> g j < 0)"
  using m
proof (induction "nat (t - m + 1)" arbitrary: m rule: less_induct)
  case less
  show ?case
  proof (cases "m \<le> t")
    case True
    with less.prems t have m: "0 \<le> m" "m < n" by simp_all
    show ?thesis
    proof (cases "g m = 0")
      case z: True
      with True less.prems m have "\<exists>r. scan_up cmp (m + 1) t = Some r \<and> m + 1 \<le> r \<and> r \<le> t + 1 \<and> g (r - 1) = 0 \<and> (\<forall>j. r \<le> j \<and> j < n \<longrightarrow> g j < 0)"
        by (intro less.hyps) simp_all
      moreover have "scan_up cmp m t = scan_up cmp (m + 1) t"
        using True z profiledD(1) [OF pr m] by (simp add: scan_up.simps [of cmp m t])
      ultimately show ?thesis by auto
    next
      case nz: False
      have "g m \<le> 0" using profiledD(5) [OF pr, of "m - 1" m] less.prems m by simp
      with nz have "g m < 0" by simp
      then have "\<forall>j. m \<le> j \<and> j < n \<longrightarrow> g j < 0" using profiledD(4) [OF pr, of m] m by blast
      with nz less.prems True profiledD(1) [OF pr m] show ?thesis by (simp add: scan_up.simps [of cmp m t])
    qed
  next
    case False
    with less.prems t show ?thesis by (auto simp: scan_up.simps [of cmp m t])
  qed
qed

lemma ge_search_ok:
  assumes pr: "profiled cmp g n" and last: "g (n - 1) \<le> 0"
    and f: "0 < f" "f \<le> t" "t < n" "0 < g (f - 1)" and t: "\<And>j. t < j \<Longrightarrow> j < n \<Longrightarrow> g j \<le> 0"
  shows "\<exists>ret i. ge_search cmp f t = Some (Some (ret, i)) \<and> 0 \<le> i \<and> i < n \<and> g i \<le> 0 \<and> (\<forall>j. 0 \<le> j \<and> j < i \<longrightarrow> 0 < g j) \<and>
    (ret = DB_SUCCESS \<or> ret = DB_W_ITEMMORETHANKEY \<and> g i \<noteq> 0)"
  using f t
proof (induction "nat (t - f + 1)" arbitrary: f t rule: less_induct)
  case less
  define m where "m = (f + t) div 2"
  have m: "f \<le> m" "m \<le> t" "0 \<le> m" "m < n" "f < t \<Longrightarrow> m < t" using less.prems by (auto simp: m_def)
  note cmp = profiledD(1) [OF pr m(3,4)]
  note step = ge_search.simps [of cmp f t, folded m_def]
  have pos: "\<And>j. 0 \<le> j \<Longrightarrow> j < f \<Longrightarrow> 0 < g j" using profiledD(2) [OF pr less.prems(4)] less.prems by simp
  consider "g m = 0" | "0 < g m" | "g m < 0" by linarith
  then show ?case
  proof cases
    case 1
    have "\<exists>r. scan_down cmp f (m - 1) = Some r \<and> f \<le> r + 1 \<and> r \<le> m - 1 \<and> g (r + 1) = 0 \<and> (\<forall>j. 0 \<le> j \<and> j \<le> r \<longrightarrow> 0 < g j)"
      by (rule scan_down_ok [OF pr]) (use pos less.prems m 1 in auto)
    with less.prems m cmp 1 show ?thesis by (auto simp: step m_def [symmetric])
  next
    case 2
    show ?thesis
    proof (cases "f = t")
      case True
      with m have mt: "m = t" by simp
      with 2 last less.prems have "t \<noteq> n - 1" by auto
      with less.prems mt have "t + 1 < n" "g (t + 1) \<le> 0" by simp_all
      moreover have "\<forall>j. 0 \<le> j \<and> j < t + 1 \<longrightarrow> 0 < g j" using profiledD(2) [OF pr 2] m mt by simp
      moreover have "ge_search cmp f t = Some (Some (DB_SUCCESS, t + 1))" using cmp 2 True mt by (subst step) simp
      ultimately show ?thesis using less.prems True by simp
    next
      case False
      with less.prems m have "\<exists>ret i. ge_search cmp (m + 1) t = Some (Some (ret, i)) \<and> 0 \<le> i \<and> i < n \<and> g i \<le> 0 \<and>
          (\<forall>j. 0 \<le> j \<and> j < i \<longrightarrow> 0 < g j) \<and> (ret = DB_SUCCESS \<or> ret = DB_W_ITEMMORETHANKEY \<and> g i \<noteq> 0)"
        using 2 by (intro less.hyps) simp_all
      moreover have "ge_search cmp f t = ge_search cmp (m + 1) t" using less.prems cmp 2 False by (simp add: step m_def [symmetric])
      ultimately show ?thesis by simp
    qed
  next
    case 3
    show ?thesis
    proof (cases "f = t \<or> f = m")
      case True
      have "ge_search cmp f t = Some (Some (DB_W_ITEMMORETHANKEY, m))" using cmp 3 True less.prems by (subst step) simp
      moreover from True m have "f = m" by auto
      ultimately show ?thesis using 3 m pos by simp
    next
      case False
      have "\<And>j. m - 1 < j \<Longrightarrow> j < n \<Longrightarrow> g j \<le> 0" using profiledD(5) [OF pr, of m] 3 m by simp
      with False less.prems m have "\<exists>ret i. ge_search cmp f (m - 1) = Some (Some (ret, i)) \<and> 0 \<le> i \<and> i < n \<and> g i \<le> 0 \<and>
          (\<forall>j. 0 \<le> j \<and> j < i \<longrightarrow> 0 < g j) \<and> (ret = DB_SUCCESS \<or> ret = DB_W_ITEMMORETHANKEY \<and> g i \<noteq> 0)"
        by (intro less.hyps) simp_all
      moreover have "ge_search cmp f t = ge_search cmp f (m - 1)" using less.prems cmp 3 False by (simp add: step m_def [symmetric])
      ultimately show ?thesis by simp
    qed
  qed
qed

lemma le_search_ok:
  assumes pr: "profiled cmp g n" and first: "0 \<le> g 0"
    and f: "0 \<le> f" "f \<le> t" "t < n - 1" "\<And>j. 0 \<le> j \<Longrightarrow> j < f \<Longrightarrow> 0 \<le> g j" and t: "g (t + 1) < 0"
  shows "\<exists>i. le_search cmp f t = Some (Some i) \<and> 0 \<le> i \<and> i < n \<and> 0 \<le> g i \<and> (\<forall>j. i < j \<and> j < n \<longrightarrow> g j < 0)"
  using f t
proof (induction "nat (t - f + 1)" arbitrary: f t rule: less_induct)
  case less
  define m where "m = (f + t) div 2"
  have m: "f \<le> m" "m \<le> t" "0 \<le> m" "m < n" "f < t \<Longrightarrow> m < t" using less.prems by (auto simp: m_def)
  note cmp = profiledD(1) [OF pr m(3,4)]
  note step = le_search.simps [of cmp f t, folded m_def]
  have neg: "\<And>j. t < j \<Longrightarrow> j < n \<Longrightarrow> g j < 0" using profiledD(4) [OF pr less.prems(5)] less.prems by simp
  consider "g m = 0" | "0 < g m" | "g m < 0" by linarith
  then show ?case
  proof cases
    case 1
    have "\<exists>r. scan_up cmp (m + 1) t = Some r \<and> m + 1 \<le> r \<and> r \<le> t + 1 \<and> g (r - 1) = 0 \<and> (\<forall>j. r \<le> j \<and> j < n \<longrightarrow> g j < 0)"
      by (rule scan_up_ok [OF pr]) (use neg less.prems m 1 in auto)
    with less.prems m cmp 1 show ?thesis by (auto simp: step m_def [symmetric])
  next
    case 2
    show ?thesis
    proof (cases "f = t")
      case True
      with m have mt: "m = t" by simp
      have "le_search cmp f t = Some (Some t)" using cmp 2 True mt by (subst step) simp
      with less.prems 2 True neg mt show ?thesis by simp
    next
      case False
      have "\<And>j. 0 \<le> j \<Longrightarrow> j < m + 1 \<Longrightarrow> 0 \<le> g j" using profiledD(3) [OF pr, of m] 2 m by simp
      with False less.prems m have "\<exists>i. le_search cmp (m + 1) t = Some (Some i) \<and> 0 \<le> i \<and> i < n \<and> 0 \<le> g i \<and> (\<forall>j. i < j \<and> j < n \<longrightarrow> g j < 0)"
        by (intro less.hyps) simp_all
      moreover have "le_search cmp f t = le_search cmp (m + 1) t" using less.prems cmp 2 False by (simp add: step m_def [symmetric])
      ultimately show ?thesis by simp
    qed
  next
    case 3
    show ?thesis
    proof (cases "f = t \<or> f = m")
      case True
      have run: "le_search cmp f t = Some (Some (m - 1))" using cmp 3 True less.prems by (subst step) simp
      from True m have fm: "f = m" by auto
      with first 3 have "m \<noteq> 0" by auto
      with m fm less.prems have "0 \<le> m - 1" "0 \<le> g (m - 1)" by simp_all
      moreover have "\<forall>j. m - 1 < j \<and> j < n \<longrightarrow> g j < 0" using profiledD(4) [OF pr 3] m by simp
      ultimately show ?thesis using run m by simp
    next
      case False
      with less.prems m 3 have "\<exists>i. le_search cmp f (m - 1) = Some (Some i) \<and> 0 \<le> i \<and> i < n \<and> 0 \<le> g i \<and> (\<forall>j. i < j \<and> j < n \<longrightarrow> g j < 0)"
        by (intro less.hyps) simp_all
      moreover have "le_search cmp f t = le_search cmp f (m - 1)" using less.prems cmp 3 False by (simp add: step m_def [symmetric])
      ultimately show ?thesis by simp
    qed
  qed
qed

lemma eq_search_ok:
  assumes pr: "profiled cmp g n"
    and found: "\<And>f t m. 0 \<le> f \<Longrightarrow> f \<le> m \<Longrightarrow> m \<le> t \<Longrightarrow> t < n \<Longrightarrow> (\<And>j. 0 \<le> j \<Longrightarrow> j < f \<Longrightarrow> 0 < g j) \<Longrightarrow>
      (\<And>j. t < j \<Longrightarrow> j < n \<Longrightarrow> g j < 0) \<Longrightarrow> g m = 0 \<Longrightarrow> \<exists>i. found f t m = Some i \<and> P i"
    and f: "0 \<le> f" "t < n" "\<And>j. 0 \<le> j \<Longrightarrow> j < f \<Longrightarrow> 0 < g j" and t: "\<And>j. t < j \<Longrightarrow> j < n \<Longrightarrow> g j < 0"
  shows "if \<exists>j. 0 \<le> j \<and> j < n \<and> g j = 0 then \<exists>i. eq_search found cmp f t = Some (Some i) \<and> P i
    else eq_search found cmp f t = Some None"
  using f t
proof (induction "nat (t - f + 1)" arbitrary: f t rule: less_induct)
  case less
  show ?case
  proof (cases "f > t")
    case True
    have "g j \<noteq> 0" if "0 \<le> j" "j < n" for j
      using less.prems(3) [OF that(1)] less.prems(4) [OF _ that(2)] True by (cases "j < f") auto
    with True show ?thesis by (auto simp: eq_search.simps)
  next
    case False
    define m where "m = (f + t) div 2"
    have m: "f \<le> m" "m \<le> t" "0 \<le> m" "m < n" using less.prems False by (auto simp: m_def)
    note cmp = profiledD(1) [OF pr m(3,4)]
    note step = eq_search.simps [of found cmp f t, folded m_def]
    consider "g m = 0" | "0 < g m" | "g m < 0" by linarith
    then show ?thesis
    proof cases
      case 1
      from found [OF less.prems(1) m(1,2) less.prems(2,3,4) 1] obtain i where "found f t m = Some i" "P i" by blast
      with False cmp 1 m show ?thesis by (auto simp: step m_def [symmetric])
    next
      case 2
      have "eq_search found cmp f t = eq_search found cmp (m + 1) t" using False cmp 2 by (simp add: step m_def [symmetric])
      moreover have "\<And>j. 0 \<le> j \<Longrightarrow> j < m + 1 \<Longrightarrow> 0 < g j" using profiledD(2) [OF pr 2] m by simp
      ultimately show ?thesis using less.hyps [of t "m + 1"] less.prems m False by simp
    next
      case 3
      have "eq_search found cmp f t = eq_search found cmp f (m - 1)" using False cmp 3 by (simp add: step m_def [symmetric])
      moreover have "\<And>j. m - 1 < j \<Longrightarrow> j < n \<Longrightarrow> g j < 0" using profiledD(4) [OF pr 3] m by simp
      ultimately show ?thesis using less.hyps [of "m - 1" f] less.prems m False by simp
    qed
  qed
qed


subsection \<open>A node and its neighbours\<close>

lemma index_node:
  assumes idx: "index_ok s (plug c (Bin l p k xs r))"
  obtains nd where "deref p s = Some nd" "has_items nd xs" "tn_count nd = int (length xs)" "p \<noteq> 0" "xs \<noteq> []"
    "tn_left nd = ptr l" "tn_right nd = ptr r" "Index_OID_Point (ptr l) = ptr l" "Index_OID_Point (ptr r) = ptr r"
    "TTree_GlbChild p s = Some (last_oid (chunks l))" "TTree_LubChild p s = Some (first_oid (chunks r))"
proof -
  from idx have z: "zip_at s c (Bin l p k xs r)" and ne: "xs \<noteq> []" by (simp_all add: index_ok_zip no_empty_plug)
  then have a: "node_at (nodes s) p (par c) (side c) (ptr l) k xs (ptr r)" and l: "tree_at (nodes s) p LEFT_CHILD l"
    and r: "tree_at (nodes s) p RIGHT_CHILD r" by (simp_all add: zip_at_def)
  then have "p \<noteq> 0" by (simp add: node_at_def valid_oid_def)
  moreover obtain nd where "deref p s = Some nd" "has_items nd xs" "tn_left nd = ptr l" "tn_right nd = ptr r"
    by (rule node_at_deref [OF a])
  ultimately show ?thesis using that [of nd] ne Glb_Lub_child [OF a l r] ptr_point [OF l] ptr_point [OF r]
    by (simp add: has_items_def)
qed

lemma glb_maximum:
  assumes idx: "index_ok s (plug c (Bin l p k xs r))" and l: "l \<noteq> Tip"
  obtains g where "deref (last_oid (chunks l)) s = Some g" "last_oid (chunks l) \<noteq> 0"
    "comp_item env cmp g (tn_count g - 1) = Some (item_cmp env cmp (List.last (entries l)))" "entries l \<noteq> []"
proof -
  obtain A b where A: "chunks l = A @ [b]" using l by (cases "chunks l" rule: rev_cases) auto
  obtain n ys where b: "b = (n, ys)" by fastforce
  have "chunks (plug c (Bin l p k xs r)) = (chunks_before c @ A) @ (n, ys) # (p, xs) # chunks r @ chunks_after c"
    by (simp add: chunks_plug A b)
  then obtain nd where nd: "deref n s = Some nd" "has_items nd ys" "n \<noteq> 0" "ys \<noteq> []" by (rule chunk_node [OF idx])
  have e: "entries l = items A @ ys" by (simp add: A b flip: chunks_maps(2))
  have "comp_item env cmp nd (tn_count nd - 1) = Some (item_cmp env cmp (List.last (entries l)))"
    using comp_item_at(3) [OF nd(2,4)] nd(4) by (simp add: e)
  then show ?thesis using that [of nd] nd A b e by simp
qed

lemma lub_minimum:
  assumes idx: "index_ok s (plug c (Bin l p k xs r))" and r: "r \<noteq> Tip"
  obtains g where "deref (first_oid (chunks r)) s = Some g" "first_oid (chunks r) \<noteq> 0"
    "comp_item env cmp g 0 = Some (item_cmp env cmp (hd (entries r)))" "entries r \<noteq> []"
proof -
  obtain b B where B: "chunks r = b # B" using r by (cases "chunks r") auto
  obtain n ys where b: "b = (n, ys)" by fastforce
  have "chunks (plug c (Bin l p k xs r)) = (chunks_before c @ chunks l @ [(p, xs)]) @ (n, ys) # B @ chunks_after c"
    by (simp add: chunks_plug B b)
  then obtain nd where nd: "deref n s = Some nd" "has_items nd ys" "n \<noteq> 0" "ys \<noteq> []" by (rule chunk_node [OF idx])
  have e: "entries r = ys @ items B" by (simp add: B b flip: chunks_maps(2))
  have "comp_item env cmp nd 0 = Some (item_cmp env cmp (hd (entries r)))"
    using comp_item_at(2) [OF nd(2,4)] nd(4) by (simp add: e)
  then show ?thesis using that [of nd] nd B b e by simp
qed

lemma at_node_pos:
  assumes "i < length xs"
  shows "at_pos (plug c (Bin l p k xs r)) \<lparr>pos_node = p, pos_idx = int i\<rparr>
    (before c @ entries l @ take i xs) (xs ! i) (drop (Suc i) xs @ entries r @ after c)"
  using at_posI [of "plug c (Bin l p k xs r)" "chunks_before c @ chunks l" p "take i xs" "xs ! i" "drop (Suc i) xs"
      "chunks r @ chunks_after c" "before c @ entries l @ take i xs" "drop (Suc i) xs @ entries r @ after c"] assms
  by (simp add: chunks_plug id_take_nth_drop [symmetric])

lemma profiled_items:
  assumes "has_items nd xs" and "descending (item_cmp env cmp) xs"
  shows "profiled (comp_item env cmp nd) (\<lambda>m. item_cmp env cmp (xs ! nat m)) (int (length xs))"
  unfolding profiled_def
proof (intro conjI allI impI)
  fix m assume "0 \<le> m \<and> m < int (length xs)"
  then have m: "nat m < length xs" "int (nat m) = m" by auto
  show "comp_item env cmp nd m = Some (item_cmp env cmp (xs ! nat m))" using comp_item_at(1) [OF assms(1) m(1)] m(2) by simp
next
  fix i j assume "0 \<le> i \<and> i \<le> j \<and> j < int (length xs)"
  then have "nat i \<le> nat j" "nat j < length xs" by auto
  then show "sgn (item_cmp env cmp (xs ! nat j)) \<le> sgn (item_cmp env cmp (xs ! nat i))" by (rule descending_nth [OF assms(2)])
qed

definition first_entry :: "tt \<Rightarrow> (oid \<Rightarrow> bool) \<Rightarrow> TTreePosition \<Rightarrow> bool" where
  "first_entry t P q \<longleftrightarrow> (\<exists>us x vs. at_pos t q us x vs \<and> P x \<and> (\<forall>y \<in> set us. \<not> P y))"

definition last_entry :: "tt \<Rightarrow> (oid \<Rightarrow> bool) \<Rightarrow> TTreePosition \<Rightarrow> bool" where
  "last_entry t P q \<longleftrightarrow> (\<exists>us x vs. at_pos t q us x vs \<and> P x \<and> (\<forall>y \<in> set vs. \<not> P y))"

lemma first_entry_at:
  assumes "i < length xs" and "P (xs ! i)" and "\<And>j. j < i \<Longrightarrow> \<not> P (xs ! j)" and "\<forall>y \<in> set (before c @ entries l). \<not> P y"
  shows "first_entry (plug c (Bin l p k xs r)) P \<lparr>pos_node = p, pos_idx = int i\<rparr>"
proof -
  have "\<forall>y \<in> set (take i xs). \<not> P y" using assms(3) by (auto simp: in_set_conv_nth)
  with at_node_pos [OF assms(1), of c l p k r] assms(2,4) show ?thesis unfolding first_entry_def
    by (intro exI [of _ "before c @ entries l @ take i xs"] exI [of _ "xs ! i"] exI [of _ "drop (Suc i) xs @ entries r @ after c"]) auto
qed

lemma last_entry_at:
  assumes "i < length xs" and "P (xs ! i)" and "\<And>j. i < j \<Longrightarrow> j < length xs \<Longrightarrow> \<not> P (xs ! j)"
    and "\<forall>y \<in> set (entries r @ after c). \<not> P y"
  shows "last_entry (plug c (Bin l p k xs r)) P \<lparr>pos_node = p, pos_idx = int i\<rparr>"
proof -
  have "\<forall>y \<in> set (drop (Suc i) xs). \<not> P y" using assms(3) by (auto simp: in_set_conv_nth)
  with at_node_pos [OF assms(1), of c l p k r] assms(2,4) show ?thesis unfolding last_entry_def
    by (intro exI [of _ "before c @ entries l @ take i xs"] exI [of _ "xs ! i"] exI [of _ "drop (Suc i) xs @ entries r @ after c"]) auto
qed

lemma descending_around:
  assumes "descending f (as @ x # bs)"
  shows "0 < f x \<Longrightarrow> \<forall>y \<in> set (as @ [x]). 0 < f y" and "0 \<le> f x \<Longrightarrow> \<forall>y \<in> set (as @ [x]). 0 \<le> f y"
    and "f x < 0 \<Longrightarrow> \<forall>y \<in> set (x # bs). f y < 0" and "f x \<le> 0 \<Longrightarrow> \<forall>y \<in> set (x # bs). f y \<le> 0"
proof -
  from assms have le: "\<forall>y \<in> set as. sgn (f x) \<le> sgn (f y)" "\<forall>y \<in> set bs. sgn (f y) \<le> sgn (f x)"
    by (simp_all add: descending_def sorted_wrt_append)
  then show "0 < f x \<Longrightarrow> \<forall>y \<in> set (as @ [x]). 0 < f y" "0 \<le> f x \<Longrightarrow> \<forall>y \<in> set (as @ [x]). 0 \<le> f y"
    unfolding sgn_le by auto
  from le show "f x < 0 \<Longrightarrow> \<forall>y \<in> set (x # bs). f y < 0" "f x \<le> 0 \<Longrightarrow> \<forall>y \<in> set (x # bs). f y \<le> 0"
    unfolding sgn_le by force+
qed

lemma descending_upto:
  assumes "descending f zs" and eq: "zs = as @ xs @ bs" and "xs \<noteq> []"
  shows "0 < f (List.last xs) \<Longrightarrow> \<forall>y \<in> set (as @ xs). 0 < f y" and "0 \<le> f (List.last xs) \<Longrightarrow> \<forall>y \<in> set (as @ xs). 0 \<le> f y"
    and "f (hd xs) < 0 \<Longrightarrow> \<forall>y \<in> set (xs @ bs). f y < 0" and "f (hd xs) \<le> 0 \<Longrightarrow> \<forall>y \<in> set (xs @ bs). f y \<le> 0"
    and "f (List.last xs) < 0 \<Longrightarrow> \<forall>y \<in> set bs. f y < 0" and "0 < f (hd xs) \<Longrightarrow> \<forall>y \<in> set as. 0 < f y"
    and "0 \<le> f (hd xs) \<Longrightarrow> \<forall>y \<in> set as. 0 \<le> f y" and "f (List.last xs) \<le> 0 \<Longrightarrow> \<forall>y \<in> set bs. f y \<le> 0"
proof -
  from assms(3) obtain ys x where xs: "xs = ys @ [x]" by (cases xs rule: rev_cases) auto
  with assms(1) eq have "descending f ((as @ ys) @ x # bs)" by simp
  note d = descending_around [OF this]
  show "0 < f (List.last xs) \<Longrightarrow> \<forall>y \<in> set (as @ xs). 0 < f y" "0 \<le> f (List.last xs) \<Longrightarrow> \<forall>y \<in> set (as @ xs). 0 \<le> f y"
    "f (List.last xs) < 0 \<Longrightarrow> \<forall>y \<in> set bs. f y < 0" "f (List.last xs) \<le> 0 \<Longrightarrow> \<forall>y \<in> set bs. f y \<le> 0"
    using d xs by simp_all
  from assms(3) obtain z zs where xs: "xs = z # zs" by (cases xs) auto
  with assms(1) eq have "descending f (as @ z # zs @ bs)" by simp
  note d = descending_around [OF this]
  show "f (hd xs) < 0 \<Longrightarrow> \<forall>y \<in> set (xs @ bs). f y < 0" "f (hd xs) \<le> 0 \<Longrightarrow> \<forall>y \<in> set (xs @ bs). f y \<le> 0"
    "0 < f (hd xs) \<Longrightarrow> \<forall>y \<in> set as. 0 < f y" "0 \<le> f (hd xs) \<Longrightarrow> \<forall>y \<in> set as. 0 \<le> f y"
    using d xs by simp_all
qed

subsection \<open>The first entry that is not less than the key\<close>

definition located :: "bool \<Rightarrow> (int \<Rightarrow> TTreePosition \<Rightarrow> bool) \<Rightarrow> TTreePosition \<Rightarrow> (int \<times> TTreePosition) option \<Rightarrow> bool" where
  \<comment> \<open>the outcome of a search: a position if there is one to find\<close>
  "located ex R p res \<longleftrightarrow>
     (if ex then \<exists>ret q. res = Some (ret, q) \<and> R ret q else res = Some (DB_E_NOMORERECORDS, no_position p))"

definition ge_result :: "tt \<Rightarrow> (oid \<Rightarrow> int) \<Rightarrow> int \<Rightarrow> TTreePosition \<Rightarrow> bool" where
  "ge_result t f ret q \<longleftrightarrow> first_entry t (\<lambda>x. f x \<le> 0) q \<and>
     (ret = DB_SUCCESS \<or> ret = DB_W_ITEMMORETHANKEY \<and> first_entry t (\<lambda>x. f x < 0) q)"

lemma ge_resultI:
  assumes "i < length xs" and "f (xs ! i) \<le> 0" and "\<And>j. j < i \<Longrightarrow> 0 < f (xs ! j)" and "\<forall>y \<in> set (before c @ entries l). 0 < f y"
    and "ret = DB_SUCCESS \<or> ret = DB_W_ITEMMORETHANKEY \<and> f (xs ! i) \<noteq> 0"
  shows "ge_result (plug c (Bin l p k xs r)) f ret \<lparr>pos_node = p, pos_idx = int i\<rparr>"
proof -
  have "first_entry (plug c (Bin l p k xs r)) (\<lambda>x. f x \<le> 0) \<lparr>pos_node = p, pos_idx = int i\<rparr>"
    by (rule first_entry_at) (use assms in force)+
  moreover have "first_entry (plug c (Bin l p k xs r)) (\<lambda>x. f x < 0) \<lparr>pos_node = p, pos_idx = int i\<rparr>" if "f (xs ! i) \<noteq> 0"
    by (rule first_entry_at) (use assms that in force)+
  ultimately show ?thesis using assms(5) by (auto simp: ge_result_def)
qed

lemma ge_in_node_ok:
  assumes idx: "index_ok s (plug c (Bin l p k xs r))" and d: "descending (key_cmp env key) (entries (plug c (Bin l p k xs r)))"
    and nd: "has_items nd xs" "xs \<noteq> []" and ends: "0 < key_cmp env key (hd xs)" "key_cmp env key (List.last xs) \<le> 0"
  shows "\<exists>ret q. ge_in_node env key p nd lp = Some (ret, q) \<and> ge_result (plug c (Bin l p k xs r)) (key_cmp env key) ret q"
proof -
  let ?f = "key_cmp env key"
  have d': "descending ?f (before c @ entries l @ xs @ entries r @ after c)" using d by (simp add: entries_plug)
  then have dx: "descending ?f xs" by simp
  have low: "\<forall>y \<in> set (before c @ entries l). 0 < ?f y"
    by (rule descending_upto(6) [OF d' _ nd(2) ends(1), where bs = "entries r @ after c"]) simp
  have n: "tn_count nd = int (length xs)" using nd(1) by (simp add: has_items_def)
  have hd: "xs ! 0 = hd xs" and last: "xs ! (length xs - 1) = List.last xs" using nd(2) by (simp_all add: hd_conv_nth last_conv_nth)
  have len: "1 < length xs" using ends hd last nd(2) by (cases "length xs = 1") (auto simp: neq_Nil_conv)
  then have c1: "TTreeNode_CompKeyValWithItem env key nd 1 = Some (?f (xs ! 1))"
    using comp_item_at(1) [OF nd(1), of 1 env "ie_key_compare env key"] by (simp add: key_comparisons)
  show ?thesis
  proof (cases "?f (xs ! 1) \<le> 0")
    case True
    have "ge_result (plug c (Bin l p k xs r)) ?f (if ?f (xs ! 1) = 0 then DB_SUCCESS else DB_W_ITEMMORETHANKEY) \<lparr>pos_node = p, pos_idx = int 1\<rparr>"
      by (rule ge_resultI) (use len True low ends hd in auto)
    with True c1 len n show ?thesis by (simp add: ge_in_node_def)
  next
    case False
    with ends last len have len2: "2 < length xs" by (cases "length xs = 2") auto
    have "\<exists>ret i. ge_search (TTreeNode_CompKeyValWithItem env key nd) 2 (int (length xs) - 1) = Some (Some (ret, i)) \<and> 0 \<le> i \<and>
        i < int (length xs) \<and> ?f (xs ! nat i) \<le> 0 \<and> (\<forall>j. 0 \<le> j \<and> j < i \<longrightarrow> 0 < ?f (xs ! nat j)) \<and>
        (ret = DB_SUCCESS \<or> ret = DB_W_ITEMMORETHANKEY \<and> ?f (xs ! nat i) \<noteq> 0)"
      unfolding key_comparisons
      by (rule ge_search_ok [OF profiled_items [OF nd(1) dx]]) (use len2 False ends last in \<open>auto simp: nat_diff_distrib\<close>)
    then obtain ret i where i: "ge_search (TTreeNode_CompKeyValWithItem env key nd) 2 (int (length xs) - 1) = Some (Some (ret, i))"
      "0 \<le> i" "i < int (length xs)" "?f (xs ! nat i) \<le> 0" "\<And>j. 0 \<le> j \<Longrightarrow> j < i \<Longrightarrow> 0 < ?f (xs ! nat j)"
      "ret = DB_SUCCESS \<or> ret = DB_W_ITEMMORETHANKEY \<and> ?f (xs ! nat i) \<noteq> 0" by blast
    have "ge_result (plug c (Bin l p k xs r)) ?f ret \<lparr>pos_node = p, pos_idx = int (nat i)\<rparr>"
    proof (rule ge_resultI)
      show "0 < ?f (xs ! j)" if "j < nat i" for j using i(5) [of "int j"] that by simp
    qed (use i low in auto)
    with False c1 len n i show ?thesis by (simp add: ge_in_node_def)
  qed
qed

lemma get_first_ge_ok:
  assumes "index_ok s (plug c t)" and "descending (key_cmp env key) (entries (plug c t))" and "\<forall>y \<in> set (before c). 0 < key_cmp env key y"
  shows "located (\<exists>x \<in> set (entries t). key_cmp env key x \<le> 0) (ge_result (plug c t) (key_cmp env key)) lp (get_first_ge env key s lp (ptr t))"
  using assms
proof (induction t arbitrary: c)
  case Tip
  then show ?case by (simp add: get_first_ge.simps located_def)
next
  case (Bin l p k xs r)
  let ?f = "key_cmp env key" and ?T = "plug c (Bin l p k xs r)"
  obtain nd where nd: "deref p s = Some nd" "has_items nd xs" "tn_count nd = int (length xs)" "p \<noteq> 0" "xs \<noteq> []"
    "tn_left nd = ptr l" "tn_right nd = ptr r" "Index_OID_Point (ptr l) = ptr l" "Index_OID_Point (ptr r) = ptr r"
    "TTree_GlbChild p s = Some (last_oid (chunks l))" by (rule index_node [OF Bin.prems(1)])
  note cmp = comp_item_at(2,3) [OF nd(2,5), of env "ie_key_compare env key"]
  note step = get_first_ge.simps [of env key s lp p] key_comparisons
  have d: "descending ?f (before c @ entries l @ xs @ entries r @ after c)" using Bin.prems(2) by (simp add: entries_plug)
  show ?case
  proof (cases "?f (hd xs) \<le> 0")
    case True
    have ex: "\<exists>x \<in> set (entries (Bin l p k xs r)). ?f x \<le> 0" using True nd(5) by auto
    have here: "ge_result ?T ?f (if ?f (hd xs) = 0 then DB_SUCCESS else DB_W_ITEMMORETHANKEY) \<lparr>pos_node = p, pos_idx = 0\<rparr>"
      if "\<forall>y \<in> set (before c @ entries l). 0 < ?f y"
      using ge_resultI [of 0 xs ?f c l _ p k r] nd(5) True that by (simp add: hd_conv_nth)
    show ?thesis
    proof (cases "l = Tip")
      case l: True
      with nd cmp True here Bin.prems(3) ex show ?thesis by (simp add: step located_def)
    next
      case l: False
      obtain g where g: "deref (last_oid (chunks l)) s = Some g" "last_oid (chunks l) \<noteq> 0"
        "comp_item env (ie_key_compare env key) g (tn_count g - 1) = Some (?f (List.last (entries l)))" "entries l \<noteq> []"
        by (rule glb_maximum [OF Bin.prems(1) l])
      show ?thesis
      proof (cases "?f (List.last (entries l)) \<le> 0")
        case low: True
        then have "\<exists>x \<in> set (entries l). ?f x \<le> 0" using g(4) by auto
        with Bin.IH(1) [of "LeftHole p k xs r # c"] Bin.prems have "located True (ge_result ?T ?f) lp (get_first_ge env key s lp (ptr l))" by simp
        with nd cmp True g low ex show ?thesis by (simp add: step)
      next
        case False
        then have "\<forall>y \<in> set (before c @ entries l). 0 < ?f y" using descending_upto(1) [OF d refl g(4)] by simp
        with nd cmp True g False here ex show ?thesis by (simp add: step located_def)
      qed
    qed
  next
    case hd: False
    show ?thesis
    proof (cases "0 < ?f (List.last xs)")
      case True
      have "\<forall>y \<in> set ((before c @ entries l) @ xs). 0 < ?f y"
        by (rule descending_upto(1) [OF d _ nd(5) True, where bs = "entries r @ after c"]) simp
      then have low: "\<forall>y \<in> set (before c @ entries l @ xs). 0 < ?f y" by simp
      then have "(\<exists>x \<in> set (entries (Bin l p k xs r)). ?f x \<le> 0) \<longleftrightarrow> (\<exists>x \<in> set (entries r). ?f x \<le> 0)" by force
      with Bin.IH(2) [of "RightHole l p k xs # c"] Bin.prems low nd cmp hd True show ?thesis by (simp add: step)
    next
      case False
      have "get_first_ge env key s lp p = ge_in_node env key p nd lp" using nd(1,4) cmp hd False by (simp add: step)
      moreover have "\<exists>x \<in> set (entries (Bin l p k xs r)). ?f x \<le> 0" using False nd(5) by (intro bexI [of _ "List.last xs"]) simp_all
      moreover have "\<exists>ret q. ge_in_node env key p nd lp = Some (ret, q) \<and> ge_result ?T ?f ret q"
        by (rule ge_in_node_ok [OF Bin.prems(1,2) nd(2,5)]) (use hd False in simp_all)
      ultimately show ?thesis by (simp add: located_def)
    qed
  qed
qed

subsection \<open>The last entry that is not greater than the key\<close>

definition le_result :: "tt \<Rightarrow> (oid \<Rightarrow> int) \<Rightarrow> int \<Rightarrow> TTreePosition \<Rightarrow> bool" where
  "le_result t f ret q \<longleftrightarrow> ret = DB_SUCCESS \<and> last_entry t (\<lambda>x. 0 \<le> f x) q"

lemma le_resultI:
  assumes "i < length xs" and "0 \<le> f (xs ! i)" and "\<And>j. i < j \<Longrightarrow> j < length xs \<Longrightarrow> f (xs ! j) < 0"
    and "\<forall>y \<in> set (entries r @ after c). f y < 0"
  shows "le_result (plug c (Bin l p k xs r)) f DB_SUCCESS \<lparr>pos_node = p, pos_idx = int i\<rparr>"
  unfolding le_result_def by (intro conjI refl last_entry_at) (use assms in force)+

lemma le_in_node_ok:
  assumes idx: "index_ok s (plug c (Bin l p k xs r))" and d: "descending (key_cmp env key) (entries (plug c (Bin l p k xs r)))"
    and nd: "has_items nd xs" "xs \<noteq> []" and ends: "0 \<le> key_cmp env key (hd xs)" "key_cmp env key (List.last xs) < 0"
  shows "\<exists>ret q. le_in_node env key p nd lp = Some (ret, q) \<and> le_result (plug c (Bin l p k xs r)) (key_cmp env key) ret q"
proof -
  let ?f = "key_cmp env key"
  have d': "descending ?f (before c @ entries l @ xs @ entries r @ after c)" using d by (simp add: entries_plug)
  then have dx: "descending ?f xs" by simp
  have up: "\<forall>y \<in> set (entries r @ after c). ?f y < 0"
    by (rule descending_upto(5) [OF d' _ nd(2) ends(2), where as = "before c @ entries l"]) simp
  have n: "tn_count nd = int (length xs)" using nd(1) by (simp add: has_items_def)
  have hd: "xs ! 0 = hd xs" and last: "xs ! (length xs - 1) = List.last xs" using nd(2) by (simp_all add: hd_conv_nth last_conv_nth)
  have len: "1 < length xs" using ends hd last nd(2) by (cases "length xs = 1") (auto simp: neq_Nil_conv)
  define m where "m = length xs - 2"
  have m: "m < length xs" "int (length xs) - 2 = int m" "length xs = Suc (Suc m)" using len by (simp_all add: m_def)
  have c: "TTreeNode_CompKeyValWithItem env key nd (int m) = Some (?f (xs ! m))"
    using comp_item_at(1) [OF nd(1) m(1)] by (simp add: key_comparisons)
  show ?thesis
  proof (cases "0 \<le> ?f (xs ! m)")
    case True
    have "?f (xs ! j) < 0" if "m < j" "j < length xs" for j
    proof -
      have "j = length xs - 1" using that m by simp
      with last ends(2) show ?thesis by simp
    qed
    then have "le_result (plug c (Bin l p k xs r)) ?f DB_SUCCESS \<lparr>pos_node = p, pos_idx = int m\<rparr>"
      using True up m(1) by (intro le_resultI) blast+
    with True c n m show ?thesis by (simp add: le_in_node_def)
  next
    case False
    with ends hd have m0: "0 < m" by (cases "m = 0") auto
    have "\<exists>i. le_search (TTreeNode_CompKeyValWithItem env key nd) 0 (int m - 1) = Some (Some i) \<and> 0 \<le> i \<and> i < int (length xs) \<and>
        0 \<le> ?f (xs ! nat i) \<and> (\<forall>j. i < j \<and> j < int (length xs) \<longrightarrow> ?f (xs ! nat j) < 0)"
      unfolding key_comparisons
      by (rule le_search_ok [OF profiled_items [OF nd(1) dx]]) (use m m0 False ends hd in \<open>auto simp: nat_diff_distrib\<close>)
    then obtain i where i: "le_search (TTreeNode_CompKeyValWithItem env key nd) 0 (int m - 1) = Some (Some i)"
      "0 \<le> i" "i < int (length xs)" "0 \<le> ?f (xs ! nat i)" "\<And>j. i < j \<Longrightarrow> j < int (length xs) \<Longrightarrow> ?f (xs ! nat j) < 0" by blast
    have "le_result (plug c (Bin l p k xs r)) ?f DB_SUCCESS \<lparr>pos_node = p, pos_idx = int (nat i)\<rparr>"
    proof (rule le_resultI)
      show "?f (xs ! j) < 0" if "nat i < j" "j < length xs" for j using i(5) [of "int j"] that by simp
    qed (use i up in auto)
    moreover have "tn_count nd = int m + 2" using n m by simp
    ultimately show ?thesis using False c i by (simp add: le_in_node_def found_at_def)
  qed
qed

lemma get_last_le_ok:
  assumes "index_ok s (plug c t)" and "descending (key_cmp env key) (entries (plug c t))" and "\<forall>y \<in> set (after c). key_cmp env key y < 0"
  shows "located (\<exists>x \<in> set (entries t). 0 \<le> key_cmp env key x) (le_result (plug c t) (key_cmp env key)) lp (get_last_le env key s lp (ptr t))"
  using assms
proof (induction t arbitrary: c)
  case Tip
  then show ?case by (simp add: get_last_le.simps located_def)
next
  case (Bin l p k xs r)
  let ?f = "key_cmp env key" and ?T = "plug c (Bin l p k xs r)"
  obtain nd where nd: "deref p s = Some nd" "has_items nd xs" "tn_count nd = int (length xs)" "p \<noteq> 0" "xs \<noteq> []"
    "tn_left nd = ptr l" "tn_right nd = ptr r" "Index_OID_Point (ptr l) = ptr l" "Index_OID_Point (ptr r) = ptr r"
    "TTree_LubChild p s = Some (first_oid (chunks r))" by (rule index_node [OF Bin.prems(1)])
  note cmp = comp_item_at(2,3) [OF nd(2,5), of env "ie_key_compare env key"]
  note step = get_last_le.simps [of env key s lp p] key_comparisons
  have d: "descending ?f (before c @ entries l @ xs @ entries r @ after c)" using Bin.prems(2) by (simp add: entries_plug)
  show ?case
  proof (cases "0 \<le> ?f (List.last xs)")
    case True
    have ex: "\<exists>x \<in> set (entries (Bin l p k xs r)). 0 \<le> ?f x" using True nd(5) by (intro bexI [of _ "List.last xs"]) simp_all
    have here: "le_result ?T ?f DB_SUCCESS \<lparr>pos_node = p, pos_idx = int (length xs) - 1\<rparr>"
      if "\<forall>y \<in> set (entries r @ after c). ?f y < 0"
      using le_resultI [of "length xs - 1" xs ?f r c l p k] nd(5) True that by (simp add: last_conv_nth of_nat_diff Suc_leI)
    show ?thesis
    proof (cases "r = Tip")
      case r: True
      with nd cmp True here Bin.prems(3) ex show ?thesis by (simp add: step located_def)
    next
      case r: False
      obtain g where g: "deref (first_oid (chunks r)) s = Some g" "first_oid (chunks r) \<noteq> 0"
        "comp_item env (ie_key_compare env key) g 0 = Some (?f (hd (entries r)))" "entries r \<noteq> []"
        by (rule lub_minimum [OF Bin.prems(1) r])
      show ?thesis
      proof (cases "0 \<le> ?f (hd (entries r))")
        case up: True
        then have "\<exists>x \<in> set (entries r). 0 \<le> ?f x" using g(4) by auto
        with Bin.IH(2) [of "RightHole l p k xs # c"] Bin.prems have "located True (le_result ?T ?f) lp (get_last_le env key s lp (ptr r))" by simp
        with nd cmp True g up ex show ?thesis by (simp add: step)
      next
        case False
        have "\<forall>y \<in> set (entries r @ after c). ?f y < 0"
          by (rule descending_upto(3) [OF d _ g(4), where as = "before c @ entries l @ xs"]) (use False in simp_all)
        with nd cmp True g False here ex show ?thesis by (simp add: step located_def)
      qed
    qed
  next
    case last: False
    show ?thesis
    proof (cases "?f (hd xs) < 0")
      case True
      have up: "\<forall>y \<in> set (xs @ entries r @ after c). ?f y < 0"
        by (rule descending_upto(3) [OF d _ nd(5) True, where as = "before c @ entries l"]) simp
      then have "(\<exists>x \<in> set (entries (Bin l p k xs r)). 0 \<le> ?f x) \<longleftrightarrow> (\<exists>x \<in> set (entries l). 0 \<le> ?f x)" by force
      with Bin.IH(1) [of "LeftHole p k xs r # c"] Bin.prems up nd cmp last True show ?thesis by (simp add: step)
    next
      case False
      have "get_last_le env key s lp p = le_in_node env key p nd lp" using nd(1,4) cmp last False by (simp add: step)
      moreover have "\<exists>x \<in> set (entries (Bin l p k xs r)). 0 \<le> ?f x" using False nd(5) by (intro bexI [of _ "hd xs"]) simp_all
      moreover have "\<exists>ret q. le_in_node env key p nd lp = Some (ret, q) \<and> le_result ?T ?f ret q"
        by (rule le_in_node_ok [OF Bin.prems(1,2) nd(2,5)]) (use last False in simp_all)
      ultimately show ?thesis by (simp add: located_def)
    qed
  qed
qed

end
