(* ===== verification/TTreeFindEq.thy ===== *)
theory TTreeFindEq
  imports TTreeFind
begin

section \<open>What a search for an equal entry finds\<close>

text \<open>
  The three searches for an entry that is equal to the key: the first one, the last one, and any one in an
  index without duplicates.
\<close>

subsection \<open>The searches in a node\<close>

lemma first_eq_search_ok:
  assumes pr: "profiled cmp g n" and f: "0 \<le> f" "t < n" "\<And>j. 0 \<le> j \<Longrightarrow> j < f \<Longrightarrow> 0 < g j" "\<And>j. t < j \<Longrightarrow> j < n \<Longrightarrow> g j < 0"
  shows "if \<exists>j. 0 \<le> j \<and> j < n \<and> g j = 0
    then \<exists>i. first_eq_search cmp f t = Some (Some i) \<and> 0 \<le> i \<and> i < n \<and> g i = 0 \<and> (\<forall>j. 0 \<le> j \<and> j < i \<longrightarrow> 0 < g j)
    else first_eq_search cmp f t = Some None"
  unfolding first_eq_search_def
proof (rule eq_search_ok [OF pr _ f])
  fix f t m
  assume a: "0 \<le> f" "f \<le> m" "m \<le> t" "t < n" "\<And>j. 0 \<le> j \<Longrightarrow> j < f \<Longrightarrow> 0 < g j" "g m = 0"
  have "\<exists>r. scan_down cmp f (m - 1) = Some r \<and> f \<le> r + 1 \<and> r \<le> m - 1 \<and> g (r + 1) = 0 \<and> (\<forall>j. 0 \<le> j \<and> j \<le> r \<longrightarrow> 0 < g j)"
    by (rule scan_down_ok [OF pr]) (use a in auto)
  then obtain r where "scan_down cmp f (m - 1) = Some r" "f \<le> r + 1" "r \<le> m - 1" "g (r + 1) = 0" "\<forall>j. 0 \<le> j \<and> j \<le> r \<longrightarrow> 0 < g j" by blast
  with a show "\<exists>i. map_option (\<lambda>m. m + 1) (scan_down cmp f (m - 1)) = Some i \<and> 0 \<le> i \<and> i < n \<and> g i = 0 \<and> (\<forall>j. 0 \<le> j \<and> j < i \<longrightarrow> 0 < g j)"
    by (intro exI [of _ "r + 1"]) simp
qed

lemma last_eq_search_ok:
  assumes pr: "profiled cmp g n" and f: "0 \<le> f" "t < n" "\<And>j. 0 \<le> j \<Longrightarrow> j < f \<Longrightarrow> 0 < g j" "\<And>j. t < j \<Longrightarrow> j < n \<Longrightarrow> g j < 0"
  shows "if \<exists>j. 0 \<le> j \<and> j < n \<and> g j = 0
    then \<exists>i. last_eq_search cmp f t = Some (Some i) \<and> 0 \<le> i \<and> i < n \<and> g i = 0 \<and> (\<forall>j. i < j \<and> j < n \<longrightarrow> g j < 0)
    else last_eq_search cmp f t = Some None"
  unfolding last_eq_search_def
proof (rule eq_search_ok [OF pr _ f])
  fix f t m
  assume a: "0 \<le> f" "f \<le> m" "m \<le> t" "t < n" "\<And>j. t < j \<Longrightarrow> j < n \<Longrightarrow> g j < 0" "g m = 0"
  have "\<exists>r. scan_up cmp (m + 1) t = Some r \<and> m + 1 \<le> r \<and> r \<le> t + 1 \<and> g (r - 1) = 0 \<and> (\<forall>j. r \<le> j \<and> j < n \<longrightarrow> g j < 0)"
    by (rule scan_up_ok [OF pr]) (use a in auto)
  then obtain r where "scan_up cmp (m + 1) t = Some r" "m + 1 \<le> r" "r \<le> t + 1" "g (r - 1) = 0" "\<forall>j. r \<le> j \<and> j < n \<longrightarrow> g j < 0" by blast
  with a show "\<exists>i. map_option (\<lambda>m. m - 1) (scan_up cmp (m + 1) t) = Some i \<and> 0 \<le> i \<and> i < n \<and> g i = 0 \<and> (\<forall>j. i < j \<and> j < n \<longrightarrow> g j < 0)"
    by (intro exI [of _ "r - 1"]) simp
qed

lemma unique_eq_search_ok:
  assumes pr: "profiled cmp g n" and f: "0 \<le> f" "t < n" "\<And>j. 0 \<le> j \<Longrightarrow> j < f \<Longrightarrow> 0 < g j" "\<And>j. t < j \<Longrightarrow> j < n \<Longrightarrow> g j < 0"
  shows "if \<exists>j. 0 \<le> j \<and> j < n \<and> g j = 0
    then \<exists>i. unique_eq_search cmp f t = Some (Some i) \<and> 0 \<le> i \<and> i < n \<and> g i = 0
    else unique_eq_search cmp f t = Some None"
  unfolding unique_eq_search_def by (rule eq_search_ok [OF pr _ f]) auto

lemma ex_item:
  \<comment> \<open>an entry equal to the key is in the node whose ends enclose the key\<close>
  assumes "\<forall>y \<in> set A. f y \<noteq> 0" and "\<forall>y \<in> set B. f y \<noteq> 0"
  shows "(\<exists>x \<in> set (A @ xs @ B). f x = 0) \<longleftrightarrow> (\<exists>j. 0 \<le> j \<and> j < int (length xs) \<and> f (xs ! nat j) = 0)"
proof
  assume "\<exists>x \<in> set (A @ xs @ B). f x = 0"
  with assms have "\<exists>x \<in> set xs. f x = 0" by auto
  then obtain i where "i < length xs" "f (xs ! i) = 0" by (auto simp: in_set_conv_nth)
  then show "\<exists>j. 0 \<le> j \<and> j < int (length xs) \<and> f (xs ! nat j) = 0" by (intro exI [of _ "int i"]) simp
next
  assume "\<exists>j. 0 \<le> j \<and> j < int (length xs) \<and> f (xs ! nat j) = 0"
  then obtain j where "0 \<le> j" "j < int (length xs)" "f (xs ! nat j) = 0" by blast
  then show "\<exists>x \<in> set (A @ xs @ B). f x = 0" by (intro bexI [of _ "xs ! nat j"]) simp_all
qed

lemma located_node:
  assumes "ex \<longleftrightarrow> (\<exists>j. 0 \<le> j \<and> j < n \<and> g j = 0)"
    and "if \<exists>j. 0 \<le> j \<and> j < n \<and> g j = 0 then \<exists>i. res = Some (Some i) \<and> 0 \<le> i \<and> i < n \<and> P i else res = Some None"
    and "\<And>i. i < nat n \<Longrightarrow> P (int i) \<Longrightarrow> R DB_SUCCESS \<lparr>pos_node = p, pos_idx = int i\<rparr>"
  shows "located ex R lp (do { m \<leftarrow> res; Some (found_at p m lp) })"
proof (cases ex)
  case True
  with assms(1,2) obtain i where "res = Some (Some i)" "0 \<le> i" "i < n" "P i" by auto
  with assms(3) [of "nat i"] True show ?thesis by (auto simp: located_def found_at_def)
next
  case False
  with assms(1,2) show ?thesis by (simp add: located_def found_at_def)
qed

subsection \<open>The first equal entry\<close>

definition first_eq_result :: "tt \<Rightarrow> (oid \<Rightarrow> int) \<Rightarrow> int \<Rightarrow> TTreePosition \<Rightarrow> bool" where
  "first_eq_result t f ret q \<longleftrightarrow> ret = DB_SUCCESS \<and> first_entry t (\<lambda>x. f x = 0) q"

lemma first_eq_resultI:
  assumes "i < length xs" and "f (xs ! i) = 0" and "\<And>j. j < i \<Longrightarrow> 0 < f (xs ! j)" and "\<forall>y \<in> set (before c @ entries l). 0 < f y"
  shows "first_eq_result (plug c (Bin l p k xs r)) f DB_SUCCESS \<lparr>pos_node = p, pos_idx = int i\<rparr>"
  unfolding first_eq_result_def by (intro conjI refl first_entry_at) (use assms in force)+

lemma get_first_eq_ok:
  assumes "index_ok s (plug c t)" and "descending (key_cmp env key) (entries (plug c t))" and "\<forall>y \<in> set (before c). 0 < key_cmp env key y"
  shows "located (\<exists>x \<in> set (entries t). key_cmp env key x = 0) (first_eq_result (plug c t) (key_cmp env key)) lp (get_first_eq env key s lp (ptr t))"
  using assms
proof (induction t arbitrary: c)
  case Tip
  then show ?case by (simp add: get_first_eq.simps located_def)
next
  case (Bin l p k xs r)
  let ?f = "key_cmp env key" and ?T = "plug c (Bin l p k xs r)"
  obtain nd where nd: "deref p s = Some nd" "has_items nd xs" "tn_count nd = int (length xs)" "p \<noteq> 0" "xs \<noteq> []"
    "tn_left nd = ptr l" "tn_right nd = ptr r" "Index_OID_Point (ptr l) = ptr l" "Index_OID_Point (ptr r) = ptr r"
    "TTree_GlbChild p s = Some (last_oid (chunks l))" by (rule index_node [OF Bin.prems(1)])
  note cmp = comp_item_at(2,3) [OF nd(2,5), of env "ie_key_compare env key"]
  note step = get_first_eq.simps [of env key s lp p] key_comparisons
  have d: "descending ?f (before c @ entries l @ xs @ entries r @ after c)" using Bin.prems(2) by (simp add: entries_plug)
  note around = descending_upto [OF d _ nd(5), where as = "before c @ entries l" and bs = "entries r @ after c", simplified append_assoc, OF refl]
  consider "?f (hd xs) < 0" | "?f (hd xs) = 0" | "0 < ?f (hd xs)" by linarith
  then show ?case
  proof cases
    case 1
    then have "(\<exists>x \<in> set (entries (Bin l p k xs r)). ?f x = 0) \<longleftrightarrow> (\<exists>x \<in> set (entries l). ?f x = 0)" using around(3) by force
    with Bin.IH(1) [of "LeftHole p k xs r # c"] Bin.prems nd cmp 1 show ?thesis by (simp add: step)
  next
    case 2
    have ex: "\<exists>x \<in> set (entries (Bin l p k xs r)). ?f x = 0" using 2 nd(5) by (intro bexI [of _ "hd xs"]) simp_all
    have here: "first_eq_result ?T ?f DB_SUCCESS \<lparr>pos_node = p, pos_idx = 0\<rparr>" if "\<forall>y \<in> set (before c @ entries l). 0 < ?f y"
      using first_eq_resultI [of 0 xs ?f c l p k r] nd(5) 2 that by (simp add: hd_conv_nth)
    show ?thesis
    proof (cases "l = Tip")
      case True
      with nd cmp 2 here Bin.prems(3) ex show ?thesis by (simp add: step located_def)
    next
      case l: False
      obtain g where g: "deref (last_oid (chunks l)) s = Some g" "last_oid (chunks l) \<noteq> 0"
        "comp_item env (ie_key_compare env key) g (tn_count g - 1) = Some (?f (List.last (entries l)))" "entries l \<noteq> []"
        by (rule glb_maximum [OF Bin.prems(1) l])
      show ?thesis
      proof (cases "?f (List.last (entries l)) = 0")
        case low: True
        then have "\<exists>x \<in> set (entries l). ?f x = 0" using g(4) by auto
        with Bin.IH(1) [of "LeftHole p k xs r # c"] Bin.prems
        have "located True (first_eq_result ?T ?f) lp (get_first_eq env key s lp (ptr l))" by simp
        with nd cmp 2 g low ex show ?thesis by (simp add: step)
      next
        case False
        have "\<forall>y \<in> set (before c @ entries l). 0 \<le> ?f y" using around(7) 2 by simp
        with g(4) have "0 \<le> ?f (List.last (entries l))" by simp
        with False have "0 < ?f (List.last (entries l))" by simp
        then have "\<forall>y \<in> set (before c @ entries l). 0 < ?f y" using descending_upto(1) [OF d refl g(4)] by simp
        with nd cmp 2 g False here ex show ?thesis by (simp add: step located_def)
      qed
    qed
  next
    case 3
    have low: "\<forall>y \<in> set (before c @ entries l). 0 < ?f y" using around(6) 3 by simp
    show ?thesis
    proof (cases "0 < ?f (List.last xs)")
      case True
      then have up: "\<forall>y \<in> set (before c @ entries l @ xs). 0 < ?f y" using around(1) by simp
      then have "(\<exists>x \<in> set (entries (Bin l p k xs r)). ?f x = 0) \<longleftrightarrow> (\<exists>x \<in> set (entries r). ?f x = 0)" by force
      moreover have "get_first_eq env key s lp p = get_first_eq env key s lp (ptr r)" using nd cmp 3 True by (simp add: step)
      ultimately show ?thesis using Bin.IH(2) [of "RightHole l p k xs # c"] Bin.prems up by simp
    next
      case False
      let ?ex = "\<exists>j. 0 \<le> j \<and> j < int (length xs) \<and> ?f (xs ! nat j) = 0"
      have "located (\<exists>x \<in> set (entries (Bin l p k xs r)). ?f x = 0) (first_eq_result ?T ?f) lp
          (do { m \<leftarrow> first_eq_search (comp_item env (ie_key_compare env key) nd) 1 (int (length xs) - 1); Some (found_at p m lp) })"
      proof (rule located_node)
        have dx: "descending ?f xs" using d by simp
        show "if ?ex then \<exists>i. first_eq_search (comp_item env (ie_key_compare env key) nd) 1 (int (length xs) - 1) = Some (Some i) \<and> 0 \<le> i \<and>
            i < int (length xs) \<and> ?f (xs ! nat i) = 0 \<and> (\<forall>j. 0 \<le> j \<and> j < i \<longrightarrow> 0 < ?f (xs ! nat j))
          else first_eq_search (comp_item env (ie_key_compare env key) nd) 1 (int (length xs) - 1) = Some None"
          by (rule first_eq_search_ok [OF profiled_items [OF nd(2) dx]]) (use 3 nd(5) in \<open>auto simp: hd_conv_nth\<close>)
        show "(\<exists>x \<in> set (entries (Bin l p k xs r)). ?f x = 0) \<longleftrightarrow> ?ex"
        proof (cases "?f (List.last xs) = 0")
          case True
          then have ?ex using nd(5) by (intro exI [of _ "int (length xs) - 1"]) (auto simp: last_conv_nth nat_diff_distrib Suc_le_eq)
          with True nd(5) show ?thesis by (auto intro: bexI [of _ "List.last xs"])
        next
          case F: False
          with False have "\<forall>y \<in> set (entries r). ?f y < 0" using around(5) by simp
          with ex_item [of "entries l" ?f "entries r" xs] low show ?thesis by force
        qed
        fix i assume "i < nat (int (length xs))" "?f (xs ! nat (int i)) = 0 \<and> (\<forall>j. 0 \<le> j \<and> j < int i \<longrightarrow> 0 < ?f (xs ! nat j))"
        then have i: "i < length xs" "?f (xs ! i) = 0" "\<And>j. 0 \<le> j \<Longrightarrow> j < int i \<Longrightarrow> 0 < ?f (xs ! nat j)" by auto
        have "0 < ?f (xs ! j)" if "j < i" for j using i(3) [of "int j"] that by simp
        with i low show "first_eq_result ?T ?f DB_SUCCESS \<lparr>pos_node = p, pos_idx = int i\<rparr>" by (intro first_eq_resultI) auto
      qed
      with nd cmp 3 False show ?thesis by (simp add: step)
    qed
  qed
qed

subsection \<open>The last equal entry\<close>

definition last_eq_result :: "tt \<Rightarrow> (oid \<Rightarrow> int) \<Rightarrow> int \<Rightarrow> TTreePosition \<Rightarrow> bool" where
  "last_eq_result t f ret q \<longleftrightarrow> ret = DB_SUCCESS \<and> last_entry t (\<lambda>x. f x = 0) q"

lemma last_eq_resultI:
  assumes "i < length xs" and "f (xs ! i) = 0" and "\<And>j. i < j \<Longrightarrow> j < length xs \<Longrightarrow> f (xs ! j) < 0"
    and "\<forall>y \<in> set (entries r @ after c). f y < 0"
  shows "last_eq_result (plug c (Bin l p k xs r)) f DB_SUCCESS \<lparr>pos_node = p, pos_idx = int i\<rparr>"
  unfolding last_eq_result_def by (intro conjI refl last_entry_at) (use assms in force)+

lemma get_last_eq_ok:
  assumes "index_ok s (plug c t)" and "descending (key_cmp env key) (entries (plug c t))" and "\<forall>y \<in> set (after c). key_cmp env key y < 0"
  shows "located (\<exists>x \<in> set (entries t). key_cmp env key x = 0) (last_eq_result (plug c t) (key_cmp env key)) lp (get_last_eq env key s lp (ptr t))"
  using assms
proof (induction t arbitrary: c)
  case Tip
  then show ?case by (simp add: get_last_eq.simps located_def)
next
  case (Bin l p k xs r)
  let ?f = "key_cmp env key" and ?T = "plug c (Bin l p k xs r)"
  obtain nd where nd: "deref p s = Some nd" "has_items nd xs" "tn_count nd = int (length xs)" "p \<noteq> 0" "xs \<noteq> []"
    "tn_left nd = ptr l" "tn_right nd = ptr r" "Index_OID_Point (ptr l) = ptr l" "Index_OID_Point (ptr r) = ptr r"
    "TTree_LubChild p s = Some (first_oid (chunks r))" by (rule index_node [OF Bin.prems(1)])
  note cmp = comp_item_at(2,3) [OF nd(2,5), of env "ie_key_compare env key"]
  note step = get_last_eq.simps [of env key s lp p] key_comparisons
  have d: "descending ?f (before c @ entries l @ xs @ entries r @ after c)" using Bin.prems(2) by (simp add: entries_plug)
  note around = descending_upto [OF d _ nd(5), where as = "before c @ entries l" and bs = "entries r @ after c", simplified append_assoc, OF refl]
  show ?case
  proof (cases "?f (hd xs) < 0")
    case True
    then have up: "\<forall>y \<in> set (xs @ entries r @ after c). ?f y < 0" using around(3) by simp
    then have "(\<exists>x \<in> set (entries (Bin l p k xs r)). ?f x = 0) \<longleftrightarrow> (\<exists>x \<in> set (entries l). ?f x = 0)" by force
    with Bin.IH(1) [of "LeftHole p k xs r # c"] Bin.prems up nd cmp True show ?thesis by (simp add: step)
  next
    case hd: False
    consider "0 < ?f (List.last xs)" | "?f (List.last xs) = 0" | "?f (List.last xs) < 0" by linarith
    then show ?thesis
    proof cases
      case 1
      then have "(\<exists>x \<in> set (entries (Bin l p k xs r)). ?f x = 0) \<longleftrightarrow> (\<exists>x \<in> set (entries r). ?f x = 0)" using around(1) by force
      with Bin.IH(2) [of "RightHole l p k xs # c"] Bin.prems nd cmp hd 1 show ?thesis by (simp add: step)
    next
      case 2
      have ex: "\<exists>x \<in> set (entries (Bin l p k xs r)). ?f x = 0" using 2 nd(5) by (intro bexI [of _ "List.last xs"]) simp_all
      have here: "last_eq_result ?T ?f DB_SUCCESS \<lparr>pos_node = p, pos_idx = int (length xs) - 1\<rparr>" if "\<forall>y \<in> set (entries r @ after c). ?f y < 0"
        using last_eq_resultI [of "length xs - 1" xs ?f r c l p k] nd(5) 2 that by (simp add: last_conv_nth of_nat_diff Suc_leI)
      show ?thesis
      proof (cases "r = Tip")
        case True
        with nd cmp 2 hd here Bin.prems(3) ex show ?thesis by (simp add: step located_def)
      next
        case r: False
        obtain g where g: "deref (first_oid (chunks r)) s = Some g" "first_oid (chunks r) \<noteq> 0"
          "comp_item env (ie_key_compare env key) g 0 = Some (?f (hd (entries r)))" "entries r \<noteq> []"
          by (rule lub_minimum [OF Bin.prems(1) r])
        show ?thesis
        proof (cases "?f (hd (entries r)) = 0")
          case up: True
          then have "\<exists>x \<in> set (entries r). ?f x = 0" using g(4) by auto
          with Bin.IH(2) [of "RightHole l p k xs # c"] Bin.prems
          have "located True (last_eq_result ?T ?f) lp (get_last_eq env key s lp (ptr r))" by simp
          with nd cmp 2 hd g up ex show ?thesis by (simp add: step)
        next
          case False
          have "\<forall>y \<in> set (entries r @ after c). ?f y \<le> 0" using around(8) 2 by simp
          with g(4) have "?f (hd (entries r)) \<le> 0" by simp
          with False have "?f (hd (entries r)) < 0" by simp
          then have "\<forall>y \<in> set (entries r @ after c). ?f y < 0"
            by (intro descending_upto(3) [OF d _ g(4), where as = "before c @ entries l @ xs"]) simp_all
          with nd cmp 2 hd g False here ex show ?thesis by (simp add: step located_def)
        qed
      qed
    next
      case 3
      have up: "\<forall>y \<in> set (entries r @ after c). ?f y < 0" using around(5) 3 by simp
      let ?ex = "\<exists>j. 0 \<le> j \<and> j < int (length xs) \<and> ?f (xs ! nat j) = 0"
      have "located (\<exists>x \<in> set (entries (Bin l p k xs r)). ?f x = 0) (last_eq_result ?T ?f) lp
          (do { m \<leftarrow> last_eq_search (comp_item env (ie_key_compare env key) nd) 0 (int (length xs) - 2); Some (found_at p m lp) })"
      proof (rule located_node)
        have dx: "descending ?f xs" using d by simp
        have last: "?f (xs ! nat j) < 0" if "int (length xs) - 2 < j" "j < int (length xs)" for j
        proof -
          from that nd(5) have "nat j = length xs - 1" by (cases xs) auto
          with 3 nd(5) show ?thesis by (simp add: last_conv_nth)
        qed
        show "if ?ex then \<exists>i. last_eq_search (comp_item env (ie_key_compare env key) nd) 0 (int (length xs) - 2) = Some (Some i) \<and> 0 \<le> i \<and>
            i < int (length xs) \<and> ?f (xs ! nat i) = 0 \<and> (\<forall>j. i < j \<and> j < int (length xs) \<longrightarrow> ?f (xs ! nat j) < 0)
          else last_eq_search (comp_item env (ie_key_compare env key) nd) 0 (int (length xs) - 2) = Some None"
          by (rule last_eq_search_ok [OF profiled_items [OF nd(2) dx]]) (use last in auto)
        show "(\<exists>x \<in> set (entries (Bin l p k xs r)). ?f x = 0) \<longleftrightarrow> ?ex"
        proof (cases "?f (hd xs) = 0")
          case True
          then have ?ex using nd(5) by (intro exI [of _ 0]) (auto simp: hd_conv_nth)
          with True nd(5) show ?thesis by (auto intro: bexI [of _ "hd xs"])
        next
          case F: False
          with hd have "\<forall>y \<in> set (entries l). 0 < ?f y" using around(6) by simp
          with ex_item [of "entries l" ?f "entries r" xs] up show ?thesis by force
        qed
        fix i assume "i < nat (int (length xs))" "?f (xs ! nat (int i)) = 0 \<and> (\<forall>j. int i < j \<and> j < int (length xs) \<longrightarrow> ?f (xs ! nat j) < 0)"
        then have i: "i < length xs" "?f (xs ! i) = 0" "\<And>j. int i < j \<Longrightarrow> j < int (length xs) \<Longrightarrow> ?f (xs ! nat j) < 0" by auto
        have "?f (xs ! j) < 0" if "i < j" "j < length xs" for j using i(3) [of "int j"] that by simp
        with i up show "last_eq_result ?T ?f DB_SUCCESS \<lparr>pos_node = p, pos_idx = int i\<rparr>" by (intro last_eq_resultI) auto
      qed
      with nd cmp 3 hd show ?thesis by (simp add: step)
    qed
  qed
qed

subsection \<open>An equal entry\<close>

definition eq_result :: "tt \<Rightarrow> (oid \<Rightarrow> int) \<Rightarrow> int \<Rightarrow> TTreePosition \<Rightarrow> bool" where
  "eq_result t f ret q \<longleftrightarrow> ret = DB_SUCCESS \<and> (\<exists>us x vs. at_pos t q us x vs \<and> f x = 0)"

lemma eq_resultI:
  assumes "i < length xs" and "f (xs ! i) = 0"
  shows "eq_result (plug c (Bin l p k xs r)) f DB_SUCCESS \<lparr>pos_node = p, pos_idx = int i\<rparr>"
  unfolding eq_result_def using at_node_pos [OF assms(1)] assms(2) by blast

lemma get_first_eq_unique_ok:
  assumes "index_ok s (plug c t)" and "descending (key_cmp env key) (entries (plug c t))"
  shows "located (\<exists>x \<in> set (entries t). key_cmp env key x = 0) (eq_result (plug c t) (key_cmp env key)) lp (get_first_eq_unique env key s lp (ptr t))"
  using assms
proof (induction t arbitrary: c)
  case Tip
  then show ?case by (simp add: get_first_eq_unique.simps located_def)
next
  case (Bin l p k xs r)
  let ?f = "key_cmp env key" and ?T = "plug c (Bin l p k xs r)"
  obtain nd where nd: "deref p s = Some nd" "has_items nd xs" "tn_count nd = int (length xs)" "p \<noteq> 0" "xs \<noteq> []"
    "tn_left nd = ptr l" "tn_right nd = ptr r" "Index_OID_Point (ptr l) = ptr l" "Index_OID_Point (ptr r) = ptr r"
    by (rule index_node [OF Bin.prems(1)])
  note cmp = comp_item_at(2,3) [OF nd(2,5), of env "ie_key_compare env key"]
  note step = get_first_eq_unique.simps [of env key s lp p] key_comparisons
  have d: "descending ?f (before c @ entries l @ xs @ entries r @ after c)" using Bin.prems(2) by (simp add: entries_plug)
  note around = descending_upto [OF d _ nd(5), where as = "before c @ entries l" and bs = "entries r @ after c", simplified append_assoc, OF refl]
  consider "?f (hd xs) = 0" | "?f (hd xs) < 0" | "0 < ?f (hd xs)" "?f (List.last xs) = 0" | "0 < ?f (List.last xs)" "0 < ?f (hd xs)"
    | "0 < ?f (hd xs)" "?f (List.last xs) < 0" by linarith
  then show ?case
  proof cases
    case 1
    have "\<exists>x \<in> set (entries (Bin l p k xs r)). ?f x = 0" using 1 nd(5) by (intro bexI [of _ "hd xs"]) simp_all
    moreover have "eq_result ?T ?f DB_SUCCESS \<lparr>pos_node = p, pos_idx = 0\<rparr>"
      using eq_resultI [of 0 xs ?f c l p k r] nd(5) 1 by (simp add: hd_conv_nth)
    ultimately show ?thesis using nd cmp 1 by (simp add: step located_def)
  next
    case 2
    then have "(\<exists>x \<in> set (entries (Bin l p k xs r)). ?f x = 0) \<longleftrightarrow> (\<exists>x \<in> set (entries l). ?f x = 0)" using around(3) by force
    with Bin.IH(1) [of "LeftHole p k xs r # c"] Bin.prems nd cmp 2 show ?thesis by (simp add: step)
  next
    case 3
    have "\<exists>x \<in> set (entries (Bin l p k xs r)). ?f x = 0" using 3 nd(5) by (intro bexI [of _ "List.last xs"]) simp_all
    moreover have "eq_result ?T ?f DB_SUCCESS \<lparr>pos_node = p, pos_idx = int (length xs) - 1\<rparr>"
      using eq_resultI [of "length xs - 1" xs ?f c l p k r] nd(5) 3 by (simp add: last_conv_nth of_nat_diff Suc_leI)
    ultimately show ?thesis using nd cmp 3 by (simp add: step located_def)
  next
    case 4
    then have "(\<exists>x \<in> set (entries (Bin l p k xs r)). ?f x = 0) \<longleftrightarrow> (\<exists>x \<in> set (entries r). ?f x = 0)" using around(1) by force
    with Bin.IH(2) [of "RightHole l p k xs # c"] Bin.prems nd cmp 4 show ?thesis by (simp add: step)
  next
    case 5
    have low: "\<forall>y \<in> set (entries l). 0 < ?f y" and up: "\<forall>y \<in> set (entries r). ?f y < 0" using around(5,6) 5 by simp_all
    let ?ex = "\<exists>j. 0 \<le> j \<and> j < int (length xs) \<and> ?f (xs ! nat j) = 0"
    have "located (\<exists>x \<in> set (entries (Bin l p k xs r)). ?f x = 0) (eq_result ?T ?f) lp
        (do { m \<leftarrow> unique_eq_search (comp_item env (ie_key_compare env key) nd) 1 (int (length xs) - 2); Some (found_at p m lp) })"
    proof (rule located_node)
      have dx: "descending ?f xs" using d by simp
      have last: "?f (xs ! nat j) < 0" if "int (length xs) - 2 < j" "j < int (length xs)" for j
      proof -
        from that nd(5) have "nat j = length xs - 1" by (cases xs) auto
        with 5 nd(5) show ?thesis by (simp add: last_conv_nth)
      qed
      show "if ?ex then \<exists>i. unique_eq_search (comp_item env (ie_key_compare env key) nd) 1 (int (length xs) - 2) = Some (Some i) \<and> 0 \<le> i \<and>
          i < int (length xs) \<and> ?f (xs ! nat i) = 0
        else unique_eq_search (comp_item env (ie_key_compare env key) nd) 1 (int (length xs) - 2) = Some None"
        by (rule unique_eq_search_ok [OF profiled_items [OF nd(2) dx]]) (use last 5 nd(5) in \<open>auto simp: hd_conv_nth\<close>)
      show "(\<exists>x \<in> set (entries (Bin l p k xs r)). ?f x = 0) \<longleftrightarrow> ?ex"
        using ex_item [of "entries l" ?f "entries r" xs] low up by force
      fix i assume "i < nat (int (length xs))" "?f (xs ! nat (int i)) = 0"
      then show "eq_result ?T ?f DB_SUCCESS \<lparr>pos_node = p, pos_idx = int i\<rparr>" by (intro eq_resultI) auto
    qed
    with nd cmp 5 show ?thesis by (simp add: step)
  qed
qed

end
