(* ===== verification/TTreeLookup.thy ===== *)
theory TTreeLookup
  imports TTreeFindEq
begin

section \<open>Searches of the whole index\<close>

text \<open>
  The searches from the root, and the search for a record id among the entries with the key of the record
  (\<^verbatim>\<open>TTree_FindPositionWithValueAndID\<close>), which walks from the first to the last of them.
\<close>

lemma search_root:
  assumes "index_ok s t"
  shows "root s = ptr t" "Index_OID_Point (root s) = ptr t" "ptr t = 0 \<longleftrightarrow> t = Tip"
proof -
  from assms have t: "tree_at (nodes s) NULL_OID ROOT_NODE t" and r: "root s = ptr t" by (simp_all add: index_ok_def zip_at_def)
  show "root s = ptr t" by (rule r)
  show "Index_OID_Point (root s) = ptr t" using ptr_point [OF t] r by simp
  show "ptr t = 0 \<longleftrightarrow> t = Tip" by (rule ptr_null [OF t])
qed

lemma Get_First_Ge_ok:
  assumes "index_ok s t" and "descending (key_cmp env key) (entries t)"
  shows "located (\<exists>x \<in> set (entries t). key_cmp env key x \<le> 0) (ge_result t (key_cmp env key)) lp (TTree_Get_First_Ge env key s lp)"
proof (cases "t = Tip")
  case True
  with search_root [OF assms(1)] show ?thesis by (simp add: TTree_Get_First_Ge_def located_def NULL_OID_def)
next
  case False
  with search_root [OF assms(1)] have "TTree_Get_First_Ge env key s lp = get_first_ge env key s lp (ptr t)"
    by (simp add: TTree_Get_First_Ge_def NULL_OID_def)
  with get_first_ge_ok [of s "[]" t env key lp] assms show ?thesis by simp
qed

lemma Get_Last_Le_ok:
  assumes "index_ok s t" and "descending (key_cmp env key) (entries t)"
  shows "located (\<exists>x \<in> set (entries t). 0 \<le> key_cmp env key x) (le_result t (key_cmp env key)) lp (TTree_Get_Last_Le env key s lp)"
  using get_last_le_ok [of s "[]" t env key lp] assms search_root(2) [OF assms(1)] by (simp add: TTree_Get_Last_Le_def)

lemma eq_from_root_ok:
  assumes idx: "index_ok s t" and "0 \<notin> set (entries t)" and ok: "located (\<exists>x \<in> set (entries t). P x) R lp (search (ptr t))"
  shows "located (\<exists>x \<in> set (entries t). P x) R lp (eq_from_root search line s lp)"
proof (cases t)
  case Tip
  then show ?thesis using search_root(2) [OF idx] by (simp add: eq_from_root_def located_def)
next
  case (Bin l p k xs r)
  with idx have "index_ok s (plug [] (Bin l p k xs r))" by simp
  then obtain nd where nd: "deref p s = Some nd" "has_items nd xs" "p \<noteq> 0" "xs \<noteq> []" by (rule index_node)
  have "get_item (tn_item nd) 0 = Some (hd xs)" using get_item_eq [OF nd(2), of 0] nd(4) by (simp add: hd_conv_nth)
  moreover have "hd xs \<noteq> 0" using assms(2) nd(4) Bin by (metis UnCI entries.simps(2) list.set_sel(1) set_append)
  ultimately show ?thesis using ok search_root(2) [OF idx] Bin nd by (simp add: eq_from_root_def NULL_OID_def)
qed

lemma Get_Eq_ok:
  assumes "index_ok s t" and "descending (key_cmp env key) (entries t)"
  shows "0 \<notin> set (entries t) \<Longrightarrow> located (\<exists>x \<in> set (entries t). key_cmp env key x = 0) (first_eq_result t (key_cmp env key)) lp (TTree_Get_First_Eq env key s lp)"
    and "0 \<notin> set (entries t) \<Longrightarrow> located (\<exists>x \<in> set (entries t). key_cmp env key x = 0) (last_eq_result t (key_cmp env key)) lp (TTree_Get_Last_Eq env key s lp)"
    and "located (\<exists>x \<in> set (entries t). key_cmp env key x = 0) (eq_result t (key_cmp env key)) lp (TTree_Get_First_Eq_Unique env key s lp)"
  using eq_from_root_ok [OF assms(1), where R = "first_eq_result t (key_cmp env key)"] get_first_eq_ok [of s "[]" t env key lp]
    eq_from_root_ok [OF assms(1), where R = "last_eq_result t (key_cmp env key)"] get_last_eq_ok [of s "[]" t env key lp]
    get_first_eq_unique_ok [of s "[]" t env key lp] assms search_root(2) [OF assms(1)]
  by (simp_all add: TTree_Get_First_Eq_def TTree_Get_Last_Eq_def TTree_Get_First_Eq_Unique_def)

subsection \<open>A record id among the equal entries\<close>

lemma index_size:
  assumes "index_ok s t"
  shows "int (length (entries t)) \<le> TNODE_MAX_ITEM * tt_item_count s"
proof -
  have "zip_at s c u \<Longrightarrow> length (entries u) \<le> max_items * length (oids u)" for c u
  proof (induction u arbitrary: c)
    case (Bin l p k xs r)
    then have a: "node_at (nodes s) p (par c) (side c) (ptr l) k xs (ptr r)" by (simp add: zip_at_def)
    obtain nd where "has_items nd xs" by (rule node_at_deref [OF a])
    then have "length xs \<le> max_items" by (rule has_items_length)
    moreover have "zip_at s (LeftHole p k xs r # c) l" "zip_at s (RightHole l p k xs # c) r" using Bin.prems by (simp_all add: zip_at_fill)
    then have "length (entries l) \<le> max_items * length (oids l)" "length (entries r) \<le> max_items * length (oids r)"
      using Bin.IH by blast+
    ultimately show ?case by (simp add: distrib_left)
  qed simp
  from this [of "[]" t] assms have "length (entries t) \<le> max_items * length (oids t)" by (simp add: index_ok_def)
  then have "int (length (entries t)) \<le> int (max_items * length (oids t))" by (simp only: of_nat_le_iff)
  also have "\<dots> = TNODE_MAX_ITEM * int (length (oids t))" by (simp only: of_nat_mult max_items(2))
  also have "\<dots> \<le> TNODE_MAX_ITEM * tt_item_count s" using assms by (intro mult_left_mono) (simp_all add: index_ok_def TNODE_MAX_ITEM_def)
  finally show ?thesis .
qed

definition found_id :: "tt \<Rightarrow> oid \<Rightarrow> bool \<Rightarrow> (int \<times> TTreePosition) option \<Rightarrow> bool" where
  "found_id t i ex res \<longleftrightarrow>
     (if ex then \<exists>q us vs. res = Some (DB_SUCCESS, q) \<and> at_pos t q us i vs
      else \<exists>q. res = Some (DB_E_NOMORERECORDS, q) \<and> pos_node q = 0)"

lemma position_unique:
  assumes idx: "index_ok s t" and "at_pos t p us x vs" and "at_pos t p us' y vs'"
  shows "us = us'"
proof -
  obtain A ys zs B where p: "chunks t = A @ (pos_node p, ys @ x # zs) # B" "pos_idx p = int (length ys)" "us = items A @ ys"
    using assms(2) unfolding at_pos_def by blast
  obtain A' ys' zs' B' where q: "chunks t = A' @ (pos_node p, ys' @ y # zs') # B'" "pos_idx p = int (length ys')" "us' = items A' @ ys'"
    using assms(3) unfolding at_pos_def by blast
  have "distinct (map fst (A @ (pos_node p, ys @ x # zs) # B))" using idx by (simp flip: p(1) add: index_ok_def zip_at_def)
  from split_unique [OF trans [OF p(1) [symmetric] q(1)] this] p(2) q(2) have "A = A'" "ys = ys'" by auto
  with p(3) q(3) show ?thesis by simp
qed

lemma find_between_step:
  assumes idx: "index_ok s t" and p: "at_pos t p us x (v # vs)" and "p \<noteq> p2" and n: "n \<le> int (length us)"
  obtains q where "at_pos t q (us @ [x]) v vs"
    "find_between i s p2 n p = (if v = i then Some (DB_SUCCESS, q) else find_between i s p2 (n + 1) q)"
proof -
  from Increment_ok [OF idx p] obtain q where q: "TTree_Increment s p = Some (DB_SUCCESS, q)" "at_pos t q (us @ [x]) v vs" by auto
  then have it: "item_at q s = Some v" using at_pos_item [OF idx] by blast
  have "int (length us) \<le> int (length (entries t))" using at_pos_entries [OF p] by simp
  with n index_size [OF idx] have "n \<le> tt_item_count s * TNODE_MAX_ITEM" by (simp add: mult.commute)
  moreover from \<open>p \<noteq> p2\<close> have "\<not> (pos_node p = pos_node p2 \<and> pos_idx p = pos_idx p2)" by (cases p; cases p2) simp
  ultimately have "find_between i s p2 n p = (if v = i then Some (DB_SUCCESS, q) else find_between i s p2 (n + 1) q)"
    using q(1) it by (subst find_between.simps) auto
  with q(2) that show ?thesis by blast
qed

lemma find_between_ok:
  assumes idx: "index_ok s t" and y: "y \<noteq> i"
  shows "at_pos t p us x (vs @ y # ws) \<Longrightarrow> at_pos t p2 (us @ x # vs) y ws \<Longrightarrow> n \<le> int (length us) \<Longrightarrow>
    found_id t i (i \<in> set vs) (find_between i s p2 n p)"
proof (induction vs arbitrary: p us x n)
  case Nil
  then have "p \<noteq> p2" using position_unique [OF idx Nil.prems(1), of "us @ [x]" y ws] by auto
  from find_between_step [OF idx Nil.prems(1) [simplified] this Nil.prems(3)] obtain q where q: "at_pos t q (us @ [x]) y ws"
    "find_between i s p2 n p = (if y = i then Some (DB_SUCCESS, q) else find_between i s p2 (n + 1) q)" by blast
  with Nil.prems(2) have "q = p2" by (intro same_position [of t q "us @ [x]" y ws p2 y ws]) simp_all
  with q(2) y show ?case by (simp add: find_between.simps found_id_def no_position_def)
next
  case (Cons v vs)
  then have "p \<noteq> p2" using position_unique [OF idx Cons.prems(1), of "us @ x # v # vs" y ws] by auto
  from find_between_step [OF idx Cons.prems(1) [simplified] this Cons.prems(3)] obtain q where q: "at_pos t q (us @ [x]) v (vs @ y # ws)"
    "find_between i s p2 n p = (if v = i then Some (DB_SUCCESS, q) else find_between i s p2 (n + 1) q)" by blast
  show ?case
  proof (cases "v = i")
    case True
    with q show ?thesis by (auto simp: found_id_def)
  next
    case False
    with q Cons.IH [OF q(1), of "n + 1"] Cons.prems(2,3) show ?thesis by auto
  qed
qed

lemma FindPositionWithValueAndID_ok:
  assumes idx: "index_ok s t" and d: "descending (key_cmp env key) (entries t)" and nz: "0 \<notin> set (entries t)"
    and key: "ie_key_create env rec = Inr key"
  shows "found_id t i (i \<in> set (entries t) \<and> key_cmp env key i = 0) (TTree_FindPositionWithValueAndID env rec i s p)"
proof (cases "\<exists>x \<in> set (entries t). key_cmp env key x = 0")
  case False
  with Get_Eq_ok(1) [OF idx d nz, of p] have "TTree_Get_First_Eq env key s p = Some (DB_E_NOMORERECORDS, no_position p)"
    by (simp add: located_def)
  with False key show ?thesis
    by (auto simp: TTree_FindPositionWithValueAndID_def found_id_def DB_E_NOMORERECORDS_def no_position_def)
next
  case True
  let ?f = "key_cmp env key"
  from True Get_Eq_ok(1) [OF idx d nz, of p] obtain q us x vs where q: "TTree_Get_First_Eq env key s p = Some (DB_SUCCESS, q)"
    "at_pos t q us x vs" "?f x = 0" "\<forall>y \<in> set us. ?f y \<noteq> 0" by (auto simp: located_def first_eq_result_def first_entry_def)
  note qi = at_pos_item [OF idx q(2)] and qe = at_pos_entries [OF q(2)]
  from True Get_Eq_ok(2) [OF idx d nz, of q] obtain p2 as y bs where p2: "TTree_Get_Last_Eq env key s q = Some (DB_SUCCESS, p2)"
    "at_pos t p2 as y bs" "?f y = 0" "\<forall>z \<in> set bs. ?f z \<noteq> 0" by (auto simp: located_def last_eq_result_def last_entry_def)
  note pi = at_pos_item [OF idx p2(2)] and pe = at_pos_entries [OF p2(2)]
  have run: "TTree_FindPositionWithValueAndID env rec i s p =
      (if x = i then Some (DB_SUCCESS, q) else if y = i then Some (DB_SUCCESS, p2) else find_between i s p2 0 q)"
    using key q(1) p2(1) qi pi by (simp add: TTree_FindPositionWithValueAndID_def DB_SUCCESS_def)
  show ?thesis
  proof (cases "x = i \<or> y = i")
    case True
    then have "i \<in> set (entries t) \<and> ?f i = 0" using qe pe q(3) p2(3) by (metis in_set_conv_decomp)
    with True run q(2) p2(2) show ?thesis by (auto simp: found_id_def)
  next
    case False
    have "us @ x # vs = as @ y # bs" using qe pe by simp
    then consider "us = as" "x = y" "vs = bs" | w where "as = us @ x # w" "vs = w @ y # bs"
      using q(4) p2(3) by (auto simp: append_eq_append_conv2 Cons_eq_append_conv append_eq_Cons_conv)
    then show ?thesis
    proof cases
      case 1
      then have "q = p2" using same_position [OF q(2), of p2 y bs] p2(2) by simp
      moreover have no: "\<not> (i \<in> set (entries t) \<and> ?f i = 0)" using 1 q(4) p2(4) qe False by auto
      ultimately have "TTree_FindPositionWithValueAndID env rec i s p = Some (DB_E_NOMORERECORDS, no_position p2)"
        using run False by (simp add: find_between.simps)
      then show ?thesis unfolding found_id_def if_not_P [OF no] by (simp add: no_position_def)
    next
      case 2
      have "found_id t i (i \<in> set w) (find_between i s p2 0 q)"
        by (rule find_between_ok [OF idx]) (use False q(2) p2(2) 2 in auto)
      moreover have "i \<in> set (entries t) \<and> ?f i = 0 \<longleftrightarrow> i \<in> set w"
      proof
        assume "i \<in> set (entries t) \<and> ?f i = 0"
        with q(4) p2(4) qe 2 False show "i \<in> set w" by auto
      next
        assume i: "i \<in> set w"
        from d qe 2 have "descending ?f (us @ x # w @ y # bs)" by simp
        with i have "sgn (?f i) \<le> sgn (?f x)" "sgn (?f y) \<le> sgn (?f i)" by (auto simp: descending_def sorted_wrt_append)
        with q(3) p2(3) have "?f i = 0" by (simp add: sgn_if split: if_splits)
        with i qe 2 show "i \<in> set (entries t) \<and> ?f i = 0" by simp
      qed
      ultimately show ?thesis using run False by simp
    qed
  qed
qed

lemma FindRecord_ok:
  assumes "index_ok s t" and "descending (key_cmp env key) (entries t)" and "0 \<notin> set (entries t)" and "ie_key_create env rec = Inr key"
  shows "TTree_FindRecord env rec i s = Some (DB_SUCCESS, Some (i \<in> set (entries t) \<and> key_cmp env key i = 0))"
  using FindPositionWithValueAndID_ok [OF assms, of i "\<lparr>pos_node = 0, pos_idx = 0\<rparr>"]
  by (auto simp: TTree_FindRecord_def found_id_def DB_SUCCESS_def DB_E_NOMORERECORDS_def split: if_splits)

lemma IsExist_ok:
  assumes idx: "index_ok s t" and d: "descending (key_cmp env key) (entries t)" and nz: "0 \<notin> set (entries t)"
    and key: "ie_key_create env rec = Inr key"
  defines "same \<equiv> filter (\<lambda>x. key_cmp env key x = 0) (entries t)"
  shows "TTree_IsExist env rec i s = Some (if same = [] \<or> i \<noteq> 0 \<and> hd same = i then 0 else to_int32 (hd same))"
proof (cases "\<exists>x \<in> set (entries t). key_cmp env key x = 0")
  case False
  then have "same = []" by (simp add: same_def filter_empty_conv)
  with False Get_Eq_ok(1) [OF idx d nz, of "\<lparr>pos_node = 0, pos_idx = 0\<rparr>"] key show ?thesis
    by (simp add: located_def TTree_IsExist_def DB_E_NOMORERECORDS_def)
next
  case True
  with Get_Eq_ok(1) [OF idx d nz, of "\<lparr>pos_node = 0, pos_idx = 0\<rparr>"] obtain q us x vs
    where q: "TTree_Get_First_Eq env key s \<lparr>pos_node = 0, pos_idx = 0\<rparr> = Some (DB_SUCCESS, q)"
    "at_pos t q us x vs" "key_cmp env key x = 0" "\<forall>y \<in> set us. key_cmp env key y \<noteq> 0"
    by (auto simp: located_def first_eq_result_def first_entry_def)
  have "filter (\<lambda>x. key_cmp env key x = 0) us = []" using q(4) by (simp add: filter_empty_conv)
  then have "same = x # filter (\<lambda>x. key_cmp env key x = 0) vs" using at_pos_entries [OF q(2)] q(3) by (simp add: same_def)
  with q(1) key at_pos_item [OF idx q(2)] show ?thesis by (simp add: TTree_IsExist_def NULL_OID_def DB_SUCCESS_def)
qed

end
