(* ===== verification/TTreeRemove.thy ===== *)
theory TTreeRemove
  imports TTreeInsert TTreeSearch
begin

section \<open>Removal from a T-tree (\<^verbatim>\<open>openML/src/server/storage/mdb_TTree_Remove.c\<close>)\<close>

text \<open>
  The removal of an item from a node, the merges of a node that has become small with its only child and the
  climb that restores the balance (both in \<^verbatim>\<open>mdb_TTree.c\<close>), and the removal of a record.  A slot that is
  given back holds the link of the free list: its node is gone.
\<close>

definition remove_slot :: "oid \<Rightarrow> ttree \<Rightarrow> (int \<times> ttree) option" where
  \<comment> \<open>\<^verbatim>\<open>Index_Col_Remove\<close> of a node\<close>
  "remove_slot p s =
     do {
       (ret, sl) \<leftarrow> Index_Col_Remove p (slots s);
       Some (ret, s\<lparr>slots := sl, nodes := (nodes s)(p := None)\<rparr>)
     }"

definition delete_key :: "oid \<Rightarrow> int \<Rightarrow> ttree \<Rightarrow> (int \<times> ttree) option" where
  \<comment> \<open>\<^verbatim>\<open>TTreeNode_DeleteKey\<close> in the heap\<close>
  "delete_key p index s =
     do {
       nd \<leftarrow> deref p s;
       (ret, nd) \<leftarrow> TTreeNode_DeleteKey nd index;
       Some (ret, s\<lparr>nodes := (nodes s)(p \<mapsto> nd)\<rparr>)
     }"

subsection \<open>Restoring the balance\<close>

definition child_height :: "oid \<Rightarrow> ttree \<Rightarrow> nat option" where
  "child_height i s = (if i = NULL_OID then Some 0 else do { nd \<leftarrow> deref (Index_OID_Point i) s; Some (tn_height nd + 1) })"

partial_function (option) rebalance_delete :: "oid \<Rightarrow> ttree \<Rightarrow> (int \<times> ttree) option" where
  \<comment> \<open>the results of the rotations are ignored\<close>
  "rebalance_delete node s =
     do {
       nd \<leftarrow> deref node s;
       left_height \<leftarrow> child_height (tn_left nd) s;
       right_height \<leftarrow> child_height (tn_right nd) s;
       s \<leftarrow> set_height node (max left_height right_height) s;
       s \<leftarrow> (if \<bar>int left_height - int right_height\<bar> > 1 then
               do {
                 (_, s) \<leftarrow> (if left_height > right_height then rotate_left_heavy node (Index_OID_Point (tn_left nd)) s
                           else rotate_right_heavy node (Index_OID_Point (tn_right nd)) s);
                 Some s
               }
             else Some s);
       nd \<leftarrow> deref node s;
       if tn_parent nd = NULL_OID then Some (DB_SUCCESS, s) else rebalance_delete (Index_OID_Point (tn_parent nd)) s
     }"

definition TTree_Rebalance_For_Delete :: "oid \<Rightarrow> ttree \<Rightarrow> (int \<times> ttree) option" where
  "TTree_Rebalance_For_Delete node s = (if node = 0 then Some (DB_FAIL 1697, s) else rebalance_delete node s)"

subsection \<open>Merging with a child\<close>

definition TTree_Merge_With_Left_Child :: "oid \<Rightarrow> ttree \<Rightarrow> (int \<times> ttree) option" where
  "TTree_Merge_With_Left_Child node s =
     do {
       nd \<leftarrow> deref node s;
       let left_node = Index_OID_Point (tn_left nd);
       if left_node = 0 then Some (DB_E_OIDPOINTER, s)
       else
         do {
           l \<leftarrow> deref left_node s;
           if tn_count nd + tn_count l \<le> TNODE_MAX_ITEM then
             do {
               s \<leftarrow> TTreeNode_MoveLeftToRight left_node node (tn_count l) s;
               s \<leftarrow> upd_node node (\<lambda>n. n\<lparr>tn_left := NULL_OID, tn_height := 0\<rparr>) s;
               (ret, s) \<leftarrow> remove_slot (tn_self l) s;
               if ret < 0 then Some (DB_FAIL 1553, s) else TTree_Rebalance_For_Delete node s
             }
           else
             do {
               s \<leftarrow> TTreeNode_MoveLeftToRight left_node node (TNODE_MAX_ITEM - tn_count nd) s;
               Some (DB_SUCCESS, s)
             }
         }
     }"

definition TTree_Merge_With_Right_Child :: "oid \<Rightarrow> ttree \<Rightarrow> (int \<times> ttree) option" where
  \<comment> \<open>the result of \<^verbatim>\<open>Index_Col_Remove\<close> is ignored\<close>
  "TTree_Merge_With_Right_Child node s =
     do {
       nd \<leftarrow> deref node s;
       let right_node = Index_OID_Point (tn_right nd);
       if right_node = 0 then Some (DB_E_OIDPOINTER, s)
       else
         do {
           r \<leftarrow> deref right_node s;
           if tn_count nd + tn_count r \<le> TNODE_MAX_ITEM then
             do {
               s \<leftarrow> TTreeNode_MoveRightToLeft node right_node (tn_count r) s;
               s \<leftarrow> upd_node node (\<lambda>n. n\<lparr>tn_right := NULL_OID, tn_height := 0\<rparr>) s;
               (_, s) \<leftarrow> remove_slot (tn_self r) s;
               TTree_Rebalance_For_Delete node s
             }
           else
             do {
               s \<leftarrow> TTreeNode_MoveRightToLeft node right_node (TNODE_MAX_ITEM - tn_count nd) s;
               Some (DB_SUCCESS, s)
             }
         }
     }"

subsection \<open>Removing an item\<close>

definition or_fail :: "int \<Rightarrow> (int \<times> ttree) option \<Rightarrow> (int \<times> ttree) option" where
  \<comment> \<open>\<^verbatim>\<open>DB_FAIL\<close> in a line for a negative result\<close>
  "or_fail line r = do { (ret, s) \<leftarrow> r; Some (if ret < 0 then DB_FAIL line else DB_SUCCESS, s) }"

definition remove_leaf :: "oid \<Rightarrow> ttree \<Rightarrow> (int \<times> ttree) option" where
  \<comment> \<open>an empty node without children that has a parent\<close>
  "remove_leaf node s =
     do {
       nd \<leftarrow> deref node s;
       let node_to_del = tn_self nd;
       let p = Index_OID_Point (tn_parent nd);
       if p = 0 then Some (DB_E_OIDPOINTER, s)
       else
         do {
           (ret, s) \<leftarrow> remove_slot node_to_del s;
           if ret < 0 then Some (DB_FAIL 430, s)
           else
             do {
               pd \<leftarrow> deref p s;
               if tn_left pd = node_to_del then
                 (if tn_right pd \<noteq> NULL_OID \<and> Index_OID_Point (tn_right pd) = 0
                  then do { s \<leftarrow> upd_node p (\<lambda>n. n\<lparr>tn_left := NULL_OID\<rparr>) s; Some (DB_E_OIDPOINTER, s) }
                  else
                    do {
                      h \<leftarrow> child_height (tn_right pd) s;
                      s \<leftarrow> upd_node p (\<lambda>n. n\<lparr>tn_left := NULL_OID, tn_height := h\<rparr>) s;
                      or_fail 482 (TTree_Rebalance_For_Delete p s)
                    })
               else if tn_right pd = node_to_del then
                 (if tn_left pd \<noteq> NULL_OID \<and> Index_OID_Point (tn_left pd) = 0
                  then do { s \<leftarrow> upd_node p (\<lambda>n. n\<lparr>tn_right := NULL_OID\<rparr>) s; Some (DB_E_OIDPOINTER, s) }
                  else
                    do {
                      h \<leftarrow> child_height (tn_left pd) s;
                      s \<leftarrow> upd_node p (\<lambda>n. n\<lparr>tn_right := NULL_OID, tn_height := h\<rparr>) s;
                      or_fail 482 (TTree_Rebalance_For_Delete p s)
                    })
               else or_fail 482 (TTree_Rebalance_For_Delete p s)
             }
         }
     }"

definition remove_rest :: "oid \<Rightarrow> ttree \<Rightarrow> (int \<times> ttree) option" where
  \<comment> \<open>the node has lost an item and is small\<close>
  "remove_rest node s =
     do {
       nd \<leftarrow> deref node s;
       if tn_left nd \<noteq> NULL_OID \<and> tn_right nd = NULL_OID then or_fail 367 (TTree_Merge_With_Left_Child node s)
       else if tn_left nd = NULL_OID \<and> tn_right nd \<noteq> NULL_OID then or_fail 385 (TTree_Merge_With_Right_Child node s)
       else if tn_count nd > 0 then Some (DB_SUCCESS, s)
       else if tn_parent nd \<noteq> NULL_OID then remove_leaf node s
       else
         do {
           (ret, s) \<leftarrow> remove_slot (tn_self nd) s;
           Some (if ret < 0 then (DB_FAIL 500, s) else (DB_SUCCESS, s\<lparr>root := NULL_OID\<rparr>))
         }
     }"

definition TTree_Remove :: "oid \<Rightarrow> int \<Rightarrow> ttree \<Rightarrow> (int \<times> ttree) option" where
  "TTree_Remove node index_in_node s =
     do {
       (ret, s) \<leftarrow> delete_key node index_in_node s;
       nd \<leftarrow> deref node s;
       if ret < 0 then Some (DB_FAIL 282, s)
       else if tn_count nd \<ge> TNODE_MIN_ITEM div 2 then Some (DB_SUCCESS, s)
       else if tn_left nd \<noteq> NULL_OID \<and> tn_right nd \<noteq> NULL_OID then
         do {
           glb_child \<leftarrow> TTree_GlbChild node s;
           g \<leftarrow> deref glb_child s;
           rid_of_glb \<leftarrow> get_item (tn_item g) (tn_count g - 1);
           s \<leftarrow> set_node node (TTreeNode_InsertKey nd 0 rid_of_glb) s;
           g \<leftarrow> deref glb_child s;
           (ret, s) \<leftarrow> delete_key glb_child (tn_count g - 1) s;
           g \<leftarrow> deref glb_child s;
           if ret < 0 then Some (DB_FAIL 337, s)
           else if tn_left g = NULL_OID then (if tn_count g > 0 then Some (DB_SUCCESS, s) else remove_rest glb_child s)
           else if tn_count g \<ge> TNODE_MIN_ITEM then Some (DB_SUCCESS, s)
           else remove_rest glb_child s
         }
       else remove_rest node s
     }"

definition TTree_RemoveRecord :: "('r, 'k) index_env \<Rightarrow> 'r option \<Rightarrow> oid \<Rightarrow> ttree \<Rightarrow> (int \<times> ttree) option" where
  \<comment> \<open>without a record the id is searched in all nodes\<close>
  "TTree_RemoveRecord env record record_id s =
     do {
       let p = \<lparr>pos_node = 0, pos_idx = 0\<rparr>;
       (ret, p) \<leftarrow> (case record of
                     None \<Rightarrow> TTree_FindPositionWithID_Exaustive record_id s p
                   | Some r \<Rightarrow> TTree_FindPositionWithValueAndID env r record_id s p);
       if ret < 0 then Some (ret, s)
       else
         do {
           (ret, s) \<leftarrow> TTree_Remove (pos_node p) (pos_idx p) s;
           Some (ret, s\<lparr>modified_time := modified_time s + 1\<rparr>)
         }
     }"

end
