(* ===== verification/TTreeShrink.thy ===== *)
theory TTreeShrink
  imports TTreeRemove TTreeGrow
begin

section \<open>The climb after a removal\<close>

text \<open>
  \<open>dropped h l r\<close> is what this climb meets at a node whose tree had height \<open>h\<close>: one side may have
  lost a level.  It goes on up to the root, and at a node that has been rotated it continues with the node that is
  now above it.  A rotation may shrink the tree and then also corrects the height that the parent stores; the rest
  of the path is as before (\<open>avl_path (fix_height c h) h\<close>).
\<close>

definition dropped :: "nat \<Rightarrow> tt \<Rightarrow> tt \<Rightarrow> bool" where
  "dropped h l r \<longleftrightarrow> avl l \<and> avl r \<and>
     (let a = ht_above l; b = ht_above r; m = Suc (max a b) in
      a \<le> b + 1 \<and> b \<le> a + 1 \<and> (m = h \<or> Suc m = h) \<or> (a = b + 2 \<or> b = a + 2) \<and> m = h)"

lemma child_height_ptr:
  assumes "tree_at (nodes s) q ty t"
  shows "child_height (ptr t) s = Some (ht_above t)"
proof (cases t)
  case (Bin l p k xs r)
  with assms show ?thesis by (auto simp: child_height_def deref_def node_at_def valid_oid_def node_is_def NULL_OID_def)
qed (simp add: child_height_def NULL_OID_def)

lemma rebalance_delete_step:
  assumes zip: "zip_at s c (Bin l p k xs r)"
  obtains h where "zip_at (s\<lparr>nodes := h\<rparr>) c (Bin l p (max (ht_above l) (ht_above r)) xs r)"
    "\<And>q. q \<noteq> p \<Longrightarrow> h q = nodes s q"
    "rebalance_delete p s =
       do {
         s \<leftarrow> (if ht_above l > ht_above r + 1 then do { (_, s) \<leftarrow> rotate_left_heavy p (ptr l) (s\<lparr>nodes := h\<rparr>); Some s }
              else if ht_above r > ht_above l + 1 then do { (_, s) \<leftarrow> rotate_right_heavy p (ptr r) (s\<lparr>nodes := h\<rparr>); Some s }
              else Some (s\<lparr>nodes := h\<rparr>));
         nd \<leftarrow> deref p s;
         if tn_parent nd = NULL_OID then Some (DB_SUCCESS, s) else rebalance_delete (Index_OID_Point (tn_parent nd)) s
       }"
proof -
  from zip have l: "tree_at (nodes s) p LEFT_CHILD l" and r: "tree_at (nodes s) p RIGHT_CHILD r"
    and a: "node_at (nodes s) p (par c) (side c) (ptr l) k xs (ptr r)" by (simp_all add: zip_at_def)
  obtain nd where nd: "deref p s = Some nd" "tn_left nd = ptr l" "tn_right nd = ptr r"
    by (rule node_at_deref [OF a]) blast
  obtain h where h: "set_height p (max (ht_above l) (ht_above r)) s = Some (s\<lparr>nodes := h\<rparr>)"
    "zip_at (s\<lparr>nodes := h\<rparr>) c (Bin l p (max (ht_above l) (ht_above r)) xs r)" "\<And>q. q \<noteq> p \<Longrightarrow> h q = nodes s q"
    by (rule set_height_run [OF zip, of "max (ht_above l) (ht_above r)"]) blast
  have big: "\<bar>int a - int b\<bar> > 1 \<longleftrightarrow> a > b + 1 \<or> b > a + 1" for a b :: nat by auto
  have "rebalance_delete p s =
       do {
         s \<leftarrow> (if ht_above l > ht_above r + 1 then do { (_, s) \<leftarrow> rotate_left_heavy p (ptr l) (s\<lparr>nodes := h\<rparr>); Some s }
              else if ht_above r > ht_above l + 1 then do { (_, s) \<leftarrow> rotate_right_heavy p (ptr r) (s\<lparr>nodes := h\<rparr>); Some s }
              else Some (s\<lparr>nodes := h\<rparr>));
         nd \<leftarrow> deref p s;
         if tn_parent nd = NULL_OID then Some (DB_SUCCESS, s) else rebalance_delete (Index_OID_Point (tn_parent nd)) s
       }"
    by (subst rebalance_delete.simps)
      (simp add: nd h(1) ptr_point [OF l] ptr_point [OF r] child_height_ptr [OF l] child_height_ptr [OF r] big)
  with h(2,3) that show ?thesis by blast
qed

lemma deref_at:
  assumes "zip_at s c (Bin l p k xs r)"
  obtains nd where "deref p s = Some nd" "tn_parent nd = par c" "tn_self nd = p" "tn_count nd = int (length xs)" "tn_left nd = ptr l"
    "tn_right nd = ptr r" "has_items nd xs" "nodes s p = Some nd"
proof -
  from assms have a: "node_at (nodes s) p (par c) (side c) (ptr l) k xs (ptr r)" by (simp add: zip_at_def)
  show ?thesis by (rule node_at_deref [OF a], rule that) (simp_all add: has_items_def)
qed

lemma delete_level:
  \<comment> \<open>a node whose sides are in balance\<close>
  assumes zip: "zip_at s c (Bin l p k xs r)" and bal: "ht_above l \<le> ht_above r + 1" "ht_above r \<le> ht_above l + 1"
  obtains h where "zip_at (s\<lparr>nodes := h\<rparr>) c (Bin l p (max (ht_above l) (ht_above r)) xs r)" "\<And>q. q \<noteq> p \<Longrightarrow> h q = nodes s q"
    "rebalance_delete p s = (if c = [] then Some (DB_SUCCESS, s\<lparr>nodes := h\<rparr>) else rebalance_delete (par c) (s\<lparr>nodes := h\<rparr>))"
proof -
  obtain h where h: "zip_at (s\<lparr>nodes := h\<rparr>) c (Bin l p (max (ht_above l) (ht_above r)) xs r)" "\<And>q. q \<noteq> p \<Longrightarrow> h q = nodes s q"
    "rebalance_delete p s =
       do {
         s \<leftarrow> (if ht_above l > ht_above r + 1 then do { (_, s) \<leftarrow> rotate_left_heavy p (ptr l) (s\<lparr>nodes := h\<rparr>); Some s }
              else if ht_above r > ht_above l + 1 then do { (_, s) \<leftarrow> rotate_right_heavy p (ptr r) (s\<lparr>nodes := h\<rparr>); Some s }
              else Some (s\<lparr>nodes := h\<rparr>));
         nd \<leftarrow> deref p s;
         if tn_parent nd = NULL_OID then Some (DB_SUCCESS, s) else rebalance_delete (Index_OID_Point (tn_parent nd)) s
       }"
    by (rule rebalance_delete_step [OF zip]) blast
  obtain nd where nd: "deref p (s\<lparr>nodes := h\<rparr>) = Some nd" "tn_parent nd = par c" by (rule deref_at [OF h(1)])
  from h(1) have path: "path_at h (root s) p c" by (simp add: zip_at_def)
  have "rebalance_delete p s = (if c = [] then Some (DB_SUCCESS, s\<lparr>nodes := h\<rparr>) else rebalance_delete (par c) (s\<lparr>nodes := h\<rparr>))"
    using h(3) bal nd par_null [OF path] par_point [OF path] by (simp add: NULL_OID_def)
  with h(1,2) that show ?thesis by blast
qed

lemma fix_left_child:
  assumes "t = Bin (Bin ll q kl xl lr) p k xs r" and "lr = Tip \<longrightarrow> ll \<noteq> Tip"
  obtains A q' k' ys B k'' zs C where "fix_left t = Bin A q' k' ys (Bin B p k'' zs C)"
proof (cases lr)
  case Tip
  with assms that show ?thesis by (auto simp: join_def Let_def)
next
  case (Bin a b c d e)
  with assms that show ?thesis by (cases "ht_above lr \<le> ht_above ll") (auto simp: join_def Let_def)
qed

lemma fix_right_child:
  assumes "t = Bin l p k xs (Bin rl q kr xr rr)" and "rl = Tip \<longrightarrow> rr \<noteq> Tip"
  obtains A k'' zs B q' k' ys C where "fix_right t = Bin (Bin A p k'' zs B) q' k' ys C"
proof (cases rl)
  case Tip
  with assms that show ?thesis by (auto simp: join_def Let_def)
next
  case (Bin a b c d e)
  with assms that show ?thesis by (cases "ht_above rl \<le> ht_above rr") (auto simp: join_def Let_def)
qed

lemma delete_rotated:
  assumes rot: "rotated res s c t u" and u: "avl u" "u = Bin A q k ys D" "A = Bin B p m zs C \<or> D = Bin B p m zs C"
    and same: "oids u = oids t"
    and run: "rebalance_delete p s0 =
      do {
        s \<leftarrow> do { (_, s) \<leftarrow> res; Some s };
        nd \<leftarrow> deref p s;
        if tn_parent nd = NULL_OID then Some (DB_SUCCESS, s) else rebalance_delete (Index_OID_Point (tn_parent nd)) s
      }"
  obtains h rt where "zip_at (s\<lparr>nodes := h, root := rt\<rparr>) (fix_height c (ht_above u)) u"
    "\<And>q. q \<notin> set (oids t) \<Longrightarrow> q \<notin> set (path_oids c) \<Longrightarrow> h q = nodes s q"
    "rebalance_delete p s0 = (if c = [] then Some (DB_SUCCESS, s\<lparr>nodes := h, root := rt\<rparr>)
       else rebalance_delete (par c) (s\<lparr>nodes := h, root := rt\<rparr>))"
proof -
  let ?c = "fix_height c (ht_above u)"
  from rot obtain h rt where res: "res = Some (DB_SUCCESS, s\<lparr>nodes := h, root := rt\<rparr>)" and zip: "zip_at (s\<lparr>nodes := h, root := rt\<rparr>) ?c u"
    and frame: "\<And>q. q \<notin> set (oids t) \<Longrightarrow> q \<notin> set (path_oids c) \<Longrightarrow> h q = nodes s q"
    by (auto simp: rotated_def)
  define S where "S = s\<lparr>nodes := h, root := rt\<rparr>"
  have zip': "zip_at S ?c (Bin A q k ys D)" using zip u(2) by (simp add: S_def)
  then have "node_at (nodes S) q (par ?c) (side ?c) (ptr A) k ys (ptr D)" by (simp add: zip_at_def)
  then have q: "q \<noteq> 0" "Index_OID_Point q = q" by (simp_all add: node_at_def valid_oid_def)
  obtain nd where nd: "deref p S = Some nd" "tn_parent nd = q"
  proof (cases "A = Bin B p m zs C")
    case True
    with zip' have "zip_at S (LeftHole q k ys D # ?c) (Bin B p m zs C)" by (simp add: zip_at_fill)
    then obtain nd where "deref p S = Some nd" "tn_parent nd = par (LeftHole q k ys D # ?c)" by (rule deref_at)
    with that show ?thesis by simp
  next
    case False
    with u(3) zip' have "zip_at S (RightHole A q k ys # ?c) (Bin B p m zs C)" by (simp add: zip_at_fill)
    then obtain nd where "deref p S = Some nd" "tn_parent nd = par (RightHole A q k ys # ?c)" by (rule deref_at)
    with that show ?thesis by simp
  qed
  have bal: "ht_above A \<le> ht_above D + 1" "ht_above D \<le> ht_above A + 1" and k: "k = max (ht_above A) (ht_above D)" using u(1,2) by simp_all
  obtain h' where h': "zip_at (S\<lparr>nodes := h'\<rparr>) ?c (Bin A q k ys D)" "\<And>r. r \<noteq> q \<Longrightarrow> h' r = nodes S r"
    "rebalance_delete q S = (if ?c = [] then Some (DB_SUCCESS, S\<lparr>nodes := h'\<rparr>) else rebalance_delete (par ?c) (S\<lparr>nodes := h'\<rparr>))"
    by (rule delete_level [OF zip' bal]) (simp add: k)
  have eq: "S\<lparr>nodes := h'\<rparr> = s\<lparr>nodes := h', root := rt\<rparr>" by (cases s) (simp add: S_def)
  have "rebalance_delete p s0 = rebalance_delete q S"
    using run nd q by (simp add: res S_def NULL_OID_def)
  moreover have "?c = [] \<longleftrightarrow> c = []" by (cases c; cases "hd c") auto
  ultimately have "rebalance_delete p s0 = (if c = [] then Some (DB_SUCCESS, s\<lparr>nodes := h', root := rt\<rparr>)
       else rebalance_delete (par c) (s\<lparr>nodes := h', root := rt\<rparr>))"
    using h'(3) eq by simp
  moreover have "zip_at (s\<lparr>nodes := h', root := rt\<rparr>) ?c u" using h'(1) u(2) eq by simp
  moreover have "q \<in> set (oids t)" using u(2) same by (simp flip: same)
  then have "h' r = nodes s r" if "r \<notin> set (oids t)" "r \<notin> set (path_oids c)" for r
    using frame [OF that] h'(2) [of r] that by (cases "r = q") (simp_all add: S_def)
  ultimately show ?thesis using that by blast
qed

lemma dropped_left:
  assumes d: "dropped h0 l r" and big: "ht_above l > ht_above r + 1"
  obtains ll q kl xl lr where "l = Bin ll q kl xl lr" "lr = Tip \<longrightarrow> ll \<noteq> Tip" "Suc kl = ht_above r + 2" "Suc (Suc kl) = h0" "avl l" "avl r"
proof -
  from d big have h: "avl l" "avl r" "ht_above l = ht_above r + 2" "Suc (ht_above l) = h0" by (auto simp: dropped_def Let_def)
  then obtain ll q kl xl lr where l: "l = Bin ll q kl xl lr" by (cases l) auto
  with h have "lr = Tip \<longrightarrow> ll \<noteq> Tip" by auto
  with that l h show ?thesis by simp
qed

lemma dropped_right:
  assumes d: "dropped h0 l r" and big: "ht_above r > ht_above l + 1"
  obtains rl q kr xr rr where "r = Bin rl q kr xr rr" "rl = Tip \<longrightarrow> rr \<noteq> Tip" "Suc kr = ht_above l + 2" "Suc (Suc kr) = h0" "avl l" "avl r"
proof -
  from d big have h: "avl l" "avl r" "ht_above r = ht_above l + 2" "Suc (ht_above r) = h0" by (auto simp: dropped_def Let_def)
  then obtain rl q kr xr rr where r: "r = Bin rl q kr xr rr" by (cases r) auto
  with h have "rl = Tip \<longrightarrow> rr \<noteq> Tip" by auto
  with that r h show ?thesis by simp
qed

definition lifted :: "(int \<times> ttree) option \<Rightarrow> ttree \<Rightarrow> frame list \<Rightarrow> nat \<Rightarrow> tt \<Rightarrow> bool" where
  \<comment> \<open>one node of the climb: the tree \<open>t\<close> of height \<open>h0\<close> is balanced, and the climb is at its parent\<close>
  "lifted res s c h0 t \<longleftrightarrow>
     (\<exists>h rt u c'. zip_at (s\<lparr>nodes := h, root := rt\<rparr>) c' u \<and> (c' = c \<or> c' = fix_height c (ht_above u)) \<and> avl u \<and>
        (ht_above u = h0 \<or> Suc (ht_above u) = h0) \<and> entries u = entries t \<and> set (oids u) = set (oids t) \<and> no_empty u \<and>
        (\<forall>q. q \<notin> set (oids t) \<longrightarrow> q \<notin> set (path_oids c) \<longrightarrow> h q = nodes s q) \<and>
        res = (if c = [] then Some (DB_SUCCESS, s\<lparr>nodes := h, root := rt\<rparr>) else rebalance_delete (par c) (s\<lparr>nodes := h, root := rt\<rparr>)))"

lemma delete_lifts:
  assumes zip: "zip_at s c (Bin l p k xs r)" and d: "dropped h0 l r" and ne: "no_empty (Bin l p k xs r)"
  shows "lifted (rebalance_delete p s) s c h0 (Bin l p k xs r)"
proof -
  let ?T = "Bin l p (max (ht_above l) (ht_above r)) xs r"
  have neT: "no_empty ?T" using ne by simp
  consider (bal) "ht_above l \<le> ht_above r + 1" "ht_above r \<le> ht_above l + 1" | (left) "ht_above l > ht_above r + 1"
    | (right) "ht_above r > ht_above l + 1" by linarith
  then show ?thesis
  proof cases
    case bal
    obtain h where h: "zip_at (s\<lparr>nodes := h\<rparr>) c ?T" "\<And>q. q \<noteq> p \<Longrightarrow> h q = nodes s q"
      "rebalance_delete p s = (if c = [] then Some (DB_SUCCESS, s\<lparr>nodes := h\<rparr>) else rebalance_delete (par c) (s\<lparr>nodes := h\<rparr>))"
      by (rule delete_level [OF zip bal]) blast
    have "h q = nodes s q" if "q \<notin> set (oids (Bin l p k xs r))" for q using that by (intro h(2)) auto
    moreover have "avl ?T" "ht_above ?T = h0 \<or> Suc (ht_above ?T) = h0" using d bal by (auto simp: dropped_def Let_def)
    ultimately show ?thesis unfolding lifted_def
      using h neT by (intro exI [of _ h] exI [of _ "root s"] exI [of _ ?T] exI [of _ c]) simp
  next
    case left
    obtain ll q kl xl lr where l: "l = Bin ll q kl xl lr" "lr = Tip \<longrightarrow> ll \<noteq> Tip" "Suc kl = ht_above r + 2" "Suc (Suc kl) = h0"
      "avl l" "avl r" by (rule dropped_left [OF d left])
    obtain h where h: "zip_at (s\<lparr>nodes := h\<rparr>) c ?T" "\<And>q. q \<noteq> p \<Longrightarrow> h q = nodes s q"
      "rebalance_delete p s =
        do {
          s \<leftarrow> do { (_, s) \<leftarrow> rotate_left_heavy p (ptr l) (s\<lparr>nodes := h\<rparr>); Some s };
          nd \<leftarrow> deref p s;
          if tn_parent nd = NULL_OID then Some (DB_SUCCESS, s) else rebalance_delete (Index_OID_Point (tn_parent nd)) s
        }"
      by (rule rebalance_delete_step [OF zip]) (use left in auto)
    have T: "?T = Bin (Bin ll q kl xl lr) p (max (ht_above l) (ht_above r)) xs r" using l(1) by simp
    obtain A q' k' ys B k'' zs C where u: "fix_left ?T = Bin A q' k' ys (Bin B p k'' zs C)" by (rule fix_left_child [OF T l(2)])
    have avl: "avl (fix_left ?T)" and ht: "ht_above (fix_left ?T) = h0 \<or> Suc (ht_above (fix_left ?T)) = h0"
      using fix_left_avl [OF T] l by (auto split: if_splits)
    have rot: "rotated (rotate_left_heavy p (ptr l) (s\<lparr>nodes := h\<rparr>)) (s\<lparr>nodes := h\<rparr>) c ?T (fix_left ?T)"
      using rotate_left_heavy_ok [OF h(1) T] ne l(1) by simp
    obtain g rt where g: "zip_at (s\<lparr>nodes := h\<rparr>\<lparr>nodes := g, root := rt\<rparr>) (fix_height c (ht_above (fix_left ?T))) (fix_left ?T)"
      "\<And>q. q \<notin> set (oids ?T) \<Longrightarrow> q \<notin> set (path_oids c) \<Longrightarrow> g q = nodes (s\<lparr>nodes := h\<rparr>) q"
      "rebalance_delete p s = (if c = [] then Some (DB_SUCCESS, s\<lparr>nodes := h\<rparr>\<lparr>nodes := g, root := rt\<rparr>)
         else rebalance_delete (par c) (s\<lparr>nodes := h\<rparr>\<lparr>nodes := g, root := rt\<rparr>))"
      by (rule delete_rotated [OF rot avl u _ fix_simps(3) h(3)]) blast+
    have "g r' = nodes s r'" if "r' \<notin> set (oids (Bin l p k xs r))" "r' \<notin> set (path_oids c)" for r'
      using g(2) [of r'] h(2) [of r'] that by auto
    then show ?thesis unfolding lifted_def
      using g(1,3) avl ht fix_left_no_empty [OF neT]
      by (intro exI [of _ g] exI [of _ rt] exI [of _ "fix_left ?T"] exI [of _ "fix_height c (ht_above (fix_left ?T))"])
        (simp del: fix_left.simps)
  next
    case right
    obtain rl q kr xr rr where r: "r = Bin rl q kr xr rr" "rl = Tip \<longrightarrow> rr \<noteq> Tip" "Suc kr = ht_above l + 2" "Suc (Suc kr) = h0"
      "avl l" "avl r" by (rule dropped_right [OF d right])
    obtain h where h: "zip_at (s\<lparr>nodes := h\<rparr>) c ?T" "\<And>q. q \<noteq> p \<Longrightarrow> h q = nodes s q"
      "rebalance_delete p s =
        do {
          s \<leftarrow> do { (_, s) \<leftarrow> rotate_right_heavy p (ptr r) (s\<lparr>nodes := h\<rparr>); Some s };
          nd \<leftarrow> deref p s;
          if tn_parent nd = NULL_OID then Some (DB_SUCCESS, s) else rebalance_delete (Index_OID_Point (tn_parent nd)) s
        }"
      by (rule rebalance_delete_step [OF zip]) (use right in auto)
    have T: "?T = Bin l p (max (ht_above l) (ht_above r)) xs (Bin rl q kr xr rr)" using r(1) by simp
    obtain A k'' zs B q' k' ys C where u: "fix_right ?T = Bin (Bin A p k'' zs B) q' k' ys C" by (rule fix_right_child [OF T r(2)])
    have avl: "avl (fix_right ?T)" and ht: "ht_above (fix_right ?T) = h0 \<or> Suc (ht_above (fix_right ?T)) = h0"
      using fix_right_avl [OF T] r by (auto split: if_splits)
    have rot: "rotated (rotate_right_heavy p (ptr r) (s\<lparr>nodes := h\<rparr>)) (s\<lparr>nodes := h\<rparr>) c ?T (fix_right ?T)"
      using rotate_right_heavy_ok [OF h(1) T] ne r(1) by simp
    obtain g rt where g: "zip_at (s\<lparr>nodes := h\<rparr>\<lparr>nodes := g, root := rt\<rparr>) (fix_height c (ht_above (fix_right ?T))) (fix_right ?T)"
      "\<And>q. q \<notin> set (oids ?T) \<Longrightarrow> q \<notin> set (path_oids c) \<Longrightarrow> g q = nodes (s\<lparr>nodes := h\<rparr>) q"
      "rebalance_delete p s = (if c = [] then Some (DB_SUCCESS, s\<lparr>nodes := h\<rparr>\<lparr>nodes := g, root := rt\<rparr>)
         else rebalance_delete (par c) (s\<lparr>nodes := h\<rparr>\<lparr>nodes := g, root := rt\<rparr>))"
      by (rule delete_rotated [OF rot avl u _ fix_simps(4) h(3)]) blast+
    have "g r' = nodes s r'" if "r' \<notin> set (oids (Bin l p k xs r))" "r' \<notin> set (path_oids c)" for r'
      using g(2) [of r'] h(2) [of r'] that by auto
    then show ?thesis unfolding lifted_def
      using g(1,3) avl ht fix_right_no_empty [OF neT]
      by (intro exI [of _ g] exI [of _ rt] exI [of _ "fix_right ?T"] exI [of _ "fix_height c (ht_above (fix_right ?T))"])
        (simp del: fix_right.simps)
  qed
qed

lemma climbed_from:
  assumes "climbed res (s\<lparr>nodes := h, root := rt\<rparr>) t" and "entries t = entries t'" "set (oids t) = set (oids t')"
    and "\<And>q. q \<notin> set (oids t') \<Longrightarrow> h q = nodes s q"
  shows "climbed res s t'"
proof -
  have eq: "s\<lparr>nodes := h, root := rt\<rparr>\<lparr>nodes := g, root := x\<rparr> = s\<lparr>nodes := g, root := x\<rparr>" for g x by simp
  from assms(1) obtain g x u where "res = Some (DB_SUCCESS, s\<lparr>nodes := g, root := x\<rparr>)"
    "zip_at (s\<lparr>nodes := g, root := x\<rparr>) [] u" "avl u" "entries u = entries t" "set (oids u) = set (oids t)" "no_empty u"
    "\<And>p. p \<notin> set (oids t) \<Longrightarrow> g p = h p"
    unfolding climbed_def eq by auto
  with assms(2-4) show ?thesis
    unfolding climbed_def by (intro exI [of _ g] exI [of _ x] exI [of _ u]) simp
qed

lemma dropped_up:
  assumes "avl u" "ht_above u = h0 \<or> Suc (ht_above u) = h0" and "avl t" "h0 \<le> ht_above t + 1" "ht_above t \<le> h0 + 1"
  shows "dropped (Suc (max h0 (ht_above t))) u t" "dropped (Suc (max (ht_above t) h0)) t u"
  using assms by (auto simp: dropped_def Let_def max_def)

lemma rebalance_delete_run:
  assumes "zip_at s c (Bin l p k xs r)" and "dropped h0 l r" and "avl_path (fix_height c h0) h0"
    and "no_empty (Bin l p k xs r)" and "no_empty_path c"
  shows "climbed (rebalance_delete p s) s (plug c (Bin l p k xs r))"
  using assms
proof (induction c arbitrary: s l p k xs r h0)
  case Nil
  from delete_lifts [OF Nil(1,2,4)] obtain h rt u where "zip_at (s\<lparr>nodes := h, root := rt\<rparr>) [] u" "avl u"
    "entries u = entries (Bin l p k xs r)" "set (oids u) = set (oids (Bin l p k xs r))" "no_empty u"
    "\<And>q. q \<notin> set (oids (Bin l p k xs r)) \<Longrightarrow> h q = nodes s q" "rebalance_delete p s = Some (DB_SUCCESS, s\<lparr>nodes := h, root := rt\<rparr>)"
    by (auto simp: lifted_def)
  then show ?case unfolding climbed_def by (intro exI [of _ h] exI [of _ rt] exI [of _ u]) simp
next
  case (Cons f c)
  let ?T = "Bin l p k xs r"
  from delete_lifts [OF Cons(2,3,5)] obtain h rt u c' where z: "zip_at (s\<lparr>nodes := h, root := rt\<rparr>) c' u"
    "c' = f # c \<or> c' = fix_height (f # c) (ht_above u)" and u: "avl u" "ht_above u = h0 \<or> Suc (ht_above u) = h0"
    "entries u = entries ?T" "set (oids u) = set (oids ?T)" "no_empty u"
    and frame: "\<And>q. q \<notin> set (oids ?T) \<Longrightarrow> q \<notin> set (path_oids (f # c)) \<Longrightarrow> h q = nodes s q"
    and run: "rebalance_delete p s = rebalance_delete (par (f # c)) (s\<lparr>nodes := h, root := rt\<rparr>)"
    by (auto simp: lifted_def)
  have off: "h q = nodes s q" if "q \<notin> set (oids (plug (f # c) ?T))" for q
    using that unfolding oids_plug by (intro frame) blast+
  show ?case
  proof (cases f)
    case (LeftHole q kq xq rq)
    from z LeftHole obtain k' where "zip_at (s\<lparr>nodes := h, root := rt\<rparr>) (LeftHole q k' xq rq # c) u" by auto
    then have z': "zip_at (s\<lparr>nodes := h, root := rt\<rparr>) c (Bin u q k' xq rq)" by (simp add: zip_at_fill)
    have "climbed (rebalance_delete q (s\<lparr>nodes := h, root := rt\<rparr>)) (s\<lparr>nodes := h, root := rt\<rparr>) (plug c (Bin u q k' xq rq))"
      by (rule Cons.IH [OF z' dropped_up(1) [OF u(1,2)]]) (use Cons.prems(3,5) u(5) LeftHole in \<open>auto simp: fix_height_same\<close>)
    moreover have "entries (plug c (Bin u q k' xq rq)) = entries (plug (f # c) ?T)"
      using u(3) LeftHole by (simp add: entries_plug)
    moreover have "set (oids (plug c (Bin u q k' xq rq))) = set (oids (plug (f # c) ?T))"
      using u(4) LeftHole by (auto simp: oids_plug)
    ultimately have "climbed (rebalance_delete q (s\<lparr>nodes := h, root := rt\<rparr>)) s (plug (f # c) ?T)"
      by (rule climbed_from) (rule off)
    with run LeftHole show ?thesis by simp
  next
    case (RightHole lq q kq xq)
    from z RightHole obtain k' where "zip_at (s\<lparr>nodes := h, root := rt\<rparr>) (RightHole lq q k' xq # c) u" by auto
    then have z': "zip_at (s\<lparr>nodes := h, root := rt\<rparr>) c (Bin lq q k' xq u)" by (simp add: zip_at_fill)
    have "climbed (rebalance_delete q (s\<lparr>nodes := h, root := rt\<rparr>)) (s\<lparr>nodes := h, root := rt\<rparr>) (plug c (Bin lq q k' xq u))"
      by (rule Cons.IH [OF z' dropped_up(2) [OF u(1,2)]]) (use Cons.prems(3,5) u(5) RightHole in \<open>auto simp: fix_height_same\<close>)
    moreover have "entries (plug c (Bin lq q k' xq u)) = entries (plug (f # c) ?T)"
      using u(3) RightHole by (simp add: entries_plug)
    moreover have "set (oids (plug c (Bin lq q k' xq u))) = set (oids (plug (f # c) ?T))"
      using u(4) RightHole by (auto simp: oids_plug)
    ultimately have "climbed (rebalance_delete q (s\<lparr>nodes := h, root := rt\<rparr>)) s (plug (f # c) ?T)"
      by (rule climbed_from) (rule off)
    with run RightHole show ?thesis by simp
  qed
qed

end
