(* ===== verification/TTreeDrop.thy ===== *)
theory TTreeDrop
  imports TTreeShrink TTreeWalk
begin

section \<open>A record leaves the index\<close>

text \<open>
  \<open>index_shape\<close> is the invariant of an index without the condition that no node is empty, which a
  removal breaks for a while.  \<open>removed\<close> is its outcome: an index whose entries are those that remain.
\<close>

definition index_shape :: "ttree \<Rightarrow> tt \<Rightarrow> bool" where
  "index_shape s t \<longleftrightarrow> zip_at s [] t \<and> avl t \<and> slots_ok (slots s) \<and> set (oids t) \<subseteq> live_slots (slots s) \<and>
     int (length (oids t)) \<le> tt_item_count s"

lemma index_ok_shape: "index_ok s t \<longleftrightarrow> index_shape s t \<and> no_empty t"
  by (auto simp: index_ok_def index_shape_def)

lemma index_shape_zip:
  "index_shape s (plug c t) \<longleftrightarrow> zip_at s c t \<and> avl (plug c t) \<and> slots_ok (slots s) \<and>
     set (oids (plug c t)) \<subseteq> live_slots (slots s) \<and> int (length (oids (plug c t))) \<le> tt_item_count s"
  by (simp add: index_shape_def zip_at_plug [of s c t])

lemma index_shapeD:
  assumes "index_shape s (plug c (Bin l p k xs r))"
  shows "zip_at s c (Bin l p k xs r)" "avl (Bin l p k xs r)" "avl_path c (Suc k)" "slots_ok (slots s)"
    "set (oids (plug c (Bin l p k xs r))) \<subseteq> live_slots (slots s)"
  using assms unfolding index_shape_zip avl_plug ht_above.simps by blast+

definition removed :: "(int \<times> ttree) option \<Rightarrow> ttree \<Rightarrow> tt \<Rightarrow> oid list \<Rightarrow> bool" where
  "removed res s t es \<longleftrightarrow>
     (\<exists>s' t'. res = Some (DB_SUCCESS, s') \<and> index_ok s' t' \<and> keeps_others s t s' t' \<and> mem_ok s' = mem_ok s \<and>
        modified_time s' = modified_time s \<and> entries t' = es)"

lemma removedI:
  "index_ok s' t' \<Longrightarrow> keeps_others s t s' t' \<Longrightarrow> mem_ok s' = mem_ok s \<Longrightarrow> modified_time s' = modified_time s \<Longrightarrow>
   entries t' = es \<Longrightarrow> removed (Some (DB_SUCCESS, s')) s t es"
  unfolding removed_def by blast

lemma removed_or_fail: "removed (or_fail n res) s t es \<longleftrightarrow> removed res s t es" if "removed res s t es"
  using that by (auto simp: removed_def or_fail_def DB_SUCCESS_def)

lemma removed_after:
  assumes "removed res s1 t1 es" and "keeps_others s t s1 t1" and "mem_ok s1 = mem_ok s" and "modified_time s1 = modified_time s"
  shows "removed res s t es"
  using assms keeps_others_trans [OF assms(2)] by (auto simp: removed_def)

definition same_count :: "ttree \<Rightarrow> ttree \<Rightarrow> bool" where
  "same_count s S \<longleftrightarrow> tt_item_count S = tt_item_count s \<and> mem_ok S = mem_ok s \<and> modified_time S = modified_time s"

lemma removed_climbed:
  assumes sh: "index_shape s t" and q: "q \<in> set (oids t)" and cl: "climbed res S u" and os: "set (oids u) = set (oids t) - {q}"
    and sl: "slots_ok (slots S)" "live_slots (slots S) = live_slots (slots s) - {q}"
    and frame: "\<And>p. p \<notin> set (oids t) \<Longrightarrow> nodes S p = nodes s p" and same: "same_count s S"
  shows "removed res s t (entries u)"
proof -
  from cl obtain h rt v where v: "res = Some (DB_SUCCESS, S\<lparr>nodes := h, root := rt\<rparr>)" "zip_at (S\<lparr>nodes := h, root := rt\<rparr>) [] v" "avl v"
    "entries v = entries u" "set (oids v) = set (oids u)" "no_empty v" "\<And>p. p \<notin> set (oids u) \<Longrightarrow> h p = nodes S p"
    by (auto simp: climbed_def)
  have "distinct (oids v)" "distinct (oids t)" using v(2) sh by (simp_all add: zip_at_def index_shape_def)
  then have "length (oids v) \<le> length (oids t)"
    using v(5) os by (simp flip: distinct_card add: card_mono)
  then have "int (length (oids v)) \<le> tt_item_count S" using sh same by (simp add: index_shape_def same_count_def)
  moreover have "set (oids v) \<subseteq> live_slots (slots S)" using v(5) os sl(2) sh by (auto simp: index_shape_def)
  ultimately have "index_ok (S\<lparr>nodes := h, root := rt\<rparr>) v" using v(2,3,6) sl(1) by (simp add: index_ok_def)
  moreover have "keeps_others s t (S\<lparr>nodes := h, root := rt\<rparr>) v"
  proof -
    have sub: "set (oids t) \<subseteq> live_slots (slots s)" using sh by (simp add: index_shape_def)
    have vo: "set (oids v) = set (oids t) - {q}" using v(5) os by simp
    have "live_slots (slots s) - {q} = live_slots (slots s) - set (oids t) \<union> (set (oids t) - {q})" using sub q by blast
    moreover have "h x = nodes s x" if "x \<notin> set (oids t)" for x using that v(7) [of x] os frame [OF that] by simp
    ultimately show ?thesis using vo sl(2) by (simp add: keeps_others_def) blast
  qed
  ultimately show ?thesis unfolding v(1) by (rule removedI) (use v(4) same in \<open>simp_all add: same_count_def\<close>)
qed

lemma remove_slot_run:
  assumes "slots_ok (slots s)" and "p \<in> live_slots (slots s)"
  obtains sl where "remove_slot p s = Some (DB_SUCCESS, s\<lparr>slots := sl, nodes := (nodes s)(p := None)\<rparr>)" "slots_ok sl"
    "live_slots sl = live_slots (slots s) - {p}"
proof -
  obtain sl where "Index_Col_Remove p (slots s) = Some (DB_SUCCESS, sl)" "slots_ok sl" "live_slots sl = live_slots (slots s) - {p}"
    by (rule islots.remove_run [OF assms])
  with that show ?thesis by (simp add: remove_slot_def)
qed

subsection \<open>Merging\<close>

lemma only_left:
  assumes "avl (Bin l p k ys Tip)" and "l \<noteq> Tip"
  obtains q zs where "l = Bin Tip q 0 zs Tip" "k = 1"
proof -
  from assms obtain ll q kl zs lr where l: "l = Bin ll q kl zs lr" by (cases l) auto
  with assms(1) have "kl = 0" "kl = max (ht_above ll) (ht_above lr)" "k = 1" by auto
  then have "ll = Tip" "lr = Tip" by (cases ll; cases lr; simp)+
  with that l \<open>kl = 0\<close> \<open>k = 1\<close> show ?thesis by simp
qed

lemma only_right:
  assumes "avl (Bin Tip p k ys r)" and "r \<noteq> Tip"
  obtains q zs where "r = Bin Tip q 0 zs Tip" "k = 1"
proof -
  from assms obtain rl q kr zs rr where r: "r = Bin rl q kr zs rr" by (cases r) auto
  with assms(1) have "kr = 0" "kr = max (ht_above rl) (ht_above rr)" "k = 1" by auto
  then have "rl = Tip" "rr = Tip" by (cases rl; cases rr; simp)+
  with that r \<open>kr = 0\<close> \<open>k = 1\<close> show ?thesis by simp
qed

lemma leaf_dropped: "dropped 2 Tip Tip"
  by (simp add: dropped_def)

lemma Merge_With_Left_ok:
  assumes sh: "index_shape s (plug c (Bin l p k ys Tip))" and l: "l \<noteq> Tip" "no_empty l" "no_empty_path c"
  shows "removed (TTree_Merge_With_Left_Child p s) s (plug c (Bin l p k ys Tip)) (before c @ entries l @ ys @ after c)"
proof -
  let ?t = "plug c (Bin l p k ys Tip)"
  note zip = index_shapeD(1) [OF sh] and avl = index_shapeD(2,3) [OF sh] and ok = index_shapeD(4,5) [OF sh]
  obtain q zs where lq: "l = Bin Tip q 0 zs Tip" "k = 1" by (rule only_left [OF avl(1) l(1)])
  from l lq have zs: "zs \<noteq> []" by simp
  note zip = zip [unfolded lq]
  then have path: "path_at (nodes s) (root s) p c" and dist: "distinct (q # p # path_oids c)" by (simp_all add: zip_at_def)
  obtain nd where nd: "deref p s = Some nd" "tn_count nd = int (length ys)" "tn_left nd = q" "tn_right nd = 0" "has_items nd ys"
    "nodes s p = Some nd" by (rule deref_at [OF zip]) simp
  have "zip_at s (LeftHole p 1 ys Tip # c) (Bin Tip q 0 zs Tip)" using zip by (simp add: zip_at_fill)
  then obtain ln where ln: "deref q s = Some ln" "tn_count ln = int (length zs)" "has_items ln zs" "nodes s q = Some ln" "tn_self ln = q"
    by (rule deref_at)
  have a: "node_at (nodes s) p (par c) (side c) q 1 ys 0" "node_at (nodes s) q p LEFT_CHILD 0 0 zs 0" using zip by (simp_all add: zip_at_def)
  then have q: "q \<noteq> 0" "Index_OID_Point q = q" and p: "p \<noteq> 0" by (simp_all add: node_at_def valid_oid_def)
  have ql: "q \<in> live_slots (slots s)" using ok(2) lq by (simp add: oids_plug)
  show ?thesis
  proof (cases "length zs + length ys \<le> max_items")
    case True
    from MoveLeftToRight_items [of q s ln "[]" zs p nd ys] ln nd dist True obtain ln' nd' where mv:
      "TTreeNode_MoveLeftToRight q p (int (length zs)) s = Some (s\<lparr>nodes := (nodes s)(p \<mapsto> nd', q \<mapsto> ln')\<rparr>)"
      "has_items nd' (zs @ ys)" "keeps_links nd nd'" by auto
    let ?nd = "nd'\<lparr>tn_left := NULL_OID, tn_height := 0\<rparr>"
    define s1 where "s1 = s\<lparr>nodes := (nodes s)(q \<mapsto> ln', p \<mapsto> ?nd)\<rparr>"
    have up: "upd_node p (\<lambda>n. n\<lparr>tn_left := NULL_OID, tn_height := 0\<rparr>) (s\<lparr>nodes := (nodes s)(p \<mapsto> nd', q \<mapsto> ln')\<rparr>) = Some s1"
      using dist p by (simp add: upd_node_def deref_def s1_def fun_upd_twist)
    obtain sl where sl: "remove_slot q s1 = Some (DB_SUCCESS, s1\<lparr>slots := sl, nodes := (nodes s1)(q := None)\<rparr>)" "slots_ok sl"
      "live_slots sl = live_slots (slots s) - {q}"
      using remove_slot_run [of s1 q] ok(1) ql by (auto simp: s1_def)
    define S where "S = s1\<lparr>slots := sl, nodes := (nodes s1)(q := None)\<rparr>"
    have run: "TTree_Merge_With_Left_Child p s = rebalance_delete p S"
      using nd ln q p mv(1) up sl(1) True
      by (simp add: TTree_Merge_With_Left_Child_def TTree_Rebalance_For_Delete_def S_def DB_SUCCESS_def TNODE_MAX_ITEM_def)
    have "node_at (nodes S) p (par c) (side c) 0 0 (zs @ ys) 0"
      using a(1) mv(2,3) nd dist by (auto simp: node_at_def node_is_def S_def s1_def keeps_links_def has_items_def NULL_OID_def)
    with path dist have "zip_at S c (Bin Tip p 0 (zs @ ys) Tip)" by (simp add: zip_at_def S_def s1_def)
    from rebalance_delete_run [OF this leaf_dropped] avl(2) lq(2) l(3) zs
    have cl: "climbed (rebalance_delete p S) S (plug c (Bin Tip p 0 (zs @ ys) Tip))" by (simp add: fix_height_same numeral_2_eq_2)
    have "removed (rebalance_delete p S) s ?t (entries (plug c (Bin Tip p 0 (zs @ ys) Tip)))"
    proof (rule removed_climbed [OF sh _ cl])
      show "set (oids (plug c (Bin Tip p 0 (zs @ ys) Tip))) = set (oids ?t) - {q}" using dist lq(1) by (auto simp: oids_plug)
      show "nodes S x = nodes s x" if "x \<notin> set (oids ?t)" for x using that lq(1) by (auto simp: oids_plug S_def s1_def)
    qed (use lq sl in \<open>simp_all add: S_def s1_def same_count_def oids_plug\<close>)
    then show ?thesis unfolding run by (simp add: entries_plug lq(1))
  next
    case False
    have len: "length ys \<le> max_items" using nd(5) by (rule has_items_length)
    define n where "n = length zs - (max_items - length ys)"
    define xs1 where "xs1 = take n zs"
    define xs2 where "xs2 = drop n zs"
    have x: "zs = xs1 @ xs2" "length xs2 = max_items - length ys" "xs1 \<noteq> []"
      using False len zs by (simp_all add: xs1_def xs2_def n_def)
    from MoveLeftToRight_items [of q s ln xs1 xs2 p nd ys] ln nd dist x len obtain ln' nd' where mv:
      "TTreeNode_MoveLeftToRight q p (int (length xs2)) s = Some (s\<lparr>nodes := (nodes s)(p \<mapsto> nd', q \<mapsto> ln')\<rparr>)"
      "has_items ln' xs1" "has_items nd' (xs2 @ ys)" "keeps_links ln ln'" "keeps_links nd nd'" by auto
    define S where "S = s\<lparr>nodes := (nodes s)(p \<mapsto> nd', q \<mapsto> ln')\<rparr>"
    have "TNODE_MAX_ITEM - tn_count nd = int (length xs2)" using x(2) nd(2) len by (simp add: max_items TNODE_MAX_ITEM_def)
    then have run: "TTree_Merge_With_Left_Child p s = Some (DB_SUCCESS, S)"
      using nd(1,2,3) ln(1,2) q mv(1) False by (simp add: TTree_Merge_With_Left_Child_def S_def TNODE_MAX_ITEM_def)
    have "node_at (nodes S) p (par c) (side c) q 1 (xs2 @ ys) 0"
      using a(1) mv(3,5) nd dist by (auto simp: node_at_def node_is_def S_def keeps_links_def)
    moreover have "node_at (nodes S) q p LEFT_CHILD 0 0 xs1 0"
      using a(2) mv(2,4) ln dist by (auto simp: node_at_def node_is_def S_def keeps_links_def)
    ultimately have zipS: "zip_at S c (Bin (Bin Tip q 0 xs1 Tip) p 1 (xs2 @ ys) Tip)" using path dist by (simp add: zip_at_def S_def)
    have ne: "xs2 @ ys \<noteq> []" using x(2) by (cases ys) (auto simp: max_items)
    have "index_ok S (plug c (Bin (Bin Tip q 0 xs1 Tip) p 1 (xs2 @ ys) Tip))"
      using zipS sh x(3) ne l(3) lq avl(2) by (simp add: index_ok_shape index_shape_zip no_empty_plug avl_plug oids_plug length_oids_plug S_def)
    moreover have "keeps_others s ?t S (plug c (Bin (Bin Tip q 0 xs1 Tip) p 1 (xs2 @ ys) Tip))"
      using ok(2) lq by (auto simp: keeps_others_def oids_plug S_def)
    ultimately show ?thesis unfolding run by (rule removedI) (simp_all add: S_def entries_plug lq(1) x(1))
  qed
qed

lemma Merge_With_Right_ok:
  assumes sh: "index_shape s (plug c (Bin Tip p k ys r))" and r: "r \<noteq> Tip" "no_empty r" "no_empty_path c"
  shows "removed (TTree_Merge_With_Right_Child p s) s (plug c (Bin Tip p k ys r)) (before c @ ys @ entries r @ after c)"
proof -
  let ?t = "plug c (Bin Tip p k ys r)"
  note zip = index_shapeD(1) [OF sh] and avl = index_shapeD(2,3) [OF sh] and ok = index_shapeD(4,5) [OF sh]
  obtain q zs where rq: "r = Bin Tip q 0 zs Tip" "k = 1" by (rule only_right [OF avl(1) r(1)])
  from r rq have zs: "zs \<noteq> []" by simp
  note zip = zip [unfolded rq]
  then have path: "path_at (nodes s) (root s) p c" and dist: "distinct (q # p # path_oids c)" by (auto simp: zip_at_def)
  obtain nd where nd: "deref p s = Some nd" "tn_count nd = int (length ys)" "tn_left nd = 0" "tn_right nd = q" "has_items nd ys"
    "nodes s p = Some nd" by (rule deref_at [OF zip]) simp
  have "zip_at s (RightHole Tip p 1 ys # c) (Bin Tip q 0 zs Tip)" using zip by (simp add: zip_at_fill)
  then obtain rn where rn: "deref q s = Some rn" "tn_count rn = int (length zs)" "has_items rn zs" "nodes s q = Some rn" "tn_self rn = q"
    by (rule deref_at)
  have a: "node_at (nodes s) p (par c) (side c) 0 1 ys q" "node_at (nodes s) q p RIGHT_CHILD 0 0 zs 0" using zip by (simp_all add: zip_at_def)
  then have q: "q \<noteq> 0" "Index_OID_Point q = q" and p: "p \<noteq> 0" by (simp_all add: node_at_def valid_oid_def)
  have ql: "q \<in> live_slots (slots s)" using ok(2) rq by (simp add: oids_plug)
  show ?thesis
  proof (cases "length ys + length zs \<le> max_items")
    case True
    from MoveRightToLeft_items [of p s nd ys q rn zs "[]"] rn nd dist True obtain nd' rn' where mv:
      "TTreeNode_MoveRightToLeft p q (int (length zs)) s = Some (s\<lparr>nodes := (nodes s)(p \<mapsto> nd', q \<mapsto> rn')\<rparr>)"
      "has_items nd' (ys @ zs)" "keeps_links nd nd'" by auto
    let ?nd = "nd'\<lparr>tn_right := NULL_OID, tn_height := 0\<rparr>"
    define s1 where "s1 = s\<lparr>nodes := (nodes s)(q \<mapsto> rn', p \<mapsto> ?nd)\<rparr>"
    have up: "upd_node p (\<lambda>n. n\<lparr>tn_right := NULL_OID, tn_height := 0\<rparr>) (s\<lparr>nodes := (nodes s)(p \<mapsto> nd', q \<mapsto> rn')\<rparr>) = Some s1"
      using dist p by (simp add: upd_node_def deref_def s1_def fun_upd_twist)
    obtain sl where sl: "remove_slot q s1 = Some (DB_SUCCESS, s1\<lparr>slots := sl, nodes := (nodes s1)(q := None)\<rparr>)" "slots_ok sl"
      "live_slots sl = live_slots (slots s) - {q}"
      using remove_slot_run [of s1 q] ok(1) ql by (auto simp: s1_def)
    define S where "S = s1\<lparr>slots := sl, nodes := (nodes s1)(q := None)\<rparr>"
    have run: "TTree_Merge_With_Right_Child p s = rebalance_delete p S"
      using nd rn q p mv(1) up sl(1) True
      by (simp add: TTree_Merge_With_Right_Child_def TTree_Rebalance_For_Delete_def S_def TNODE_MAX_ITEM_def)
    have "node_at (nodes S) p (par c) (side c) 0 0 (ys @ zs) 0"
      using a(1) mv(2,3) nd dist by (auto simp: node_at_def node_is_def S_def s1_def keeps_links_def has_items_def NULL_OID_def)
    with path dist have "zip_at S c (Bin Tip p 0 (ys @ zs) Tip)" by (simp add: zip_at_def S_def s1_def)
    from rebalance_delete_run [OF this leaf_dropped] avl(2) rq(2) r(3) zs
    have cl: "climbed (rebalance_delete p S) S (plug c (Bin Tip p 0 (ys @ zs) Tip))" by (simp add: fix_height_same numeral_2_eq_2)
    have "removed (rebalance_delete p S) s ?t (entries (plug c (Bin Tip p 0 (ys @ zs) Tip)))"
    proof (rule removed_climbed [OF sh _ cl])
      show "set (oids (plug c (Bin Tip p 0 (ys @ zs) Tip))) = set (oids ?t) - {q}" using dist rq(1) by (auto simp: oids_plug)
      show "nodes S x = nodes s x" if "x \<notin> set (oids ?t)" for x using that rq(1) by (auto simp: oids_plug S_def s1_def)
    qed (use rq sl in \<open>simp_all add: S_def s1_def same_count_def oids_plug\<close>)
    then show ?thesis unfolding run by (simp add: entries_plug rq(1))
  next
    case False
    have len: "length ys \<le> max_items" using nd(5) by (rule has_items_length)
    define n where "n = max_items - length ys"
    define xs1 where "xs1 = take n zs"
    define xs2 where "xs2 = drop n zs"
    have x: "zs = xs1 @ xs2" "length xs1 = max_items - length ys" "xs2 \<noteq> []"
      using False len zs by (simp_all add: xs1_def xs2_def n_def)
    from MoveRightToLeft_items [of p s nd ys q rn xs1 xs2] rn nd dist x len obtain nd' rn' where mv:
      "TTreeNode_MoveRightToLeft p q (int (length xs1)) s = Some (s\<lparr>nodes := (nodes s)(p \<mapsto> nd', q \<mapsto> rn')\<rparr>)"
      "has_items nd' (ys @ xs1)" "has_items rn' xs2" "keeps_links nd nd'" "keeps_links rn rn'" by auto
    define S where "S = s\<lparr>nodes := (nodes s)(p \<mapsto> nd', q \<mapsto> rn')\<rparr>"
    have "TNODE_MAX_ITEM - tn_count nd = int (length xs1)" using x(2) nd(2) len by (simp add: max_items TNODE_MAX_ITEM_def)
    then have run: "TTree_Merge_With_Right_Child p s = Some (DB_SUCCESS, S)"
      using nd(1,2,4) rn(1,2) q mv(1) False by (simp add: TTree_Merge_With_Right_Child_def S_def TNODE_MAX_ITEM_def)
    have "node_at (nodes S) p (par c) (side c) 0 1 (ys @ xs1) q"
      using a(1) mv(2,4) nd dist by (auto simp: node_at_def node_is_def S_def keeps_links_def)
    moreover have "node_at (nodes S) q p RIGHT_CHILD 0 0 xs2 0"
      using a(2) mv(3,5) rn dist by (auto simp: node_at_def node_is_def S_def keeps_links_def)
    ultimately have zipS: "zip_at S c (Bin Tip p 1 (ys @ xs1) (Bin Tip q 0 xs2 Tip))" using path dist by (simp add: zip_at_def S_def)
    have ne: "ys @ xs1 \<noteq> []" using x(2) by (cases ys) (auto simp: max_items)
    have "index_ok S (plug c (Bin Tip p 1 (ys @ xs1) (Bin Tip q 0 xs2 Tip)))"
      using zipS sh x(3) ne r(3) rq avl(2) by (simp add: index_ok_shape index_shape_zip no_empty_plug avl_plug oids_plug length_oids_plug S_def)
    moreover have "keeps_others s ?t S (plug c (Bin Tip p 1 (ys @ xs1) (Bin Tip q 0 xs2 Tip)))"
      using ok(2) rq by (auto simp: keeps_others_def oids_plug S_def)
    ultimately show ?thesis unfolding run by (rule removedI) (simp_all add: S_def entries_plug rq(1) x(1))
  qed
qed

subsection \<open>An empty node\<close>

lemma remove_leaf_ok:
  assumes sh: "index_shape s (plug (f # c) (Bin Tip p 0 [] Tip))" and ne: "no_empty_path (f # c)"
  shows "removed (remove_leaf p s) s (plug (f # c) (Bin Tip p 0 [] Tip)) (before (f # c) @ after (f # c))"
proof -
  let ?t = "plug (f # c) (Bin Tip p 0 [] Tip)"
  note zip = index_shapeD(1) [OF sh] and avl = index_shapeD(3) [OF sh] and ok = index_shapeD(4,5) [OF sh]
  obtain nd where nd: "deref p s = Some nd" "tn_parent nd = par (f # c)" "tn_self nd = p" by (rule deref_at [OF zip])
  have pl: "p \<in> live_slots (slots s)" using ok(2) by (auto simp: oids_plug simp del: plug.simps)
  obtain sl where sl: "remove_slot p s = Some (DB_SUCCESS, s\<lparr>slots := sl, nodes := (nodes s)(p := None)\<rparr>)" "slots_ok sl"
    "live_slots sl = live_slots (slots s) - {p}" using remove_slot_run [OF ok(1) pl] by blast
  define s1 where "s1 = s\<lparr>slots := sl, nodes := (nodes s)(p := None)\<rparr>"
  have pin: "p \<in> set (oids ?t)" by (simp add: oids_plug del: plug.simps)
  show ?thesis
  proof (cases f)
    case (LeftHole q kq xq rq)
    have z: "zip_at s c (Bin (Bin Tip p 0 [] Tip) q kq xq rq)" using zip LeftHole by (simp add: zip_at_fill)
    then have path: "path_at (nodes s) (root s) q c" and dist: "distinct (p # q # oids rq @ path_oids c)"
      and rt: "tree_at (nodes s) q RIGHT_CHILD rq" and a: "node_at (nodes s) q (par c) (side c) p kq xq (ptr rq)"
      by (simp_all add: zip_at_def)
    then have q: "q \<noteq> 0" "Index_OID_Point q = q" by (simp_all add: node_at_def valid_oid_def)
    obtain pd where pd: "nodes s q = Some pd" "tn_left pd = p" "tn_right pd = ptr rq" by (rule node_at_deref [OF a])
    have rt1: "tree_at (nodes s1) q RIGHT_CHILD rq" using rt dist by (simp add: s1_def)
    define S where "S = s1\<lparr>nodes := (nodes s1)(q \<mapsto> pd\<lparr>tn_left := NULL_OID, tn_height := ht_above rq\<rparr>)\<rparr>"
    have "zip_at S c (Bin Tip q (ht_above rq) xq rq)"
      using a rt dist path pd by (auto simp: zip_at_def S_def s1_def node_at_def node_is_def has_items_def NULL_OID_def)
    moreover have "dropped (Suc kq) Tip rq" "avl_path c (Suc kq)" using avl LeftHole by (auto simp: dropped_def Let_def max_def)
    ultimately have cl: "climbed (rebalance_delete q S) S (plug c (Bin Tip q (ht_above rq) xq rq))"
      using ne LeftHole by (intro rebalance_delete_run) (auto simp: fix_height_same)
    have "removed (rebalance_delete q S) s ?t (entries (plug c (Bin Tip q (ht_above rq) xq rq)))"
    proof (rule removed_climbed [OF sh pin cl])
      show "set (oids (plug c (Bin Tip q (ht_above rq) xq rq))) = set (oids ?t) - {p}" using dist LeftHole by (auto simp: oids_plug)
      show "nodes S x = nodes s x" if "x \<notin> set (oids ?t)" for x using that LeftHole by (auto simp: oids_plug S_def s1_def)
    qed (use sl in \<open>simp_all add: S_def s1_def same_count_def\<close>)
    moreover have "remove_leaf p s = or_fail 482 (rebalance_delete q S)"
      using nd sl(1) q pd dist LeftHole ptr_point [OF rt] child_height_ptr [OF rt1]
      by (auto simp: remove_leaf_def deref_def upd_node_def TTree_Rebalance_For_Delete_def NULL_OID_def DB_SUCCESS_def S_def s1_def)
    ultimately show ?thesis using LeftHole by (simp add: removed_or_fail entries_plug)
  next
    case (RightHole lq q kq xq)
    have z: "zip_at s c (Bin lq q kq xq (Bin Tip p 0 [] Tip))" using zip RightHole by (simp add: zip_at_fill)
    then have path: "path_at (nodes s) (root s) q c" and dist: "distinct (p # q # oids lq @ path_oids c)"
      and lt: "tree_at (nodes s) q LEFT_CHILD lq" and a: "node_at (nodes s) q (par c) (side c) (ptr lq) kq xq p"
      and p: "p \<noteq> 0" by (auto simp: zip_at_def node_at_def valid_oid_def)
    then have q: "q \<noteq> 0" "Index_OID_Point q = q" by (simp_all add: node_at_def valid_oid_def)
    have lp: "ptr lq \<noteq> p" using dist p ptr_in_oids [of lq] by (cases "lq = Tip") auto
    obtain pd where pd: "nodes s q = Some pd" "tn_left pd = ptr lq" "tn_right pd = p" by (rule node_at_deref [OF a])
    have lt1: "tree_at (nodes s1) q LEFT_CHILD lq" using lt dist by (simp add: s1_def)
    define S where "S = s1\<lparr>nodes := (nodes s1)(q \<mapsto> pd\<lparr>tn_right := NULL_OID, tn_height := ht_above lq\<rparr>)\<rparr>"
    have "zip_at S c (Bin lq q (ht_above lq) xq Tip)"
      using a lt dist path pd by (auto simp: zip_at_def S_def s1_def node_at_def node_is_def has_items_def NULL_OID_def)
    moreover have "dropped (Suc kq) lq Tip" "avl_path c (Suc kq)" using avl RightHole by (auto simp: dropped_def Let_def max_def)
    ultimately have cl: "climbed (rebalance_delete q S) S (plug c (Bin lq q (ht_above lq) xq Tip))"
      using ne RightHole by (intro rebalance_delete_run) (auto simp: fix_height_same)
    have "removed (rebalance_delete q S) s ?t (entries (plug c (Bin lq q (ht_above lq) xq Tip)))"
    proof (rule removed_climbed [OF sh pin cl])
      show "set (oids (plug c (Bin lq q (ht_above lq) xq Tip))) = set (oids ?t) - {p}" using dist RightHole by (auto simp: oids_plug)
      show "nodes S x = nodes s x" if "x \<notin> set (oids ?t)" for x using that RightHole by (auto simp: oids_plug S_def s1_def)
    qed (use sl in \<open>simp_all add: S_def s1_def same_count_def\<close>)
    moreover have "remove_leaf p s = or_fail 482 (rebalance_delete q S)"
      using nd sl(1) q pd dist lp RightHole ptr_point [OF lt] child_height_ptr [OF lt1]
      by (auto simp: remove_leaf_def deref_def upd_node_def TTree_Rebalance_For_Delete_def NULL_OID_def DB_SUCCESS_def S_def s1_def)
    ultimately show ?thesis using RightHole by (simp add: removed_or_fail entries_plug)
  qed
qed

lemma removed_here: "index_ok s t \<Longrightarrow> removed (Some (DB_SUCCESS, s)) s t (entries t)"
  by (rule removedI) (simp_all add: keeps_others_refl)

lemma remove_rest_ok:
  assumes sh: "index_shape s (plug c (Bin l p k ys r))" and ne: "no_empty l" "no_empty r" "no_empty_path c" and one: "l = Tip \<or> r = Tip"
  shows "removed (remove_rest p s) s (plug c (Bin l p k ys r)) (before c @ entries l @ ys @ entries r @ after c)"
proof -
  note zip = index_shapeD(1) [OF sh] and ok = index_shapeD(4,5) [OF sh]
  from zip have lt: "tree_at (nodes s) p LEFT_CHILD l" and rt: "tree_at (nodes s) p RIGHT_CHILD r"
    and path: "path_at (nodes s) (root s) p c" by (simp_all add: zip_at_def)
  obtain nd where nd: "deref p s = Some nd" "tn_left nd = ptr l" "tn_right nd = ptr r" "tn_count nd = int (length ys)" "tn_self nd = p"
    "tn_parent nd = par c" by (rule deref_at [OF zip])
  note null = ptr_null [OF lt] ptr_null [OF rt]
  consider "l \<noteq> Tip" "r = Tip" | "l = Tip" "r \<noteq> Tip" | "l = Tip" "r = Tip" using one by blast
  then show ?thesis
  proof cases
    case 1
    with nd null have "remove_rest p s = or_fail 367 (TTree_Merge_With_Left_Child p s)" by (simp add: remove_rest_def NULL_OID_def)
    with removed_or_fail [OF Merge_With_Left_ok] sh 1 ne Merge_With_Left_ok show ?thesis by simp
  next
    case 2
    with nd null have "remove_rest p s = or_fail 385 (TTree_Merge_With_Right_Child p s)" by (simp add: remove_rest_def NULL_OID_def)
    with removed_or_fail [OF Merge_With_Right_ok] sh 2 ne Merge_With_Right_ok show ?thesis by simp
  next
    case 3
    note tips = 3
    show ?thesis
    proof (cases "ys = []")
      case False
      with nd 3 have "remove_rest p s = Some (DB_SUCCESS, s)" by (simp add: remove_rest_def NULL_OID_def)
      moreover have "index_ok s (plug c (Bin l p k ys r))" using sh ne False by (simp add: index_ok_shape no_empty_plug)
      from removed_here [OF this] have "removed (Some (DB_SUCCESS, s)) s (plug c (Bin l p k ys r)) (before c @ entries l @ ys @ entries r @ after c)"
        by (simp add: entries_plug)
      ultimately show ?thesis by simp
    next
      case ys: True
      have k: "k = 0" using index_shapeD(2) [OF sh] 3 by simp
      show ?thesis
      proof (cases c)
        case (Cons f c')
        with par_null [OF path] have "par c \<noteq> 0" by simp
        with nd 3 ys have "remove_rest p s = remove_leaf p s" by (simp add: remove_rest_def NULL_OID_def)
        with remove_leaf_ok [of s f c' p] sh 3 ys k Cons ne(3) show ?thesis by simp
      next
        case Nil
        have pl: "p \<in> live_slots (slots s)" using ok(2) by (simp add: oids_plug)
        obtain sl where sl: "remove_slot p s = Some (DB_SUCCESS, s\<lparr>slots := sl, nodes := (nodes s)(p := None)\<rparr>)" "slots_ok sl"
          "live_slots sl = live_slots (slots s) - {p}" using remove_slot_run [OF ok(1) pl] by blast
        define S where "S = s\<lparr>slots := sl, nodes := (nodes s)(p := None), root := NULL_OID\<rparr>"
        have "remove_rest p s = Some (DB_SUCCESS, S)"
          using nd 3 ys Nil sl(1) by (simp add: remove_rest_def NULL_OID_def DB_SUCCESS_def S_def)
        moreover have "index_ok S Tip" using sl(2) sh by (simp add: index_ok_def zip_at_def S_def NULL_OID_def index_shape_def)
        moreover have "keeps_others s (plug c (Bin l p k ys r)) S Tip"
          using sl(3) pl 3 Nil by (auto simp: keeps_others_def S_def)
        ultimately show ?thesis using 3 ys Nil by (simp add: removed_def) (intro exI [of _ Tip], simp add: S_def)
      qed
    qed
  qed
qed

subsection \<open>Removing an item\<close>

lemma delete_key_run:
  assumes zip: "zip_at s c (Bin l p k (us @ x # vs) r)"
  obtains h where "delete_key p (int (length us)) s = Some (DB_SUCCESS, s\<lparr>nodes := h\<rparr>)"
    "zip_at (s\<lparr>nodes := h\<rparr>) c (Bin l p k (us @ vs) r)" "\<And>q. q \<noteq> p \<Longrightarrow> h q = nodes s q"
proof -
  obtain nd where nd: "deref p s = Some nd" "has_items nd (us @ x # vs)" "nodes s p = Some nd" by (rule deref_at [OF zip])
  from DeleteKey_items [OF nd(2)] obtain nd' where nd': "TTreeNode_DeleteKey nd (int (length us)) = Some (DB_SUCCESS, nd')"
    "has_items nd' (us @ vs)" "keeps_links nd nd'" by blast
  show ?thesis
    by (rule that [of "(nodes s)(p \<mapsto> nd')"]) (use nd nd' set_items [OF zip nd(3) nd'(2,3)] in \<open>simp_all add: delete_key_def\<close>)
qed

lemma index_shape_items:
  assumes "index_shape s (plug c (Bin l p k xs r))" and "zip_at (s\<lparr>nodes := h\<rparr>) c (Bin l p k ys r)"
    and "\<And>q. q \<noteq> p \<Longrightarrow> h q = nodes s q"
  shows "index_shape (s\<lparr>nodes := h\<rparr>) (plug c (Bin l p k ys r))"
    and "keeps_others s (plug c (Bin l p k xs r)) (s\<lparr>nodes := h\<rparr>) (plug c (Bin l p k ys r))"
  using assms by (auto simp: index_shape_zip avl_plug oids_plug length_oids_plug keeps_others_def)

lemma glb_zip:
  assumes zip: "zip_at s c (Bin l p k ys r)" and l: "l \<noteq> Tip" "no_empty l"
  obtains A g gs z c' l' k' where "TTree_GlbChild p s = Some g" "chunks l = A @ [(g, gs @ [z])]" "g \<noteq> p"
    "zip_at s c' (Bin l' g k' (gs @ [z]) Tip)" "plug c' (Bin l' g k' (gs @ [z]) Tip) = plug c (Bin l p k ys r)"
    "before c' @ entries l' @ gs @ [z] = before c @ entries l" "after c' = ys @ entries r @ after c"
proof -
  obtain c' l' g k' gs where g: "TTree_GlbChild p s = Some g" "zip_at s c' (Bin l' g k' gs Tip)"
    "plug c' (Bin l' g k' gs Tip) = plug c (Bin l p k ys r)" "before c' @ entries l' @ gs = before c @ entries l"
    "after c' = ys @ entries r @ after c" by (rule GlbChild_ok [OF zip l(1)])
  from zip have "node_at (nodes s) p (par c) (side c) (ptr l) k ys (ptr r)" "tree_at (nodes s) p LEFT_CHILD l" "tree_at (nodes s) p RIGHT_CHILD r"
    by (simp_all add: zip_at_def)
  then have "TTree_GlbChild p s = Some (last_oid (chunks l))" by (rule Glb_Lub_child(1))
  moreover obtain A b where A: "chunks l = A @ [b]" using l(1) by (cases "chunks l" rule: rev_cases) auto
  ultimately have gb: "fst b = g" using g(1) by simp
  have "distinct (oids (plug c (Bin l p k ys r)))" using zip zip_at_plug [of s c "Bin l p k ys r"] by (simp add: zip_at_def)
  then have dist: "distinct (map fst (chunks (plug c (Bin l p k ys r))))" by simp
  have eq1: "chunks (plug c (Bin l p k ys r)) = (chunks_before c @ A) @ (g, snd b) # (p, ys) # chunks r @ chunks_after c"
    by (simp add: chunks_plug A flip: gb)
  have eq2: "chunks (plug c (Bin l p k ys r)) = (chunks_before c' @ chunks l') @ (g, gs) # chunks_after c'"
    by (simp add: chunks_plug flip: g(3))
  have same: "snd b = gs" using split_unique [OF trans [OF eq1 [symmetric] eq2]] dist unfolding eq1 by blast
  have "g \<noteq> p" using dist unfolding eq1 by auto
  have "no_empty u \<Longrightarrow> (n, xs) \<in> set (chunks u) \<Longrightarrow> xs \<noteq> []" for u n xs by (induction u) auto
  from this [OF l(2), of g gs] A gb same have "gs \<noteq> []" by (cases b) auto
  then obtain gs' z where "gs = gs' @ [z]" by (cases gs rule: rev_cases) auto
  with g A gb same \<open>g \<noteq> p\<close> that [of g A gs' z c' l' k'] show ?thesis by (cases b) simp
qed

lemma glb_moves:
  \<comment> \<open>the greatest item of the left subtree has been put in front of the items of the node\<close>
  assumes sh: "index_shape s (plug c (Bin l p k ys r))" and l: "l \<noteq> Tip" "no_empty l" and ne: "no_empty r" "no_empty_path c"
    and len: "length ys < max_items" and nd: "deref p s = Some nd"
  obtains g gn z h c' l' k' gs where "TTree_GlbChild p s = Some g" "deref g s = Some gn" "get_item (tn_item gn) (tn_count gn - 1) = Some z"
    "set_node p (TTreeNode_InsertKey nd 0 z) s = Some (s\<lparr>nodes := h\<rparr>)" "h g = Some gn" "g \<noteq> 0"
    "index_ok (s\<lparr>nodes := h\<rparr>) (plug c' (Bin l' g k' (gs @ [z]) Tip))" "tn_count gn = int (length gs) + 1" "tn_left gn = ptr l'"
    "keeps_others s (plug c (Bin l p k ys r)) (s\<lparr>nodes := h\<rparr>) (plug c' (Bin l' g k' (gs @ [z]) Tip))"
    "before c' @ entries l' @ gs @ after c' = before c @ entries l @ ys @ entries r @ after c"
proof -
  note zip = index_shapeD(1) [OF sh]
  obtain A g gs z c1 l1 k1 where g: "TTree_GlbChild p s = Some g" "chunks l = A @ [(g, gs @ [z])]" "g \<noteq> p"
    "zip_at s c1 (Bin l1 g k1 (gs @ [z]) Tip)" by (rule glb_zip [OF zip l])
  obtain gn where gn: "deref g s = Some gn" "has_items gn (gs @ [z])" "nodes s g = Some gn" "tn_left gn = ptr l1"
    "tn_count gn = int (length (gs @ [z]))" by (rule deref_at [OF g(4)])
  have z: "get_item (tn_item gn) (tn_count gn - 1) = Some z" using get_item_eq [OF gn(2), of "length gs"] gn(5) by simp
  have it: "has_items nd ys" "nodes s p = Some nd" using deref_at [OF zip] nd by (metis option.inject)+
  from InsertKey_items [of nd "[]" ys z] it(1) len obtain nd' where nd': "TTreeNode_InsertKey nd 0 z = Some nd'"
    "has_items nd' (z # ys)" "keeps_links nd nd'" by auto
  define h where "h = (nodes s)(p \<mapsto> nd')"
  have zip2: "zip_at (s\<lparr>nodes := h\<rparr>) c (Bin l p k (z # ys) r)" unfolding h_def by (rule set_items [OF zip it(2) nd'(2,3)])
  note sh2 = index_shape_items [OF sh zip2]
  obtain A' g' gs' z' c' l' k' where g': "TTree_GlbChild p (s\<lparr>nodes := h\<rparr>) = Some g'" "chunks l = A' @ [(g', gs' @ [z'])]"
    "zip_at (s\<lparr>nodes := h\<rparr>) c' (Bin l' g' k' (gs' @ [z']) Tip)" "plug c' (Bin l' g' k' (gs' @ [z']) Tip) = plug c (Bin l p k (z # ys) r)"
    "before c' @ entries l' @ gs' @ [z'] = before c @ entries l" "after c' = (z # ys) @ entries r @ after c"
    by (rule glb_zip [OF zip2 l])
  from g(2) g'(2) have eq: "g' = g" "gs' = gs" "z' = z" by simp_all
  obtain gn' where "deref g (s\<lparr>nodes := h\<rparr>) = Some gn'" "tn_left gn' = ptr l'" using deref_at [OF g'(3) [unfolded eq]] by blast
  with gn(1) g(3) have left: "tn_left gn = ptr l'" by (simp add: deref_def h_def split: if_splits)
  have idx: "index_ok (s\<lparr>nodes := h\<rparr>) (plug c' (Bin l' g k' (gs @ [z]) Tip))"
    using sh2(1) l(2) ne unfolding g'(4) [unfolded eq] by (simp add: index_ok_shape no_empty_plug h_def)
  have "before c' @ entries l' @ gs @ [z] @ zs = before c @ entries l @ zs" for zs
    using arg_cong [OF g'(5) [unfolded eq], of "\<lambda>u. u @ zs"] by simp
  from this [of "ys @ entries r @ after c"] have es: "before c' @ entries l' @ gs @ after c' = before c @ entries l @ ys @ entries r @ after c"
    using g'(6) eq by simp
  have "set_node p (TTreeNode_InsertKey nd 0 z) s = Some (s\<lparr>nodes := h\<rparr>)" using nd'(1) by (simp add: set_node_def h_def)
  moreover have "h g = Some gn" "g \<noteq> 0" using gn(1,3) g(3) by (auto simp: h_def deref_def split: if_splits)
  moreover have "keeps_others s (plug c (Bin l p k ys r)) (s\<lparr>nodes := h\<rparr>) (plug c' (Bin l' g k' (gs @ [z]) Tip))"
    unfolding g'(4) [unfolded eq] by (rule sh2(2)) (simp add: h_def)
  ultimately show ?thesis using that [OF g(1) gn(1) z _ _ _ idx _ left _ es] gn(5) by simp
qed

lemma TTree_Remove_ok:
  assumes idx: "index_ok s (plug c (Bin l p k (us @ x # vs) r))"
  shows "removed (TTree_Remove p (int (length us)) s) s (plug c (Bin l p k (us @ x # vs) r))
    (before c @ entries l @ us @ vs @ entries r @ after c)"
proof -
  let ?t = "plug c (Bin l p k (us @ x # vs) r)"
  define ys where "ys = us @ vs"
  from idx have sh: "index_shape s ?t" and ne: "no_empty l" "no_empty r" "no_empty_path c" by (simp_all add: index_ok_shape no_empty_plug)
  obtain h where h: "delete_key p (int (length us)) s = Some (DB_SUCCESS, s\<lparr>nodes := h\<rparr>)"
    "zip_at (s\<lparr>nodes := h\<rparr>) c (Bin l p k ys r)" "\<And>q. q \<noteq> p \<Longrightarrow> h q = nodes s q"
    unfolding ys_def by (rule delete_key_run [OF index_shapeD(1) [OF sh]]) blast
  define s1 where "s1 = s\<lparr>nodes := h\<rparr>"
  have sh1: "index_shape s1 (plug c (Bin l p k ys r))" and keep: "keeps_others s ?t s1 (plug c (Bin l p k ys r))"
    using index_shape_items [OF sh h(2,3)] by (simp_all add: s1_def)
  note zip1 = index_shapeD(1) [OF sh1]
  then have lt: "tree_at (nodes s1) p LEFT_CHILD l" and rt: "tree_at (nodes s1) p RIGHT_CHILD r" by (simp_all add: zip_at_def)
  obtain nd where nd: "deref p s1 = Some nd" "tn_left nd = ptr l" "tn_right nd = ptr r" "tn_count nd = int (length ys)"
    by (rule deref_at [OF zip1])
  note null = ptr_null [OF lt] ptr_null [OF rt]
  have "removed (TTree_Remove p (int (length us)) s) s1 (plug c (Bin l p k ys r)) (before c @ entries l @ ys @ entries r @ after c)"
  proof (cases "60 \<le> length ys")
    case True
    then have "TTree_Remove p (int (length us)) s = Some (DB_SUCCESS, s1)"
      using h(1) nd by (simp add: TTree_Remove_def s1_def TNODE_MIN_ITEM_def TNODE_MAX_ITEM_def DB_SUCCESS_def)
    moreover have "index_ok s1 (plug c (Bin l p k ys r))" using sh1 ne True by (auto simp: index_ok_shape no_empty_plug)
    from removed_here [OF this]
    have "removed (Some (DB_SUCCESS, s1)) s1 (plug c (Bin l p k ys r)) (before c @ entries l @ ys @ entries r @ after c)"
      by (simp add: entries_plug)
    ultimately show ?thesis by simp
  next
    case small: False
    show ?thesis
    proof (cases "l = Tip \<or> r = Tip")
      case True
      then have "TTree_Remove p (int (length us)) s = remove_rest p s1"
        using h(1) nd null small by (auto simp: TTree_Remove_def s1_def TNODE_MIN_ITEM_def TNODE_MAX_ITEM_def DB_SUCCESS_def NULL_OID_def)
      with remove_rest_ok [OF sh1 ne True] show ?thesis by simp
    next
      case both: False
      obtain g gn z h2 c' l' k' gs where g: "TTree_GlbChild p s1 = Some g" "deref g s1 = Some gn"
        "get_item (tn_item gn) (tn_count gn - 1) = Some z" "set_node p (TTreeNode_InsertKey nd 0 z) s1 = Some (s1\<lparr>nodes := h2\<rparr>)"
        "h2 g = Some gn" "g \<noteq> 0" and idx2: "index_ok (s1\<lparr>nodes := h2\<rparr>) (plug c' (Bin l' g k' (gs @ [z]) Tip))"
        and gc: "tn_count gn = int (length gs) + 1" "tn_left gn = ptr l'"
        and keep2: "keeps_others s1 (plug c (Bin l p k ys r)) (s1\<lparr>nodes := h2\<rparr>) (plug c' (Bin l' g k' (gs @ [z]) Tip))"
        and es: "before c' @ entries l' @ gs @ after c' = before c @ entries l @ ys @ entries r @ after c"
        by (rule glb_moves [OF sh1 _ ne(1,2,3) _ nd(1)]) (use both small in \<open>auto simp: max_items\<close>)
      define s2 where "s2 = s1\<lparr>nodes := h2\<rparr>"
      let ?t2 = "plug c' (Bin l' g k' (gs @ [z]) Tip)"
      from idx2 have sh2: "index_shape s2 ?t2" and ne2: "no_empty l'" "no_empty_path c'" by (simp_all add: index_ok_shape no_empty_plug s2_def)
      obtain h3 where h3: "delete_key g (int (length gs)) s2 = Some (DB_SUCCESS, s2\<lparr>nodes := h3\<rparr>)"
        "zip_at (s2\<lparr>nodes := h3\<rparr>) c' (Bin l' g k' gs Tip)" "\<And>q. q \<noteq> g \<Longrightarrow> h3 q = nodes s2 q"
        using delete_key_run [where us = gs and x = z and vs = "[]", OF index_shapeD(1) [OF sh2]] by auto
      define s3 where "s3 = s2\<lparr>nodes := h3\<rparr>"
      let ?t3 = "plug c' (Bin l' g k' gs Tip)"
      have sh3: "index_shape s3 ?t3" and keep3: "keeps_others s2 ?t2 s3 ?t3"
        using index_shape_items [OF sh2 h3(2,3)] by (simp_all add: s3_def)
      obtain g3 where g3: "deref g s3 = Some g3" "tn_left g3 = ptr l'" "tn_count g3 = int (length gs)"
        by (rule deref_at [OF index_shapeD(1) [OF sh3]])
      from index_shapeD(1) [OF sh3] have "tree_at (nodes s3) g LEFT_CHILD l'" by (simp add: zip_at_def)
      note null' = ptr_null [OF this]
      have gn2: "deref g s2 = Some gn" using g(5,6) by (simp add: deref_def s2_def)
      have run: "TTree_Remove p (int (length us)) s =
          (if (if l' = Tip then gs \<noteq> [] else 120 \<le> length gs) then Some (DB_SUCCESS, s3) else remove_rest g s3)"
        using h(1) nd null small both g(1-4) gc h3(1) g3 null' gn2
        by (simp add: TTree_Remove_def s1_def [symmetric] s2_def [symmetric] s3_def [symmetric] TNODE_MIN_ITEM_def TNODE_MAX_ITEM_def
            DB_SUCCESS_def NULL_OID_def)
      have "removed (TTree_Remove p (int (length us)) s) s3 ?t3 (before c' @ entries l' @ gs @ after c')"
      proof (cases "if l' = Tip then gs \<noteq> [] else 120 \<le> length gs")
        case True
        then have "gs \<noteq> []" by (auto split: if_splits)
        then have "index_ok s3 ?t3" using sh3 ne2 by (simp add: index_ok_shape no_empty_plug)
        from removed_here [OF this] show ?thesis unfolding run if_P [OF True] by (simp add: entries_plug)
      next
        case False
        from remove_rest_ok [OF sh3 ne2(1) _ ne2(2)] show ?thesis unfolding run if_not_P [OF False] by simp
      qed
      from removed_after [OF this keeps_others_trans [OF keep2 [folded s2_def] keep3]] show ?thesis
        by (simp add: es s2_def s3_def)
    qed
  qed
  from removed_after [OF this keep] show ?thesis by (simp add: s1_def ys_def)
qed

end
