(* ===== verification/TTreeUse.thy ===== *)
theory TTreeUse
  imports TTreeClaims TTreeLookup TTreeDrop
begin

section \<open>Properties of searches and removals\<close>

text \<open>
  What a table relies on when it uses an index: a range of keys is found completely, a record that is in
  the index is found and can be removed, positions are offsets into the list of entries, and an index that is kept by
  these operations passes the check of \<^verbatim>\<open>TTree_Get_ItemCount\<close>.
\<close>

subsection \<open>Search keys\<close>

definition stored_entries :: "KEY_FIELDDESC list \<Rightarrow> (oid \<Rightarrow> key_record option) \<Rightarrow> oid list \<Rightarrow> bool" where
  \<comment> \<open>the records of the entries have values as \<^verbatim>\<open>stored_record\<close> says, and no entry is NULL\<close>
  "stored_entries fds point es \<longleftrightarrow> (\<forall>i \<in> set es. i \<noteq> 0 \<and> (\<forall>r. point i = Some r \<longrightarrow> stored_record fds r))"

definition search_key ::
    "(oid \<Rightarrow> (nat \<times> chars) option) \<Rightarrow> (oid \<Rightarrow> bool) \<Rightarrow> KEY_FIELDDESC list \<Rightarrow> key_record \<Rightarrow> FieldValue list \<Rightarrow> bool" where
  "search_key ext bad fds rec kv \<longleftrightarrow>
     rec \<in> key_records fds \<and> stored_record fds rec \<and> KeyValue_Create ext bad fds rec = Inr kv"

definition key_cmp_at ::
    "(oid \<Rightarrow> (nat \<times> chars) option) \<Rightarrow> (oid \<Rightarrow> bool) \<Rightarrow> KEY_FIELDDESC list \<Rightarrow> (oid \<Rightarrow> key_record option) \<Rightarrow> key_record \<Rightarrow> oid \<Rightarrow> int" where
  \<comment> \<open>the record against the entry\<close>
  "key_cmp_at ext bad fds point rec i = (case point i of None \<Rightarrow> 0 | Some r \<Rightarrow> key_compare ext bad fds rec r)"

lemma key_profile:
  fixes uniq primary :: bool
  assumes es: "in_key_order ext bad fds point es" "stored_entries fds point es" and key: "search_key ext bad fds rec kv"
  defines "env \<equiv> key_env ext bad fds uniq primary point"
  shows "\<And>i. i \<in> set es \<Longrightarrow> sgn (key_cmp env kv i) = sgn (key_cmp_at ext bad fds point rec i)"
    and "descending (key_cmp env kv) es" and "0 \<notin> set es"
proof -
  have ord: "comparison (ie_compare env) (key_records fds)" by (simp add: env_def key_order.comparison_axioms)
  have sorted: "sorted_index env (key_records fds) es" using es(1) by (simp add: env_def in_key_order [of ext bad fds uniq primary])
  have at: "\<exists>r. point i = Some r \<and> r \<in> key_records fds \<and> stored_record fds r" if "i \<in> set es" for i
    using sorted es(2) that by (auto simp: sorted_index_def env_def stored_entries_def)
  show sg: "sgn (key_cmp env kv i) = sgn (key_cmp_at ext bad fds point rec i)" if i: "i \<in> set es" for i
  proof -
    from at [OF i] obtain r where r: "point i = Some r" "r \<in> key_records fds" "stored_record fds r" by blast
    from KeyValue_agrees [of rec fds r ext bad kv] key r obtain c where
      "KeyValue_Compare ext bad kv r = Some c" "sgn c = sgn (key_compare ext bad fds rec r)" by (auto simp: search_key_def)
    with r show ?thesis by (simp add: env_def item_cmp_def key_env_def key_cmp_at_def)
  qed
  have "descending (rec_cmp env rec) es" using sorted_index_descending [OF ord sorted, of rec] key by (simp add: search_key_def)
  moreover have "rec_cmp env rec i = key_cmp_at ext bad fds point rec i" if "i \<in> set es" for i
    using at [OF that] by (auto simp: env_def item_cmp_def key_cmp_at_def)
  ultimately show "descending (key_cmp env kv) es"
    unfolding descending_def by (rule_tac sorted_wrt_mono_rel) (use sg in auto)
  show "0 \<notin> set es" using es(2) by (auto simp: stored_entries_def)
qed

lemma sgn_cases: "sgn (a :: int) = sgn b \<Longrightarrow> (a \<le> 0 \<longleftrightarrow> b \<le> 0) \<and> (0 \<le> a \<longleftrightarrow> 0 \<le> b) \<and> (a = 0 \<longleftrightarrow> b = 0)"
  by (auto simp: sgn_if split: if_splits)

subsection \<open>A range of keys\<close>

lemma filter_between:
  assumes eq: "us @ x # vs = us' @ y # vs'" and "\<forall>z \<in> set us. \<not> P z" "\<forall>z \<in> set vs'. \<not> Q z"
    and "\<forall>z \<in> set (x # vs). P z" and "\<forall>z \<in> set (us' @ [y]). Q z" and ex: "\<exists>z \<in> set (us @ x # vs). P z \<and> Q z"
  defines "hits \<equiv> filter (\<lambda>z. P z \<and> Q z) (us @ x # vs)"
  shows "length us \<le> length us' \<and> length us' = length us + length hits - 1 \<and> hd hits = x \<and> List.last hits = y"
proof -
  consider M where "us' @ [y] = us @ M" "x # vs = M @ vs'" "M \<noteq> []" | w where "us = us' @ y # w" "vs' = w @ x # vs"
  proof (cases "length us < length us'")
    case True
    from two_splits [OF eq this] obtain D where "us' = us @ x # D" ..
    with eq that(1) [of "x # D @ [y]"] show ?thesis by simp
  next
    case False
    show ?thesis
    proof (cases "length us' < length us")
      case True
      from two_splits [OF eq [symmetric] this] obtain D where "us = us' @ y # D" ..
      with eq that(2) [of D] show ?thesis by simp
    next
      case F: False
      with False eq that(1) [of "[y]"] show ?thesis by simp
    qed
  qed
  then show ?thesis
  proof cases
    case 1
    have "us @ x # vs = us @ M @ vs'" using 1 by simp
    moreover have "\<forall>z \<in> set M. P z" "\<forall>z \<in> set M. Q z" using assms(4,5) 1(1,2) by (metis Un_iff set_append)+
    moreover have "filter (\<lambda>z. P z \<and> Q z) us = []" "filter (\<lambda>z. P z \<and> Q z) vs' = []" using assms(2,3) by (simp_all add: filter_empty_conv)
    ultimately have "hits = M" by (simp add: hits_def)
    moreover have "hd M = x" using 1(2,3) by (cases M) auto
    moreover have "List.last M = y" using 1(1,3) by (metis last_appendR last_snoc)
    moreover have "length us' + 1 = length us + length M" using arg_cong [OF 1(1), of length] by simp
    ultimately show ?thesis using 1(3) by (cases M) auto
  next
    case 2
    from ex obtain z where "z \<in> set (us @ x # vs)" "P z" "Q z" by blast
    with assms(2,3) 2(2) show ?thesis by auto
  qed
qed

definition between ::
    "(oid \<Rightarrow> (nat \<times> chars) option) \<Rightarrow> (oid \<Rightarrow> bool) \<Rightarrow> KEY_FIELDDESC list \<Rightarrow> (oid \<Rightarrow> key_record option) \<Rightarrow>
      key_record \<Rightarrow> key_record \<Rightarrow> oid \<Rightarrow> bool" where
  "between ext bad fds point lo hi i \<longleftrightarrow> key_cmp_at ext bad fds point lo i \<le> 0 \<and> 0 \<le> key_cmp_at ext bad fds point hi i"

text \<open>C25: The search for the first entry that is not less than a key finds none exactly if there is none; for a
range of keys with an entry in it, it and the search for the last entry that is not greater return the ends of the
range, and the interval between them has as many items as there are entries in the range.\<close>

theorem range_scan:
  fixes uniq primary :: bool
  assumes idx: "index_ok s t" and es: "in_key_order ext bad fds point (entries t)" "stored_entries fds point (entries t)"
    and lo: "search_key ext bad fds lo klo" and hi: "search_key ext bad fds hi khi"
  defines "env \<equiv> key_env ext bad fds uniq primary point" and "hits \<equiv> filter (between ext bad fds point lo hi) (entries t)"
  shows "(TTree_Get_First_Ge env klo s p0 = Some (DB_E_NOMORERECORDS, no_position p0) \<longleftrightarrow>
      (\<forall>i \<in> set (entries t). 0 < key_cmp_at ext bad fds point lo i)) \<and>
    (hits \<noteq> [] \<longrightarrow>
      (\<exists>ret p q. TTree_Get_First_Ge env klo s p0 = Some (ret, p) \<and> (ret = DB_SUCCESS \<or> ret = DB_W_ITEMMORETHANKEY) \<and>
        TTree_Get_Last_Le env khi s q0 = Some (DB_SUCCESS, q) \<and> item_at p s = Some (hd hits) \<and> item_at q s = Some (List.last hits) \<and>
        TTree_Get_ItemCount_Interval s p q TTREE_FORWARD_CURSOR = Some (int (length hits))))"
proof (intro conjI impI)
  note lop = key_profile(1,2) [OF es lo, where uniq = uniq and primary = primary, folded env_def]
    and hip = key_profile(1,2) [OF es hi, where uniq = uniq and primary = primary, folded env_def]
  let ?P = "\<lambda>i. key_cmp env klo i \<le> 0" and ?Q = "\<lambda>i. 0 \<le> key_cmp env khi i"
  have PQ: "?P i \<longleftrightarrow> key_cmp_at ext bad fds point lo i \<le> 0" "?Q i \<longleftrightarrow> 0 \<le> key_cmp_at ext bad fds point hi i" if "i \<in> set (entries t)" for i
    using sgn_cases [OF lop(1) [OF that]] sgn_cases [OF hip(1) [OF that]] by simp_all
  then have hits: "hits = filter (\<lambda>i. ?P i \<and> ?Q i) (entries t)" unfolding hits_def by (intro filter_cong) (auto simp: between_def)
  show "TTree_Get_First_Ge env klo s p0 = Some (DB_E_NOMORERECORDS, no_position p0) \<longleftrightarrow>
      (\<forall>i \<in> set (entries t). 0 < key_cmp_at ext bad fds point lo i)"
  proof (cases "\<exists>i \<in> set (entries t). ?P i")
    case True
    with Get_First_Ge_ok [OF idx lop(2), of p0] PQ show ?thesis
      by (auto simp: located_def ge_result_def DB_E_NOMORERECORDS_def DB_SUCCESS_def DB_W_ITEMMORETHANKEY_def)
  next
    case False
    with Get_First_Ge_ok [OF idx lop(2), of p0] PQ show ?thesis by (auto simp: located_def not_le)
  qed
  assume ne: "hits \<noteq> []"
  from ne have ex: "\<exists>i \<in> set (entries t). ?P i \<and> ?Q i" by (simp add: hits filter_empty_conv)
  then obtain ret p where p: "TTree_Get_First_Ge env klo s p0 = Some (ret, p)" "ge_result t (key_cmp env klo) ret p"
    using Get_First_Ge_ok [OF idx lop(2), of p0] by (auto simp: located_def split: if_splits)
  from ex obtain q where q: "TTree_Get_Last_Le env khi s q0 = Some (DB_SUCCESS, q)" "le_result t (key_cmp env khi) DB_SUCCESS q"
    using Get_Last_Le_ok [OF idx hip(2), of q0] by (auto simp: located_def le_result_def split: if_splits)
  obtain us x vs where x: "at_pos t p us x vs" "?P x" "\<forall>z \<in> set us. \<not> ?P z" using p(2) by (auto simp: ge_result_def first_entry_def)
  obtain us' y vs' where y: "at_pos t q us' y vs'" "?Q y" "\<forall>z \<in> set vs'. \<not> ?Q z" using q(2) by (auto simp: le_result_def last_entry_def)
  note xe = at_pos_entries [OF x(1)] and ye = at_pos_entries [OF y(1)]
  have later: "\<forall>z \<in> set vs. ?P z" using descending_around(4) [of "key_cmp env klo" us x vs] lop(2) x(2) unfolding xe by simp
  have earlier: "\<forall>z \<in> set us'. ?Q z" using descending_around(2) [of "key_cmp env khi" us' y vs'] hip(2) y(2) unfolding ye by simp
  have len: "length us \<le> length us' \<and> length us' = length us + length hits - 1 \<and> hd hits = x \<and> List.last hits = y"
    unfolding hits xe by (rule filter_between) (use xe ye x(2,3) y(2,3) later earlier ex in simp_all)
  moreover have "0 < length hits" using ne by simp
  ultimately have "int (length us') - int (length us) + 1 = int (length hits)" by linarith
  with len have "TTree_Get_ItemCount_Interval s p q TTREE_FORWARD_CURSOR = Some (int (length hits))"
    using Get_ItemCount_Interval_ok [OF idx x(1) y(1)] by simp
  then show "\<exists>ret p q. TTree_Get_First_Ge env klo s p0 = Some (ret, p) \<and> (ret = DB_SUCCESS \<or> ret = DB_W_ITEMMORETHANKEY) \<and>
      TTree_Get_Last_Le env khi s q0 = Some (DB_SUCCESS, q) \<and> item_at p s = Some (hd hits) \<and> item_at q s = Some (List.last hits) \<and>
      TTree_Get_ItemCount_Interval s p q TTREE_FORWARD_CURSOR = Some (int (length hits))"
    using len p q(1) at_pos_item [OF idx x(1)] at_pos_item [OF idx y(1)] by (auto simp: ge_result_def)
qed

abbreviation one_env :: "(key_record, FieldValue list) index_env" where
  "one_env \<equiv> key_env (\<lambda>_. None) (\<lambda>_. False) int_key True True two_points"

definition int_search :: "int \<Rightarrow> FieldValue list" where
  "int_search a = [\<lparr>fv_mode = MDB_NN, fv_desc = hd int_key, fv_value = Num a, fv_value_length = 4\<rparr>]"

lemma one_search:
  "search_key (\<lambda>_. None) (\<lambda>_. False) int_key (\<lambda>p. Some (Num a)) (int_search a)"
  "stored_entries int_key two_points (entries one_tree)"
  by (simp_all add: search_key_def key_records_def int_key_def field_ok_def typed_or_null_def stored_record_def stored_def
      stored_entries_def one_tree_def two_points_def value_of_field_def int_search_def)

lemma one_between: "between (\<lambda>_. None) (\<lambda>_. False) int_key two_points (\<lambda>p. Some (Num a)) (\<lambda>p. Some (Num b)) 5 \<longleftrightarrow> a \<le> 10 \<and> 10 \<le> b"
  by (simp add: between_def key_cmp_at_def two_points_def int_key_def key_compare_def FieldDesc_Compare_def value_compare_def three_way_def)

theorem range_scan_witness:
  "\<exists>ret p q. TTree_Get_First_Ge one_env (int_search 7) one_index \<lparr>pos_node = 0, pos_idx = 0\<rparr> = Some (ret, p) \<and>
     TTree_Get_Last_Le one_env (int_search 12) one_index \<lparr>pos_node = 0, pos_idx = 0\<rparr> = Some (DB_SUCCESS, q) \<and> item_at p one_index = Some 5 \<and>
     TTree_Get_ItemCount_Interval one_index p q TTREE_FORWARD_CURSOR = Some 1"
proof -
  have f: "filter (between (\<lambda>_. None) (\<lambda>_. False) int_key two_points (\<lambda>p. Some (Num 7)) (\<lambda>p. Some (Num 12))) (entries one_tree) = [5]"
    by (simp add: one_tree_def one_between)
  from range_scan [OF one_index_ok(1,3) one_search(2) one_search(1) [of 7] one_search(1) [of 12], of True True
      "\<lparr>pos_node = 0, pos_idx = 0\<rparr>" "\<lparr>pos_node = 0, pos_idx = 0\<rparr>", unfolded f]
  show ?thesis by simp blast
qed

text \<open>C26: With the key of a record, an index entry is found exactly if it is the given record id and its record
has the same key; the test for another record with the key looks at the first such entry only.\<close>

theorem FindRecord_finds:
  fixes uniq primary :: bool
  assumes idx: "index_ok s t" and es: "in_key_order ext bad fds point (entries t)" "stored_entries fds point (entries t)"
    and key: "search_key ext bad fds rec kv"
  defines "env \<equiv> key_env ext bad fds uniq primary point"
    and "same \<equiv> filter (same_key ext bad fds point rec) (entries t)"
  shows "TTree_FindRecord env rec i s = Some (DB_SUCCESS, Some (i \<in> set same)) \<and>
    TTree_IsExist env rec i s = Some (if same = [] \<or> i \<noteq> 0 \<and> hd same = i then 0 else to_int32 (hd same))"
proof -
  note prof = key_profile [OF es key]
  have kc: "ie_key_create env rec = Inr kv" using key by (simp add: env_def search_key_def)
  have at: "key_cmp env kv j = 0 \<longleftrightarrow> same_key ext bad fds point rec j" if "j \<in> set (entries t)" for j
    using sgn_cases [OF prof(1) [OF that, where uniq = uniq and primary = primary, folded env_def]] es(1) that
    by (auto simp: key_cmp_at_def same_key_def sorted_index_def)
  have same: "same = filter (\<lambda>x. key_cmp env kv x = 0) (entries t)" unfolding same_def using at by (intro filter_cong) auto
  have d: "descending (key_cmp env kv) (entries t)" unfolding env_def by (rule prof(2))
  have "i \<in> set same \<longleftrightarrow> i \<in> set (entries t) \<and> key_cmp env kv i = 0" by (auto simp: same)
  with FindRecord_ok [OF idx d prof(3) kc, of i] IsExist_ok [OF idx d prof(3) kc, of i] same show ?thesis by simp
qed

theorem FindRecord_finds_witness:
  "TTree_FindRecord one_env (\<lambda>p. Some (Num 10)) 5 one_index = Some (DB_SUCCESS, Some True) \<and>
     TTree_IsExist one_env (\<lambda>p. Some (Num 10)) 6 one_index = Some 5"
proof -
  have f: "filter (same_key (\<lambda>_. None) (\<lambda>_. False) int_key two_points (\<lambda>p. Some (Num 10))) (entries one_tree) = [5]"
    by (simp add: one_tree_def two_points_ok(4))
  from FindRecord_finds [OF one_index_ok(1,3) one_search(2) one_search(1) [of 10], of True True 5, unfolded f]
    FindRecord_finds [OF one_index_ok(1,3) one_search(2) one_search(1) [of 10], of True True 6, unfolded f]
  show ?thesis by (simp add: to_int32_def)
qed

subsection \<open>Removing a record\<close>

lemma Remove_at_pos:
  assumes idx: "index_ok s t" and p: "at_pos t p us i vs"
  shows "removed (TTree_Remove (pos_node p) (pos_idx p) s) s t (us @ vs)"
proof -
  obtain A ys zs B where cs: "chunks t = A @ (pos_node p, ys @ i # zs) # B" "pos_idx p = int (length ys)"
    and uv: "us = items A @ ys" "vs = zs @ items B" using p unfolding at_pos_def by blast
  obtain c l k r where t: "t = plug c (Bin l (pos_node p) k (ys @ i # zs) r)"
    "A = chunks_before c @ chunks l" "B = chunks r @ chunks_after c" by (rule node_split [OF idx cs(1)])
  from TTree_Remove_ok [OF idx [unfolded t(1)]] show ?thesis unfolding t(1) [symmetric] by (simp add: cs(2) uv t(2,3))
qed

lemma modified_keeps [simp]:
  "index_ok (s\<lparr>modified_time := n\<rparr>) t \<longleftrightarrow> index_ok s t" "keeps_others s t (s'\<lparr>modified_time := n\<rparr>) t' \<longleftrightarrow> keeps_others s t s' t'"
  by (simp_all add: index_ok_def zip_at_def keeps_others_def)

lemma RemoveRecord_ok:
  assumes idx: "index_ok s t" and d: "descending (key_cmp env kv) (entries t)" "0 \<notin> set (entries t)" "ie_key_create env rec = Inr kv"
  shows "if i \<in> set (entries t) \<and> key_cmp env kv i = 0
    then \<exists>us vs s' t'. TTree_RemoveRecord env (Some rec) i s = Some (DB_SUCCESS, s') \<and> entries t = us @ i # vs \<and> entries t' = us @ vs \<and>
        index_ok s' t' \<and> keeps_others s t s' t' \<and> mem_ok s' = mem_ok s \<and> modified_time s' = modified_time s + 1
    else TTree_RemoveRecord env (Some rec) i s = Some (DB_E_NOMORERECORDS, s)"
proof -
  let ?p = "\<lparr>pos_node = 0, pos_idx = 0\<rparr>"
  note f = FindPositionWithValueAndID_ok [OF idx d, of i ?p]
  show ?thesis
  proof (cases "i \<in> set (entries t) \<and> key_cmp env kv i = 0")
    case True
    with f obtain q us vs where q: "TTree_FindPositionWithValueAndID env rec i s ?p = Some (DB_SUCCESS, q)" "at_pos t q us i vs"
      by (auto simp: found_id_def)
    from Remove_at_pos [OF idx q(2)] obtain s' t' where r: "TTree_Remove (pos_node q) (pos_idx q) s = Some (DB_SUCCESS, s')"
      "index_ok s' t'" "keeps_others s t s' t'" "mem_ok s' = mem_ok s" "modified_time s' = modified_time s" "entries t' = us @ vs"
      by (auto simp: removed_def)
    have "TTree_RemoveRecord env (Some rec) i s = Some (DB_SUCCESS, s'\<lparr>modified_time := modified_time s' + 1\<rparr>)"
      using q(1) r(1) by (simp add: TTree_RemoveRecord_def DB_SUCCESS_def)
    then show ?thesis unfolding if_P [OF True] using r at_pos_entries [OF q(2)]
      by (intro exI [of _ us] exI [of _ vs] exI [of _ "s'\<lparr>modified_time := modified_time s' + 1\<rparr>"] exI [of _ t']) auto
  next
    case False
    with f show ?thesis unfolding if_not_P [OF False]
      by (auto simp: found_id_def TTree_RemoveRecord_def DB_E_NOMORERECORDS_def simp del: if_not_P)
  qed
qed

lemma same_key_iff:
  fixes uniq primary :: bool
  assumes es: "in_key_order ext bad fds point es" "stored_entries fds point es" and key: "search_key ext bad fds rec kv" and i: "i \<in> set es"
  shows "key_cmp (key_env ext bad fds uniq primary point) kv i = 0 \<longleftrightarrow> same_key ext bad fds point rec i"
  using sgn_cases [OF key_profile(1) [OF es key i, where uniq = uniq and primary = primary]] es(1) i
  by (auto simp: key_cmp_at_def same_key_def sorted_index_def)

text \<open>C23: A record that is in the index is removed: exactly its entry goes, and a balanced index in key order
remains whose other slots and nodes are untouched.  If it is not in the index, nothing changes.\<close>

theorem RemoveRecord_refines:
  fixes uniq primary :: bool
  assumes idx: "index_ok s t" and es: "in_key_order ext bad fds point (entries t)" "stored_entries fds point (entries t)"
    and key: "search_key ext bad fds rec kv"
  shows "if i \<in> set (entries t) \<and> same_key ext bad fds point rec i
    then \<exists>s' t'. TTree_RemoveRecord (key_env ext bad fds uniq primary point) (Some rec) i s = Some (DB_SUCCESS, s') \<and>
        index_ok s' t' \<and> keeps_others s t s' t' \<and> in_key_order ext bad fds point (entries t') \<and>
        (\<exists>us vs. entries t = us @ i # vs \<and> entries t' = us @ vs) \<and> modified_time s' = modified_time s + 1
    else TTree_RemoveRecord (key_env ext bad fds uniq primary point) (Some rec) i s = Some (DB_E_NOMORERECORDS, s)"
proof -
  let ?env = "key_env ext bad fds uniq primary point"
  have kc: "ie_key_create ?env rec = Inr kv" using key by (simp add: search_key_def)
  note run = RemoveRecord_ok [OF idx key_profile(2) [OF es key] key_profile(3) [OF es key] kc, of i]
  show ?thesis
  proof (cases "i \<in> set (entries t) \<and> same_key ext bad fds point rec i")
    case True
    with run same_key_iff [OF es key, of i uniq primary] obtain us vs s' t' where
      r: "TTree_RemoveRecord ?env (Some rec) i s = Some (DB_SUCCESS, s')" "entries t = us @ i # vs" "entries t' = us @ vs"
      "index_ok s' t'" "keeps_others s t s' t'" "modified_time s' = modified_time s + 1" by auto
    have "in_key_order ext bad fds point (entries t')"
      by (rule sorted_index_missing [OF es(1)]) (simp add: r(2,3) missing_oneI)
    with r show ?thesis unfolding if_P [OF True] by (intro exI [of _ s'] exI [of _ t'] conjI exI [of _ us] exI [of _ vs]) simp_all
  next
    case False
    then have "\<not> (i \<in> set (entries t) \<and> key_cmp ?env kv i = 0)" using same_key_iff [OF es key, of i uniq primary] by blast
    with run show ?thesis unfolding if_not_P [OF False] by (simp only: if_not_P if_False simp_thms)
  qed
qed

theorem RemoveRecord_refines_witness:
  "\<exists>s' t'. TTree_RemoveRecord (key_env (\<lambda>_. None) (\<lambda>_. False) int_key True True two_points) (Some (\<lambda>p. Some (Num 10))) 5 one_index =
     Some (DB_SUCCESS, s') \<and> index_ok s' t' \<and> entries t' = []"
proof -
  have "5 \<in> set (entries one_tree) \<and> same_key (\<lambda>_. None) (\<lambda>_. False) int_key two_points (\<lambda>p. Some (Num 10)) 5"
    by (simp add: one_tree_def two_points_ok(4))
  note here = if_P [OF this]
  from RemoveRecord_refines [OF one_index_ok(1,3) one_search(2) one_search(1) [of 10], of 5 True True, unfolded here]
  obtain s' t' us vs where r: "TTree_RemoveRecord one_env (Some (\<lambda>p. Some (Num 10))) 5 one_index = Some (DB_SUCCESS, s')"
    "index_ok s' t'" "entries one_tree = us @ 5 # vs" "entries t' = us @ vs" by blast
  from r(3) have "us = []" "vs = []" by (auto simp: one_tree_def Cons_eq_append_conv)
  with r(4) have "entries t' = []" by simp
  with r(1,2) show ?thesis by blast
qed

subsection \<open>Positions and offsets\<close>



subsection \<open>Sequences of insertions and removals\<close>

datatype index_op = Insert key_record oid bool | Remove key_record oid

definition index_step :: "(key_record, FieldValue list) index_env \<Rightarrow> index_op \<Rightarrow> ttree \<Rightarrow> (int \<times> ttree) option" where
  "index_step env op s =
     (case op of Insert rec i uc \<Rightarrow> TTree_InsertRecord env rec i uc s | Remove rec i \<Rightarrow> TTree_RemoveRecord env (Some rec) i s)"

fun index_run :: "(key_record, FieldValue list) index_env \<Rightarrow> index_op list \<Rightarrow> ttree \<Rightarrow> (int list \<times> ttree) option" where
  "index_run env [] s = Some ([], s)"
| "index_run env (op # ops) s =
     do {
       (ret, s) \<leftarrow> index_step env op s;
       (rets, s) \<leftarrow> index_run env ops s;
       Some (ret # rets, s)
     }"

fun op_change :: "index_op \<Rightarrow> int \<Rightarrow> oid multiset \<Rightarrow> oid multiset \<Rightarrow> bool" where
  \<comment> \<open>what a result says of the contents; a refused insertion may have lost an entry\<close>
  "op_change (Insert rec i uc) ret M M' \<longleftrightarrow>
     (if ret = DB_SUCCESS then M' = add_mset i M else M' = M \<or> (\<exists>x. add_mset x M' = add_mset i M))"
| "op_change (Remove rec i) ret M M' \<longleftrightarrow>
     (if ret = DB_SUCCESS then i \<in># M \<and> M' = M - {#i#} else ret = DB_E_NOMORERECORDS \<and> M' = M)"

fun ops_change :: "index_op list \<Rightarrow> int list \<Rightarrow> oid multiset \<Rightarrow> oid multiset \<Rightarrow> bool" where
  "ops_change [] [] M M' \<longleftrightarrow> M' = M"
| "ops_change (op # ops) (ret # rets) M M' \<longleftrightarrow> (\<exists>M1. op_change op ret M M1 \<and> ops_change ops rets M1 M')"
| "ops_change _ _ M M' \<longleftrightarrow> False"

fun op_ok ::
    "(oid \<Rightarrow> (nat \<times> chars) option) \<Rightarrow> (oid \<Rightarrow> bool) \<Rightarrow> KEY_FIELDDESC list \<Rightarrow> (oid \<Rightarrow> key_record option) \<Rightarrow> index_op \<Rightarrow> bool" where
  \<comment> \<open>a record goes into the index with its own id, and has a search key\<close>
  "op_ok ext bad fds point (Insert rec i uc) \<longleftrightarrow> i \<noteq> 0 \<and> point i = Some rec \<and> rec \<in> key_records fds \<and> stored_record fds rec"
| "op_ok ext bad fds point (Remove rec i) \<longleftrightarrow> (\<exists>kv. search_key ext bad fds rec kv)"

definition table_index ::
    "(oid \<Rightarrow> (nat \<times> chars) option) \<Rightarrow> (oid \<Rightarrow> bool) \<Rightarrow> KEY_FIELDDESC list \<Rightarrow> (oid \<Rightarrow> key_record option) \<Rightarrow> ttree \<Rightarrow> tt \<Rightarrow> bool" where
  "table_index ext bad fds point s t \<longleftrightarrow> index_ok s t \<and> (\<forall>n. mem_ok s n) \<and> in_key_order ext bad fds point (entries t) \<and>
     stored_entries fds point (entries t)"

lemma stored_entries_subset: "stored_entries fds point es \<Longrightarrow> set fs \<subseteq> set es \<Longrightarrow> stored_entries fds point fs"
  by (auto simp: stored_entries_def)

lemma Insert_step:
  fixes uniq primary :: bool
  assumes tab: "table_index ext bad fds point s t" and rec: "i \<noteq> 0" "point i = Some rec" "rec \<in> key_records fds" "stored_record fds rec"
  shows "\<exists>ret s' t'. TTree_InsertRecord (key_env ext bad fds uniq primary point) rec i uc s = Some (ret, s') \<and>
    table_index ext bad fds point s' t' \<and> keeps_others s t s' t' \<and> op_change (Insert rec i uc) ret (mset (entries t)) (mset (entries t'))"
proof -
  let ?env = "key_env ext bad fds uniq primary point"
  from tab have idx: "index_ok s t" and mem: "\<forall>n. mem_ok s n" and es: "in_key_order ext bad fds point (entries t)"
    "stored_entries fds point (entries t)" by (simp_all add: table_index_def)
  have codes: "DB_E_NOTNULLFIELD \<noteq> DB_SUCCESS" "DB_E_DUPUNIQUEKEY \<noteq> DB_SUCCESS" by (simp_all add: index_codes DB_SUCCESS_def)
  have ord: "comparison (ie_compare ?env) (key_records fds)" by (simp add: key_order.comparison_axioms)
  note settles = key_env_settles [OF idx mem es(1) rec(3), of uniq uc primary i]
  consider (same) ret where "TTree_InsertRecord ?env rec i uc s = Some (ret, s)" "ret \<noteq> DB_SUCCESS"
    | (new) "placed (TTree_InsertRecord ?env rec i uc s) s t (rec_cmp ?env rec) i"
    using settles codes by (auto split: if_splits)
  then show ?thesis
  proof cases
    case same
    with tab show ?thesis by (intro exI [of _ ret] exI [of _ s] exI [of _ t]) (simp add: keeps_others_refl [OF idx])
  next
    case new
    then obtain us vs fs ret s' t' where split: "entries t = us @ vs" "\<forall>x \<in> set us. 0 \<le> rec_cmp ?env rec x" "\<forall>x \<in> set vs. rec_cmp ?env rec x \<le> 0"
      and miss: "missing_one (us @ i # vs) fs" and run: "TTree_InsertRecord ?env rec i uc s = Some (ret, s')" "index_ok s' t'"
      "keeps_others s t s' t'" "mem_ok s' = mem_ok s"
      and last: "ret = DB_SUCCESS \<and> entries t' = us @ i # vs \<or> refused s ret \<and> entries t' = fs"
      unfolding placed_def gives_def by blast
    have all: "sorted_index ?env (key_records fds) (us @ i # vs)"
      by (rule sorted_index_insert [OF ord]) (use es(1) rec split in \<open>simp_all add: in_key_order [of ext bad fds uniq primary]\<close>)
    have st: "stored_entries fds point (us @ i # vs)" using es(2) rec split(1) by (auto simp: stored_entries_def)
    from miss obtain as x bs where m: "us @ i # vs = as @ x # bs" "fs = as @ bs" unfolding missing_one_def by blast
    have sub: "set fs \<subseteq> set (us @ i # vs)" unfolding m by auto
    have "in_key_order ext bad fds point (entries t') \<and> stored_entries fds point (entries t')"
      using last all sorted_index_missing [OF all miss] st stored_entries_subset [OF st sub]
      by (auto simp: in_key_order [of ext bad fds uniq primary])
    moreover have "op_change (Insert rec i uc) ret (mset (entries t)) (mset (entries t'))"
    proof (cases "ret = DB_SUCCESS")
      case True
      with last have "entries t' = us @ i # vs" by (auto simp: refused_def DB_SUCCESS_def)
      with True split(1) show ?thesis by simp
    next
      case False
      with last have "entries t' = fs" by simp
      moreover from miss obtain x where "add_mset x (mset fs) = add_mset i (mset (entries t))"
        by (auto simp: missing_one_def split(1)) (metis mset.simps(2) mset_append union_mset_add_mset_right)
      ultimately show ?thesis using False by auto
    qed
    ultimately show ?thesis using run mem by (intro exI [of _ ret] exI [of _ s'] exI [of _ t']) (simp add: table_index_def)
  qed
qed

lemma Remove_step:
  fixes uniq primary :: bool
  assumes tab: "table_index ext bad fds point s t" and key: "search_key ext bad fds rec kv"
  shows "\<exists>ret s' t'. TTree_RemoveRecord (key_env ext bad fds uniq primary point) (Some rec) i s = Some (ret, s') \<and>
    table_index ext bad fds point s' t' \<and> keeps_others s t s' t' \<and> op_change (Remove rec i) ret (mset (entries t)) (mset (entries t'))"
proof -
  let ?env = "key_env ext bad fds uniq primary point"
  from tab have idx: "index_ok s t" and mem: "\<forall>n. mem_ok s n" and es: "in_key_order ext bad fds point (entries t)"
    "stored_entries fds point (entries t)" by (simp_all add: table_index_def)
  have kc: "ie_key_create ?env rec = Inr kv" using key by (simp add: search_key_def)
  note run = RemoveRecord_ok [OF idx key_profile(2) [OF es key] key_profile(3) [OF es key] kc, of i]
  show ?thesis
  proof (cases "i \<in> set (entries t) \<and> key_cmp ?env kv i = 0")
    case True
    with run obtain us vs s' t' where
      r: "TTree_RemoveRecord ?env (Some rec) i s = Some (DB_SUCCESS, s')" "entries t = us @ i # vs" "entries t' = us @ vs"
      "index_ok s' t'" "keeps_others s t s' t'" "mem_ok s' = mem_ok s" by auto
    have "in_key_order ext bad fds point (entries t')" by (rule sorted_index_missing [OF es(1)]) (simp add: r(2,3) missing_oneI)
    moreover have "stored_entries fds point (entries t')" by (rule stored_entries_subset [OF es(2)]) (auto simp: r(2,3))
    ultimately show ?thesis using r mem
      by (intro exI [of _ DB_SUCCESS] exI [of _ s'] exI [of _ t']) (simp add: table_index_def)
  next
    case False
    with run have "TTree_RemoveRecord ?env (Some rec) i s = Some (DB_E_NOMORERECORDS, s)" by (simp only: if_not_P if_False simp_thms)
    with tab show ?thesis
      by (intro exI [of _ DB_E_NOMORERECORDS] exI [of _ s] exI [of _ t])
        (simp add: keeps_others_refl [OF idx] DB_E_NOMORERECORDS_def DB_SUCCESS_def)
  qed
qed

lemma index_run_ok:
  fixes uniq primary :: bool
  assumes "table_index ext bad fds point s t" and "\<forall>op \<in> set ops. op_ok ext bad fds point op"
  shows "\<exists>rets s' t'. index_run (key_env ext bad fds uniq primary point) ops s = Some (rets, s') \<and>
    table_index ext bad fds point s' t' \<and> keeps_others s t s' t' \<and> ops_change ops rets (mset (entries t)) (mset (entries t'))"
  using assms
proof (induction ops arbitrary: s t)
  case Nil
  then show ?case by (intro exI [of _ "[]"] exI [of _ s] exI [of _ t]) (simp add: table_index_def keeps_others_refl)
next
  case (Cons op ops)
  let ?env = "key_env ext bad fds uniq primary point"
  obtain ret s1 t1 where one: "index_step ?env op s = Some (ret, s1)" "table_index ext bad fds point s1 t1" "keeps_others s t s1 t1"
    "op_change op ret (mset (entries t)) (mset (entries t1))"
  proof (cases op)
    case (Insert rec i uc)
    with Insert_step [OF Cons.prems(1), of i rec uniq primary uc] Cons.prems(2) that show ?thesis by (fastforce simp: index_step_def)
  next
    case (Remove rec i)
    with Remove_step [OF Cons.prems(1), of rec _ uniq primary i] Cons.prems(2) that show ?thesis by (fastforce simp: index_step_def)
  qed
  from Cons.IH [OF one(2)] Cons.prems(2) obtain rets s' t' where rest: "index_run ?env ops s1 = Some (rets, s')"
    "table_index ext bad fds point s' t'" "keeps_others s1 t1 s' t'" "ops_change ops rets (mset (entries t1)) (mset (entries t'))" by auto
  with one keeps_others_trans [OF one(3) rest(3)] show ?case
    by (intro exI [of _ "ret # rets"] exI [of _ s'] exI [of _ t']) auto
qed

text \<open>C24: Any sequence of insertions and removals of records returns; what the index holds at the end is what
their results say, other indexes are untouched, and the check of an index, as long as it is called with a sufficient
bound, finds a sound tree with as many items as there are entries.\<close>

theorem index_run_sound:
  fixes uniq primary :: bool
  assumes tab: "table_index ext bad fds point s t" and ops: "\<forall>op \<in> set ops. op_ok ext bad fds point op"
  shows "\<exists>rets s' t'. index_run (key_env ext bad fds uniq primary point) ops s = Some (rets, s') \<and>
    table_index ext bad fds point s' t' \<and> keeps_others s t s' t' \<and> ops_change ops rets (mset (entries t)) (mset (entries t')) \<and>
    (\<forall>max_node \<ge> int (length (entries t')). TTree_Get_ItemCount (\<lambda>i. point i = None) max_node s' = Some (int (length (entries t'))))"
proof -
  from index_run_ok [OF tab ops, of uniq primary] obtain rets s' t' where r: "index_run (key_env ext bad fds uniq primary point) ops s = Some (rets, s')"
    "table_index ext bad fds point s' t'" "keeps_others s t s' t'" "ops_change ops rets (mset (entries t)) (mset (entries t'))" by blast
  then have "\<forall>i \<in> set (entries t'). i \<noteq> NULL_OID \<and> point i \<noteq> None"
    by (auto simp: table_index_def sorted_index_def stored_entries_def NULL_OID_def)
  with r Get_ItemCount_ok [of s' t' "\<lambda>i. point i = None"] show ?thesis
    by (intro exI [of _ rets] exI [of _ s'] exI [of _ t']) (simp add: table_index_def)
qed

theorem index_run_sound_witness:
  "\<exists>rets s' t'. index_run (key_env (\<lambda>_. None) (\<lambda>_. False) int_key True True two_points)
       [Remove (\<lambda>p. Some (Num 10)) 5, Insert (\<lambda>p. Some (Num 20)) 6 True] one_index = Some (rets, s') \<and>
     table_index (\<lambda>_. None) (\<lambda>_. False) int_key two_points s' t'"
proof -
  have "table_index (\<lambda>_. None) (\<lambda>_. False) int_key two_points one_index one_tree"
    using one_index_ok one_search(2) by (simp add: table_index_def)
  moreover have "\<forall>op \<in> set [Remove (\<lambda>p. Some (Num 10)) 5, Insert (\<lambda>p. Some (Num 20)) 6 True].
      op_ok (\<lambda>_. None) (\<lambda>_. False) int_key two_points op"
    using one_search(1) [of 10] one_search(1) [of 20] two_points_ok(1) by (auto simp: search_key_def)
  ultimately show ?thesis using index_run_sound [of "\<lambda>_. None" "\<lambda>_. False" int_key two_points one_index one_tree _ True True] by metis
qed

end
