(* ===== verification/Like.thy ===== *)
theory Like
  imports Collation "HOL-Library.Monad_Syntax"
begin

section \<open>String matching (\<^verbatim>\<open>openML/src/server/API/mdb_like.c\<close>)\<close>

text \<open>
  \<^verbatim>\<open>LIKE\<close> and \<^verbatim>\<open>ILIKE\<close>: the length of a pattern, its preparation as a list of strings, underscores and
  percent signs, and the comparison of a value with the list.  A pattern is the list of its characters (bytes or 16-bit
  units).  A value is the memory from its first character on, with its terminating 0 and what lies behind; a position is
  an index into it.  \<open>None\<close> stands for a read behind the end of this memory, for a string in it that no 0 ends, or for
  the use of a missing table entry.  The code for bytes and the code for 16-bit units are the same up to the functions
  they call.
\<close>

abbreviation chr_percent :: nat where "chr_percent \<equiv> 37"
abbreviation chr_underbar :: nat where "chr_underbar \<equiv> 95"
abbreviation chr_escape :: nat where "chr_escape \<equiv> 92"

definition is_wild :: "nat \<Rightarrow> bool" where "is_wild c \<longleftrightarrow> c = chr_underbar \<or> c = chr_percent"

subsection \<open>Searching and comparing\<close>

fun starts_with :: "(nat \<Rightarrow> nat \<Rightarrow> bool) \<Rightarrow> chars \<Rightarrow> chars \<Rightarrow> bool" where
  \<comment> \<open>\<^verbatim>\<open>while (s1 is not at the end && *s2 && s1[0] == s2[0]) s1++, s2++;\<close> and the test of \<^verbatim>\<open>*s2\<close>\<close>
  "starts_with same s [] = True"
| "starts_with same [] (c # p) = False"
| "starts_with same (d # s) (c # p) = (same d c \<and> starts_with same s p)"

fun find_string :: "(nat \<Rightarrow> nat \<Rightarrow> bool) \<Rightarrow> chars \<Rightarrow> chars \<Rightarrow> nat option" where
  \<comment> \<open>the place of a string that is not empty\<close>
  "find_string same [] p = None"
| "find_string same (c # s) p = (if starts_with same (c # s) p then Some 0 else map_option Suc (find_string same s p))"

definition strstr :: "chars \<Rightarrow> chars \<Rightarrow> nat option" where
  \<comment> \<open>of the C library\<close>
  "strstr s p = (if p = [] then Some 0 else find_string (=) s p)"

definition to_upper :: "nat \<Rightarrow> nat" where
  \<comment> \<open>\<^verbatim>\<open>_to_upper\<close>\<close>
  "to_upper c = (if 97 \<le> c \<and> c \<le> 122 then c - 32 else c)"

fun strcasestr_tail :: "chars \<Rightarrow> chars \<Rightarrow> bool" where
  \<comment> \<open>the inner loop of \<open>sc_strcasestr\<close> and its result\<close>
  "strcasestr_tail p [] = True"
| "strcasestr_tail p (d # q) =
     (if hd0 p \<noteq> d \<and> to_upper (hd0 p) \<noteq> to_upper d then False else strcasestr_tail (tl p) q)"

fun strcasestr_loop :: "chars \<Rightarrow> chars \<Rightarrow> nat option" where
  "strcasestr_loop [] needle = None"
| "strcasestr_loop (c # s) needle =
     (if to_upper c = to_upper (hd0 needle) \<and> strcasestr_tail s (tl needle) then Some 0
      else map_option Suc (strcasestr_loop s needle))"

definition sc_strcasestr :: "chars \<Rightarrow> chars \<Rightarrow> nat option" where
  "sc_strcasestr haystack needle =
     (if to_upper (hd0 needle) = 0 then Some 0 else strcasestr_loop haystack needle)"

definition sc_wcsstr :: "chars \<Rightarrow> chars \<Rightarrow> nat option" where
  "sc_wcsstr haystack needle =
     (if needle = [] then Some 0
      else if length haystack < length needle then None
      else find_string (=) haystack needle)"

fun sc_wcsncasecmp :: "nat \<Rightarrow> chars \<Rightarrow> chars \<Rightarrow> int" where
  "sc_wcsncasecmp 0 s t = 0"
| "sc_wcsncasecmp (Suc n) s t =
     (if lower_array (hd0 s) < lower_array (hd0 t) then - 1
      else if lower_array (hd0 s) > lower_array (hd0 t) then 1
      else sc_wcsncasecmp n (tl s) (tl t))"

text \<open>
  The functions the tables hold.  The last argument is the number of characters before \<^verbatim>\<open>pEnd\<close>, and nothing when it is
  NULL: then the string ends with its 0.
\<close>

type_synonym like_find = "chars \<Rightarrow> chars \<Rightarrow> nat option \<Rightarrow> nat option"
type_synonym like_cmp = "chars \<Rightarrow> chars \<Rightarrow> nat \<Rightarrow> nat option \<Rightarrow> int"

definition find_upto :: "(nat \<Rightarrow> nat \<Rightarrow> bool) \<Rightarrow> chars \<Rightarrow> chars \<Rightarrow> nat \<Rightarrow> nat option" where
  "find_upto same str likestr l = (if likestr = [] then Some 0 else find_string same (take l str) likestr)"

definition like_strstr :: like_find where
  "like_strstr str likestr pEnd = (case pEnd of None \<Rightarrow> strstr str likestr | Some l \<Rightarrow> find_upto (=) str likestr l)"

definition like_wcsstr :: like_find where
  "like_wcsstr str likestr pEnd = (case pEnd of None \<Rightarrow> sc_wcsstr str likestr | Some l \<Rightarrow> find_upto (=) str likestr l)"

definition like_strcasestr :: like_find where
  "like_strcasestr str likestr pEnd =
     (case pEnd of
        None \<Rightarrow> sc_strcasestr str likestr
      | Some l \<Rightarrow> find_upto (\<lambda>a b. lower_array a = lower_array b) str likestr l)"

definition like_wcscasestr :: like_find where
  \<comment> \<open>without an end nothing is searched\<close>
  "like_wcscasestr str likestr pEnd =
     (case pEnd of
        None \<Rightarrow> None
      | Some l \<Rightarrow> find_upto (\<lambda>a b. sc_wcsncasecmp 1 [a] [b] = 0) str likestr l)"

definition like_strstr_user :: "(chars \<Rightarrow> chars \<Rightarrow> nat option) \<Rightarrow> MDB_COL_TYPE \<Rightarrow> like_find" where
  \<comment> \<open>\<^verbatim>\<open>__like_strstr_user1\<close>, \<^verbatim>\<open>__like_strstr_user2\<close>, \<^verbatim>\<open>__like_strstr_user3\<close>; \<open>whole\<close> is the entry of \<^verbatim>\<open>sc_collate_strstr_func\<close>\<close>
  "like_strstr_user whole coltype str likestr pEnd =
     (case pEnd of
        None \<Rightarrow> whole str likestr
      | Some l \<Rightarrow>
          find_upto (\<lambda>a b. case sc_ncollate_func coltype of None \<Rightarrow> False | Some f \<Rightarrow> f 1 [a] [b] = 0) str likestr l)"

definition compare_upto :: "(nat \<Rightarrow> chars \<Rightarrow> chars \<Rightarrow> int) \<Rightarrow> like_cmp" where
  "compare_upto f str likestr len pEnd =
     (case pEnd of
        None \<Rightarrow> f len str likestr
      | Some l2 \<Rightarrow>
          if len \<le> l2 then f len str likestr
          else (let len = f l2 str likestr in if len = 0 then - 1 else len))"

definition like_strncmp :: like_cmp where "like_strncmp = compare_upto mdb_strncmp"
definition like_wcsncmp :: like_cmp where "like_wcsncmp = compare_upto sc_wcsncmp"
definition like_strncasecmp :: like_cmp where "like_strncasecmp = compare_upto mdb_strncasecmp"
definition like_wcsncasecmp :: like_cmp where "like_wcsncasecmp = compare_upto sc_wcsncasecmp"
definition like_strncmp_user1 :: like_cmp where "like_strncmp_user1 = compare_upto sc_strncmp_user1"
definition like_strncmp_user2 :: like_cmp where "like_strncmp_user2 = compare_upto sc_strndcmp"
definition like_strncmp_user3 :: like_cmp where "like_strncmp_user3 = compare_upto sc_strndcmp"

text \<open>The tables; \<open>user1\<close> is \<^verbatim>\<open>sc_strstr_user1\<close>, which depends on the layout of \<^verbatim>\<open>wchar_t\<close>.\<close>

fun collate_like_strncmp_func :: "MDB_COL_TYPE \<Rightarrow> like_cmp option" where
  "collate_like_strncmp_func MDB_COL_CHAR_NOCASE = Some like_strncasecmp"
| "collate_like_strncmp_func MDB_COL_CHAR_CASE = Some like_strncmp"
| "collate_like_strncmp_func MDB_COL_CHAR_DICORDER = Some like_strncmp"
| "collate_like_strncmp_func MDB_COL_NCHAR_NOCASE = Some like_wcsncmp"
| "collate_like_strncmp_func MDB_COL_NCHAR_CASE = Some like_wcsncmp"
| "collate_like_strncmp_func MDB_COL_USER_TYPE1 = Some like_strncmp_user1"
| "collate_like_strncmp_func MDB_COL_USER_TYPE2 = Some like_strncmp_user2"
| "collate_like_strncmp_func MDB_COL_USER_TYPE3 = Some like_strncmp_user3"
| "collate_like_strncmp_func MDB_COL_CHAR_REVERSE = Some like_strncmp"
| "collate_like_strncmp_func _ = None"

fun collate_like_strncasecmp_func :: "MDB_COL_TYPE \<Rightarrow> like_cmp option" where
  "collate_like_strncasecmp_func MDB_COL_CHAR_NOCASE = Some like_strncasecmp"
| "collate_like_strncasecmp_func MDB_COL_CHAR_CASE = Some like_strncasecmp"
| "collate_like_strncasecmp_func MDB_COL_CHAR_DICORDER = Some like_strncasecmp"
| "collate_like_strncasecmp_func MDB_COL_NCHAR_NOCASE = Some like_wcsncasecmp"
| "collate_like_strncasecmp_func MDB_COL_NCHAR_CASE = Some like_wcsncasecmp"
| "collate_like_strncasecmp_func MDB_COL_USER_TYPE1 = Some like_strncmp_user1"
| "collate_like_strncasecmp_func MDB_COL_USER_TYPE2 = Some like_strncmp_user2"
| "collate_like_strncasecmp_func MDB_COL_USER_TYPE3 = Some like_strncmp_user3"
| "collate_like_strncasecmp_func MDB_COL_CHAR_REVERSE = Some like_strncasecmp"
| "collate_like_strncasecmp_func _ = None"

fun collate_like_strstr_func :: "(chars \<Rightarrow> chars \<Rightarrow> nat option) \<Rightarrow> MDB_COL_TYPE \<Rightarrow> like_find option" where
  "collate_like_strstr_func user1 MDB_COL_CHAR_NOCASE = Some like_strcasestr"
| "collate_like_strstr_func user1 MDB_COL_CHAR_CASE = Some like_strstr"
| "collate_like_strstr_func user1 MDB_COL_CHAR_DICORDER = Some like_strstr"
| "collate_like_strstr_func user1 MDB_COL_NCHAR_NOCASE = Some like_wcsstr"
| "collate_like_strstr_func user1 MDB_COL_NCHAR_CASE = Some like_wcsstr"
| "collate_like_strstr_func user1 MDB_COL_USER_TYPE1 = Some (like_strstr_user user1 MDB_COL_USER_TYPE1)"
| "collate_like_strstr_func user1 MDB_COL_USER_TYPE2 = Some (like_strstr_user strstr MDB_COL_USER_TYPE2)"
| "collate_like_strstr_func user1 MDB_COL_USER_TYPE3 = Some (like_strstr_user strstr MDB_COL_USER_TYPE3)"
| "collate_like_strstr_func user1 MDB_COL_CHAR_REVERSE = Some like_strstr"
| "collate_like_strstr_func user1 _ = None"

fun collate_like_strcasestr_func :: "(chars \<Rightarrow> chars \<Rightarrow> nat option) \<Rightarrow> MDB_COL_TYPE \<Rightarrow> like_find option" where
  "collate_like_strcasestr_func user1 MDB_COL_CHAR_NOCASE = Some like_strcasestr"
| "collate_like_strcasestr_func user1 MDB_COL_CHAR_CASE = Some like_strcasestr"
| "collate_like_strcasestr_func user1 MDB_COL_CHAR_DICORDER = Some like_strcasestr"
| "collate_like_strcasestr_func user1 MDB_COL_NCHAR_NOCASE = Some like_wcscasestr"
| "collate_like_strcasestr_func user1 MDB_COL_NCHAR_CASE = Some like_wcscasestr"
| "collate_like_strcasestr_func user1 MDB_COL_USER_TYPE1 = Some (like_strstr_user user1 MDB_COL_USER_TYPE1)"
| "collate_like_strcasestr_func user1 MDB_COL_USER_TYPE2 = Some (like_strstr_user strstr MDB_COL_USER_TYPE2)"
| "collate_like_strcasestr_func user1 MDB_COL_USER_TYPE3 = Some (like_strstr_user strstr MDB_COL_USER_TYPE3)"
| "collate_like_strcasestr_func user1 MDB_COL_CHAR_REVERSE = Some like_strcasestr"
| "collate_like_strcasestr_func user1 _ = None"

definition MC_STRSTR :: "(chars \<Rightarrow> chars \<Rightarrow> nat option) \<Rightarrow> bool \<Rightarrow> MDB_COL_TYPE \<Rightarrow> like_find option" where
  "MC_STRSTR user1 ilike c = (if \<not> ilike then collate_like_strstr_func user1 c else collate_like_strcasestr_func user1 c)"

definition MC_STRNCMP :: "bool \<Rightarrow> MDB_COL_TYPE \<Rightarrow> like_cmp option" where
  "MC_STRNCMP ilike c = (if \<not> ilike then collate_like_strncmp_func c else collate_like_strncasecmp_func c)"

subsection \<open>Preparing a pattern\<close>

fun wildcards :: "chars \<Rightarrow> nat \<times> bool \<times> chars" where
  \<comment> \<open>the loop over a run of wildcards: the number of underscores, whether a percent sign is among them, the rest\<close>
  "wildcards [] = (0, False, [])"
| "wildcards (c # p) =
     (if c = chr_underbar then (let (u, pc, r) = wildcards p in (Suc u, pc, r))
      else if c = chr_percent then (let (u, pc, r) = wildcards p in (u, True, r))
      else (0, False, c # p))"

lemma wildcards_rest: "wildcards p = (u, pc, r) \<Longrightarrow> length r \<le> length p"
  by (induction p arbitrary: u pc r) (auto split: if_splits prod.splits intro: le_SucI)

lemma wildcards_rest_less:
  "wildcards (c # p) = (u, pc, r) \<Longrightarrow> is_wild c \<Longrightarrow> length r < Suc (length p)"
  by (auto simp: is_wild_def split: if_splits prod.splits dest!: wildcards_rest intro: le_imp_less_Suc)

lemmas wildcards_rest_less' [termination_simp] = wildcards_rest_less [OF sym]

declare wildcards.simps(2) [simp del]

fun like_length :: "bool \<Rightarrow> chars \<Rightarrow> (nat \<times> nat) option" where
  \<comment> \<open>what the rest of the pattern adds to \<^verbatim>\<open>*pLength\<close> and \<^verbatim>\<open>*pCount\<close>\<close>
  "like_length string [] = Some (0, 0)"
| "like_length string (c # p) =
     (if is_wild c then
        (case wildcards (c # p) of (u, pc, r) \<Rightarrow>
           do {
             (l, n) \<leftarrow> like_length False r;
             Some (u + of_bool pc + l, of_bool (u > 0) + of_bool pc + n)
           })
      else if c = chr_escape then
        (case p of
           [] \<Rightarrow> None
         | d # q \<Rightarrow>
             if is_wild d \<or> d = chr_escape then
               do { (l, n) \<leftarrow> like_length True q; Some (2 + l, of_bool (\<not> string) + n) }
             else None)
      else do { (l, n) \<leftarrow> like_length True p; Some (2 + l, of_bool (\<not> string) + n) })"

definition Calc_likeLength :: "chars \<Rightarrow> (nat \<times> nat) option" where
  \<comment> \<open>nothing is \<^verbatim>\<open>FALSE\<close>\<close>
  "Calc_likeLength plikestr =
     (let string = (\<not> is_wild (hd0 plikestr)) in
      do { (l, n) \<leftarrow> like_length string plikestr; Some (l, of_bool string + n) })"

definition GetSmallCaseLetter :: "nat \<Rightarrow> nat" where
  "GetSmallCaseLetter c = (if c \<ge> 65 \<and> c \<le> 90 then c + 32 else c)"

fun new_like :: "bool \<Rightarrow> chars \<Rightarrow> (chars \<times> nat) option" where
  \<comment> \<open>the new pattern, and what is added to \<^verbatim>\<open>nLeastLen\<close>\<close>
  "new_like ilike [] = Some ([], 0)"
| "new_like ilike (c # p) =
     (if c = chr_escape then
        (case p of
           [] \<Rightarrow> None
         | d # q \<Rightarrow> do { (new, n) \<leftarrow> new_like ilike q; Some (c # d # new, Suc n) })
      else if is_wild c then
        (case wildcards (c # p) of (u, pc, r) \<Rightarrow>
           do {
             (new, n) \<leftarrow> new_like ilike r;
             Some (replicate u chr_underbar @ (if pc then [chr_percent] else []) @ new, u + n)
           })
      else do { (new, n) \<leftarrow> new_like ilike p; Some ((if ilike then GetSmallCaseLetter c else c) # new, Suc n) })"

datatype LIKE_TYPE = LIKE_STRING | LIKE_UNDERBAR | LIKE_PERCENT

record SLikeList =
  like_str :: chars
  nLen :: nat
  sType :: LIKE_TYPE

fun like_chars :: "chars \<Rightarrow> (chars \<times> chars) option" where
  \<comment> \<open>the characters up to a wildcard, without their escapes\<close>
  "like_chars [] = Some ([], [])"
| "like_chars (c # p) =
     (if is_wild c then Some ([], c # p)
      else if c = chr_escape then
        (case p of [] \<Rightarrow> None | d # q \<Rightarrow> do { (s, r) \<leftarrow> like_chars q; Some (d # s, r) })
      else do { (s, r) \<leftarrow> like_chars p; Some (c # s, r) })"

lemma like_chars_rest: "like_chars p = Some (s, r) \<Longrightarrow> length r \<le> length p"
  by (induction p arbitrary: s r rule: like_chars.induct)
    (force split: if_splits list.splits Option.bind_splits intro: le_SucI)+

lemma like_chars_rest_less:
  "like_chars (c # p) = Some (s, r) \<Longrightarrow> \<not> is_wild c \<Longrightarrow> length r < Suc (length p)"
  by (auto simp: bind_eq_Some_conv less_Suc_eq_le split: if_splits list.splits dest!: like_chars_rest)

declare like_chars.simps(2) [simp del]

lemma dropWhile_less: "length (dropWhile P p) < Suc (length p)"
  by (simp add: le_imp_less_Suc length_dropWhile_le)

function split_like :: "chars \<Rightarrow> SLikeList list option" where
  "split_like [] = Some []"
| "split_like (c # p) =
     (if c = chr_percent then do { ls \<leftarrow> split_like p; Some (\<lparr>like_str = [], nLen = 0, sType = LIKE_PERCENT\<rparr> # ls) }
      else if c = chr_underbar then
        (let n = Suc (length (takeWhile (\<lambda>d. d = chr_underbar) p)) in
         do {
           ls \<leftarrow> split_like (dropWhile (\<lambda>d. d = chr_underbar) p);
           Some (\<lparr>like_str = [], nLen = n, sType = LIKE_UNDERBAR\<rparr> # ls)
         })
      else
        (case like_chars (c # p) of
           None \<Rightarrow> None
         | Some (s, r) \<Rightarrow>
             do { ls \<leftarrow> split_like r; Some (\<lparr>like_str = s, nLen = length s, sType = LIKE_STRING\<rparr> # ls) }))"
  by pat_completeness auto
termination by (relation "measure length") (auto simp: dropWhile_less like_chars_rest_less is_wild_def)

definition to_int16 :: "nat \<Rightarrow> int" where
  \<comment> \<open>the value of a \<^verbatim>\<open>short\<close>\<close>
  "to_int16 n = (int n + 2 ^ 15) mod 2 ^ 16 - 2 ^ 15"

record SLikeInfo =
  pnewlike :: chars
  nLeastLen :: int
  pList :: "SLikeList list"

definition preprocessing_likestr :: "bool \<Rightarrow> chars \<Rightarrow> SLikeInfo option" where
  "preprocessing_likestr ilike psource =
     do {
       (new, n) \<leftarrow> new_like ilike psource;
       ls \<leftarrow> split_like new;
       Some \<lparr>pnewlike = new, nLeastLen = to_int16 n, pList = ls\<rparr>
     }"

definition DB_E_OUTOFMEMORY :: int where "DB_E_OUTOFMEMORY = - 120"

definition MC_GetPos_SLikeInfo :: "nat \<Rightarrow> nat \<Rightarrow> nat" where
  \<comment> \<open>the place of the list behind the new pattern, a multiple of \<^verbatim>\<open>sizeof(long)\<close>\<close>
  "MC_GetPos_SLikeInfo l s = ((4 + (l + 1) * s - 1) div 8 + 1) * 8"

definition SLikeInfo_size :: nat where "SLikeInfo_size = 24"
definition SLikeList_size :: nat where "SLikeList_size = 24"

definition like_newlen :: "nat \<Rightarrow> nat \<Rightarrow> nat \<Rightarrow> nat" where
  "like_newlen nLength nCount chr_size = 4 + (nLength + 1) * chr_size + SLikeInfo_size + nCount * SLikeList_size + 8"

definition dbi_prepare_like ::
    "chars option \<Rightarrow> bool \<Rightarrow> (nat \<Rightarrow> bool) \<Rightarrow> nat \<Rightarrow> (int \<times> (nat \<times> SLikeInfo option) option) option" where
  \<comment> \<open>the result and the prepared pattern: its length, and the list unless it is empty; \<open>mem\<close> tells whether a number
    of bytes (and the buffer for a reversed value) can be allocated, \<open>chr_size\<close> is the size of a character\<close>
  "dbi_prepare_like likestr ilike mem chr_size =
     (case likestr of
        None \<Rightarrow> Some (DB_E_INVALIDPARAM, None)
      | Some [] \<Rightarrow> Some (if mem 4 then (1, Some (0, None)) else (DB_E_OUTOFMEMORY, None))
      | Some p \<Rightarrow>
          (case Calc_likeLength p of
             None \<Rightarrow> Some (DB_E_INVALIDLIKESYNTAX, None)
           | Some (nLength, nCount) \<Rightarrow>
               if \<not> mem (like_newlen nLength nCount chr_size) then Some (DB_E_OUTOFMEMORY, None)
               else do { info \<leftarrow> preprocessing_likestr ilike p; Some (nLeastLen info, Some (nLength, Some info)) }))"

end
