(* ===== verification/LikeSpec.thy ===== *)
theory LikeSpec
  imports Like
begin

section \<open>What a pattern means\<close>

text \<open>
  The reference for \<^verbatim>\<open>LIKE\<close>: a pattern is a sequence of characters, underscores (one character) and percent signs (any
  number of characters).  The prepared list means the same, has the form the comparison relies on, and fits into the
  memory requested for it.
\<close>

datatype like_token = Lit nat | One | Any

fun like_tokens :: "chars \<Rightarrow> like_token list option" where
  "like_tokens [] = Some []"
| "like_tokens (c # p) =
     (if c = chr_percent then map_option (Cons Any) (like_tokens p)
      else if c = chr_underbar then map_option (Cons One) (like_tokens p)
      else if c = chr_escape then
        (case p of
           [] \<Rightarrow> None
         | d # q \<Rightarrow> if is_wild d \<or> d = chr_escape then map_option (Cons (Lit d)) (like_tokens q) else None)
      else map_option (Cons (Lit c)) (like_tokens p))"

fun like_matches :: "(nat \<Rightarrow> nat \<Rightarrow> bool) \<Rightarrow> like_token list \<Rightarrow> chars \<Rightarrow> bool" where
  "like_matches same [] s = (s = [])"
| "like_matches same (Any # t) s = (\<exists>k \<le> length s. like_matches same t (drop k s))"
| "like_matches same (One # t) s = (s \<noteq> [] \<and> like_matches same t (tl s))"
| "like_matches same (Lit c # t) s = (s \<noteq> [] \<and> same (hd s) c \<and> like_matches same t (tl s))"

fun item_match :: "(nat \<Rightarrow> nat \<Rightarrow> bool) \<Rightarrow> SLikeList list \<Rightarrow> chars \<Rightarrow> bool" where
  \<comment> \<open>the meaning of a prepared list\<close>
  "item_match same [] s = (s = [])"
| "item_match same (l # ls) s =
     (case sType l of
        LIKE_PERCENT \<Rightarrow> \<exists>k \<le> length s. item_match same ls (drop k s)
      | LIKE_UNDERBAR \<Rightarrow> nLen l \<le> length s \<and> item_match same ls (drop (nLen l) s)
      | LIKE_STRING \<Rightarrow> starts_with same s (like_str l) \<and> item_match same ls (drop (nLen l) s))"

fun proper :: "SLikeList list \<Rightarrow> bool" where
  "proper [] = True"
| "proper (l # ls) =
     ((case sType l of
         LIKE_PERCENT \<Rightarrow> ls = [] \<or> sType (hd ls) = LIKE_STRING
       | LIKE_UNDERBAR \<Rightarrow> 0 < nLen l
       | LIKE_STRING \<Rightarrow> nLen l = length (like_str l) \<and> 0 < nLen l \<and> 0 \<notin> set (like_str l)) \<and> proper ls)"

subsection \<open>Adding to a list\<close>

definition add_char :: "nat \<Rightarrow> SLikeList list \<Rightarrow> SLikeList list" where
  "add_char c ls =
     (case ls of
        l # ls' \<Rightarrow>
          if sType l = LIKE_STRING then \<lparr>like_str = c # like_str l, nLen = Suc (nLen l), sType = LIKE_STRING\<rparr> # ls'
          else \<lparr>like_str = [c], nLen = 1, sType = LIKE_STRING\<rparr> # ls
      | [] \<Rightarrow> [\<lparr>like_str = [c], nLen = 1, sType = LIKE_STRING\<rparr>])"

lemma like_chars_wild: "p = [] \<or> is_wild (hd p) \<Longrightarrow> like_chars p = Some ([], p)"
  by (cases p) (auto simp: like_chars.simps)

lemma split_like_string:
  "\<not> is_wild c \<Longrightarrow>
   split_like (c # p) =
     (case like_chars (c # p) of
        None \<Rightarrow> None
      | Some (s, r) \<Rightarrow> map_option (Cons \<lparr>like_str = s, nLen = length s, sType = LIKE_STRING\<rparr>) (split_like r))"
  by (auto simp: is_wild_def map_conv_bind_option comp_def split: option.splits)

lemma split_like_head: "split_like q = Some (l # ls) \<Longrightarrow> sType l = LIKE_STRING \<longleftrightarrow> \<not> is_wild (hd q)"
  by (cases q) (auto simp: is_wild_def bind_eq_Some_conv split: if_splits option.splits)

lemma split_like_add_aux:
  assumes "\<And>s r. like_chars q = Some (s, r) \<Longrightarrow> like_chars p = Some (c # s, r)"
    and "\<not> is_wild (hd p)" and "p \<noteq> []" and "split_like q = Some ls"
  shows "split_like p = Some (add_char c ls)"
proof (cases "q = [] \<or> is_wild (hd q)")
  case True
  then have "like_chars p = Some ([c], q)" using assms(1) like_chars_wild [of q] by simp
  moreover have "ls = [] \<or> sType (hd ls) \<noteq> LIKE_STRING"
    using True assms(4) split_like_head [of q] by (cases ls) (auto)
  ultimately show ?thesis
    using assms(2-4) by (cases p) (auto simp: split_like_string add_char_def simp del: split_like.simps split: list.splits)
next
  case False
  then obtain d q' where q: "q = d # q'" "\<not> is_wild d" by (cases q) auto
  from assms(4) obtain s r ls' where l: "like_chars q = Some (s, r)" "split_like r = Some ls'"
      "ls = \<lparr>like_str = s, nLen = length s, sType = LIKE_STRING\<rparr> # ls'"
    unfolding q(1) split_like_string [OF q(2)] by (auto split: option.splits)
  then show ?thesis
    using assms(1) [OF l(1)] assms(2,3) by (cases p) (auto simp: split_like_string add_char_def simp del: split_like.simps)
qed

lemma split_like_char:
  "split_like q = Some ls \<Longrightarrow> \<not> is_wild c \<Longrightarrow> c \<noteq> chr_escape \<Longrightarrow> split_like (c # q) = Some (add_char c ls)"
  by (rule split_like_add_aux [of q]) (auto simp: like_chars.simps)

lemma split_like_escaped: "split_like q = Some ls \<Longrightarrow> split_like (chr_escape # d # q) = Some (add_char d ls)"
  by (rule split_like_add_aux [of q]) (auto simp: like_chars.simps is_wild_def)

lemma split_like_percent:
  "split_like q = Some ls \<Longrightarrow>
   split_like (chr_percent # q) = Some (\<lparr>like_str = [], nLen = 0, sType = LIKE_PERCENT\<rparr> # ls)"
  by simp

lemma split_like_underbars:
  assumes "split_like q = Some ls" and "q = [] \<or> hd q \<noteq> chr_underbar" and "0 < u"
  shows "split_like (replicate u chr_underbar @ q) = Some (\<lparr>like_str = [], nLen = u, sType = LIKE_UNDERBAR\<rparr> # ls)"
proof -
  obtain n where u: "u = Suc n" using assms(3) by (cases u) auto
  have "takeWhile (\<lambda>d. d = chr_underbar) (replicate n chr_underbar @ q) = replicate n chr_underbar"
    "dropWhile (\<lambda>d. d = chr_underbar) (replicate n chr_underbar @ q) = q"
    using assms(2) by (induction n; cases q; auto)+
  then show ?thesis using assms(1) by (simp add: u)
qed

lemma add_char_proper: "proper ls \<Longrightarrow> c \<noteq> 0 \<Longrightarrow> proper (add_char c ls)"
  by (auto simp: add_char_def split: list.splits)

lemma add_char_match:
  "proper ls \<Longrightarrow> item_match same (add_char c ls) s \<longleftrightarrow> s \<noteq> [] \<and> same (hd s) c \<and> item_match same ls (tl s)"
  by (cases s) (auto simp: add_char_def drop_Suc split: list.splits LIKE_TYPE.splits)

lemma add_char_head: "add_char c ls \<noteq> [] \<and> sType (hd (add_char c ls)) = LIKE_STRING"
  by (auto simp: add_char_def split: list.splits)

lemma add_char_length: "length (add_char c ls) = length ls + of_bool (ls = [] \<or> sType (hd ls) \<noteq> LIKE_STRING)"
  by (auto simp: add_char_def split: list.splits)

subsection \<open>Runs of wildcards\<close>

lemma wildcards_head: "wildcards p = (u, pc, r) \<Longrightarrow> r = [] \<or> \<not> is_wild (hd r)"
  by (induction p arbitrary: u pc r) (auto simp: wildcards.simps is_wild_def split: if_splits prod.splits)

lemma wildcards_set: "wildcards p = (u, pc, r) \<Longrightarrow> set r \<subseteq> set p"
  by (induction p arbitrary: u pc r) (auto simp: wildcards.simps split: if_splits prod.splits)

lemma drop_tl_iff: "(\<exists>k. k \<le> length s \<and> P k (drop k s)) \<longleftrightarrow> P 0 s \<or> (s \<noteq> [] \<and> (\<exists>k. k \<le> length (tl s) \<and> P (Suc k) (drop k (tl s))))"
proof (cases s)
  case (Cons c t)
  have "(\<exists>k. k \<le> length s \<and> P k (drop k s)) \<longleftrightarrow> P 0 s \<or> (\<exists>k. Suc k \<le> length s \<and> P (Suc k) (drop (Suc k) s))"
    by (metis drop0 le0 not0_implies_Suc)
  then show ?thesis by (simp add: Cons)
qed auto

lemma wildcards_match:
  assumes "wildcards p = (u, pc, r)" and "like_tokens p = Some t"
  shows "\<exists>t'. like_tokens r = Some t' \<and>
    (\<forall>s. like_matches same t s \<longleftrightarrow> (\<exists>k. k \<le> length s \<and> (if pc then u \<le> k else k = u) \<and> like_matches same t' (drop k s)))"
  using assms
proof (induction p arbitrary: u pc r t)
  case Nil
  then show ?case by auto
next
  case (Cons c p)
  consider "c = chr_underbar" | "c = chr_percent" | "\<not> is_wild c" by (auto simp: is_wild_def)
  then show ?case
  proof cases
    case 1
    obtain u' where w: "wildcards p = (u', pc, r)" "u = Suc u'"
      using Cons.prems(1) 1 by (auto simp: wildcards.simps split: prod.splits)
    obtain t1 where t1: "like_tokens p = Some t1" "t = One # t1" using Cons.prems(2) 1 by auto
    show ?thesis
      using Cons.IH [OF w(1) t1(1)]
    proof (elim exE conjE, intro exI conjI allI)
      fix t' s assume t': "like_tokens r = Some t'" and
        m: "\<forall>s. like_matches same t1 s \<longleftrightarrow> (\<exists>k. k \<le> length s \<and> (if pc then u' \<le> k else k = u') \<and> like_matches same t' (drop k s))"
      show "like_tokens r = Some t'" by (rule t')
      show "like_matches same t s \<longleftrightarrow> (\<exists>k. k \<le> length s \<and> (if pc then u \<le> k else k = u) \<and> like_matches same t' (drop k s))"
        using drop_tl_iff [of s "\<lambda>k v. (if pc then u \<le> k else k = u) \<and> like_matches same t' v"] m by (simp add: t1(2) w(2))
    qed
  next
    case 2
    obtain pc' where w: "wildcards p = (u, pc', r)" "pc"
      using Cons.prems(1) 2 by (auto simp: wildcards.simps split: prod.splits)
    obtain t1 where t1: "like_tokens p = Some t1" "t = Any # t1" using Cons.prems(2) 2 by auto
    show ?thesis
      using Cons.IH [OF w(1) t1(1)]
    proof (elim exE conjE, intro exI conjI allI)
      fix t' s assume t': "like_tokens r = Some t'" and
        m: "\<forall>s. like_matches same t1 s \<longleftrightarrow> (\<exists>k. k \<le> length s \<and> (if pc' then u \<le> k else k = u) \<and> like_matches same t' (drop k s))"
      show "like_tokens r = Some t'" by (rule t')
      have "like_matches same t s \<longleftrightarrow>
        (\<exists>j k. j \<le> length s \<and> k \<le> length s - j \<and> (if pc' then u \<le> k else k = u) \<and> like_matches same t' (drop (j + k) s))"
        by (simp add: t1(2) m add.commute)
      also have "\<dots> \<longleftrightarrow> (\<exists>n. n \<le> length s \<and> u \<le> n \<and> like_matches same t' (drop n s))" (is "?l \<longleftrightarrow> ?r")
      proof
        assume ?l
        then obtain j k where "j \<le> length s" "k \<le> length s - j" "u \<le> k" "like_matches same t' (drop (j + k) s)"
          by (auto split: if_splits)
        then show ?r by (intro exI [of _ "j + k"]) simp
      next
        assume ?r
        then obtain n where "n \<le> length s" "u \<le> n" "like_matches same t' (drop n s)" by blast
        then show ?l by - (rule exI [of _ "n - u"], rule exI [of _ u], auto)
      qed
      finally show "like_matches same t s \<longleftrightarrow> (\<exists>k. k \<le> length s \<and> (if pc then u \<le> k else k = u) \<and> like_matches same t' (drop k s))"
        using w(2) by simp
    qed
  next
    case 3
    then have "wildcards (c # p) = (0, False, c # p)" by (simp add: wildcards.simps is_wild_def)
    then show ?thesis using Cons.prems by auto
  qed
qed

subsection \<open>The prepared list\<close>

definition pattern_eq :: "bool \<Rightarrow> (nat \<Rightarrow> nat \<Rightarrow> bool) \<Rightarrow> nat \<Rightarrow> nat \<Rightarrow> bool" where
  \<comment> \<open>\<^verbatim>\<open>ILIKE\<close> turns the letters of the pattern into small ones\<close>
  "pattern_eq ilike same = (\<lambda>d c. same d (if ilike then GetSmallCaseLetter c else c))"

definition starts_string :: "chars \<Rightarrow> bool" where "starts_string p \<longleftrightarrow> p \<noteq> [] \<and> \<not> is_wild (hd p)"

lemma small_letter: "GetSmallCaseLetter c = 0 \<longleftrightarrow> c = 0" "is_wild (GetSmallCaseLetter c) \<longleftrightarrow> is_wild c"
  "GetSmallCaseLetter c = chr_escape \<longleftrightarrow> c = chr_escape"
  by (auto simp: GetSmallCaseLetter_def is_wild_def)

lemma small_special: "is_wild c \<or> c = chr_escape \<Longrightarrow> GetSmallCaseLetter c = c"
  by (auto simp: GetSmallCaseLetter_def is_wild_def)

definition prepared :: "bool \<Rightarrow> (nat \<Rightarrow> nat \<Rightarrow> bool) \<Rightarrow> chars \<Rightarrow> like_token list \<Rightarrow> chars \<Rightarrow> SLikeList list \<Rightarrow> bool" where
  "prepared ilike same p t new ls \<longleftrightarrow>
     split_like new = Some ls \<and> proper ls \<and> (starts_string p \<longleftrightarrow> ls \<noteq> [] \<and> sType (hd ls) = LIKE_STRING) \<and>
     (new = [] \<or> hd new \<noteq> chr_underbar \<or> \<not> starts_string p) \<and> (p = [] \<longrightarrow> ls = []) \<and>
     (\<forall>s. item_match same ls s \<longleftrightarrow> like_matches (pattern_eq ilike same) t s)"

lemma prepared_char:
  assumes "prepared ilike same p t new ls" and "\<not> is_wild c" and "c \<noteq> chr_escape" and "c \<noteq> 0"
  shows "prepared ilike same (c # p) (Lit c # t) ((if ilike then GetSmallCaseLetter c else c) # new)
    (add_char (if ilike then GetSmallCaseLetter c else c) ls)"
proof -
  let ?c = "if ilike then GetSmallCaseLetter c else c"
  have l: "split_like new = Some ls" "proper ls" "item_match same ls s \<longleftrightarrow> like_matches (pattern_eq ilike same) t s" for s
    using assms(1) by (simp_all add: prepared_def)
  have c: "\<not> is_wild ?c" "?c \<noteq> chr_escape" "?c \<noteq> 0" "pattern_eq ilike same a c = same a ?c" for a
    using assms(2-4) small_letter [of c] by (simp_all add: pattern_eq_def)
  have u: "?c \<noteq> chr_underbar" using c(1) by (auto simp: is_wild_def)
  show ?thesis
    unfolding prepared_def
    using split_like_char [OF l(1) c(1,2)] add_char_proper [OF l(2) c(3)] add_char_head [of ?c ls] u assms(2)
    by (simp add: add_char_match [OF l(2)] l(3) c(4) starts_string_def del: split_like.simps if_splits)
qed

lemma prepared_escape:
  assumes "prepared ilike same p t new ls" and "is_wild d \<or> d = chr_escape"
  shows "prepared ilike same (chr_escape # d # p) (Lit d # t) (chr_escape # d # new) (add_char d ls)"
proof -
  have l: "split_like new = Some ls" "proper ls" "item_match same ls s \<longleftrightarrow> like_matches (pattern_eq ilike same) t s" for s
    using assms(1) by (simp_all add: prepared_def)
  have d: "d \<noteq> 0" "pattern_eq ilike same a d = same a d" for a
    using assms(2) small_special [OF assms(2)] by (auto simp: is_wild_def pattern_eq_def)
  show ?thesis
    unfolding prepared_def
    using split_like_escaped [OF l(1), of d] add_char_proper [OF l(2) d(1)] add_char_head [of d ls]
    by (simp add: add_char_match [OF l(2)] l(3) d(2) starts_string_def is_wild_def del: split_like.simps)
qed

definition run_items :: "nat \<Rightarrow> bool \<Rightarrow> SLikeList list" where
  "run_items u pc =
     (if 0 < u then [\<lparr>like_str = [], nLen = u, sType = LIKE_UNDERBAR\<rparr>] else []) @
     (if pc then [\<lparr>like_str = [], nLen = 0, sType = LIKE_PERCENT\<rparr>] else [])"

lemma run_items_match:
  "item_match same (run_items u pc @ ls) s \<longleftrightarrow>
   (\<exists>k. k \<le> length s \<and> (if pc then u \<le> k else k = u) \<and> item_match same ls (drop k s))"
proof (cases pc)
  case True
  have "(u \<le> length s \<and> (\<exists>k. k \<le> length s - u \<and> item_match same ls (drop (u + k) s))) \<longleftrightarrow>
      (\<exists>k. k \<le> length s \<and> u \<le> k \<and> item_match same ls (drop k s))" (is "?l \<longleftrightarrow> ?r")
  proof
    assume ?l
    then obtain k where "u \<le> length s" "k \<le> length s - u" "item_match same ls (drop (u + k) s)" by blast
    then show ?r by - (rule exI [of _ "u + k"], auto)
  next
    assume ?r
    then obtain k where "k \<le> length s" "u \<le> k" "item_match same ls (drop k s)" by blast
    then show ?l by (auto intro!: exI [of _ "k - u"])
  qed
  then show ?thesis using True by (cases "u = 0") (simp_all add: run_items_def add.commute)
qed (auto simp: run_items_def)

lemma prepared_run:
  assumes "wildcards (c # p) = (u, pc, r)" and "is_wild c" and "like_tokens (c # p) = Some t"
    and "\<And>t'. like_tokens r = Some t' \<Longrightarrow> prepared ilike same r t' new ls"
  shows "prepared ilike same (c # p) t (replicate u chr_underbar @ (if pc then [chr_percent] else []) @ new) (run_items u pc @ ls)"
proof -
  obtain t' where t': "like_tokens r = Some t'" and
    m: "\<And>s. like_matches (pattern_eq ilike same) t s \<longleftrightarrow>
      (\<exists>k. k \<le> length s \<and> (if pc then u \<le> k else k = u) \<and> like_matches (pattern_eq ilike same) t' (drop k s))"
    using wildcards_match [OF assms(1,3), of "pattern_eq ilike same"] by blast
  note pr = assms(4) [OF t', unfolded prepared_def]
  have r: "r = [] \<or> starts_string r" using wildcards_head [OF assms(1)] by (auto simp: starts_string_def)
  have nonempty: "0 < u \<or> pc" using assms(1,2) by (auto simp: wildcards.simps is_wild_def split: if_splits prod.splits)
  have new: "new = [] \<or> hd new \<noteq> chr_underbar"
  proof (cases "r = []")
    case True
    then have "split_like new = Some []" using pr by simp
    then show ?thesis by (cases new) (auto simp: bind_eq_Some_conv split: if_splits option.splits)
  qed (use pr r in auto)
  have ls: "ls = [] \<or> sType (hd ls) = LIKE_STRING" using pr r by auto
  let ?q = "(if pc then [chr_percent] else []) @ new"
  have q: "split_like ?q = Some ((if pc then [\<lparr>like_str = [], nLen = 0, sType = LIKE_PERCENT\<rparr>] else []) @ ls)"
    using pr by simp
  have "split_like (replicate u chr_underbar @ ?q) = Some (run_items u pc @ ls)"
  proof (cases "u = 0")
    case False
    then show ?thesis using split_like_underbars [OF q, of u] new by (simp add: run_items_def)
  qed (use q in \<open>simp add: run_items_def\<close>)
  moreover have "proper (run_items u pc @ ls)" using pr ls by (auto simp: run_items_def)
  moreover have "sType (hd (run_items u pc @ ls)) \<noteq> LIKE_STRING" using nonempty by (auto simp: run_items_def)
  ultimately show ?thesis
    using assms(2) m pr by (simp add: prepared_def starts_string_def run_items_match)
qed

lemma prepare_ok:
  "like_tokens p = Some t \<Longrightarrow> 0 \<notin> set p \<Longrightarrow> \<exists>new n ls. new_like ilike p = Some (new, n) \<and> prepared ilike same p t new ls"
proof (induction ilike p arbitrary: t rule: new_like.induct)
  case (1 ilike)
  then show ?case by (simp add: prepared_def starts_string_def)
next
  case (2 ilike c p)
  consider (escape) "c = chr_escape" | (wild) "c \<noteq> chr_escape" "is_wild c" | (char) "c \<noteq> chr_escape" "\<not> is_wild c" by blast
  then show ?case
  proof cases
    case escape
    then obtain d q t1 where q: "p = d # q" "is_wild d \<or> d = chr_escape" "like_tokens q = Some t1" "t = Lit d # t1"
      using 2(4) by (auto split: list.splits if_splits)
    show ?thesis using 2(1) [OF escape q(1) q(3)] 2(5) prepared_escape [OF _ q(2)] by (fastforce simp: escape q)
  next
    case wild
    obtain u pc r where w: "wildcards (c # p) = (u, pc, r)" by (cases "wildcards (c # p)") auto
    obtain t1 where t1: "like_tokens r = Some t1" using wildcards_match [OF w 2(4)] by blast
    have "0 \<notin> set r" using wildcards_set [OF w] 2(5) by blast
    then obtain new n ls where n: "new_like ilike r = Some (new, n)" "prepared ilike same r t1 new ls"
      using 2(2) [OF wild w [symmetric] refl t1] by blast
    have "prepared ilike same (c # p) t (replicate u chr_underbar @ (if pc then [chr_percent] else []) @ new) (run_items u pc @ ls)"
      by (rule prepared_run [OF w wild(2) 2(4)]) (use n(2) t1 in simp)
    then show ?thesis using w wild n(1) by auto
  next
    case char
    then obtain t1 where t1: "like_tokens p = Some t1" "t = Lit c # t1" using 2(4) by (auto simp: is_wild_def)
    obtain new n ls where n: "new_like ilike p = Some (new, n)" "prepared ilike same p t1 new ls"
      using 2(3) [OF char t1(1)] 2(5) by auto
    then show ?thesis using prepared_char [OF n(2) char(2,1)] char 2(5) t1(2) by auto
  qed
qed

subsection \<open>Memory for the prepared list\<close>

lemma wildcards_tokens: "wildcards p = (u, pc, r) \<Longrightarrow> like_tokens p = None \<longleftrightarrow> like_tokens r = None"
proof (induction p arbitrary: u pc r)
  case (Cons c p)
  then show ?case by (cases "is_wild c") (auto simp: wildcards.simps is_wild_def split: if_splits prod.splits)
qed auto

lemma like_length_tokens: "like_length string p = None \<longleftrightarrow> like_tokens p = None"
proof (induction string p rule: like_length.induct)
  case (2 string c p)
  consider (wild) "is_wild c" | (escape) "c = chr_escape" | (char) "\<not> is_wild c" "c \<noteq> chr_escape" by blast
  then show ?case
  proof cases
    case wild
    obtain u pc r where w: "wildcards (c # p) = (u, pc, r)" by (cases "wildcards (c # p)") auto
    then show ?thesis
      using 2(1) [OF wild w [symmetric] refl] wildcards_tokens [OF w] wild by (auto simp del: like_tokens.simps split: bind_splits)
  next
    case escape
    then show ?thesis using 2(2) [OF _ escape] by (auto simp: is_wild_def split: list.splits bind_splits)
  next
    case char
    then show ?thesis using 2(3) [OF char] by (auto simp: is_wild_def split: bind_splits)
  qed
qed simp

lemma prepared_unique:
  "prepared ilike same p t new ls \<Longrightarrow> prepared ilike same p t' new ls' \<Longrightarrow> ls = ls'"
  by (simp add: prepared_def)

lemma run_items_length: "length (run_items u pc) = of_bool (0 < u) + of_bool pc"
  by (simp add: run_items_def)

lemma prepared_length:
  assumes "like_length string p = Some (l, k)" and "new_like ilike p = Some (new, n)" and "prepared ilike same p t new ls"
    and "like_tokens p = Some t" and "0 \<notin> set p"
  shows "length new \<le> l \<and> length ls = k + of_bool (string \<and> starts_string p)"
  using assms
proof (induction string p arbitrary: l k new n t ls rule: like_length.induct)
  case (1 string)
  then show ?case by (simp add: prepared_def starts_string_def)
next
  case (2 string c p)
  consider (wild) "c \<noteq> chr_escape" "is_wild c" | (escape) "c = chr_escape" | (char) "c \<noteq> chr_escape" "\<not> is_wild c"
    by (auto simp: is_wild_def)
  then show ?case
  proof cases
    case wild
    obtain u pc r where w: "wildcards (c # p) = (u, pc, r)" by (cases "wildcards (c # p)") auto
    obtain l1 k1 where l1: "like_length False r = Some (l1, k1)" "l = u + of_bool pc + l1" "k = of_bool (0 < u) + of_bool pc + k1"
      using 2(4) wild(2) w by (auto simp: bind_eq_Some_conv)
    obtain t1 where t1: "like_tokens r = Some t1" using wildcards_match [OF w 2(7)] by blast
    have r: "0 \<notin> set r" using wildcards_set [OF w] 2(8) by blast
    obtain new1 n1 ls1 where n1: "new_like ilike r = Some (new1, n1)" "prepared ilike same r t1 new1 ls1"
      using prepare_ok [OF t1 r] by blast
    have new: "new = replicate u chr_underbar @ (if pc then [chr_percent] else []) @ new1"
      using 2(5) wild w n1(1) by simp
    have "prepared ilike same (c # p) t new (run_items u pc @ ls1)"
      unfolding new by (rule prepared_run [OF w wild(2) 2(7)]) (use n1(2) t1 in simp)
    then have ls: "ls = run_items u pc @ ls1" by (rule prepared_unique [OF 2(6)])
    show ?thesis
      using 2(1) [OF wild(2) w [symmetric] refl l1(1) n1 t1 r] wild(2) l1(2,3) new ls
      by (simp add: starts_string_def run_items_length)
  next
    case escape
    then obtain d q t1 where q: "p = d # q" "is_wild d \<or> d = chr_escape" "like_tokens q = Some t1" "t = Lit d # t1"
      using 2(7) by (auto split: list.splits if_splits)
    have w: "\<not> is_wild c" by (simp add: escape is_wild_def)
    obtain l1 k1 where l1: "like_length True q = Some (l1, k1)" "l = 2 + l1" "k = of_bool (\<not> string) + k1"
      using 2(4) w escape q(1,2) by (auto simp: bind_eq_Some_conv)
    obtain new1 n1 ls1 where n1: "new_like ilike q = Some (new1, n1)" "prepared ilike same q t1 new1 ls1"
      using prepare_ok [OF q(3), of ilike same] 2(8) q(1) by auto
    have new: "new = chr_escape # d # new1" using 2(5) escape n1(1) q(1) by simp
    have ls: "ls = add_char d ls1"
      by (rule prepared_unique [OF 2(6)]) (use prepared_escape [OF n1(2) q(2)] escape q new in simp)
    show ?thesis
      using 2(2) [OF w escape q(1,2) l1(1) n1 q(3)] 2(8) q(1) n1(2) l1(2,3) new ls w
      by (auto simp: add_char_length starts_string_def prepared_def)
  next
    case char
    then obtain t1 where t1: "like_tokens p = Some t1" "t = Lit c # t1" using 2(7) by (auto simp: is_wild_def)
    obtain l1 k1 where l1: "like_length True p = Some (l1, k1)" "l = 2 + l1" "k = of_bool (\<not> string) + k1"
      using 2(4) char by (auto simp: bind_eq_Some_conv)
    obtain new1 n1 ls1 where n1: "new_like ilike p = Some (new1, n1)" "prepared ilike same p t1 new1 ls1"
      using prepare_ok [OF t1(1), of ilike same] 2(8) by auto
    have new: "new = (if ilike then GetSmallCaseLetter c else c) # new1" using 2(5) char n1(1) by simp
    have ls: "ls = add_char (if ilike then GetSmallCaseLetter c else c) ls1"
      by (rule prepared_unique [OF 2(6)]) (use prepared_char [OF n1(2) char(2,1)] 2(8) new t1(2) in simp)
    show ?thesis
      using 2(3) [OF char(2,1) l1(1) n1 t1(1)] 2(8) n1(2) l1(2,3) new ls char(2)
      by (auto simp: add_char_length starts_string_def prepared_def)
  qed
qed

end
