(* ===== verification/LikeCompare.thy ===== *)
theory LikeCompare
  imports Like
begin

section \<open>Comparing a value with a pattern\<close>

text \<open>
  \<^verbatim>\<open>_compare_like_rec\<close> for a value in one piece, \<^verbatim>\<open>_compare_like_divided\<close> for a value of variable length whose
  rest is in another slot, their twins for 16-bit units, and \<^verbatim>\<open>dbi_like_compare\<close>.  The arguments \<open>seek\<close> and \<open>cmp\<close> are
  \<^verbatim>\<open>MC_STRSTR\<close> and \<^verbatim>\<open>MC_STRNCMP\<close> with the collation and the NULL as \<^verbatim>\<open>pEnd\<close>, which all callers pass.
\<close>

definition end_string :: "chars \<Rightarrow> nat \<Rightarrow> bool option" where
  \<comment> \<open>\<^verbatim>\<open>MC_IsEndString(value, NULL)\<close>\<close>
  "end_string m v = (if v < length m then Some (m ! v = 0) else None)"

definition str_at :: "chars \<Rightarrow> nat \<Rightarrow> chars option" where
  \<comment> \<open>the string at a position\<close>
  "str_at m v = (if 0 \<in> set (drop v m) then Some (takeWhile (\<lambda>c. c \<noteq> 0) (drop v m)) else None)"

lemma str_at_less: "str_at m v = Some s \<Longrightarrow> v < length m"
  by (auto simp: str_at_def split: if_splits) (metis drop_all emptyE empty_set linorder_not_less)

subsection \<open>A value in one piece\<close>

fun skip_units :: "chars \<Rightarrow> nat \<Rightarrow> nat \<Rightarrow> nat option option" where
  \<comment> \<open>\<^verbatim>\<open>for (i = 1; i < nLen; i++)\<close>; the inner option is nothing when the value ends\<close>
  "skip_units m 0 v = Some (Some v)"
| "skip_units m (Suc n) v = do { e \<leftarrow> end_string m v; if e then Some None else skip_units m n (v + 1) }"

definition only_percent :: "SLikeList list \<Rightarrow> bool" where
  \<comment> \<open>\<^verbatim>\<open>for (pTmp = pLike->next; pTmp; pTmp = pTmp->next) if (pTmp->sType != LIKE_PERCENT) break;\<close>\<close>
  "only_percent ls \<longleftrightarrow> list_all (\<lambda>l. sType l = LIKE_PERCENT) ls"

function percent_loop ::
    "(nat \<Rightarrow> int option) \<Rightarrow> (chars \<Rightarrow> chars \<Rightarrow> nat option) \<Rightarrow> chars \<Rightarrow> SLikeList \<Rightarrow> SLikeList list \<Rightarrow> nat \<Rightarrow> int option" where
  \<comment> \<open>\<open>p\<close> has been found at \<open>src\<close>, \<open>rec\<close> compares with the rest \<open>ls\<close> of the pattern\<close>
  "percent_loop rec seek m p ls src =
     do {
       e \<leftarrow> end_string m (src + nLen p);
       if e then Some (if only_percent ls then 0 else - 1)
       else
         do {
           r \<leftarrow> rec (src + nLen p);
           if r = 0 then Some 0
           else
             do {
               s \<leftarrow> str_at m (src + 1);
               (case seek s (like_str p) of
                  None \<Rightarrow> Some (- 1)
                | Some k \<Rightarrow> percent_loop rec seek m p ls (src + 1 + k))
             }
         }
     }"
  by pat_completeness auto
termination
  by (relation "measure (\<lambda>(rec, seek, m, p, ls, src). length m - src)") (auto simp: end_string_def split: if_splits)

fun compare_like_rec ::
    "(chars \<Rightarrow> chars \<Rightarrow> nat option) \<Rightarrow> (nat \<Rightarrow> chars \<Rightarrow> chars \<Rightarrow> int) \<Rightarrow> chars \<Rightarrow> nat \<Rightarrow> SLikeList list \<Rightarrow> int option" where
  \<comment> \<open>a string has to follow a percent sign\<close>
  "compare_like_rec seek cmp m v [] = do { e \<leftarrow> end_string m v; Some (if e then 0 else - 1) }"
| "compare_like_rec seek cmp m v (l # ls) =
     (case sType l of
        LIKE_PERCENT \<Rightarrow>
          (case ls of
             [] \<Rightarrow> Some 0
           | p # ls \<Rightarrow>
               if sType p \<noteq> LIKE_STRING then None
               else
                 do {
                   s \<leftarrow> str_at m v;
                   (case seek s (like_str p) of
                      None \<Rightarrow> Some (- 1)
                    | Some k \<Rightarrow> percent_loop (\<lambda>v. compare_like_rec seek cmp m v ls) seek m p ls (v + k))
                 })
      | LIKE_UNDERBAR \<Rightarrow>
          do {
            r \<leftarrow> skip_units m (nLen l - 1) (v + 1);
            (case r of None \<Rightarrow> Some (- 1) | Some v \<Rightarrow> compare_like_rec seek cmp m v ls)
          }
      | LIKE_STRING \<Rightarrow>
          do {
            s \<leftarrow> str_at m v;
            if cmp (nLen l) s (like_str l) = 0 then compare_like_rec seek cmp m (v + nLen l) ls else Some (- 1)
          })"

subsection \<open>A value in two pieces\<close>

text \<open>
  \<open>dv_X\<close> is the end of a piece and \<open>dv_next\<close> the memory and the length of the next one, which the code reads through
  \<^verbatim>\<open>_nextOid\<close>.  The functions change the position \<^verbatim>\<open>pDivCur->u._pvalue\<close>, so they return the last one.
\<close>

record SDividedPart =
  dv_mem :: chars
  dv_value :: nat
  dv_X :: nat
  dv_next :: "(chars \<times> nat) option"

definition ext_part :: "chars \<times> nat \<Rightarrow> SDividedPart" where
  \<comment> \<open>\<^verbatim>\<open>MC_Lock_EXT_PART\<close> and the assignment to \<^verbatim>\<open>ux._pX\<close>\<close>
  "ext_part = (\<lambda>(m, len). \<lparr>dv_mem = m, dv_value = 0, dv_X = len - 1, dv_next = None\<rparr>)"

definition dv_remainder :: "SDividedPart \<Rightarrow> int" where "dv_remainder d = int (dv_X d) - int (dv_value d)"

fun check_both_string ::
    "(nat \<Rightarrow> chars \<Rightarrow> chars \<Rightarrow> int) \<Rightarrow> chars \<Rightarrow> nat \<Rightarrow> nat \<Rightarrow> chars \<Rightarrow> SLikeList \<Rightarrow> (int \<times> nat) option" where
  \<comment> \<open>a start in the last \<open>restLen\<close> characters of the piece from which the string goes on in the next one; the end
    \<^verbatim>\<open>pEnd\<close> never cuts a comparison short\<close>
  "check_both_string cmp m v 0 nxt pat = Some (- 1, v)"
| "check_both_string cmp m v (Suc n) nxt pat =
     do {
       s \<leftarrow> str_at m v;
       if cmp (Suc n) s (like_str pat) = 0 \<and> cmp (nLen pat - Suc n) nxt (drop (Suc n) (like_str pat)) = 0 then Some (0, v)
       else check_both_string cmp m (v + 1) n nxt pat
     }"

datatype search_end = Done int nat | Again nat

function divided_search ::
    "(nat \<Rightarrow> (int \<times> nat) option) \<Rightarrow> (chars \<Rightarrow> chars \<Rightarrow> nat option) \<Rightarrow> chars \<Rightarrow> SLikeList \<Rightarrow> bool \<Rightarrow> int \<Rightarrow> nat
      \<Rightarrow> search_end option" where
  \<comment> \<open>the two loops over the places of the string \<open>p\<close> in a piece: the result of the function, or the position from which
    it is called again.  \<open>remainder\<close> is computed before the loop.\<close>
  "divided_search rec seek m p has_next remainder v =
     do {
       s \<leftarrow> str_at m v;
       (case seek s (like_str p) of
          None \<Rightarrow> Some (if has_next then Again (nat (int v + (remainder - int (nLen p)) + 1)) else Done (- 1) v)
        | Some k \<Rightarrow>
            do {
              (r, v') \<leftarrow> rec (v + k + nLen p);
              if r = 0 then Some (Done 0 v')
              else
                do {
                  e \<leftarrow> end_string m (v + k + 1);
                  if e then Some (if has_next then Again (v + k + 1) else Done (- 1) (v + k + 1))
                  else divided_search rec seek m p has_next remainder (v + k + 1)
                }
            })
     }"
  by pat_completeness auto
termination
  by (relation "measure (\<lambda>(rec, seek, m, p, has_next, remainder, v). length m - v)") (auto simp: end_string_def split: if_splits)

function divided_straddle ::
    "(nat \<Rightarrow> (int \<times> nat) option) \<Rightarrow> (nat \<Rightarrow> chars \<Rightarrow> chars \<Rightarrow> int) \<Rightarrow> chars \<Rightarrow> nat \<Rightarrow> chars \<Rightarrow> SLikeList \<Rightarrow> nat \<Rightarrow> nat \<Rightarrow> nat
      \<Rightarrow> (int \<times> nat \<times> nat) option" where
  \<comment> \<open>the loop over the places of \<open>p\<close> that reach into the next piece; \<open>v\<close> and \<open>w\<close> are the positions in the two pieces\<close>
  "divided_straddle rec cmp m X m' p remainder v w =
     do {
       nxt \<leftarrow> str_at m' w;
       (r, v) \<leftarrow> check_both_string cmp m v remainder nxt p;
       if r \<noteq> 0 then Some (- 1, v, w)
       else
         do {
           let remainder = X - v;
           (r, w) \<leftarrow> rec (w + (nLen p - remainder));
           if r = 0 then Some (0, v, w)
           else if 0 < remainder - 1 then divided_straddle rec cmp m X m' p (remainder - 1) (v + 1) w
           else Some (- 1, v + 1, w)
         }
     }"
  by pat_completeness auto

declare percent_loop.simps [simp del] divided_search.simps [simp del]

lemma check_both_string_value: "check_both_string cmp m v n nxt pat = Some (r, u) \<Longrightarrow> v \<le> u"
  by (induction n arbitrary: v) (fastforce simp: bind_eq_Some_conv split: if_splits)+

termination divided_straddle
  by (relation "measure (\<lambda>(rec, cmp, m, X, m', p, remainder, v, w). X - v)") (auto dest!: check_both_string_value)

declare divided_straddle.simps [simp del]

lemma divided_search_again:
  "divided_search rec seek m p has_next remainder v = Some (Again u) \<Longrightarrow> int (nLen p) \<le> remainder \<Longrightarrow> v < u \<and> v < length m"
proof (induction rec seek m p has_next remainder v rule: divided_search.induct)
  case (1 rec seek m p has_next remainder v)
  note step = divided_search.simps [of rec seek m p has_next remainder v]
  obtain s where s: "str_at m v = Some s" using "1.prems"(1) by (auto simp: step bind_eq_Some_conv)
  have v: "v < length m" using s by (rule str_at_less)
  show ?case
  proof (cases "seek s (like_str p)")
    case None
    then show ?thesis using "1.prems" s v by (auto simp: step split: if_splits)
  next
    case (Some k)
    obtain r v' where r: "rec (v + k + nLen p) = Some (r, v')" "r \<noteq> 0"
      using "1.prems"(1) s Some by (auto simp: step bind_eq_Some_conv split: if_splits)
    obtain e where e: "end_string m (v + k + 1) = Some e" using "1.prems"(1) s Some r by (auto simp: step bind_eq_Some_conv)
    show ?thesis
    proof (cases e)
      case True
      then show ?thesis using "1.prems"(1) s Some r e v by (auto simp: step split: if_splits)
    next
      case False
      then have "divided_search rec seek m p has_next remainder (v + k + 1) = Some (Again u)"
        using "1.prems"(1) s Some r e by (simp add: step)
      then show ?thesis using "1.IH" [OF s Some r(1) refl r(2) e False] "1.prems"(2) v by simp
    qed
  qed
qed

function compare_like_divided ::
    "(chars \<Rightarrow> chars \<Rightarrow> nat option) \<Rightarrow> (nat \<Rightarrow> chars \<Rightarrow> chars \<Rightarrow> int) \<Rightarrow> SDividedPart \<Rightarrow> SLikeList list \<Rightarrow> (int \<times> nat) option" where
  "compare_like_divided seek cmp d [] =
     do {
       e \<leftarrow> end_string (dv_mem d) (dv_value d);
       Some (if e \<and> dv_next d = None then 0 else - 1, dv_value d)
     }"
| "compare_like_divided seek cmp d (l # ls) =
     (if sType l = LIKE_PERCENT then
        (case ls of
           [] \<Rightarrow> Some (0, dv_value d)
         | p # ls' \<Rightarrow>
             if sType p \<noteq> LIKE_STRING then None
             else if int (nLen p) \<le> dv_remainder d then
               do {
                 res \<leftarrow> divided_search (\<lambda>v. compare_like_divided seek cmp (d\<lparr>dv_value := v\<rparr>) ls') seek (dv_mem d) p
                       (dv_next d \<noteq> None) (dv_remainder d) (dv_value d);
                 (case res of
                    Done r v \<Rightarrow> Some (r, v)
                  | Again v \<Rightarrow> compare_like_divided seek cmp (d\<lparr>dv_value := v\<rparr>) (l # ls))
               }
             else
               (case dv_next d of
                  None \<Rightarrow> Some (- 1, dv_value d)
                | Some ext \<Rightarrow>
                    do {
                      let d' = ext_part ext;
                      (r, v, w) \<leftarrow> divided_straddle (\<lambda>w. compare_like_divided seek cmp (d'\<lparr>dv_value := w\<rparr>) ls') cmp
                                    (dv_mem d) (dv_X d) (dv_mem d') p (nat (dv_remainder d)) (dv_value d) 0;
                      if r = 0 then Some (0, v)
                      else do { (r, _) \<leftarrow> compare_like_divided seek cmp (d'\<lparr>dv_value := w\<rparr>) (l # ls); Some (r, v) }
                    }))
      else if int (nLen l) \<le> dv_remainder d then
        (if sType l = LIKE_UNDERBAR then compare_like_divided seek cmp (d\<lparr>dv_value := dv_value d + nLen l\<rparr>) ls
         else
           do {
             s \<leftarrow> str_at (dv_mem d) (dv_value d);
             if cmp (nLen l) s (like_str l) = 0 then compare_like_divided seek cmp (d\<lparr>dv_value := dv_value d + nLen l\<rparr>) ls
             else Some (- 1, dv_value d)
           })
      else
        (case dv_next d of
           None \<Rightarrow> Some (- 1, dv_value d)
         | Some ext \<Rightarrow>
             do {
               let n = nat (dv_remainder d);
               s \<leftarrow> str_at (dv_mem d) (dv_value d);
               if sType l = LIKE_UNDERBAR \<or> cmp n s (like_str l) = 0 then
                 do {
                   (r, _) \<leftarrow> compare_like_divided seek cmp (ext_part ext)
                               (l\<lparr>nLen := nLen l - n, like_str := drop n (like_str l)\<rparr> # ls);
                   Some (r, dv_value d + n)
                 }
               else Some (- 1, dv_value d)
             }))"
  by pat_completeness auto

termination
  by (relation "measures [\<lambda>(seek, cmp, d, ls). of_bool (dv_next d \<noteq> None), \<lambda>(seek, cmp, d, ls). length ls,
        \<lambda>(seek, cmp, d, ls). length (dv_mem d) - dv_value d]")
    (auto simp: ext_part_def dest!: divided_search_again)

subsection \<open>The comparison\<close>

datatype like_field = Whole chars | Variable chars nat "(chars \<times> nat) option"
  \<comment> \<open>a complete string; the fixed part of a string of variable length (\<^verbatim>\<open>within\<close>, \<^verbatim>\<open>within_blen\<close>) and its extended part,
    lengths in characters\<close>

definition mdb_strrcpy :: "chars \<Rightarrow> chars" where
  "mdb_strrcpy src = takeWhile (\<lambda>c. c \<noteq> 0 \<and> \<not> IS_REVERSE_DELIMITER c) src @ [0]"

definition mdb_strrlen :: "chars \<Rightarrow> nat" where
  "mdb_strrlen s = length (takeWhile (\<lambda>c. c \<noteq> 0 \<and> \<not> IS_REVERSE_DELIMITER c) s)"

definition compare_like :: "(chars \<Rightarrow> chars \<Rightarrow> nat option) \<Rightarrow> bool \<Rightarrow> MDB_COL_TYPE \<Rightarrow> like_field \<Rightarrow> SLikeInfo \<Rightarrow> int option" where
  \<comment> \<open>the end of \<open>dbi_like_compare\<close> for bytes and for 16-bit units\<close>
  "compare_like user1 ilike collation v info =
     (if nLeastLen info = 0 then Some 0
      else
        do {
          f \<leftarrow> MC_STRSTR user1 ilike collation;
          g \<leftarrow> MC_STRNCMP ilike collation;
          let seek = (\<lambda>s p. f s p None);
          let cmp = (\<lambda>n s p. g s p n None);
          (case v of
             Whole m \<Rightarrow> compare_like_rec seek cmp m 0 (pList info)
           | Variable within blen nextOid \<Rightarrow>
               if blen \<ge> length within then None
               else
                 (let within = within[blen := 0] in
                  case nextOid of
                    None \<Rightarrow> compare_like_rec seek cmp within 0 (pList info)
                  | Some _ \<Rightarrow>
                      map_option fst
                        (compare_like_divided seek cmp
                          \<lparr>dv_mem = within, dv_value = 0, dv_X = blen, dv_next = nextOid\<rparr> (pList info))))
        })"

definition dbi_like_compare ::
    "(chars \<Rightarrow> chars \<Rightarrow> nat option) \<Rightarrow> like_field \<Rightarrow> nat \<times> SLikeInfo option \<Rightarrow> bool \<Rightarrow> MDB_COL_TYPE \<Rightarrow> int option" where
  \<comment> \<open>0 is a match; \<^verbatim>\<open>MDB_COL_CHAR_REVERSE\<close> is for complete strings only\<close>
  "dbi_like_compare user1 v likeval ilike collation =
     (case likeval of
        (n, None) \<Rightarrow>
          (case v of
             Whole m \<Rightarrow>
               if collation = MDB_COL_CHAR_REVERSE then Some (if mdb_strrlen m > 0 then - 1 else 0)
               else map_option (\<lambda>e. if e then 0 else - 1) (end_string m 0)
           | Variable within _ _ \<Rightarrow>
               if collation = MDB_COL_CHAR_REVERSE then None else map_option (\<lambda>e. if e then 0 else - 1) (end_string within 0))
      | (n, Some info) \<Rightarrow>
          if collation = MDB_COL_CHAR_REVERSE then
            (case v of
               Variable _ _ _ \<Rightarrow> None
             | Whole m \<Rightarrow>
                 (case pList info of
                    [p, s] \<Rightarrow>
                      if sType p = LIKE_PERCENT \<and> sType s = LIKE_STRING
                      then Some (if mdb_strnrcmp (nLen s) m (like_str s) = 0 then 0 else - 1)
                      else compare_like user1 ilike collation (Whole (mdb_strrcpy m)) info
                  | _ \<Rightarrow> compare_like user1 ilike collation (Whole (mdb_strrcpy m)) info))
          else compare_like user1 ilike collation v info)"

end
