(* ===== verification/LikeMatch.thy ===== *)
theory LikeMatch
  imports LikeSpec LikeCompare CollationOrder
begin

section \<open>The comparison finds what the pattern means\<close>

text \<open>
  The contract of the functions in the tables (locale \<open>like_functions\<close>): the one finds the first place of a string, the
  other tells whether a string begins with a part of another, both up to the same equality of characters.  Under it
  \<open>compare_like_rec\<close> is \<open>item_match\<close>, as long as no run of underscores can begin at the end of the value.
\<close>

subsection \<open>Places of a string\<close>

lemma starts_with_length: "starts_with same s p \<Longrightarrow> length p \<le> length s"
  by (induction same s p rule: starts_with.induct) auto

lemma starts_with_drop: "starts_with same (drop j s) p \<Longrightarrow> p \<noteq> [] \<Longrightarrow> j + length p \<le> length s"
  using starts_with_length [of same "drop j s" p] by (cases p) auto

lemma starts_with_all2: "starts_with same s p \<longleftrightarrow> length p \<le> length s \<and> list_all2 same (take (length p) s) p"
  by (induction same s p rule: starts_with.induct) auto

lemma find_string_Some:
  "find_string same s p = Some k \<Longrightarrow>
   k < length s \<and> starts_with same (drop k s) p \<and> (\<forall>j < k. \<not> starts_with same (drop j s) p)"
proof (induction s arbitrary: k)
  case (Cons c s)
  then show ?case by (force simp: less_Suc_eq_0_disj split: if_splits)
qed simp

lemma find_string_None: "find_string same s p = None \<Longrightarrow> p \<noteq> [] \<Longrightarrow> \<not> starts_with same (drop j s) p"
proof (induction s arbitrary: j)
  case Nil
  then show ?case by (cases p) auto
next
  case (Cons c s)
  then show ?case by (cases j) (auto split: if_splits)
qed

subsection \<open>The contract\<close>

locale like_functions =
  fixes seek :: "chars \<Rightarrow> chars \<Rightarrow> nat option" and cmp :: "nat \<Rightarrow> chars \<Rightarrow> chars \<Rightarrow> int" and same :: "nat \<Rightarrow> nat \<Rightarrow> bool"
  assumes seek_eq: "p \<noteq> [] \<Longrightarrow> 0 \<notin> set p \<Longrightarrow> 0 \<notin> set s \<Longrightarrow> seek s p = find_string same s p"
    and cmp_eq: "0 \<notin> set p \<Longrightarrow> 0 \<notin> set s \<Longrightarrow> n \<le> length p \<Longrightarrow> cmp n s p = 0 \<longleftrightarrow> starts_with same s (take n p)"

lemma zero_notin: "0 \<notin> set s \<Longrightarrow> c \<in> set (drop v s) \<Longrightarrow> 0 < c" "0 \<notin> set s \<Longrightarrow> v < length s \<Longrightarrow> 0 < s ! v" for s :: chars
  by (metis gr_zeroI in_set_dropD) (metis gr_zeroI nth_mem)

lemma str_at_ok: "0 \<notin> set s \<Longrightarrow> v \<le> length s \<Longrightarrow> str_at (s @ 0 # r) v = Some (drop v s)"
  by (auto simp: str_at_def takeWhile_tail zero_notin intro!: takeWhile_eq_all_conv [THEN iffD2])

lemma end_string_ok: "0 \<notin> set s \<Longrightarrow> v \<le> length s \<Longrightarrow> end_string (s @ 0 # r) v = Some (v = length s)"
  by (auto simp: end_string_def nth_append zero_notin)

lemma skip_units_ok:
  "0 \<notin> set s \<Longrightarrow> v \<le> length s \<Longrightarrow>
   skip_units (s @ 0 # r) n v = Some (if v + n \<le> length s then Some (v + n) else None)"
  by (induction n arbitrary: v) (auto simp: end_string_ok)

fun covered :: "nat \<Rightarrow> SLikeList list \<Rightarrow> bool" where
  \<comment> \<open>no run of underscores begins where the value, with \<open>n\<close> characters from here on, has ended\<close>
  "covered n [] = True"
| "covered n (l # ls) =
     (case sType l of
        LIKE_PERCENT \<Rightarrow>
          (case ls of [] \<Rightarrow> True | p # ls' \<Rightarrow> \<forall>r \<in> set [1 ..< Suc (n - nLen p)]. covered r ls')
      | LIKE_UNDERBAR \<Rightarrow> 0 < n \<and> (nLen l \<le> n \<longrightarrow> covered (n - nLen l) ls)
      | LIKE_STRING \<Rightarrow> nLen l \<le> n \<longrightarrow> covered (n - nLen l) ls)"

lemma only_percent_match: "proper ls \<Longrightarrow> only_percent ls \<longleftrightarrow> item_match same ls []"
proof (induction ls)
  case (Cons l ls)
  then show ?case by (cases "like_str l") (auto simp: only_percent_def split: LIKE_TYPE.splits)
qed (simp add: only_percent_def)

definition yes_no :: "bool \<Rightarrow> int" where "yes_no b = (if b then 0 else - 1)"

lemma yes_no_simps [simp]: "yes_no True = 0" "yes_no False = - 1" "yes_no b = 0 \<longleftrightarrow> b"
  by (simp_all add: yes_no_def)

context like_functions begin

lemma percent_loop_ok:
  assumes "0 \<notin> set s" and "sType p = LIKE_STRING" and "proper (p # ls)"
    and "\<And>v. v < length s \<Longrightarrow> src + nLen p \<le> v \<Longrightarrow> rec v = Some (yes_no (item_match same ls (drop v s)))"
    and "src + nLen p \<le> length s" and "starts_with same (drop src s) (like_str p)"
  shows "percent_loop rec seek (s @ 0 # r) p ls src =
    Some (yes_no (\<exists>j. src \<le> j \<and> starts_with same (drop j s) (like_str p) \<and> item_match same ls (drop (j + nLen p) s)))"
  using assms(4-6)
proof (induction "length s - src" arbitrary: src rule: less_induct)
  case less
  have p: "nLen p = length (like_str p)" "like_str p \<noteq> []" "0 \<notin> set (like_str p)" "proper ls"
    using assms(2,3) by auto
  show ?case
  proof (cases "src + nLen p = length s")
    case True
    have "\<not> starts_with same (drop j s) (like_str p)" if "src < j" for j
      using that starts_with_length [of same "drop j s" "like_str p"] True p(1,2) by (cases "like_str p") auto
    then have "(\<exists>j. src \<le> j \<and> starts_with same (drop j s) (like_str p) \<and> item_match same ls (drop (j + nLen p) s)) \<longleftrightarrow>
        item_match same ls []"
      using less.prems(3) True by (metis drop_all le_eq_less_or_eq)
    then show ?thesis
      using True only_percent_match [OF p(4)] end_string_ok [OF assms(1)]
      by (simp add: percent_loop.simps [of rec] yes_no_def)
  next
    case False
    then have v: "src + nLen p < length s" using less.prems(2) by simp
    let ?M = "\<lambda>j. starts_with same (drop j s) (like_str p) \<and> item_match same ls (drop (j + nLen p) s)"
    show ?thesis
    proof (cases "item_match same ls (drop (src + nLen p) s)")
      case True
      then have "\<exists>j. src \<le> j \<and> ?M j" using less.prems(3) by blast
      then show ?thesis
        using True v less.prems(1) [OF v] end_string_ok [OF assms(1)]
        by (simp add: percent_loop.simps [of rec] yes_no_def)
    next
      case False
      have split: "(\<exists>j. src \<le> j \<and> ?M j) \<longleftrightarrow> (\<exists>j. src + 1 \<le> j \<and> ?M j)"
        using False by (metis Suc_eq_plus1 le_eq_less_or_eq less_eq_Suc_le)
      have sk: "seek (drop (src + 1) s) (like_str p) = find_string same (drop (src + 1) s) (like_str p)"
        using assms(1) by (intro seek_eq) (auto simp: p dest: in_set_dropD)
      have unfold: "percent_loop rec seek (s @ 0 # r) p ls src =
          (case find_string same (drop (src + 1) s) (like_str p) of
             None \<Rightarrow> Some (- 1) | Some k \<Rightarrow> percent_loop rec seek (s @ 0 # r) p ls (src + 1 + k))"
        using False v less.prems(1) [OF v] end_string_ok [OF assms(1)] str_at_ok [OF assms(1), of "src + 1" r] sk
        by (simp add: percent_loop.simps [of rec seek _ _ _ src])
      show ?thesis
      proof (cases "find_string same (drop (src + 1) s) (like_str p)")
        case None
        have "\<not> starts_with same (drop j s) (like_str p)" if "src + 1 \<le> j" for j
          using find_string_None [OF None p(2), of "j - (src + 1)"] that by simp
        then show ?thesis using split unfold None by (auto simp: yes_no_def)
      next
        case (Some k)
        note f = find_string_Some [OF Some]
        have st: "starts_with same (drop (src + 1 + k) s) (like_str p)" using f by (simp add: add.commute)
        then have len: "src + 1 + k + nLen p \<le> length s" using starts_with_drop [OF st] p by simp
        have "(\<exists>j. src + 1 \<le> j \<and> ?M j) \<longleftrightarrow> (\<exists>j. src + 1 + k \<le> j \<and> ?M j)"
        proof
          assume "\<exists>j. src + 1 \<le> j \<and> ?M j"
          then obtain j where j: "src + 1 \<le> j" "?M j" by blast
          have "\<not> j - (src + 1) < k" using f j by (metis drop_drop le_add_diff_inverse2)
          then show "\<exists>j. src + 1 + k \<le> j \<and> ?M j" using j by (intro exI [of _ j]) auto
        qed (metis add_leD1)
        then show ?thesis
          using less.hyps [of "src + 1 + k"] less.prems(1) v len st split unfold Some by simp
      qed
    qed
  qed
qed

lemma percent_ok:
  assumes zero: "0 \<notin> set s" and v: "v \<le> length s" and p: "sType p = LIKE_STRING" "proper (p # ls)"
    and l: "sType l = LIKE_PERCENT"
    and IH: "\<And>u. u < length s \<Longrightarrow> v + nLen p \<le> u \<Longrightarrow>
      compare_like_rec seek cmp (s @ 0 # r) u ls = Some (yes_no (item_match same ls (drop u s)))"
  shows "compare_like_rec seek cmp (s @ 0 # r) v (l # p # ls) = Some (yes_no (item_match same (l # p # ls) (drop v s)))"
proof -
  let ?M = "\<lambda>j. starts_with same (drop j s) (like_str p) \<and> item_match same ls (drop (j + nLen p) s)"
  have p': "nLen p = length (like_str p)" "like_str p \<noteq> []" "0 \<notin> set (like_str p)" "proper ls" using p by auto
  have sk: "seek (drop v s) (like_str p) = find_string same (drop v s) (like_str p)"
    using zero by (intro seek_eq) (auto simp: p' dest: in_set_dropD)
  have unfold: "compare_like_rec seek cmp (s @ 0 # r) v (l # p # ls) =
      (case find_string same (drop v s) (like_str p) of
         None \<Rightarrow> Some (- 1)
       | Some k \<Rightarrow> percent_loop (\<lambda>v. compare_like_rec seek cmp (s @ 0 # r) v ls) seek (s @ 0 # r) p ls (v + k))"
    using l p(1) str_at_ok [OF zero v, of r] sk by simp
  have meaning: "item_match same (l # p # ls) (drop v s) \<longleftrightarrow> (\<exists>j. v \<le> j \<and> ?M j)"
  proof
    assume "item_match same (l # p # ls) (drop v s)"
    then obtain k where "?M (v + k)" using l p(1) by (auto simp: add_ac)
    then show "\<exists>j. v \<le> j \<and> ?M j" by (intro exI [of _ "v + k"]) simp
  next
    assume "\<exists>j. v \<le> j \<and> ?M j"
    then obtain j where j: "v \<le> j" "?M j" by blast
    have "j \<le> length s" using j(2) starts_with_length [of same "drop j s" "like_str p"] p'(2) by (cases "like_str p") auto
    then show "item_match same (l # p # ls) (drop v s)"
      using l p(1) j by (auto simp: add_ac intro!: exI [of _ "j - v"])
  qed
  show ?thesis
  proof (cases "find_string same (drop v s) (like_str p)")
    case None
    have "\<not> starts_with same (drop j s) (like_str p)" if "v \<le> j" for j
      using find_string_None [OF None p'(2), of "j - v"] that by simp
    then show ?thesis unfolding unfold meaning using None by (auto simp: yes_no_def)
  next
    case (Some k)
    note f = find_string_Some [OF Some]
    have st: "starts_with same (drop (v + k) s) (like_str p)" using f by (simp add: add.commute)
    have len: "v + k + nLen p \<le> length s" using starts_with_drop [OF st] p' by simp
    have "(\<exists>j. v \<le> j \<and> ?M j) \<longleftrightarrow> (\<exists>j. v + k \<le> j \<and> ?M j)"
    proof
      assume "\<exists>j. v \<le> j \<and> ?M j"
      then obtain j where j: "v \<le> j" "?M j" by blast
      have "\<not> j - v < k" using f j by (metis drop_drop le_add_diff_inverse2)
      then show "\<exists>j. v + k \<le> j \<and> ?M j" using j by (intro exI [of _ j]) auto
    qed (metis add_leD1)
    then show ?thesis
      using percent_loop_ok [OF zero p(1,2) _ len st, of "\<lambda>v. compare_like_rec seek cmp (s @ 0 # r) v ls" r] IH Some unfold meaning
      by simp
  qed
qed

lemma compare_like_rec_ok:
  "0 \<notin> set s \<Longrightarrow> v \<le> length s \<Longrightarrow> proper ls \<Longrightarrow> covered (length s - v) ls \<Longrightarrow>
   compare_like_rec seek cmp (s @ 0 # r) v ls = Some (yes_no (item_match same ls (drop v s)))"
proof (induction "length ls" arbitrary: v ls rule: less_induct)
  case less
  note zero = less.prems(1) and v = less.prems(2)
  show ?case
  proof (cases ls)
    case Nil
    then show ?thesis using zero v by (auto simp: end_string_ok yes_no_def)
  next
    case (Cons l qs)
    show ?thesis
    proof (cases "sType l")
      case LIKE_PERCENT
      show ?thesis
      proof (cases qs)
        case Nil
        then show ?thesis using LIKE_PERCENT Cons by auto
      next
        case (Cons p ls')
        note ls = \<open>ls = l # qs\<close> this
        have p: "sType p = LIKE_STRING" "proper (p # ls')" using less.prems(3) LIKE_PERCENT ls by auto
        have "covered (length s - u) ls'" if "u < length s" "v + nLen p \<le> u" for u
        proof -
          have "length s - u \<in> set [1 ..< Suc (length s - v - nLen p)]" using that by auto
          moreover have "\<forall>r \<in> set [1 ..< Suc (length s - v - nLen p)]. covered r ls'"
            using less.prems(4) by (simp only: ls covered.simps LIKE_PERCENT LIKE_TYPE.case list.case)
          ultimately show ?thesis by blast
        qed
        then show ?thesis
          unfolding ls using less.hyps [of ls'] zero p
          by (intro percent_ok [OF zero v p LIKE_PERCENT]) (auto simp: ls)
      qed
    next
      case LIKE_UNDERBAR
      then have l: "0 < nLen l" "v < length s" "proper qs" using less.prems(3,4) Cons by auto
      have sk: "skip_units (s @ 0 # r) (nLen l - 1) (v + 1) = Some (if v + nLen l \<le> length s then Some (v + nLen l) else None)"
        using skip_units_ok [OF zero, of "v + 1" r "nLen l - 1"] l by simp
      show ?thesis
      proof (cases "v + nLen l \<le> length s")
        case True
        then have "covered (length s - (v + nLen l)) qs" "nLen l \<le> length s - v"
          using less.prems(4) LIKE_UNDERBAR Cons by auto
        then show ?thesis
          using less.hyps [of qs "v + nLen l"] True sk LIKE_UNDERBAR l zero Cons by (auto simp: add.commute)
      next
        case False
        then have "\<not> nLen l \<le> length s - v" using v by auto
        then show ?thesis using False sk LIKE_UNDERBAR Cons by auto
      qed
    next
      case LIKE_STRING
      then have l: "nLen l = length (like_str l)" "0 \<notin> set (like_str l)" "proper qs" using less.prems(3) Cons by auto
      have c: "cmp (nLen l) (drop v s) (like_str l) = 0 \<longleftrightarrow> starts_with same (drop v s) (like_str l)"
        using cmp_eq [OF l(2), of "drop v s" "nLen l"] zero l(1) by (auto dest: in_set_dropD)
      show ?thesis
      proof (cases "starts_with same (drop v s) (like_str l)")
        case True
        then have len: "v + nLen l \<le> length s" using starts_with_length [OF True] l(1) v by auto
        then have "covered (length s - (v + nLen l)) qs" using less.prems(4) LIKE_STRING Cons by auto
        then show ?thesis
          using less.hyps [of qs "v + nLen l"] c True len LIKE_STRING l zero str_at_ok [OF zero v, of r] Cons by (auto simp: add.commute)
      next
        case False
        then show ?thesis using c LIKE_STRING str_at_ok [OF zero v, of r] Cons by auto
      qed
    qed
  qed
qed

end

subsection \<open>The functions of the tables\<close>

lemma strncmp_zero: "0 \<notin> set s \<Longrightarrow> 0 \<notin> set p \<Longrightarrow> n \<le> length p \<Longrightarrow> strncmp n s p = 0 \<longleftrightarrow> starts_with (=) s (take n p)"
proof (induction n arbitrary: s p)
  case (Suc n)
  then obtain c q where p: "p = c # q" by (cases p) auto
  then show ?case using Suc by (cases s) auto
qed simp

lemma starts_with_map:
  "starts_with (=) (map f s) (map f p) \<longleftrightarrow> starts_with (\<lambda>a b. f a = f b) s p"
proof (induction s arbitrary: p)
  case Nil
  then show ?case by (cases p) auto
next
  case (Cons a s)
  then show ?case by (cases p) auto
qed

lemma strncasecmp_zero:
  assumes "0 \<notin> set s" and "0 \<notin> set p" and "n \<le> length p"
  shows "strncasecmp n s p = 0 \<longleftrightarrow> starts_with (\<lambda>a b. lower_array a = lower_array b) s (take n p)"
proof -
  have "0 \<notin> lower_array ` set s" "0 \<notin> lower_array ` set p" using assms by (auto simp: image_iff)
  then show ?thesis
    using strncmp_zero [of "map lower_array s" "map lower_array p" n] assms(3)
    by (simp add: strncasecmp_def take_map starts_with_map)
qed

lemma sc_wcsncmp_zero:
  "0 \<notin> set s \<Longrightarrow> 0 \<notin> set p \<Longrightarrow> n \<le> length p \<Longrightarrow> sc_wcsncmp n s p = 0 \<longleftrightarrow> starts_with (=) s (take n p)"
proof (induction n arbitrary: s p)
  case (Suc n)
  then obtain c q where p: "p = c # q" by (cases p) auto
  then show ?case using Suc by (cases s) (auto simp: sc_wcsncmp.simps [of "Suc n"])
qed (simp add: sc_wcsncmp.simps)

lemma sc_wcsstr_eq: "0 \<notin> set p \<Longrightarrow> p \<noteq> [] \<Longrightarrow> sc_wcsstr s p = find_string (=) s p"
proof -
  assume "p \<noteq> []"
  have "length s < length p \<Longrightarrow> find_string (=) s p = None"
    using find_string_Some [of "(=)" s p] starts_with_length by (cases "find_string (=) s p") fastforce+
  then show ?thesis using \<open>p \<noteq> []\<close> by (simp add: sc_wcsstr_def)
qed

lemma upper_lower: "to_upper c = to_upper d \<longleftrightarrow> lower_array c = lower_array d"
  by (auto simp: to_upper_def lower_array_def split: if_splits)

lemma strcasestr_tail_eq:
  "0 \<notin> set s \<Longrightarrow> 0 \<notin> set p \<Longrightarrow> strcasestr_tail s p \<longleftrightarrow> starts_with (\<lambda>a b. lower_array a = lower_array b) s p"
proof (induction p arbitrary: s)
  case (Cons d p)
  have "to_upper 0 \<noteq> to_upper d" using Cons.prems(2) by (auto simp: to_upper_def)
  then show ?case using Cons by (cases s) (auto simp: upper_lower)
qed simp

lemma sc_strcasestr_eq:
  assumes "0 \<notin> set s" and "0 \<notin> set p" and "p \<noteq> []"
  shows "sc_strcasestr s p = find_string (\<lambda>a b. lower_array a = lower_array b) s p"
proof -
  obtain c q where p: "p = c # q" using assms(3) by (cases p) auto
  have "strcasestr_loop s p = find_string (\<lambda>a b. lower_array a = lower_array b) s p"
    using assms(1)
  proof (induction s)
    case (Cons d s)
    then show ?case using strcasestr_tail_eq [of s q] assms(2) by (simp add: p upper_lower)
  qed simp
  moreover have "to_upper c \<noteq> 0" using assms(2) by (auto simp: p to_upper_def)
  ultimately show ?thesis by (simp add: sc_strcasestr_def p)
qed

interpretation char_case: like_functions strstr mdb_strncmp "(=)"
  by unfold_locales (simp_all add: strstr_def mdb_strncmp_eq strncmp_zero)

interpretation char_nocase: like_functions sc_strcasestr mdb_strncasecmp "\<lambda>a b. lower_array a = lower_array b"
  by unfold_locales (simp_all add: sc_strcasestr_eq mdb_strncasecmp_eq strncasecmp_zero)

interpretation wide: like_functions sc_wcsstr sc_wcsncmp "(=)"
  by unfold_locales (simp_all add: sc_wcsstr_eq sc_wcsncmp_zero)

lemma starts_with_mono: "starts_with same s p \<Longrightarrow> (\<And>a b. same a b \<Longrightarrow> same' a b) \<Longrightarrow> starts_with same' s p"
  by (induction same s p rule: starts_with.induct) auto

interpretation user: like_functions strstr sc_strndcmp "(=)"
proof
  show "strstr s p = find_string (=) s p" if "p \<noteq> []" for s p using that by (simp add: strstr_def)
  show "sc_strndcmp n s p = 0 \<longleftrightarrow> starts_with (=) s (take n p)"
    if "0 \<notin> set p" "0 \<notin> set s" "n \<le> length p" for n s p
    using strncmp_zero [OF that(2,1,3)] strncasecmp_zero [OF that(2,1,3)]
      starts_with_mono [of "(=)" s "take n p" "\<lambda>a b. lower_array a = lower_array b"]
    by (auto simp: sc_strndcmp_def Let_def mdb_strncmp_eq mdb_strncasecmp_eq)
qed

end
