(* ===== verification/LikeDivided.thy ===== *)
theory LikeDivided
  imports LikeMatch
begin

section \<open>Values in two pieces\<close>

text \<open>
  \<open>compare_like_divided\<close> is right for a pattern whose only percent sign, if any, is its last character.  With a string
  behind a percent sign it is not: see \<open>LikeClaims\<close>.
\<close>

definition part_text :: "(chars \<times> nat) option \<Rightarrow> chars" where
  "part_text nxt = (case nxt of None \<Rightarrow> [] | Some (m, n) \<Rightarrow> take (n - 1) m)"

definition part_ok :: "(chars \<times> nat) option \<Rightarrow> bool" where
  \<comment> \<open>the extended part is a string that is not empty, and its length counts the 0\<close>
  "part_ok nxt = (case nxt of None \<Rightarrow> True | Some (m, n) \<Rightarrow> 1 < n \<and> n \<le> length m \<and> 0 \<notin> set (take (n - 1) m) \<and> m ! (n - 1) = 0)"

definition part_state :: "chars \<Rightarrow> chars \<Rightarrow> nat \<Rightarrow> (chars \<times> nat) option \<Rightarrow> SDividedPart" where
  "part_state s r v nxt = \<lparr>dv_mem = s @ 0 # r, dv_value = v, dv_X = length s, dv_next = nxt\<rparr>"

lemma part_state_value: "(part_state s r v nxt)\<lparr>dv_value := u\<rparr> = part_state s r u nxt"
  by (simp add: part_state_def)

lemma part_state_sel [simp]:
  "dv_mem (part_state s r v nxt) = s @ 0 # r" "dv_value (part_state s r v nxt) = v" "dv_next (part_state s r v nxt) = nxt"
  "dv_remainder (part_state s r v nxt) = int (length s) - int v"
  by (simp_all add: part_state_def dv_remainder_def)

lemma ext_part_ok:
  assumes "part_ok (Some ext)"
  shows "\<exists>r. ext_part ext = part_state (part_text (Some ext)) r 0 None \<and> 0 \<notin> set (part_text (Some ext)) \<and> part_text (Some ext) \<noteq> []"
proof -
  obtain m n where e: "ext = (m, n)" by (cases ext)
  have n: "n - 1 < length m" "1 < n" "0 \<notin> set (take (n - 1) m)" "m ! (n - 1) = 0" using assms by (auto simp: part_ok_def e)
  have "m = take (n - 1) m @ 0 # drop n m" using id_take_nth_drop [OF n(1)] n(2,4) by simp
  then have "ext_part ext = part_state (part_text (Some ext)) (drop n m) 0 None"
    using n by (simp add: e ext_part_def part_state_def part_text_def)
  then show ?thesis using n by (auto simp: e part_text_def)
qed

definition last_percent :: "SLikeList list \<Rightarrow> bool" where
  "last_percent ls \<longleftrightarrow> (\<forall>l \<in> set (butlast ls). sType l \<noteq> LIKE_PERCENT)"

lemma last_percent_simps [simp]:
  "last_percent []" "last_percent (l # ls) \<longleftrightarrow> ls = [] \<or> sType l \<noteq> LIKE_PERCENT \<and> last_percent ls"
  by (auto simp: last_percent_def)

lemma starts_with_append:
  "length s \<le> length p \<Longrightarrow> starts_with same (s @ t) p \<longleftrightarrow> starts_with same s (take (length s) p) \<and> starts_with same t (drop (length s) p)"
proof (induction s arbitrary: p)
  case (Cons c s)
  then show ?case by (cases p) auto
qed simp

lemma starts_with_append_left: "length p \<le> length s \<Longrightarrow> starts_with same (s @ t) p \<longleftrightarrow> starts_with same s p"
proof (induction s arbitrary: p)
  case (Cons c s)
  then show ?case by (cases p) auto
qed simp

definition rest_item :: "nat \<Rightarrow> SLikeList \<Rightarrow> SLikeList" where
  "rest_item n l = l\<lparr>nLen := nLen l - n, like_str := drop n (like_str l)\<rparr>"

context like_functions begin

lemma compare_like_divided_ok:
  assumes "0 \<notin> set s" and "v \<le> length s" and "proper ls" and "last_percent ls" and "part_ok nxt"
  shows "\<exists>u. compare_like_divided seek cmp (part_state s r v nxt) ls =
    Some (yes_no (item_match same ls (drop v s @ part_text nxt)), u)"
  using assms
proof (induction "(if nxt = None then 0 else 1) + length ls" arbitrary: s r v nxt ls rule: less_induct)
  case less
  note zero = less.prems(1) and v = less.prems(2)
  show ?case
  proof (cases ls)
    case Nil
    have "part_text nxt = [] \<longleftrightarrow> nxt = None" using less.prems(5) by (auto simp: part_text_def part_ok_def split: option.splits)
    then show ?thesis using Nil v end_string_ok [OF zero v, of r] by (auto simp: yes_no_def)
  next
    case (Cons l qs)
    have qs: "proper qs" "last_percent qs" using less.prems(3,4) Cons by auto
    have percent: "sType l = LIKE_PERCENT \<Longrightarrow> qs = []" using less.prems(4) Cons by auto
    let ?n = "length s - v"
    have step: "\<exists>u. compare_like_divided seek cmp (part_state s r (v + nLen l) nxt) qs =
        Some (yes_no (item_match same qs (drop (v + nLen l) s @ part_text nxt)), u)" if "v + nLen l \<le> length s"
      using less.hyps [of nxt qs s "v + nLen l" r] zero that qs less.prems(5) Cons by auto
    have over: "\<exists>u. compare_like_divided seek cmp (ext_part ext) (rest_item ?n l # qs) =
        Some (yes_no (item_match same (rest_item ?n l # qs) (part_text nxt)), u)"
      if "nxt = Some ext" "sType l \<noteq> LIKE_PERCENT" "?n < nLen l" for ext
    proof -
      obtain r' where e: "ext_part ext = part_state (part_text nxt) r' 0 None" "0 \<notin> set (part_text nxt)"
        using ext_part_ok less.prems(5) \<open>nxt = Some ext\<close> by blast
      have "proper (rest_item ?n l # qs)" "last_percent (rest_item ?n l # qs)"
        using less.prems(3) Cons that(2,3) qs by (auto simp: rest_item_def split: LIKE_TYPE.splits dest: in_set_dropD)
      then show ?thesis
        using less.hyps [of None "rest_item ?n l # qs" "part_text nxt" 0 r'] e \<open>nxt = Some ext\<close> Cons
        by (simp add: part_ok_def part_text_def)
    qed
    have go_on: "compare_like_divided seek cmp (part_state s r v nxt) (l # qs) =
        (if sType l = LIKE_UNDERBAR \<or> cmp ?n (drop v s) (like_str l) = 0
         then compare_like_divided seek cmp (ext_part ext) (rest_item ?n l # qs) \<bind> (\<lambda>(a, _). Some (a, v + ?n))
         else Some (- 1, v))"
      if "nxt = Some ext" "sType l \<noteq> LIKE_PERCENT" "?n < nLen l" for ext
    proof -
      have "\<not> int (nLen l) \<le> int (length s) - int v" "nat (int (length s) - int v) = ?n" using that(3) v by auto
      then show ?thesis
        using that str_at_ok [OF zero v, of r]
        by (subst compare_like_divided.simps(2)) (simp add: rest_item_def Let_def del: compare_like_divided.simps)
    qed
    show ?thesis
    proof (cases "sType l")
      case LIKE_PERCENT
      have "item_match same [l] (drop v s @ part_text nxt)"
        using LIKE_PERCENT by (auto intro: exI [of _ "length (drop v s @ part_text nxt)"])
      then show ?thesis using LIKE_PERCENT percent Cons by simp
    next
      case LIKE_UNDERBAR
      show ?thesis
      proof (cases "v + nLen l \<le> length s")
        case True
        then show ?thesis
          using step [OF True] LIKE_UNDERBAR Cons by (auto simp: part_state_value yes_no_def add.commute)
      next
        case False
        then have n: "?n < nLen l" using v by auto
        show ?thesis
        proof (cases nxt)
          case None
          then show ?thesis using LIKE_UNDERBAR Cons n False by (auto simp: part_text_def yes_no_def)
        next
          case (Some ext)
          have "item_match same (l # qs) (drop v s @ part_text nxt) \<longleftrightarrow> item_match same (rest_item ?n l # qs) (part_text nxt)"
            using LIKE_UNDERBAR n by (auto simp: rest_item_def)
          then show ?thesis
            using over [OF Some _ n] go_on [OF Some _ n] LIKE_UNDERBAR Cons by (auto simp del: compare_like_divided.simps item_match.simps)
        qed
      qed
    next
      case LIKE_STRING
      then have l: "nLen l = length (like_str l)" "0 \<notin> set (like_str l)" using less.prems(3) Cons by auto
      have cmp: "cmp n (drop v s) (like_str l) = 0 \<longleftrightarrow> starts_with same (drop v s) (take n (like_str l))" if "n \<le> nLen l" for n
        using cmp_eq [OF l(2), of "drop v s" n] that l(1) zero by (auto dest: in_set_dropD)
      show ?thesis
      proof (cases "v + nLen l \<le> length s")
        case True
        have "item_match same (l # qs) (drop v s @ part_text nxt) \<longleftrightarrow>
            cmp (nLen l) (drop v s) (like_str l) = 0 \<and> item_match same qs (drop (v + nLen l) s @ part_text nxt)"
          using True LIKE_STRING l(1) v by (simp add: cmp starts_with_append_left add.commute)
        then show ?thesis
          using step [OF True] LIKE_STRING Cons True str_at_ok [OF zero v, of r] by (auto simp: part_state_value)
      next
        case False
        then have n: "?n < nLen l" using v by auto
        show ?thesis
        proof (cases nxt)
          case None
          have "\<not> starts_with same (drop v s) (like_str l)" using starts_with_length n l(1) by fastforce
          then show ?thesis using LIKE_STRING Cons n False None by (auto simp: part_text_def)
        next
          case (Some ext)
          have "item_match same (l # qs) (drop v s @ part_text nxt) \<longleftrightarrow>
              cmp ?n (drop v s) (like_str l) = 0 \<and> item_match same (rest_item ?n l # qs) (part_text nxt)"
            using LIKE_STRING n l(1) starts_with_append [of "drop v s" "like_str l" same "part_text nxt"]
            by (auto simp: rest_item_def cmp)
          then show ?thesis
            using over [OF Some _ n] go_on [OF Some _ n] LIKE_STRING Cons by (auto simp del: compare_like_divided.simps item_match.simps)
        qed
      qed
    qed
  qed
qed

end

end
