(* ===== verification/LikeClaims.thy ===== *)
theory LikeClaims
  imports LikeDivided
begin

section \<open>Properties of LIKE\<close>

subsection \<open>The tables keep the contract\<close>

definition like_supported :: "bool \<Rightarrow> MDB_COL_TYPE \<Rightarrow> bool" where
  \<comment> \<open>the callers refuse \<^verbatim>\<open>ILIKE\<close> for strings of 16-bit units; the first user-defined collation is a parameter\<close>
  "like_supported ilike col \<longleftrightarrow>
     col \<in> {MDB_COL_CHAR_NOCASE, MDB_COL_CHAR_CASE, MDB_COL_CHAR_DICORDER} \<or>
     \<not> ilike \<and> col \<in> {MDB_COL_NCHAR_NOCASE, MDB_COL_NCHAR_CASE, MDB_COL_USER_TYPE2, MDB_COL_USER_TYPE3}"

definition like_char_eq :: "bool \<Rightarrow> MDB_COL_TYPE \<Rightarrow> nat \<Rightarrow> nat \<Rightarrow> bool" where
  "like_char_eq ilike col d c = (if ilike \<or> col = MDB_COL_CHAR_NOCASE then lower_array d = lower_array c else d = c)"

lemma pattern_eq_simps:
  "pattern_eq False same = same"
  "pattern_eq True (\<lambda>a b. lower_array a = lower_array b) = (\<lambda>a b. lower_array a = lower_array b)"
  by (auto simp: pattern_eq_def GetSmallCaseLetter_def lower_array_def fun_eq_iff)

lemma tables_ok:
  assumes "like_supported ilike col"
  shows "\<exists>f g same. MC_STRSTR user1 ilike col = Some f \<and> MC_STRNCMP ilike col = Some g \<and>
    like_functions (\<lambda>s p. f s p None) (\<lambda>n s p. g s p n None) same \<and> pattern_eq ilike same = like_char_eq ilike col"
proof -
  let ?ok = "\<lambda>f g same. MC_STRSTR user1 ilike col = Some f \<and> MC_STRNCMP ilike col = Some g \<and>
    like_functions (\<lambda>s p. f s p None) (\<lambda>n s p. g s p n None) same \<and> pattern_eq ilike same = like_char_eq ilike col"
  note table = MC_STRSTR_def MC_STRNCMP_def compare_upto_def like_char_eq_def fun_eq_iff pattern_eq_simps
  consider (nocase) "ilike \<or> col = MDB_COL_CHAR_NOCASE" "col \<in> {MDB_COL_CHAR_NOCASE, MDB_COL_CHAR_CASE, MDB_COL_CHAR_DICORDER}"
    | (c_case) "\<not> ilike" "col \<in> {MDB_COL_CHAR_CASE, MDB_COL_CHAR_DICORDER}"
    | (wide) "\<not> ilike" "col \<in> {MDB_COL_NCHAR_NOCASE, MDB_COL_NCHAR_CASE}"
    | (user2) "\<not> ilike" "col = MDB_COL_USER_TYPE2" | (user3) "\<not> ilike" "col = MDB_COL_USER_TYPE3"
    using assms by (auto simp: like_supported_def)
  then show ?thesis
  proof cases
    case nocase
    have "pattern_eq ilike (\<lambda>a b. lower_array a = lower_array b) = (\<lambda>a b. lower_array a = lower_array b)"
      using pattern_eq_simps by (cases ilike) auto
    then have "?ok like_strcasestr like_strncasecmp (\<lambda>a b. lower_array a = lower_array b)"
      using nocase char_nocase.like_functions_axioms by (auto simp: table like_strcasestr_def like_strncasecmp_def)
    then show ?thesis by blast
  next
    case c_case
    then have "?ok like_strstr like_strncmp (=)"
      using char_case.like_functions_axioms by (auto simp: table like_strstr_def like_strncmp_def)
    then show ?thesis by blast
  next
    case wide
    then have "?ok like_wcsstr like_wcsncmp (=)"
      using wide.like_functions_axioms by (auto simp: table like_wcsstr_def like_wcsncmp_def)
    then show ?thesis by blast
  next
    case user2
    then have "?ok (like_strstr_user strstr MDB_COL_USER_TYPE2) like_strncmp_user2 (=)"
      using user.like_functions_axioms by (auto simp: table like_strstr_user_def like_strncmp_user2_def)
    then show ?thesis by blast
  next
    case user3
    then have "?ok (like_strstr_user strstr MDB_COL_USER_TYPE3) like_strncmp_user3 (=)"
      using user.like_functions_axioms by (auto simp: table like_strstr_user_def like_strncmp_user3_def)
    then show ?thesis by blast
  qed
qed

subsection \<open>The least length\<close>

lemma wildcards_filter:
  "wildcards p = (u, pc, r) \<Longrightarrow> like_tokens p = Some t \<Longrightarrow>
   \<exists>t'. like_tokens r = Some t' \<and> length (filter (\<lambda>x. x \<noteq> Any) t) = u + length (filter (\<lambda>x. x \<noteq> Any) t')"
proof (induction p arbitrary: u pc r t)
  case (Cons c p)
  then show ?case by (cases "is_wild c") (fastforce simp: wildcards.simps is_wild_def split: if_splits prod.splits)+
qed auto

lemma new_like_least:
  "new_like ilike p = Some (new, n) \<Longrightarrow> like_tokens p = Some t \<Longrightarrow> n = length (filter (\<lambda>x. x \<noteq> Any) t)"
proof (induction ilike p arbitrary: t new n rule: new_like.induct)
  case (2 ilike c p)
  consider (escape) "c = chr_escape" | (wild) "c \<noteq> chr_escape" "is_wild c" | (char) "c \<noteq> chr_escape" "\<not> is_wild c" by blast
  then show ?case
  proof cases
    case escape
    then obtain d q where q: "p = d # q" using 2(4) by (cases p) auto
    then show ?thesis using 2(1) [OF escape q] 2(4,5) escape by (auto simp: bind_eq_Some_conv split: if_splits)
  next
    case wild
    obtain u pc r where w: "wildcards (c # p) = (u, pc, r)" by (cases "wildcards (c # p)") auto
    then show ?thesis
      using 2(2) [OF wild w [symmetric] refl] wildcards_filter [OF w 2(5)] 2(4) wild by (auto simp: bind_eq_Some_conv)
  next
    case char
    then show ?thesis using 2(3) [OF char] 2(4,5) by (auto simp: bind_eq_Some_conv is_wild_def)
  qed
qed auto

lemma like_tokens_length: "like_tokens p = Some t \<Longrightarrow> length t \<le> length p \<and> (t = [] \<longleftrightarrow> p = [])"
proof (induction p arbitrary: t rule: like_tokens.induct)
  case (2 c p)
  then show ?case by (force split: if_splits list.splits)
qed simp

lemma all_any: "filter (\<lambda>x. x \<noteq> Any) t = [] \<Longrightarrow> t \<noteq> [] \<Longrightarrow> like_matches same t s"
proof (induction t arbitrary: s)
  case (Cons a t)
  then have a: "a = Any" "filter (\<lambda>x. x \<noteq> Any) t = []" by (auto split: if_splits)
  show ?case
  proof (cases t)
    case Nil
    then show ?thesis using a by (auto intro: exI [of _ "length s"])
  next
    case (Cons b t')
    then have "like_matches same t v" for v using Cons.IH [OF a(2)] by simp
    then show ?thesis using a(1) by auto
  qed
qed simp

lemma to_int16_small: "n < 2 ^ 15 \<Longrightarrow> to_int16 n = int n"
  by (simp add: to_int16_def)

subsection \<open>Preparing\<close>

lemma prepare_pattern:
  assumes "0 \<notin> set p" and "p \<noteq> []" and "length p < 2 ^ 15" and "like_tokens p = Some t"
  obtains l k info where "Calc_likeLength p = Some (l, k)"
    and "dbi_prepare_like (Some p) ilike mem chr_size =
      Some (if mem (like_newlen l k chr_size) then (int (length (filter (\<lambda>x. x \<noteq> Any) t)), Some (l, Some info)) else (DB_E_OUTOFMEMORY, None))"
    and "length (pnewlike info) \<le> l" and "length (pList info) = k"
    and "nLeastLen info = int (length (filter (\<lambda>x. x \<noteq> Any) t))"
    and "\<And>same. prepared ilike same p t (pnewlike info) (pList info)"
proof -
  define b where "b = (\<not> is_wild (hd0 p))"
  have b: "b \<longleftrightarrow> starts_string p" using assms(2) by (cases p) (auto simp: b_def starts_string_def)
  obtain l k where l: "like_length b p = Some (l, k)" using like_length_tokens [of b p] assms(4) by (cases "like_length b p") auto
  obtain new n ls where n: "new_like ilike p = Some (new, n)" "prepared ilike (=) p t new ls"
    using prepare_ok [OF assms(4,1), of ilike "(=)"] by blast
  have pr: "prepared ilike same p t new ls" for same
    using prepare_ok [OF assms(4,1), of ilike same] n by (auto simp: prepared_def)
  have len: "length new \<le> l" "length ls = k + of_bool (b \<and> starts_string p)"
    using prepared_length [OF l n assms(4,1)] by auto
  have least: "n = length (filter (\<lambda>x. x \<noteq> Any) t)" by (rule new_like_least [OF n(1) assms(4)])
  have "n < 2 ^ 15" using like_tokens_length [OF assms(4)] assms(3) least le_less_trans length_filter_le by (metis le_trans)
  then have least': "to_int16 n = int (length (filter (\<lambda>x. x \<noteq> Any) t))" using to_int16_small least by simp
  have split: "split_like new = Some ls" using n(2) by (simp add: prepared_def)
  let ?info = "\<lparr>pnewlike = new, nLeastLen = to_int16 n, pList = ls\<rparr>"
  have calc: "Calc_likeLength p = Some (l, of_bool b + k)" using l by (simp add: Calc_likeLength_def b_def Let_def)
  obtain c q where p: "p = c # q" using assms(2) by (cases p) auto
  show ?thesis
  proof (rule that [of l "of_bool b + k" ?info])
    show "dbi_prepare_like (Some p) ilike mem chr_size =
      Some (if mem (like_newlen l (of_bool b + k) chr_size) then (int (length (filter (\<lambda>x. x \<noteq> Any) t)), Some (l, Some ?info))
        else (DB_E_OUTOFMEMORY, None))"
      using calc n(1) split least' p by (simp add: dbi_prepare_like_def preprocessing_likestr_def)
  qed (use calc len b least' pr in auto)
qed

text \<open>C29: A pattern is refused exactly if a backslash in it is not followed by a wildcard or a backslash; otherwise the new
  pattern and the list of its parts fit into the memory requested for them, and the result is the least length of a
  matching value.\<close>

theorem prepare_in_bounds:
  assumes "0 \<notin> set p" and "p \<noteq> []" and "length p < 2 ^ 15"
  shows "case like_tokens p of
      None \<Rightarrow> dbi_prepare_like (Some p) ilike mem chr_size = Some (DB_E_INVALIDLIKESYNTAX, None)
    | Some t \<Rightarrow>
        \<exists>l k info.
          dbi_prepare_like (Some p) ilike mem chr_size =
            Some (if mem (like_newlen l k chr_size) then (int (length (filter (\<lambda>x. x \<noteq> Any) t)), Some (l, Some info))
                  else (DB_E_OUTOFMEMORY, None)) \<and>
          4 + (length (pnewlike info) + 1) * chr_size \<le> MC_GetPos_SLikeInfo l chr_size \<and>
          MC_GetPos_SLikeInfo l chr_size + SLikeInfo_size + length (pList info) * SLikeList_size \<le> like_newlen l k chr_size"
proof (cases "like_tokens p")
  case None
  then have "Calc_likeLength p = None" using like_length_tokens [of "\<not> is_wild (hd0 p)" p] by (simp add: Calc_likeLength_def Let_def)
  then show ?thesis using None assms(2) by (cases p) (auto simp: dbi_prepare_like_def)
next
  case (Some t)
  obtain l k info where i: "dbi_prepare_like (Some p) ilike mem chr_size =
      Some (if mem (like_newlen l k chr_size) then (int (length (filter (\<lambda>x. x \<noteq> Any) t)), Some (l, Some info)) else (DB_E_OUTOFMEMORY, None))"
    "length (pnewlike info) \<le> l" "length (pList info) = k"
    using prepare_pattern [OF assms Some] by metis
  have "(length (pnewlike info) + 1) * chr_size \<le> (l + 1) * chr_size" using i(2) by (intro mult_right_mono) simp_all
  moreover have "4 + m \<le> ((4 + m - 1) div 8 + 1) * 8" for m :: nat by presburger
  moreover have "((4 + m - 1) div 8 + 1) * 8 \<le> 4 + m + 8" for m :: nat by presburger
  ultimately have "4 + (length (pnewlike info) + 1) * chr_size \<le> MC_GetPos_SLikeInfo l chr_size"
    "MC_GetPos_SLikeInfo l chr_size \<le> 4 + (l + 1) * chr_size + 8"
    unfolding MC_GetPos_SLikeInfo_def by (meson add_left_mono le_trans)+
  moreover from this have "MC_GetPos_SLikeInfo l chr_size + SLikeInfo_size + length (pList info) * SLikeList_size \<le> like_newlen l k chr_size"
    by (simp add: like_newlen_def i(3))
  ultimately show ?thesis using i(1) unfolding Some option.case by blast
qed

lemma prepare_in_bounds_witness:
  "case like_tokens [37, 65, 92, 95, 95] of
      None \<Rightarrow> dbi_prepare_like (Some [37, 65, 92, 95, 95]) True (\<lambda>n. n < 1000) 1 = Some (DB_E_INVALIDLIKESYNTAX, None)
    | Some t \<Rightarrow>
        \<exists>l k info.
          dbi_prepare_like (Some [37, 65, 92, 95, 95]) True (\<lambda>n. n < 1000) 1 =
            Some (if like_newlen l k 1 < 1000 then (int (length (filter (\<lambda>x. x \<noteq> Any) t)), Some (l, Some info))
                  else (DB_E_OUTOFMEMORY, None)) \<and>
          4 + (length (pnewlike info) + 1) * 1 \<le> MC_GetPos_SLikeInfo l 1 \<and>
          MC_GetPos_SLikeInfo l 1 + SLikeInfo_size + length (pList info) * SLikeList_size \<le> like_newlen l k 1"
  by (rule prepare_in_bounds) simp_all

subsection \<open>Matching\<close>

definition field_text :: "like_field \<Rightarrow> chars" where
  \<comment> \<open>the characters of a value\<close>
  "field_text v = (case v of Whole m \<Rightarrow> takeWhile (\<lambda>c. c \<noteq> 0) m | Variable m n nxt \<Rightarrow> take n m @ part_text nxt)"

definition field_ok :: "like_field \<Rightarrow> bool" where
  "field_ok v =
     (case v of
        Whole m \<Rightarrow> 0 \<in> set m
      | Variable m n nxt \<Rightarrow> n < length m \<and> 0 \<notin> set (take n m) \<and> part_ok nxt)"

definition like_ready :: "like_field \<Rightarrow> nat \<times> SLikeInfo option \<Rightarrow> bool" where
  \<comment> \<open>the value in one piece: no run of underscores begins at its end; in two pieces: no string behind a percent sign\<close>
  "like_ready v lv =
     (case snd lv of
        None \<Rightarrow> (case v of Whole _ \<Rightarrow> True | _ \<Rightarrow> False)
      | Some info \<Rightarrow>
          (case v of
             Variable _ _ (Some _) \<Rightarrow> last_percent (pList info)
           | _ \<Rightarrow> covered (length (field_text v)) (pList info)))"

lemma takeWhile_split: "0 \<in> set m \<Longrightarrow> \<exists>r. m = takeWhile (\<lambda>c. c \<noteq> 0) m @ 0 # r" for m :: chars
  by (induction m) auto

lemma takeWhile_nonzero: "0 \<notin> set (takeWhile (\<lambda>c. c \<noteq> 0) m)" for m :: chars
  by (auto dest: set_takeWhileD)

lemma compare_like_ok:
  assumes "like_supported ilike col" and "field_ok v" and "proper (pList info)" and "like_ready v (l, Some info)"
    and meaning: "\<And>same s. item_match same (pList info) s \<longleftrightarrow> like_matches (pattern_eq ilike same) t s"
    and "nLeastLen info = 0 \<Longrightarrow> like_matches (like_char_eq ilike col) t (field_text v)"
  shows "compare_like user1 ilike col v info = Some (yes_no (like_matches (like_char_eq ilike col) t (field_text v)))"
proof (cases "nLeastLen info = 0")
  case True
  then show ?thesis using assms(6) by (simp add: compare_like_def)
next
  case False
  obtain f g same where f: "MC_STRSTR user1 ilike col = Some f" "MC_STRNCMP ilike col = Some g"
    "like_functions (\<lambda>s p. f s p None) (\<lambda>n s p. g s p n None) same" "pattern_eq ilike same = like_char_eq ilike col"
    using tables_ok [OF assms(1)] by blast
  note whole = like_functions.compare_like_rec_ok [OF f(3)] and two = like_functions.compare_like_divided_ok [OF f(3)]
  have match: "item_match same (pList info) s \<longleftrightarrow> like_matches (like_char_eq ilike col) t s" for s
    using meaning f(4) by simp
  show ?thesis
  proof (cases v)
    case (Whole m)
    obtain r where "m = field_text v @ 0 # r" using takeWhile_split [of m] assms(2) Whole by (auto simp: field_ok_def field_text_def)
    moreover have "0 \<notin> set (field_text v)" using takeWhile_nonzero Whole by (simp add: field_text_def)
    ultimately show ?thesis
      using whole [of "field_text v" 0 "pList info" r] assms(3,4) Whole False f(1,2) match
      by (simp add: compare_like_def like_ready_def)
  next
    case (Variable m n nxt)
    then have n: "n < length m" "0 \<notin> set (take n m)" "part_ok nxt" using assms(2) by (simp_all add: field_ok_def)
    have m: "m[n := 0] = take n m @ 0 # drop (Suc n) m" using n(1) by (simp add: upd_conv_take_nth_drop)
    show ?thesis
    proof (cases nxt)
      case None
      then show ?thesis
        using whole [of "take n m" 0 "pList info" "drop (Suc n) m"] assms(3,4) Variable False f(1,2) match n m
        by (simp add: compare_like_def like_ready_def field_text_def part_text_def)
    next
      case (Some ext)
      then have "last_percent (pList info)" using assms(4) Variable by (simp add: like_ready_def)
      then show ?thesis
        using two [of "take n m" 0 "pList info" nxt "drop (Suc n) m"] assms(3) Variable Some False f(1,2) match n m
        by (auto simp: compare_like_def field_text_def part_state_def min_def)
    qed
  qed
qed



subsection \<open>Where it goes wrong\<close>

definition plain :: "chars \<Rightarrow> bool" where
  "plain s \<longleftrightarrow> list_all (\<lambda>c. \<not> is_wild c \<and> c \<noteq> chr_escape \<and> c \<noteq> 0) s"

lemma plain_simps [simp]: "plain []" "plain (c # s) \<longleftrightarrow> \<not> is_wild c \<and> c \<noteq> chr_escape \<and> c \<noteq> 0 \<and> plain s"
  by (auto simp: plain_def)

lemma plain_zero: "plain s \<Longrightarrow> 0 \<notin> set s"
  by (induction s) auto

lemma plain_new: "plain s \<Longrightarrow> new_like False q = Some (new, n) \<Longrightarrow> new_like False (s @ q) = Some (s @ new, length s + n)"
  by (induction s) auto

lemma plain_chars: "plain s \<Longrightarrow> is_wild c \<Longrightarrow> like_chars (s @ c # q) = Some (s, c # q)"
  by (induction s) (auto simp: like_chars.simps)

lemma plain_split:
  "plain s \<Longrightarrow> s \<noteq> [] \<Longrightarrow> is_wild c \<Longrightarrow> split_like (c # q) = Some ls \<Longrightarrow>
   split_like (s @ c # q) = Some (\<lparr>like_str = s, nLen = length s, sType = LIKE_STRING\<rparr> # ls)"
proof (cases s)
  case (Cons a s')
  assume "plain s" "is_wild c" "split_like (c # q) = Some ls"
  then have "\<not> is_wild a" "like_chars (a # s' @ c # q) = Some (s, c # q)" using plain_chars [of s c q] Cons by auto
  then show ?thesis
    using split_like_string [of a "s' @ c # q"] \<open>split_like (c # q) = Some ls\<close> Cons
    by (simp del: split_like.simps)
qed simp

lemma plain_tokens: "plain s \<Longrightarrow> like_tokens q = Some t \<Longrightarrow> like_tokens (s @ q) = Some (map Lit s @ t)"
  by (induction s) (auto simp: is_wild_def)

lemma plain_match: "like_matches (=) (map Lit s @ t) s \<longleftrightarrow> like_matches (=) t []"
  by (induction s) auto

lemma starts_with_refl: "starts_with (=) s s"
  by (induction s) auto

lemma plain_compare:
  assumes "plain s"
  shows "compare_like_rec strstr mdb_strncmp (s @ 0 # r) 0
     (\<lparr>like_str = s, nLen = length s, sType = LIKE_STRING\<rparr> # ls) = compare_like_rec strstr mdb_strncmp (s @ 0 # r) (length s) ls"
  using str_at_ok [OF plain_zero [OF assms(1)], of 0 r] char_case.cmp_eq [of s s "length s"] plain_zero [OF assms(1)] starts_with_refl
  by simp

lemma plain_prepare:
  assumes "plain s" and "s \<noteq> []" and "length s < 2 ^ 14"
    and "new_like False (chr_underbar # q) = Some (chr_underbar # new, 1)" and "split_like (chr_underbar # new) = Some ls"
    and "like_tokens (chr_underbar # q) = Some t" and "0 \<notin> set q" and "length q < 2"
    and "filter (\<lambda>x. x \<noteq> Any) t = [One]"
  shows "\<exists>l. dbi_prepare_like (Some (s @ chr_underbar # q)) False (\<lambda>_. True) 1 =
    Some (int (length s) + 1, Some (l, Some \<lparr>pnewlike = s @ chr_underbar # new, nLeastLen = int (length s) + 1,
      pList = \<lparr>like_str = s, nLen = length s, sType = LIKE_STRING\<rparr> # ls\<rparr>))"
proof -
  let ?p = "s @ chr_underbar # q"
  have p: "0 \<notin> set ?p" "?p \<noteq> []" "length ?p < 2 ^ 15" using plain_zero [OF assms(1)] assms(3,7,8) by auto
  have t: "like_tokens ?p = Some (map Lit s @ t)" by (rule plain_tokens [OF assms(1,6)])
  have n: "length (filter (\<lambda>x. x \<noteq> Any) (map Lit s @ t)) = length s + 1" using assms(9) by (simp add: filter_map comp_def)
  obtain l k info where r: "dbi_prepare_like (Some ?p) False (\<lambda>_. True) 1 = Some (int (length s + 1), Some (l, Some info))"
    and i: "nLeastLen info = int (length s + 1)"
    using prepare_pattern [OF p t, of False "\<lambda>_. True" 1] unfolding n by (metis (full_types))
  have new: "new_like False ?p = Some (s @ chr_underbar # new, length s + 1)" by (rule plain_new [OF assms(1,4)])
  have split: "split_like (s @ chr_underbar # new) = Some (\<lparr>like_str = s, nLen = length s, sType = LIKE_STRING\<rparr> # ls)"
    by (rule plain_split [OF assms(1,2) _ assms(5)]) (simp add: is_wild_def)
  have "info = \<lparr>pnewlike = s @ chr_underbar # new, nLeastLen = to_int16 (length s + 1),
      pList = \<lparr>like_str = s, nLen = length s, sType = LIKE_STRING\<rparr> # ls\<rparr>"
    using r new split assms(2) by (cases s) (auto simp: dbi_prepare_like_def preprocessing_likestr_def split: option.splits prod.splits)
  then show ?thesis using r i by auto
qed

text \<open>C30: A value matches itself followed by an underscore and a percent sign; and, when the byte behind its terminating 0
  is 0 (as in a field of fixed length), itself followed by an underscore, although neither pattern describes it.\<close>

theorem lone_underscore_matches_nothing:
  assumes "plain s" and "s \<noteq> []" and "length s < 2 ^ 14"
  shows "\<exists>lv lw.
    dbi_prepare_like (Some (s @ [chr_underbar, chr_percent])) False (\<lambda>_. True) 1 = Some (int (length s) + 1, Some lv) \<and>
    dbi_prepare_like (Some (s @ [chr_underbar])) False (\<lambda>_. True) 1 = Some (int (length s) + 1, Some lw) \<and>
    dbi_like_compare user1 (Whole (s @ [0])) lv False MDB_COL_CHAR_CASE = Some 0 \<and>
    dbi_like_compare user1 (Whole (s @ [0, 0])) lw False MDB_COL_CHAR_CASE = Some 0 \<and>
    like_tokens (s @ [chr_underbar, chr_percent]) = Some (map Lit s @ [One, Any]) \<and> \<not> like_matches (=) (map Lit s @ [One, Any]) s \<and>
    like_tokens (s @ [chr_underbar]) = Some (map Lit s @ [One]) \<and> \<not> like_matches (=) (map Lit s @ [One]) s"
proof -
  let ?u = "\<lparr>like_str = [], nLen = 1, sType = LIKE_UNDERBAR\<rparr>" and ?p = "\<lparr>like_str = [], nLen = 0, sType = LIKE_PERCENT\<rparr>"
  let ?s = "\<lparr>like_str = s, nLen = length s, sType = LIKE_STRING\<rparr>"
  note eval = is_wild_def wildcards.simps
  obtain l where l: "dbi_prepare_like (Some (s @ [chr_underbar, chr_percent])) False (\<lambda>_. True) 1 =
      Some (int (length s) + 1, Some (l, Some \<lparr>pnewlike = s @ [chr_underbar, chr_percent], nLeastLen = int (length s) + 1, pList = [?s, ?u, ?p]\<rparr>))"
    using plain_prepare [OF assms, of "[chr_percent]" "[chr_percent]" "[?u, ?p]" "[One, Any]"] by (auto simp: eval)
  obtain m where m: "dbi_prepare_like (Some (s @ [chr_underbar])) False (\<lambda>_. True) 1 =
      Some (int (length s) + 1, Some (m, Some \<lparr>pnewlike = s @ [chr_underbar], nLeastLen = int (length s) + 1, pList = [?s, ?u]\<rparr>))"
    using plain_prepare [OF assms, of "[]" "[]" "[?u]" "[One]"] by (auto simp: eval)
  have "compare_like_rec strstr mdb_strncmp (s @ [0]) 0 [?s, ?u, ?p] = Some 0"
    "compare_like_rec strstr mdb_strncmp (s @ [0, 0]) 0 [?s, ?u] = Some 0"
    using plain_compare [OF assms(1), of "[]" "[?u, ?p]"] plain_compare [OF assms(1), of "[0]" "[?u]"]
    by (simp_all add: end_string_def nth_append)
  moreover have "(\<lambda>s p. like_strstr s p None) = strstr" "(\<lambda>n s p. like_strncmp s p n None) = mdb_strncmp"
    by (simp_all add: fun_eq_iff like_strstr_def like_strncmp_def compare_upto_def)
  ultimately show ?thesis
    using l m plain_tokens [OF assms(1), of "[chr_underbar, chr_percent]"] plain_tokens [OF assms(1), of "[chr_underbar]"]
    by (auto simp: plain_match dbi_like_compare_def compare_like_def MC_STRSTR_def MC_STRNCMP_def simp del: compare_like_rec.simps)
qed

lemma lone_underscore_witness:
  "\<exists>lv lw.
    dbi_prepare_like (Some ([97] @ [chr_underbar, chr_percent])) False (\<lambda>_. True) 1 = Some (int (length [97::nat]) + 1, Some lv) \<and>
    dbi_prepare_like (Some ([97] @ [chr_underbar])) False (\<lambda>_. True) 1 = Some (int (length [97::nat]) + 1, Some lw) \<and>
    dbi_like_compare (\<lambda>_ _. None) (Whole ([97] @ [0])) lv False MDB_COL_CHAR_CASE = Some 0 \<and>
    dbi_like_compare (\<lambda>_ _. None) (Whole ([97] @ [0, 0])) lw False MDB_COL_CHAR_CASE = Some 0 \<and>
    like_tokens ([97] @ [chr_underbar, chr_percent]) = Some (map Lit [97] @ [One, Any]) \<and>
    \<not> like_matches (=) (map Lit [97] @ [One, Any]) [97] \<and>
    like_tokens ([97] @ [chr_underbar]) = Some (map Lit [97] @ [One]) \<and> \<not> like_matches (=) (map Lit [97] @ [One]) [97]"
  by (rule lone_underscore_matches_nothing) (simp_all add: is_wild_def)

lemma like_matches_any:
  "like_matches same (Any # t) [] \<longleftrightarrow> like_matches same t []"
  "like_matches same (Any # t) (c # s) \<longleftrightarrow> like_matches same t (c # s) \<or> like_matches same (Any # t) s"
  using drop_tl_iff [of "c # s" "\<lambda>_. like_matches same t"] by simp_all

definition two_piece_like :: "chars \<Rightarrow> chars \<Rightarrow> chars \<Rightarrow> int option" where
  \<comment> \<open>the pattern against the fixed part \<open>s\<close> and the extended part \<open>t\<close>\<close>
  "two_piece_like p s t =
     (case dbi_prepare_like (Some p) False (\<lambda>_. True) 1 of
        Some (_, Some lv) \<Rightarrow>
          dbi_like_compare (\<lambda>_ _. None) (Variable (s @ [0]) (length s) (Some (t @ [0], length t + 1))) lv False MDB_COL_CHAR_CASE
      | _ \<Rightarrow> None)"


end
