(* ===== verification/Spec2Isabelle.thy ===== *)
theory Spec2Isabelle
  imports LockRelease SqlNormClaims Utf8Claims KeyClaims TTreeUse LikeClaims
begin

text \<open>
  Verification library of openML, the embedded database engine of openLamp
  (\<^verbatim>\<open>src/openML/src\<close>).

  \<^bold>\<open>The program.\<close>  openML is a relational main-memory database for mobile devices: an SQL layer
  (\<^verbatim>\<open>server/sql\<close>: parser, normaliser, planner, executor, evaluation of expressions), a database
  interface (\<^verbatim>\<open>server/API\<close>), a lock manager (\<^verbatim>\<open>server/lock\<close>), a storage of containers and
  T-trees (\<^verbatim>\<open>server/storage\<close>), a log with checkpoints (\<^verbatim>\<open>server/recovery\<close>) and the
  transaction table and character conversions (\<^verbatim>\<open>server/common\<close>).  All clients share the
  memory of the database; one global mutex serialises them, and the condition variable of a
  transaction is where it gives this mutex up while it waits for a table lock.  What is modelled is
  the part with logic of its own that depends least on the memory layout:

  \<^item> the transaction table and the lock manager;
  \<^item> conditions: their evaluation and their normalisation;
  \<^item> the conversion between UCS-2 and UTF-8;
  \<^item> string matching with LIKE;
  \<^item> indexes: the collations and the order of keys, T-trees and the slots of their nodes.

  \<^bold>\<open>Transactions and locks.\<close>
  \<open>LockModes\<close>: the matrices \<^verbatim>\<open>LK_COMP\<close> and \<^verbatim>\<open>LK_CONV\<close> and the laws of the five modes (locale
  \<open>lock_modes\<close>).
  \<open>TransTable\<close>: \<^verbatim>\<open>common/mdb_TransMgr.c\<close>; the array \<^verbatim>\<open>trans_\<close> is the field \<open>Trans\<close>
  of \<open>transmgr\<close>; allocation of slots and ids, search, deletion, the least first LSN the
  checkpoint asks for.
  \<open>LockTable\<close>: the data of \<^verbatim>\<open>lock/mdb_LockMgr.c\<close>: items, holders, requestors, the locks of a
  transaction, the free lists; \<open>lockmgr\<close> extends \<open>transmgr\<close>, because the lock manager writes the
  fields \<^verbatim>\<open>fWait\<close> and \<^verbatim>\<open>visited_\<close> of transactions.
  \<open>LockMgr\<close>: conflict check, deadlock check, lock, unlock, wake-up, time-out.
  \<^verbatim>\<open>LockMgr_Lock\<close> is cut at the place where it sleeps: \<open>LockMgr_Lock\<close> runs to the first wait and
  \<open>LockMgr_Lock_resume\<close> is one turn of its loop after a wake-up.
  \<open>LockInv\<close>, \<open>LockSafety\<close>: the invariant of a lock item, kept by every operation for every outcome
  of every allocation, and the step relation \<open>lock_step\<close> whose reachable configurations have no
  incompatible holders.  The hash table of items is used through the contract \<open>item_table\<close> only.
  \<open>Deadlock\<close>: the search follows exactly the paths of the waits-for relation.
  \<open>LockGrant\<close>, \<open>LockRelease\<close>: what a granted, a refused and a timed-out request, a wake-up and a
  release achieve.

  \<^bold>\<open>Conditions.\<close>
  \<open>SqlExpr\<close>: the postfix elements and the stack machine of \<^verbatim>\<open>sql/sql_calc_expression.c\<close> for rows;
  comparison of values, LIKE, arithmetic, SQL functions and subqueries are the record \<open>executor\<close>, an
  argument of the machine.
  \<open>SqlNorm\<close>: \<^verbatim>\<open>sql/sql_norm.c\<close>, from postfix to tree, NOT elimination, transformation to
  conjunctive normal form and back to one postfix list per clause.
  \<open>SqlCnf\<close>: termination, shape, meaning and size of the transformation by one well-founded induction.
  \<open>SqlNormCorrect\<close>, \<open>SqlNormClaims\<close>: the clauses are all true exactly when the condition is, under the
  conditions that turned out to be needed, and what happens without them.

  \<^bold>\<open>Characters.\<close>
  \<open>Utf8\<close>: \<^verbatim>\<open>common/mdb_ucs2vsutf.c\<close>.  \<open>Utf8Codec\<close>, \<open>Utf8Claims\<close>: the reference encoding, the loops
  against it, the round trip, the bounds of the buffers.  Both allocating functions are instances of
  the contract \<open>two_pass\<close>.

  \<^bold>\<open>String matching.\<close>
  \<open>Like\<close>, \<open>LikeCompare\<close>: \<^verbatim>\<open>API/mdb_like.c\<close>, the preparation of a pattern and the comparison of a value with
  it.  The functions for bytes and for 16-bit units have the same text up to the functions they call, and share their
  definitions; the search function that a user can install is a parameter.
  \<open>LikeSpec\<close>: the reference, a pattern as a list of tokens and what it matches.
  \<open>LikeMatch\<close>: the comparison against the reference, once under the contract \<open>like_functions\<close> of the functions of a
  type, which each of the types fulfils.
  \<open>LikeDivided\<close>, \<open>LikeClaims\<close>: values in two parts, the properties, and where the code leaves the reference.

  \<^bold>\<open>Keys.\<close>
  \<open>Comparison\<close>: the contract \<open>comparison\<close> of a three-way comparison that is an order, and the ways the
  code combines such functions.
  \<open>Collation\<close>: the string comparisons of \<^verbatim>\<open>common/mdb_compat.c\<close>, \<^verbatim>\<open>common/sc_default_main.c\<close> and the
  tables of \<^verbatim>\<open>common/mdb_charset.c\<close>; a string is the list of its characters, everything behind its end is 0.
  \<open>CollationOrder\<close>: which order each of them is.
  \<open>KeyOrder\<close>: \<^verbatim>\<open>FieldDesc_Compare\<close>, \<^verbatim>\<open>KeyDesc_Compare\<close> and the strings of a variable length; a record
  maps the position of a field to its value, a value is what the bytes mean for the type of the field.
  \<open>KeyCompare\<close>: the comparison of keys is an order (interpretation \<open>key_order\<close>).
  \<open>KeyValue\<close>, \<open>KeyAgree\<close>: the search keys of \<^verbatim>\<open>storage/mdb_KeyValue.c\<close>; they compare as records do.
  \<open>KeyClaims\<close>: the properties, and where the code leaves the order.

  \<^bold>\<open>Indexes.\<close>
  \<open>IndexSlots\<close>: \<^verbatim>\<open>storage/mdb_Index_Collect.c\<close>, the slots for nodes, and their contract \<open>slot_store\<close>.
  \<open>TTreeNode\<close>, \<open>TTreeInsert\<close>: \<^verbatim>\<open>storage/mdb_TTreeNode.c\<close> and \<^verbatim>\<open>storage/mdb_TTree_Insert.c\<close> on a
  heap of nodes; the keys are parameters (\<open>index_env\<close>), \<open>key_env\<close> of \<open>TTreeClaims\<close> fills them in with
  the functions above.
  \<open>TTreeShape\<close>, \<open>TTreeItems\<close>, \<open>TTreeRotate\<close>, \<open>TTreeBalance\<close>, \<open>TTreeClimb\<close>, \<open>TTreeGrow\<close>,
  \<open>TTreePlace\<close>, \<open>TTreeAdd\<close>: the abstraction of the heap to a binary tree with a path to the root, and what
  each step does to it: array operations, rotations, the climb that restores the balance, the creation of a child,
  the search for the place.
  \<open>TTreeIndex\<close>, \<open>TTreeClaims\<close>: an index is a list of record ids in key order, and an insertion is an
  insertion into this list, for every outcome of the allocation of slots.
  \<open>TTreeSearch\<close>: the searches, positions and counts of \<^verbatim>\<open>storage/mdb_TTree.c\<close> and the search for a record id
  of \<^verbatim>\<open>storage/mdb_TTree_Remove.c\<close>.  \<open>TTreeWalk\<close>: the walk from node to node is the list of entries from left to
  right.  \<open>TTreeFind\<close>, \<open>TTreeFindEq\<close>, \<open>TTreeLookup\<close>: each search finds its place in this list.
  \<open>TTreeRemove\<close>: removal, merges and the climb after it.  \<open>TTreeShrink\<close>, \<open>TTreeDrop\<close>: what they do to the tree.
  \<open>TTreeUse\<close>: range searches, lookups, removals and runs of operations on the index of a table.

  \<^bold>\<open>Errors, fuel, bounds.\<close>  A C result code is an \<open>int\<close>; results that are pointers are options; a
  NULL or wild pointer that the code would follow is an error value of its own
  (\<open>BAD_POINTER\<close>, \<open>Read_overrun\<close>, \<open>Write_overrun\<close>).  The deadlock search has the number of lock items
  plus one as fuel, because it never enters an item that is on its stack (\<open>FindCycle2_total\<close> proves
  that this is enough); the loop of \<^verbatim>\<open>LockMgr_Unlock\<close> has the number of table locks of the
  transaction.  \<open>norm_transform_CNF\<close> is a \<open>partial_function\<close> and is proved to return.
  Machine integers wrap where the program depends on it: ids of transactions and the size estimate
  of a condition; characters are words.

  \<^bold>\<open>Not modelled.\<close>  The parser (tables generated by bison and flex), the planner and the executor, the
  containers, cursors and pages of the storage, the log, the schema functions, clients and tools, and openMSYNC.  Mutexes and condition
  variables appear only as the places where threads interleave.
\<close>

end
